(* ===== verification/Prelude.thy ===== *)
theory Prelude
  imports Main "HOL-Library.Word" "HOL-Library.Multiset"
begin

section \<open>Shared types, automation and list lemmas\<close>

text \<open>
  The vocabulary every component theory uses: names for Go's fixed-width integers, Go's
  slice expression \<^verbatim>\<open>s[lo:hi]\<close> with its run-time panic as \<^term>\<open>None\<close>, the lemma
  collections of the development, and facts about lists that several components need.

  Strings are byte strings (\<^typ>\<open>string\<close> is a list of 8-bit characters, as Go's
  \<^verbatim>\<open>string\<close> is), unsigned integers whose wrap-around matters are words of their width,
  and the signed sizes and offsets (\<^verbatim>\<open>int\<close>, \<^verbatim>\<open>int64\<close>) that the code keeps far from
  their limits are unbounded integers.
\<close>

type_synonym u16 = "16 word"
type_synonym u64 = "64 word"
type_synonym byte = "8 word"
type_synonym bytes = "8 word list"
type_synonym path = string

named_theorems go_simps \<open>equations that evaluate the model's operations\<close>
named_theorems inv_rules \<open>the operations keep their component's invariant\<close>

subsection \<open>Slices\<close>

text \<open>
  Go's slice expression on a string or slice: it panics unless
  \<^verbatim>\<open>0 <= lo <= hi <= len(s)\<close> (for strings, and for slices whose capacity is their length).
\<close>

definition go_slice :: "'a list \<Rightarrow> nat \<Rightarrow> nat \<Rightarrow> 'a list option" where
  "go_slice s lo hi = (if lo \<le> hi \<and> hi \<le> length s then Some (take (hi - lo) (drop lo s)) else None)"

lemma go_slice_append_mid [simp]:
  "length a = lo \<Longrightarrow> hi = lo + length b \<Longrightarrow> go_slice (a @ b @ c) lo hi = Some b"
  by (simp add: go_slice_def)

lemma go_slice_Some_length: "go_slice s lo hi = Some t \<Longrightarrow> length t = hi - lo"
  by (auto simp: go_slice_def split: if_splits)

lemma go_slice_eq_None: "go_slice s lo hi = None \<longleftrightarrow> \<not> (lo \<le> hi \<and> hi \<le> length s)"
  by (simp add: go_slice_def)

lemma go_slice_in_range: "lo \<le> hi \<Longrightarrow> hi \<le> length s \<Longrightarrow> go_slice s lo hi = Some (take (hi - lo) (drop lo s))"
  by (simp add: go_slice_def)

subsection \<open>Outcomes of calls to the environment\<close>

text \<open>
  Calls whose result the program does not determine (a send on a stream, an \<^verbatim>\<open>fsync\<close>) take their
  outcome from a list of booleans; an exhausted list means that the call succeeds.
\<close>

definition pop_ok :: "bool list \<Rightarrow> bool \<times> bool list" where
  "pop_ok outs = (case outs of [] \<Rightarrow> (True, []) | x # xs \<Rightarrow> (x, xs))"

lemma pop_ok_Nil [simp]: "pop_ok [] = (True, [])"
  by (simp add: pop_ok_def)

lemma pop_ok_Cons [simp]: "pop_ok (x # xs) = (x, xs)"
  by (simp add: pop_ok_def)

subsection \<open>Fallible calls with a log\<close>

text \<open>
  A sequence of fallible calls as the code writes it: each step logs what it did to the outside
  (connections opened, images closed) and fails with an error or returns a value; the first error
  ends the sequence.
\<close>

type_synonym ('l, 'e, 'a) logged = "'l list \<times> ('e + 'a)"

definition ret :: "'a \<Rightarrow> ('l, 'e, 'a) logged" where
  "ret x = ([], Inr x)"

definition fail :: "'e \<Rightarrow> ('l, 'e, 'a) logged" where
  "fail e = ([], Inl e)"

definition act :: "'l \<Rightarrow> ('l, 'e, unit) logged" where
  "act l = ([l], Inr ())"

definition andThen :: "('l, 'e, 'a) logged \<Rightarrow> ('a \<Rightarrow> ('l, 'e, 'b) logged) \<Rightarrow> ('l, 'e, 'b) logged" where
  "andThen m k = (case m of (l, Inl e) \<Rightarrow> (l, Inl e) | (l, Inr x) \<Rightarrow> (case k x of (l', r) \<Rightarrow> (l @ l', r)))"

text \<open>Run the cleanup when the call fails, and pass the error on.\<close>

definition onError :: "('l, 'e, 'a) logged \<Rightarrow> 'l list \<Rightarrow> ('l, 'e, 'a) logged" where
  "onError m c = (case m of (l, Inl e) \<Rightarrow> (l @ c, Inl e) | (l, Inr x) \<Rightarrow> (l, Inr x))"

text \<open>Run the cleanup in any case, as a deferred call does.\<close>

definition deferred :: "('l, 'e, 'a) logged \<Rightarrow> 'l list \<Rightarrow> ('l, 'e, 'a) logged" where
  "deferred m c = (fst m @ c, snd m)"

definition check :: "bool \<Rightarrow> 'e \<Rightarrow> ('l, 'e, unit) logged" where
  "check b e = (if b then ret () else fail e)"

definition need :: "'a option \<Rightarrow> 'e \<Rightarrow> ('l, 'e, 'a) logged" where
  "need x e = (case x of None \<Rightarrow> fail e | Some a \<Rightarrow> ret a)"

lemmas logged_defs = ret_def fail_def act_def andThen_def onError_def deferred_def check_def need_def

lemma andThen_ret: "andThen (ret x) k = k x"
  by (simp add: andThen_def ret_def)

lemma andThen_assoc: "andThen (andThen m f) g = andThen m (\<lambda>x. andThen (f x) g)"
  by (auto simp: andThen_def split: prod.splits sum.splits)

subsection \<open>Resources in a log\<close>

text \<open>
  What a log leaves acquired, given how each entry changes the count of each resource; and the claim that
  a sequence of calls leaves \<^verbatim>\<open>e\<close> when it fails and \<^verbatim>\<open>n x\<close> when it returns \<^verbatim>\<open>x\<close>.  The rules follow the
  patterns of the code: a step that needs no cleanup, a step under a cleanup for what is held.
\<close>

definition log_net :: "('l \<Rightarrow> 'r \<Rightarrow> int) \<Rightarrow> 'l list \<Rightarrow> 'r \<Rightarrow> int" where
  "log_net delta l r = sum_list (map (\<lambda>x. delta x r) l)"

definition log_nets :: "('l \<Rightarrow> 'r \<Rightarrow> int) \<Rightarrow> ('l, 'e, 'a) logged \<Rightarrow> ('r \<Rightarrow> int) \<Rightarrow> ('a \<Rightarrow> 'r \<Rightarrow> int) \<Rightarrow> bool" where
  "log_nets delta m e n \<longleftrightarrow> (case m of (l, Inl _) \<Rightarrow> log_net delta l = e | (l, Inr x) \<Rightarrow> log_net delta l = n x)"

lemma net_simps [simp]:
  "log_net delta [] r = 0" "log_net delta (x # l) r = delta x r + log_net delta l r"
  "log_net delta (l @ l') r = log_net delta l r + log_net delta l' r"
  by (simp_all add: log_net_def)

lemma nets_ret: "n x = (\<lambda>_. 0) \<Longrightarrow> log_nets delta (ret x) e n"
  by (auto simp: log_nets_def logged_defs)

lemma nets_fail: "log_nets delta (fail x) (\<lambda>_. 0) n"
  by (auto simp: log_nets_def logged_defs)

lemma nets_check: "log_nets delta (check b x) (\<lambda>_. 0) (\<lambda>_ _. 0)"
  by (auto simp: log_nets_def logged_defs)

lemma nets_need: "log_nets delta (need x y) (\<lambda>_. 0) (\<lambda>_ _. 0)"
  by (auto simp: log_nets_def logged_defs split: option.splits)

lemma nets_act: "log_nets delta (act x) e (\<lambda>_. delta x)"
  by (auto simp: log_nets_def logged_defs)

lemma nets_andThen:
  assumes "log_nets delta m e n" "\<And>x. snd m = Inr x \<Longrightarrow> log_nets delta (k x) (\<lambda>r. e r - n x r) (\<lambda>y r. n' y r - n x r)"
  shows "log_nets delta (andThen m k) e n'"
proof -
  obtain l s where m: "m = (l, s)" by (cases m)
  show ?thesis
  proof (cases s)
    case (Inl a)
    then show ?thesis using assms(1) m by (simp add: log_nets_def andThen_def)
  next
    case (Inr x)
    obtain l' s' where k: "k x = (l', s')" by (cases "k x")
    have "log_net delta l = n x" using assms(1) m Inr by (simp add: log_nets_def)
    moreover have "log_net delta l' = (case s' of Inl _ \<Rightarrow> (\<lambda>r. e r - n x r) | Inr y \<Rightarrow> (\<lambda>r. n' y r - n x r))"
      using assms(2) [of x] k m Inr by (auto simp: log_nets_def split: sum.splits)
    ultimately show ?thesis using m Inr k by (auto simp: log_nets_def andThen_def fun_eq_iff split: sum.splits)
  qed
qed

lemma nets_onError: "log_nets delta m (\<lambda>r. e r - log_net delta c r) n \<Longrightarrow> log_nets delta (onError m c) e n"
  by (auto simp: log_nets_def onError_def fun_eq_iff split: prod.splits sum.splits)

lemma nets_deferred:
  "log_nets delta m (\<lambda>r. e r - log_net delta c r) (\<lambda>x r. n x r - log_net delta c r) \<Longrightarrow> log_nets delta (deferred m c) e n"
  by (auto simp: log_nets_def deferred_def fun_eq_iff split: prod.splits sum.splits)

lemma nets_step:
  assumes "log_nets delta m (\<lambda>_. 0) (\<lambda>_ _. 0)" "\<And>x. log_nets delta (k x) (\<lambda>_. 0) n"
  shows "log_nets delta (andThen m k) (\<lambda>_. 0) n"
  using nets_andThen [of delta m "\<lambda>_. 0" "\<lambda>_ _. 0" k n] assms by simp

lemma nets_guarded:
  assumes "log_nets delta m (\<lambda>_. 0) (\<lambda>_ _. 0)" "\<And>x. log_nets delta (k x) (log_net delta c) n"
  shows "log_nets delta (andThen (onError m c) k) (log_net delta c) n"
proof -
  have "log_nets delta (onError m c) (log_net delta c) (\<lambda>_ _. 0)" using assms(1) by (intro nets_onError) simp
  then show ?thesis using nets_andThen [of delta "onError m c" "log_net delta c" "\<lambda>_ _. 0" k n] assms(2) by simp
qed

lemma nets_zero: "log_nets delta m (\<lambda>_. 0) (\<lambda>_ _. 0) \<Longrightarrow> log_net delta (fst m) = (\<lambda>_. 0)"
  by (auto simp: log_nets_def split: prod.splits sum.splits)


text \<open>A step that acquires something, followed by steps that give it back when they fail.\<close>

lemma nets_acquire:
  assumes "log_nets delta m (\<lambda>_. 0) (\<lambda>_. log_net delta a)" "\<And>r. log_net delta a r + log_net delta c r = 0"
    and "\<And>x. snd m = Inr x \<Longrightarrow> log_nets delta (k x) (log_net delta c) (\<lambda>y r. n y r - log_net delta a r)"
  shows "log_nets delta (andThen m k) (\<lambda>_. 0) n"
proof (rule nets_andThen [OF assms(1)])
  have "0 - log_net delta a r = log_net delta c r" for r using assms(2) [of r] by linarith
  then have "(\<lambda>r. 0 - log_net delta a r) = log_net delta c" by (simp add: fun_eq_iff)
  then show "log_nets delta (k x) (\<lambda>r. 0 - log_net delta a r) (\<lambda>y r. n y r - log_net delta a r)" if "snd m = Inr x" for x
    using assms(3) that by simp
qed


text \<open>An error passed on under another name, as the code wraps errors.\<close>

definition wrap_error :: "('e \<Rightarrow> 'f) \<Rightarrow> ('l, 'e, 'a) logged \<Rightarrow> ('l, 'f, 'a) logged" where
  "wrap_error f m = (fst m, map_sum f id (snd m))"

lemma nets_wrap_error: "log_nets delta m e n \<Longrightarrow> log_nets delta (wrap_error f m) e n"
  by (auto simp: log_nets_def wrap_error_def split: prod.splits sum.splits)

definition from_sum :: "('e \<Rightarrow> 'f) \<Rightarrow> 'e + 'a \<Rightarrow> ('l, 'f, 'a) logged" where
  "from_sum f r = (case r of Inl e \<Rightarrow> fail (f e) | Inr x \<Rightarrow> ret x)"

lemma nets_from_sum: "log_nets delta (from_sum f r) (\<lambda>_. 0) (\<lambda>_ _. 0)"
  by (auto simp: from_sum_def nets_fail nets_ret split: sum.splits)

lemma andThen_Inr: "snd (andThen m k) = Inr y \<Longrightarrow> \<exists>x. snd m = Inr x \<and> snd (k x) = Inr y"
  by (auto simp: andThen_def split: prod.splits sum.splits)

lemma logged_Inr [simp]:
  "snd (ret x) = Inr x" "snd (fail e) \<noteq> Inr y" "snd (check b e) = Inr () \<longleftrightarrow> b"
  "snd (deferred m c) = snd m" "snd (wrap_error f m) = Inr z \<longleftrightarrow> snd m = Inr z"
  by (auto simp: logged_defs wrap_error_def map_sum.simps split: prod.splits) (metis map_sum.simps sum.exhaust sum.inject(2) id_apply sum.distinct(1))+

end
