(* ===== verification/Volid.thy ===== *)
theory Volid
  imports Prelude
begin

unbundle bit_operations_syntax

section \<open>CSI identifiers (internal/ceph/volid)\<close>

text \<open>
  The encoding of a CSI volume or snapshot handle: a version, the length of the cluster
  id, the cluster id, the pool or filesystem id and the object's uuid, hexadecimal where
  they are numbers and joined by dashes.  The decoder counts in \<^verbatim>\<open>uint16\<close>, so its
  arithmetic is kept at sixteen bits here, and its string slices are partial: a slice out
  of range is a panic of the program.
\<close>

subsection \<open>Hexadecimal and big-endian conversions\<close>

text \<open>
  \<^verbatim>\<open>encoding/hex\<close>: the encoder writes two lower-case digits per byte; the decoder takes
  either case and fails on any other character or on an odd length.
\<close>

datatype volid_error =
    EncodingOverflow
  | InvalidUUID
  | StringUnderflow
  | SizeMismatch
  | InvalidHex

definition hex_char :: "nat \<Rightarrow> char" where
  "hex_char n = (if n < 10 then char_of (48 + n) else char_of (87 + n))"

definition from_hex_char :: "char \<Rightarrow> nat option" where
  "from_hex_char c =
     (let n = (of_char c :: nat) in
      if 48 \<le> n \<and> n \<le> 57 then Some (n - 48)
      else if 97 \<le> n \<and> n \<le> 102 then Some (n - 87)
      else if 65 \<le> n \<and> n \<le> 70 then Some (n - 55)
      else None)"

fun hex_encode :: "bytes \<Rightarrow> string" where
  "hex_encode [] = []"
| "hex_encode (b # bs) = hex_char (unat b div 16) # hex_char (unat b mod 16) # hex_encode bs"

fun hex_decode :: "string \<Rightarrow> volid_error + bytes" where
  "hex_decode [] = Inr []"
| "hex_decode [c] = Inl InvalidHex"
| "hex_decode (c # d # cs) =
     (case (from_hex_char c, from_hex_char d) of
        (Some h, Some l) \<Rightarrow>
          (case hex_decode cs of Inl e \<Rightarrow> Inl e | Inr bs \<Rightarrow> Inr (of_nat (16 * h + l) # bs))
      | _ \<Rightarrow> Inl InvalidHex)"

text \<open>\<^verbatim>\<open>binary.BigEndian\<close>: the put functions and their inverses on buffers of that size.\<close>

definition put_uint16 :: "u16 \<Rightarrow> bytes" where
  "put_uint16 v = [ucast (drop_bit 8 v), ucast v]"

definition get_uint16 :: "bytes \<Rightarrow> u16" where
  "get_uint16 b = (ucast (b ! 1) OR push_bit 8 (ucast (b ! 0)))"

definition put_uint64 :: "u64 \<Rightarrow> bytes" where
  "put_uint64 v =
     [ucast (drop_bit 56 v), ucast (drop_bit 48 v), ucast (drop_bit 40 v), ucast (drop_bit 32 v),
      ucast (drop_bit 24 v), ucast (drop_bit 16 v), ucast (drop_bit 8 v), ucast v]"

definition get_uint64 :: "bytes \<Rightarrow> u64" where
  "get_uint64 b =
     (ucast (b ! 7) OR push_bit 8 (ucast (b ! 6)) OR push_bit 16 (ucast (b ! 5)) OR
      push_bit 24 (ucast (b ! 4)) OR push_bit 32 (ucast (b ! 3)) OR push_bit 40 (ucast (b ! 2)) OR
      push_bit 48 (ucast (b ! 1)) OR push_bit 56 (ucast (b ! 0)))"

lemma from_hex_char_hex_char [simp]: "n < 16 \<Longrightarrow> from_hex_char (hex_char n) = Some n"
  by (auto simp: from_hex_char_def hex_char_def Let_def)

lemma length_hex_encode [simp]: "length (hex_encode bs) = 2 * length bs"
  by (induction bs) auto

lemma hex_decode_encode [simp]: "hex_decode (hex_encode bs) = Inr bs"
proof (induction bs)
  case Nil
  show ?case by simp
next
  case (Cons b bs)
  have "unat b div 16 < 16"
    using unsigned_less [where 'a = nat, of b] by (simp add: less_mult_imp_div_less)
  with Cons show ?case by (simp add: mult.commute)
qed

lemma length_hex_decode: "hex_decode s = Inr bs \<Longrightarrow> length s = 2 * length bs"
  by (induction s arbitrary: bs rule: hex_decode.induct) (auto split: option.splits sum.splits)

lemma length_put_uint16 [simp]: "length (put_uint16 v) = 2"
  by (simp add: put_uint16_def)

lemma length_put_uint64 [simp]: "length (put_uint64 v) = 8"
  by (simp add: put_uint64_def)

lemma bit_byte_of:
  "bit (push_bit k (ucast (ucast (drop_bit k v) :: byte)) :: u64) n \<longleftrightarrow>
     n < 64 \<and> k \<le> n \<and> n < k + 8 \<and> bit v n"
  by (auto simp: bit_simps)

lemma get_put_uint16 [simp]: "get_uint16 (put_uint16 v) = v"
  by (rule bit_word_eqI) (auto simp: get_uint16_def put_uint16_def bit_simps)

lemma get_put_uint64 [simp]: "get_uint64 (put_uint64 v) = v"
proof (rule bit_word_eqI)
  fix n
  assume "n < LENGTH(64)"
  then have n: "n < 64" by simp
  have "bit (get_uint64 (put_uint64 v)) n \<longleftrightarrow>
      n < 64 \<and> bit v n \<and>
      (n < 8 \<or> 8 \<le> n \<and> n < 16 \<or> 16 \<le> n \<and> n < 24 \<or> 24 \<le> n \<and> n < 32 \<or>
       32 \<le> n \<and> n < 40 \<or> 40 \<le> n \<and> n < 48 \<or> 48 \<le> n \<and> n < 56 \<or> 56 \<le> n \<and> n < 64)"
    unfolding get_uint64_def put_uint64_def bit_or_iff
    using bit_byte_of [of 0 v n] by (simp add: bit_byte_of) blast
  moreover have "n < 8 \<or> 8 \<le> n \<and> n < 16 \<or> 16 \<le> n \<and> n < 24 \<or> 24 \<le> n \<and> n < 32 \<or>
       32 \<le> n \<and> n < 40 \<or> 40 \<le> n \<and> n < 48 \<or> 48 \<le> n \<and> n < 56 \<or> 56 \<le> n \<and> n < 64"
    using n by (meson not_less)
  ultimately show "bit (get_uint64 (put_uint64 v)) n \<longleftrightarrow> bit v n"
    using n by blast
qed

lemma get_uint16_ffff: "get_uint16 [h, l] = 0xffff \<longleftrightarrow> h = 0xff \<and> l = 0xff"
proof
  assume "get_uint16 [h, l] = 0xffff"
  then have eq: "get_uint16 [h, l] = mask 16"
    by (simp add: mask_eq_exp_minus_1)
  have bits: "bit (get_uint16 [h, l]) n" if "n < 16" for n
    using that unfolding eq by (simp add: bit_simps)
  have "bit l n \<and> bit h n" if n: "n < 8" for n
    using bits [of n] bits [of "n + 8"] n by (auto simp: get_uint16_def bit_simps dest: bit_imp_le_length)
  then have "h = mask 8 \<and> l = mask 8"
    by (auto intro!: bit_word_eqI simp: bit_simps)
  then show "h = 0xff \<and> l = 0xff"
    by (simp add: mask_eq_exp_minus_1)
qed (simp add: get_uint16_def)

subsection \<open>Composing and decomposing identifiers\<close>

text \<open>
  \<^verbatim>\<open>LocationID\<close> is an \<^verbatim>\<open>int64\<close>; the code only converts it to and from
  \<^verbatim>\<open>uint64\<close>, which keeps the bits, so it is carried as the 64-bit word.
\<close>

record CSIIdentifier =
  LocationID :: u64
  encodingVersion :: u16
  ClusterID :: string
  ObjectUUID :: string

definition maxVolIDLen :: nat where "maxVolIDLen = 128"
definition knownFieldSize :: nat where "knownFieldSize = 64"
definition uuidSize :: nat where "uuidSize = 36"
definition defaultEncodingVersion :: u16 where "defaultEncodingVersion = 1"

lemmas volid_consts = maxVolIDLen_def knownFieldSize_def uuidSize_def defaultEncodingVersion_def

definition effectiveVersion :: "CSIIdentifier \<Rightarrow> u16" where
  "effectiveVersion ci =
     (if encodingVersion ci = 0 then defaultEncodingVersion else encodingVersion ci)"

definition ComposeCSIID :: "CSIIdentifier \<Rightarrow> volid_error + string" where
  "ComposeCSIID ci =
     (if knownFieldSize + length (ClusterID ci) > maxVolIDLen then Inl EncodingOverflow
      else if length (ObjectUUID ci) \<noteq> uuidSize then Inl InvalidUUID
      else Inr (hex_encode (put_uint16 (effectiveVersion ci)) @ ''-'' @
                hex_encode (put_uint16 (of_nat (length (ClusterID ci)))) @ ''-'' @
                ClusterID ci @ ''-'' @
                hex_encode (put_uint64 (LocationID ci)) @ ''-'' @
                ObjectUUID ci))"

text \<open>
  \<^verbatim>\<open>DecomposeCSIID\<close> writes the receiver field by field, so on an error the fields decoded
  so far are already set: the result carries the receiver in every case where the call
  returns.
\<close>

datatype decomposed = Panicked | Returned CSIIdentifier "volid_error option"

definition decode_uuid :: "CSIIdentifier \<Rightarrow> string \<Rightarrow> u16 \<Rightarrow> u16 \<Rightarrow> decomposed" where
  "decode_uuid ci s rest start =
     (if rest \<noteq> of_nat uuidSize then Returned ci (Some SizeMismatch)
      else case go_slice s (unat start) (unat (start + of_nat uuidSize)) of
        None \<Rightarrow> Panicked
      | Some u \<Rightarrow> Returned (ci\<lparr>ObjectUUID := u\<rparr>) None)"

definition decode_location :: "CSIIdentifier \<Rightarrow> string \<Rightarrow> u16 \<Rightarrow> u16 \<Rightarrow> decomposed" where
  "decode_location ci s rest start =
     (if rest < 17 then Returned ci (Some StringUnderflow)
      else case go_slice s (unat start) (unat (start + 16)) of
        None \<Rightarrow> Panicked
      | Some h \<Rightarrow>
          (case hex_decode h of
             Inl e \<Rightarrow> Returned ci (Some e)
           | Inr b \<Rightarrow>
               decode_uuid (ci\<lparr>LocationID := get_uint64 b\<rparr>) s (rest - 17) (start + 17)))"

definition decode_cluster :: "CSIIdentifier \<Rightarrow> string \<Rightarrow> u16 \<Rightarrow> decomposed" where
  "decode_cluster ci s rest =
     (case go_slice s 5 9 of
        None \<Rightarrow> Panicked
      | Some h \<Rightarrow>
          (case hex_decode h of
             Inl e \<Rightarrow> Returned ci (Some e)
           | Inr b \<Rightarrow>
               let clusterIDLength = get_uint16 b; rest = rest - 5 in
               if rest < clusterIDLength + 1 then Returned ci (Some StringUnderflow)
               else case go_slice s 10 (unat (10 + clusterIDLength)) of
                 None \<Rightarrow> Panicked
               | Some c \<Rightarrow>
                   decode_location (ci\<lparr>ClusterID := c\<rparr>) s
                     (rest - (clusterIDLength + 1)) (10 + clusterIDLength + 1)))"

definition DecomposeCSIID :: "CSIIdentifier \<Rightarrow> string \<Rightarrow> decomposed" where
  "DecomposeCSIID ci s =
     (let bytesToProcess = (of_nat (length s) :: u16) in
      if bytesToProcess < of_nat knownFieldSize then Returned ci (Some StringUnderflow)
      else case go_slice s 0 4 of
        None \<Rightarrow> Panicked
      | Some h \<Rightarrow>
          (case hex_decode h of
             Inl e \<Rightarrow> Returned ci (Some e)
           | Inr b \<Rightarrow>
               decode_cluster (ci\<lparr>encodingVersion := get_uint16 b\<rparr>) s (bytesToProcess - 5)))"

text \<open>A sample identifier and its handle, the ones of the repository's own test.\<close>

definition sample_id :: CSIIdentifier where
  "sample_id = \<lparr>LocationID = 0xffff, encodingVersion = 0xffff,
     ClusterID = ''01616094-9d93-4178-bf45-c7eac19e8b15'',
     ObjectUUID = ''00000000-1111-2222-bbbb-cacacacacaca''\<rparr>"

definition sample_handle :: string where
  "sample_handle = ''ffff-0024-01616094-9d93-4178-bf45-c7eac19e8b15-000000000000ffff-00000000-1111-2222-bbbb-cacacacacaca''"

subsection \<open>Correctness\<close>

text \<open>Each decoder, run on a string that holds the field it expects, stores that field.\<close>

lemma decode_uuid_composed:
  assumes "length pre = unat start" and "unat start + 36 < 2 ^ 16" and "length u = 36"
  shows "decode_uuid ci (pre @ u) 36 start = Returned (ci\<lparr>ObjectUUID := u\<rparr>) None"
proof -
  have "unat (start + 36) = unat start + 36"
    using assms(2) by (simp add: unat_word_ariths)
  then have "go_slice (pre @ u) (unat start) (unat (start + 36)) = Some u"
    using assms go_slice_append_mid [of pre "unat start" "unat (start + 36)" u "[]"] by simp
  then show ?thesis by (simp add: decode_uuid_def volid_consts)
qed

lemma decode_location_composed:
  assumes len: "length pre = unat start" and small: "unat start + 53 < 2 ^ 16" and "length u = 36"
  shows "decode_location ci (pre @ hex_encode (put_uint64 v) @ ''-'' @ u) 53 start =
    Returned (ci\<lparr>LocationID := v, ObjectUUID := u\<rparr>) None"
proof -
  let ?h = "hex_encode (put_uint64 v)"
  have "unat (start + 16) = unat start + 16"
    using small by (simp add: unat_word_ariths)
  then have sl: "go_slice (pre @ ?h @ ''-'' @ u) (unat start) (unat (start + 16)) = Some ?h"
    using len go_slice_append_mid [of pre "unat start" "unat (start + 16)" ?h "''-'' @ u"] by simp
  have "unat (start + 17) = unat start + 17"
    using small by (simp add: unat_word_ariths)
  then have "decode_uuid (ci\<lparr>LocationID := v\<rparr>) ((pre @ ?h @ ''-'') @ u) 36 (start + 17) =
      Returned (ci\<lparr>LocationID := v, ObjectUUID := u\<rparr>) None"
    using assms by (subst decode_uuid_composed) simp_all
  then show ?thesis
    using sl by (simp add: decode_location_def)
qed

lemma decode_cluster_composed:
  assumes len: "length pre = 5" and c: "length c \<le> 64" and u: "length u = 36"
  shows "decode_cluster ci
      (pre @ hex_encode (put_uint16 (of_nat (length c))) @ ''-'' @ c @ ''-'' @
       hex_encode (put_uint64 v) @ ''-'' @ u) (of_nat (59 + length c)) =
    Returned (ci\<lparr>ClusterID := c, LocationID := v, ObjectUUID := u\<rparr>) None"
proof -
  let ?n = "of_nat (length c) :: u16"
  let ?h = "hex_encode (put_uint16 ?n)"
  let ?tail = "hex_encode (put_uint64 v) @ ''-'' @ u"
  let ?s = "pre @ ?h @ ''-'' @ c @ ''-'' @ ?tail"
  have n: "unat ?n = length c"
    using c by (simp add: unat_of_nat)
  have s1: "go_slice ?s 5 9 = Some ?h"
    using len go_slice_append_mid [of pre 5 9 ?h "''-'' @ c @ ''-'' @ ?tail"] by simp
  have rest: "(of_nat (59 + length c) - 5 :: u16) = of_nat (54 + length c)"
    by simp
  have fits: "\<not> (of_nat (54 + length c) :: u16) < ?n + 1"
    using c by (simp add: word_less_nat_alt unat_word_ariths unat_of_nat n)
  have stop: "unat (10 + ?n) = 10 + length c"
    using c by (simp add: unat_word_ariths n)
  then have s2: "go_slice ?s 10 (unat (10 + ?n)) = Some c"
    using len go_slice_append_mid [of "pre @ ?h @ ''-''" 10 "unat (10 + ?n)" c "''-'' @ ?tail"] by simp
  have left: "of_nat (54 + length c) - (?n + 1) = (53 :: u16)"
    by simp
  have "unat (10 + ?n + 1) = 11 + length c"
    using c by (simp add: unat_word_ariths n)
  then have "decode_location (ci\<lparr>ClusterID := c\<rparr>) ((pre @ ?h @ ''-'' @ c @ ''-'') @ ?tail) 53 (10 + ?n + 1) =
      Returned (ci\<lparr>ClusterID := c, LocationID := v, ObjectUUID := u\<rparr>) None"
    using len c u by (subst decode_location_composed) simp_all
  then show ?thesis
    using s1 s2 fits unfolding decode_cluster_def rest [symmetric]
    by (simp add: Let_def rest left)
qed

text \<open>
  C28: round trip.  Whatever \<^verbatim>\<open>ComposeCSIID\<close> produces, \<^verbatim>\<open>DecomposeCSIID\<close> decodes back
  into the identifier it came from, whatever the receiver held before; the version zero,
  which means ``not set'', comes back as the default version.
\<close>

theorem decompose_compose:
  assumes "ComposeCSIID ci = Inr s"
  shows "DecomposeCSIID z s =
    Returned \<lparr>LocationID = LocationID ci, encodingVersion = effectiveVersion ci,
              ClusterID = ClusterID ci, ObjectUUID = ObjectUUID ci\<rparr> None"
proof -
  let ?v = "hex_encode (put_uint16 (effectiveVersion ci))"
  let ?rest = "hex_encode (put_uint16 (of_nat (length (ClusterID ci)))) @ ''-'' @ ClusterID ci @ ''-'' @
    hex_encode (put_uint64 (LocationID ci)) @ ''-'' @ ObjectUUID ci"
  from assms have c: "length (ClusterID ci) \<le> 64" and u: "length (ObjectUUID ci) = 36"
    and s: "s = ?v @ ''-'' @ ?rest"
    by (auto simp: ComposeCSIID_def volid_consts split: if_splits)
  have sl: "go_slice s 0 4 = Some ?v"
    unfolding s using go_slice_append_mid [of "[]" 0 4 ?v "''-'' @ ?rest"] by simp
  have n: "(of_nat (length s) :: u16) - 5 = of_nat (59 + length (ClusterID ci))"
    unfolding s using u by simp
  have big: "\<not> (of_nat (length s) :: u16) < of_nat knownFieldSize"
    unfolding s using c u by (simp add: volid_consts word_less_nat_alt unat_of_nat unat_word_ariths)
  have "decode_cluster (z\<lparr>encodingVersion := effectiveVersion ci\<rparr>) ((?v @ ''-'') @ ?rest)
      (of_nat (59 + length (ClusterID ci))) =
    Returned \<lparr>LocationID = LocationID ci, encodingVersion = effectiveVersion ci,
              ClusterID = ClusterID ci, ObjectUUID = ObjectUUID ci\<rparr> None"
    using c u by (subst decode_cluster_composed) simp_all
  then show ?thesis
    using sl big n unfolding DecomposeCSIID_def by (simp add: Let_def s)
qed

lemma compose_sample: "ComposeCSIID sample_id = Inr sample_handle"
  by code_simp

theorem decompose_compose_witness:
  "DecomposeCSIID \<lparr>LocationID = 0, encodingVersion = 0, ClusterID = [], ObjectUUID = []\<rparr> sample_handle =
    Returned sample_id None"
  using decompose_compose [OF compose_sample] by (simp add: sample_id_def effectiveVersion_def)

lemma decode_uuid_no_panic:
  "unat start + unat rest \<le> length s \<Longrightarrow> unat start + unat rest < 2 ^ 16 \<Longrightarrow>
    decode_uuid ci s rest start \<noteq> Panicked"
  by (auto simp: decode_uuid_def volid_consts go_slice_eq_None unat_word_ariths split: option.splits)

lemma decode_location_no_panic:
  assumes "unat start + unat rest \<le> length s" and "unat start + unat rest < 2 ^ 16"
  shows "decode_location ci s rest start \<noteq> Panicked"
proof (cases "rest < 17")
  case True
  then show ?thesis by (simp add: decode_location_def)
next
  case False
  then have r: "17 \<le> unat rest" by (simp add: word_less_nat_alt)
  with assms have "unat (start + 16) = unat start + 16" and st: "unat (start + 17) = unat start + 17"
    by (simp_all add: unat_word_ariths)
  moreover have "unat (rest - 17) = unat rest - 17"
    using r by (subst unat_sub) (simp_all add: word_le_nat_alt)
  ultimately have "decode_uuid c s (rest - 17) (start + 17) \<noteq> Panicked" for c
    using assms r by (intro decode_uuid_no_panic) simp_all
  moreover have "go_slice s (unat start) (unat (start + 16)) \<noteq> None"
    using \<open>unat (start + 16) = _\<close> assms r by (simp add: go_slice_eq_None)
  ultimately show ?thesis
    using False by (auto simp: decode_location_def split: option.splits sum.splits)
qed

lemma decode_cluster_panics_iff:
  assumes n: "10 \<le> n" "n < 2 ^ 16" "n \<le> length s"
  shows "decode_cluster ci s (of_nat n - 5) = Panicked \<longleftrightarrow>
    hex_decode (take 4 (drop 5 s)) = Inr [0xff, 0xff]"
proof -
  have sl: "go_slice s 5 9 = Some (take 4 (drop 5 s))"
    using n by (simp add: go_slice_def)
  have u: "unat (of_nat n - 10 :: u16) = n - 10"
    using n by (simp add: unat_sub_if' unat_of_nat)
  show ?thesis
  proof (cases "hex_decode (take 4 (drop 5 s))")
    case (Inl e)
    then show ?thesis by (simp add: decode_cluster_def sl)
  next
    case (Inr b)
    then have "length b = 2"
      using length_hex_decode [OF Inr] n by simp
    then obtain h l where b: "b = [h, l]"
      by (auto simp: length_Suc_conv numeral_2_eq_2)
    let ?L = "get_uint16 b"
    show ?thesis
    proof (cases "?L = 0xffff")
      case True
      have nine: "10 + ?L = 9" unfolding True by simp
      have "unat (10 + ?L) = 9" unfolding nine by simp
      then have none: "go_slice s 10 (unat (10 + ?L)) = None" by (simp add: go_slice_def)
      have zero: "?L + 1 = 0" unfolding True by simp
      have "decode_cluster ci s (of_nat n - 5) = Panicked"
        by (simp add: decode_cluster_def sl Let_def Inr none zero)
      then show ?thesis
        using True Inr b by (simp add: get_uint16_ffff)
    next
      case False
      moreover have "(0xffff :: u16) = - 1" by (simp add: eq_neg_iff_add_eq_0)
      ultimately have "1 + ?L \<noteq> 0" by (simp add: add_eq_0_iff)
      then have L: "unat (?L + 1) = unat ?L + 1"
        using unatSuc [of ?L] by (simp add: add.commute)
      have "decode_cluster ci s (of_nat n - 5) \<noteq> Panicked"
      proof (cases "(of_nat n - 5 - 5 :: u16) < ?L + 1")
        case True
        then show ?thesis using Inr by (simp add: decode_cluster_def sl Let_def)
      next
        case notless: False
        then have fit: "unat ?L + 1 \<le> n - 10" by (simp add: word_less_nat_alt u L)
        have stop: "unat (10 + ?L) = 10 + unat ?L" and next_: "unat (10 + ?L + 1) = 11 + unat ?L"
          using fit n by (simp_all add: unat_word_ariths)
        have "unat (of_nat n - 5 - 5 - (?L + 1)) = n - 10 - (unat ?L + 1)"
          using notless by (subst unat_sub) (simp_all add: u L not_less)
        then have "decode_location c s (of_nat n - 5 - 5 - (?L + 1)) (10 + ?L + 1) \<noteq> Panicked" for c
          using fit n next_ by (intro decode_location_no_panic) simp_all
        moreover have "go_slice s 10 (unat (10 + ?L)) \<noteq> None"
          using stop fit n by (simp add: go_slice_eq_None)
        ultimately show ?thesis
          using Inr by (auto simp: decode_cluster_def sl Let_def split: option.splits)
      qed
      with False Inr b show ?thesis by (simp add: get_uint16_ffff)
    qed
  qed
qed

text \<open>
  C36: the decoder's only panic.  On any string \<^verbatim>\<open>DecomposeCSIID\<close> returns, with an error or
  without, unless the string is long enough, its version field is hexadecimal and its
  length field reads \<^verbatim>\<open>ffff\<close>: then the check \<^verbatim>\<open>bytesToProcess < clusterIDLength+1\<close>
  wraps to a comparison with zero, passes, and the slice \<^verbatim>\<open>[10:10+clusterIDLength]\<close>
  wraps to \<^verbatim>\<open>[10:9]\<close> and panics.
\<close>

theorem decompose_panics_iff:
  "DecomposeCSIID ci s = Panicked \<longleftrightarrow>
     64 \<le> length s mod 2 ^ 16 \<and> (\<exists>v. hex_decode (take 4 s) = Inr v) \<and>
     hex_decode (take 4 (drop 5 s)) = Inr [0xff, 0xff]"
proof (cases "64 \<le> length s mod 2 ^ 16")
  case False
  then have "(of_nat (length s) :: u16) < of_nat knownFieldSize"
    by (simp add: volid_consts word_less_nat_alt unat_of_nat)
  with False show ?thesis by (simp add: DecomposeCSIID_def)
next
  case True
  let ?n = "length s mod 2 ^ 16"
  have n: "10 \<le> ?n" "?n < 2 ^ 16" "?n \<le> length s" using True by (auto intro: mod_less_eq_dividend)
  have w: "(of_nat (length s) :: u16) = of_nat ?n"
    by (simp add: word_of_nat_eq_iff take_bit_eq_mod)
  have big: "\<not> (of_nat ?n :: u16) < of_nat knownFieldSize"
    using True by (simp add: volid_consts word_less_nat_alt unat_of_nat)
  have sl: "go_slice s 0 4 = Some (take 4 s)" using n by (simp add: go_slice_def)
  show ?thesis
    using True big decode_cluster_panics_iff [OF n]
    by (auto simp: DecomposeCSIID_def w sl Let_def split: sum.splits)
qed

lemma decode_uuid_ok:
  "decode_uuid ci s rest start = Returned ci' None \<Longrightarrow>
    rest = 36 \<and> ClusterID ci' = ClusterID ci \<and> LocationID ci' = LocationID ci \<and>
    length (ObjectUUID ci') = unat (start + 36) - unat start"
  by (auto simp: decode_uuid_def volid_consts dest: go_slice_Some_length split: if_splits option.splits)

lemma decode_location_ok:
  assumes "decode_location ci s rest start = Returned ci' None"
  shows "rest = 53 \<and> ClusterID ci' = ClusterID ci \<and>
    length (ObjectUUID ci') = unat (start + 53) - unat (start + 17)"
proof -
  from assms obtain b where
    "decode_uuid (ci\<lparr>LocationID := get_uint64 b\<rparr>) s (rest - 17) (start + 17) = Returned ci' None"
    by (auto simp: decode_location_def split: if_splits option.splits sum.splits)
  from decode_uuid_ok [OF this] show ?thesis
    by (simp add: diff_eq_eq add.assoc)
qed

text \<open>
  What a decoded handle looks like.  When \<^verbatim>\<open>DecomposeCSIID\<close> reports success the object
  uuid has exactly its 36 bytes and the lengths of the fields add up to the length of the
  handle, as the 16-bit counter sees it.
\<close>

theorem decompose_ok_shape:
  assumes "DecomposeCSIID ci s = Returned ci' None"
  shows "length (ObjectUUID ci') = 36 \<and> length s mod 2 ^ 16 = 64 + length (ClusterID ci')"
proof -
  let ?n = "of_nat (length s) :: u16"
  from assms obtain v where big: "\<not> ?n < 64"
    and c: "decode_cluster (ci\<lparr>encodingVersion := get_uint16 v\<rparr>) s (?n - 5) = Returned ci' None"
    by (auto simp: DecomposeCSIID_def Let_def volid_consts split: if_splits option.splits sum.splits)
  then obtain b cl where
    fit: "\<not> ?n - 5 - 5 < get_uint16 b + 1" and sl: "go_slice s 10 (unat (10 + get_uint16 b)) = Some cl"
    and l: "decode_location (ci\<lparr>encodingVersion := get_uint16 v, ClusterID := cl\<rparr>) s
      (?n - 5 - 5 - (get_uint16 b + 1)) (10 + get_uint16 b + 1) = Returned ci' None"
    by (auto simp: decode_cluster_def Let_def split: if_splits option.splits sum.splits)
  let ?L = "get_uint16 b"
  from decode_location_ok [OF l] have rest: "?n - 5 - 5 - (?L + 1) = 53" and cl: "ClusterID ci' = cl"
    and uu: "length (ObjectUUID ci') = unat (10 + ?L + 1 + 53) - unat (10 + ?L + 1 + 17)"
    by simp_all
  from rest have n: "?n = 64 + ?L" by (simp add: diff_eq_eq add.assoc)
  have ge: "unat ?n \<ge> 64" using big by (simp add: word_less_nat_alt)
  have nowrap: "64 + unat ?L < 2 ^ 16"
  proof (rule ccontr)
    assume "\<not> 64 + unat ?L < 2 ^ 16"
    then have "unat ?n = 64 + unat ?L - 2 ^ 16"
      using unsigned_less [where 'a = nat, of ?L] unfolding n by (simp add: unat_word_ariths mod_if)
    then show False using ge unsigned_less [where 'a = nat, of ?L] by simp
  qed
  then have "unat (10 + ?L) = 10 + unat ?L" by (simp add: unat_word_ariths)
  then have "length cl = unat ?L"
    using go_slice_Some_length [OF sl] by simp
  moreover have "unat ?n = 64 + unat ?L" unfolding n using nowrap by (simp add: unat_word_ariths)
  moreover have "length (ObjectUUID ci') = 36"
    unfolding uu using nowrap by (simp add: unat_word_ariths)
  ultimately show ?thesis using cl by (simp add: unat_of_nat)
qed

lemma decompose_sample:
  "DecomposeCSIID \<lparr>LocationID = 0, encodingVersion = 0, ClusterID = [], ObjectUUID = []\<rparr> sample_handle =
    Returned sample_id None"
  by code_simp

theorem decompose_ok_shape_witness:
  "length (ObjectUUID sample_id) = 36 \<and> length sample_handle mod 2 ^ 16 = 64 + length (ClusterID sample_id)"
  by (rule decompose_ok_shape [OF decompose_sample])

end
