(* ===== verification/Mem_Semaphore.thy ===== *)
theory Mem_Semaphore
  imports Prelude
begin

section \<open>The memory semaphore (internal/worker/pipeline/semaphore.go)\<close>

text \<open>
  \<^verbatim>\<open>MemSemaphore\<close> bounds the bytes of block data held between the read and the send stage.
  A grant is given at once only when nobody waits; otherwise waiters are served in arrival
  order by \<^verbatim>\<open>wakeWaiters\<close>, which \<^verbatim>\<open>Release\<close> calls.  As for the window semaphore, each critical
  section is one operation and a closed channel is a number in \<^verbatim>\<open>memClosed\<close>.

  The amounts are int64 in the code, and so is their sum: every addition and subtraction wraps around
  (\<^verbatim>\<open>int64\<close> below).  The budget therefore depends on requests that cannot wrap, and the runs of
  \<^verbatim>\<open>mem_reach\<close> say so; \<^verbatim>\<open>Pipeline_Read\<close> shows that the read stage makes no others.
\<close>

subsection \<open>64-bit arithmetic\<close>

definition int64 :: "int \<Rightarrow> int" where
  "int64 x = (x + 2 ^ 63) mod 2 ^ 64 - 2 ^ 63"

lemma int64_signed_take_bit: "int64 x = signed_take_bit 63 x"
  by (simp add: int64_def signed_take_bit_eq_take_bit_shift take_bit_eq_mod)

lemma int64_id: "- (2 ^ 63) \<le> x \<Longrightarrow> x < 2 ^ 63 \<Longrightarrow> int64 x = x"
  by (simp add: int64_def)

lemma int64_range: "- (2 ^ 63) \<le> int64 x" "int64 x < 2 ^ 63"
  using pos_mod_bound [of "2 ^ 64" "x + 2 ^ 63"] pos_mod_sign [of "2 ^ 64" "x + 2 ^ 63"] by (simp_all add: int64_def)

subsection \<open>State and operations\<close>

record memWaiter =
  memN :: int
  memCh :: nat

record MemSemaphore =
  capacity :: int
  cur :: int
  memWaiters :: "memWaiter list"
  memClosed :: "nat set"
  memFresh :: nat

definition NewMemSemaphore :: "int \<Rightarrow> MemSemaphore" where
  "NewMemSemaphore c = \<lparr>capacity = c, cur = 0, memWaiters = [], memClosed = {}, memFresh = 0\<rparr>"

definition mem_Acquire :: "MemSemaphore \<Rightarrow> int \<Rightarrow> MemSemaphore \<times> memWaiter option" where
  "mem_Acquire s n =
     (if int64 (cur s + n) \<le> capacity s \<and> memWaiters s = [] then (s\<lparr>cur := int64 (cur s + n)\<rparr>, None)
      else let x = \<lparr>memN = n, memCh = memFresh s\<rparr> in
        (s\<lparr>memWaiters := memWaiters s @ [x], memFresh := Suc (memFresh s)\<rparr>, Some x))"

definition mem_cancel :: "MemSemaphore \<Rightarrow> memWaiter \<Rightarrow> MemSemaphore \<times> bool" where
  "mem_cancel s x =
     (if memCh x \<in> memClosed s then (s, True)
      else (s\<lparr>memWaiters := filter (\<lambda>y. memCh y \<noteq> memCh x) (memWaiters s)\<rparr>, False))"

text \<open>The loop of \<^verbatim>\<open>wakeWaiters\<close>: whom it wakes, who stays, and the new \<^verbatim>\<open>cur\<close>.\<close>

fun take_fitting :: "int \<Rightarrow> int \<Rightarrow> memWaiter list \<Rightarrow> memWaiter list \<times> memWaiter list \<times> int" where
  "take_fitting cap c [] = ([], [], c)"
| "take_fitting cap c (x # xs) =
     (if int64 (c + memN x) > cap then ([], x # xs, c)
      else let (woken, rest, c') = take_fitting cap (int64 (c + memN x)) xs in (x # woken, rest, c'))"

definition wakeWaiters :: "MemSemaphore \<Rightarrow> MemSemaphore" where
  "wakeWaiters s =
     (let (woken, rest, c) = take_fitting (capacity s) (cur s) (memWaiters s) in
      s\<lparr>memWaiters := rest, cur := c, memClosed := memClosed s \<union> memCh ` set woken\<rparr>)"

definition mem_Release :: "MemSemaphore \<Rightarrow> int \<Rightarrow> MemSemaphore" where
  "mem_Release s n = wakeWaiters (s\<lparr>cur := int64 (cur s - n)\<rparr>)"

subsection \<open>Runs, with the amounts held\<close>

text \<open>
  The amounts granted and not yet released are a multiset.  The flag of the relation tells
  whether a cancelled \<^verbatim>\<open>Acquire\<close> left the front of the queue since the last \<^verbatim>\<open>Release\<close>.
  A request is admissible if capacity and request together fit into 64 bits.
\<close>

definition admissible :: "int \<Rightarrow> int \<Rightarrow> bool" where
  "admissible c n \<longleftrightarrow> 0 \<le> n \<and> c + n < 2 ^ 63"

definition mem_woken :: "MemSemaphore \<Rightarrow> int \<Rightarrow> memWaiter list" where
  "mem_woken s n = fst (take_fitting (capacity s) (int64 (cur s - n)) (memWaiters s))"

definition at_front :: "MemSemaphore \<Rightarrow> memWaiter \<Rightarrow> bool" where
  "at_front s x \<longleftrightarrow> (case memWaiters s of [] \<Rightarrow> False | y # ys \<Rightarrow> memCh y = memCh x)"

inductive mem_reach :: "int \<Rightarrow> MemSemaphore \<Rightarrow> int multiset \<Rightarrow> bool \<Rightarrow> bool" for c where
  new: "mem_reach c (NewMemSemaphore c) {#} False"
| grant: "mem_reach c s H fl \<Longrightarrow> admissible c n \<Longrightarrow> mem_Acquire s n = (s', None) \<Longrightarrow> mem_reach c s' (add_mset n H) fl"
| block: "mem_reach c s H fl \<Longrightarrow> admissible c n \<Longrightarrow> mem_Acquire s n = (s', Some x) \<Longrightarrow> mem_reach c s' H fl"
| release: "mem_reach c s H fl \<Longrightarrow> n \<in># H \<Longrightarrow>
    mem_reach c (mem_Release s n) (H - {#n#} + mset (map memN (mem_woken s n))) False"
| cancel: "mem_reach c s H fl \<Longrightarrow> mem_reach c (fst (mem_cancel s x)) H (fl \<or> at_front s x)"

definition front_blocked :: "MemSemaphore \<Rightarrow> bool" where
  "front_blocked s \<longleftrightarrow> (memWaiters s \<noteq> [] \<longrightarrow> cur s + memN (hd (memWaiters s)) > capacity s)"

definition mem_inv :: "int \<Rightarrow> MemSemaphore \<Rightarrow> int multiset \<Rightarrow> bool" where
  "mem_inv c s H \<longleftrightarrow> capacity s = c \<and> c < 2 ^ 63 \<and> cur s = sum_mset H \<and> cur s \<le> c \<and> (\<forall>h\<in>#H. 0 \<le> h) \<and>
     (\<forall>x\<in>set (memWaiters s). admissible c (memN x) \<and> memCh x < memFresh s \<and> memCh x \<notin> memClosed s) \<and>
     (\<forall>k\<in>memClosed s. k < memFresh s) \<and> distinct (map memCh (memWaiters s))"

text \<open>A run for the witnesses: capacity 10, six bytes held, six more asked for.\<close>

definition sample_mem :: MemSemaphore where
  "sample_mem = fst (mem_Acquire (fst (mem_Acquire (NewMemSemaphore 10) 6)) 6)"

subsection \<open>The wake loop\<close>

lemma int64_admissible: "admissible c n \<Longrightarrow> 0 \<le> k \<Longrightarrow> k \<le> c \<Longrightarrow> int64 (k + n) = k + n"
  by (rule int64_id) (simp_all add: admissible_def)

lemma take_fitting_prefix: "take_fitting cap c ws = (woken, rest, c') \<Longrightarrow> ws = woken @ rest"
  by (induction cap c ws arbitrary: woken rule: take_fitting.induct) (auto simp: Let_def split: if_splits prod.splits)

lemma take_fitting_fits:
  assumes "take_fitting cap c ws = (woken, rest, c')" "0 \<le> c" "c \<le> cap" "\<forall>x\<in>set ws. admissible cap (memN x)"
  shows "c' = c + sum_list (map memN woken) \<and> 0 \<le> c' \<and> c' \<le> cap \<and> (rest \<noteq> [] \<longrightarrow> cap < c' + memN (hd rest))"
  using assms
proof (induction ws arbitrary: c woken)
  case (Cons x xs)
  have sum: "int64 (c + memN x) = c + memN x" using int64_admissible [of cap "memN x" c] Cons.prems by simp
  show ?case
  proof (cases "c + memN x > cap")
    case True
    then show ?thesis using Cons.prems sum by auto
  next
    case False
    then obtain w where w: "take_fitting cap (c + memN x) xs = (w, rest, c')" "woken = x # w"
      using Cons.prems(1) sum by (auto split: prod.splits)
    moreover have "0 \<le> c + memN x" using Cons.prems(2,4) by (simp add: admissible_def)
    ultimately show ?thesis using Cons.IH [of "c + memN x" w] False Cons.prems(4) by auto
  qed
qed auto

lemma mem_Release_parts:
  obtains rest c' where "take_fitting (capacity s) (int64 (cur s - n)) (memWaiters s) = (mem_woken s n, rest, c')"
    "memWaiters s = mem_woken s n @ rest"
    "mem_Release s n = s\<lparr>memWaiters := rest, cur := c', memClosed := memClosed s \<union> memCh ` set (mem_woken s n)\<rparr>"
proof -
  obtain w rest c' where t: "take_fitting (capacity s) (int64 (cur s - n)) (memWaiters s) = (w, rest, c')"
    by (cases "take_fitting (capacity s) (int64 (cur s - n)) (memWaiters s)")
  then have "w = mem_woken s n" by (simp add: mem_woken_def)
  then show thesis using that [of rest c'] t take_fitting_prefix [OF t] by (simp add: mem_Release_def wakeWaiters_def)
qed

subsection \<open>Every operation keeps the invariant\<close>

lemma mem_inv_new [inv_rules]: "0 \<le> c \<Longrightarrow> c < 2 ^ 63 \<Longrightarrow> mem_inv c (NewMemSemaphore c) {#}"
  by (simp add: mem_inv_def NewMemSemaphore_def)

lemma mem_inv_cur: "mem_inv c s H \<Longrightarrow> 0 \<le> cur s \<and> cur s \<le> capacity s \<and> capacity s = c"
proof -
  have "0 \<le> sum_mset H" if "\<forall>h\<in>#H. 0 \<le> h" using that by (induction H) auto
  then show "mem_inv c s H \<Longrightarrow> 0 \<le> cur s \<and> cur s \<le> capacity s \<and> capacity s = c" by (simp add: mem_inv_def)
qed

lemma mem_inv_sum: "mem_inv c s H \<Longrightarrow> admissible c n \<Longrightarrow> int64 (cur s + n) = cur s + n"
  using mem_inv_cur int64_admissible by blast

lemma mem_inv_grant [inv_rules]:
  "mem_inv c s H \<Longrightarrow> admissible c n \<Longrightarrow> mem_Acquire s n = (s', None) \<Longrightarrow> mem_inv c s' (add_mset n H)"
  using mem_inv_sum [of c s H n] by (auto simp: mem_inv_def mem_Acquire_def Let_def admissible_def split: if_splits)

lemma mem_Acquire_queues:
  "mem_Acquire s n = (s', Some x) \<Longrightarrow>
     x = \<lparr>memN = n, memCh = memFresh s\<rparr> \<and> s' = s\<lparr>memWaiters := memWaiters s @ [x], memFresh := Suc (memFresh s)\<rparr>"
  by (simp add: mem_Acquire_def Let_def split: if_splits) blast

lemma mem_inv_block [inv_rules]:
  assumes "mem_inv c s H" "admissible c n" "mem_Acquire s n = (s', Some x)"
  shows "mem_inv c s' H"
proof -
  have s': "s' = s\<lparr>memWaiters := memWaiters s @ [x], memFresh := Suc (memFresh s)\<rparr>" "memN x = n" "memCh x = memFresh s"
    using mem_Acquire_queues [OF assms(3)] by simp_all
  show ?thesis using assms(1,2) unfolding mem_inv_def s' by (auto simp: s'(2,3) less_SucI)
qed

lemma mem_inv_removed:
  assumes "mem_inv c s H" "n \<in># H"
  shows "int64 (cur s - n) = sum_mset (H - {#n#})" "0 \<le> sum_mset (H - {#n#})" "sum_mset (H - {#n#}) \<le> c"
proof -
  have sum: "sum_mset H = n + sum_mset (H - {#n#})" using assms(2) by (metis insert_DiffM sum_mset.add_mset)
  have "0 \<le> sum_mset K" if "\<forall>h\<in>#K. 0 \<le> h" for K :: "int multiset" using that by (induction K) auto
  then show pos: "0 \<le> sum_mset (H - {#n#})" using assms(1) by (auto simp: mem_inv_def dest: in_diffD)
  have n: "0 \<le> n" "cur s = sum_mset H" "cur s \<le> c" using assms by (auto simp: mem_inv_def)
  then show "sum_mset (H - {#n#}) \<le> c" using sum by simp
  have "c < 2 ^ 63" using assms(1) by (simp add: mem_inv_def)
  then show "int64 (cur s - n) = sum_mset (H - {#n#})" using sum n pos by (subst int64_id) simp_all
qed

lemma mem_inv_release [inv_rules]:
  assumes "mem_inv c s H" "n \<in># H"
  shows "mem_inv c (mem_Release s n) (H - {#n#} + mset (map memN (mem_woken s n)))"
proof -
  obtain rest c' where r: "take_fitting (capacity s) (int64 (cur s - n)) (memWaiters s) = (mem_woken s n, rest, c')"
    "memWaiters s = mem_woken s n @ rest"
    "mem_Release s n = s\<lparr>memWaiters := rest, cur := c', memClosed := memClosed s \<union> memCh ` set (mem_woken s n)\<rparr>"
    by (rule mem_Release_parts)
  note k = mem_inv_removed [OF assms]
  have "c' = sum_mset (H - {#n#}) + sum_list (map memN (mem_woken s n)) \<and> 0 \<le> c' \<and> c' \<le> capacity s"
    using take_fitting_fits [OF r(1)] assms(1) k by (auto simp: mem_inv_def)
  moreover have "\<forall>h\<in>#H - {#n#}. 0 \<le> h" using assms(1) by (auto simp: mem_inv_def dest: in_diffD)
  moreover have "sum_list (map memN (mem_woken s n)) = sum_mset (mset (map memN (mem_woken s n)))" by (simp only: sum_mset_sum_list)
  ultimately show ?thesis using assms(1) r(2,3) by (auto simp: mem_inv_def admissible_def)
qed

lemma mem_inv_cancel [inv_rules]: "mem_inv c s H \<Longrightarrow> mem_inv c (fst (mem_cancel s x)) H"
  by (auto simp: mem_inv_def mem_cancel_def distinct_map_filter)

lemma mem_reach_inv: "mem_reach c s H fl \<Longrightarrow> 0 \<le> c \<Longrightarrow> c < 2 ^ 63 \<Longrightarrow> mem_inv c s H"
  by (induction rule: mem_reach.induct) (blast intro: inv_rules)+

text \<open>
  The front of the queue does not fit, unless a cancelled \<^verbatim>\<open>Acquire\<close> has left the front:
  \<^verbatim>\<open>Acquire\<close> queues behind others, and \<^verbatim>\<open>Release\<close> wakes until the front does not fit.
\<close>

lemma mem_Release_front:
  assumes "mem_inv c s H" "n \<in># H"
  shows "front_blocked (mem_Release s n)"
proof -
  obtain rest c' where r: "take_fitting (capacity s) (int64 (cur s - n)) (memWaiters s) = (mem_woken s n, rest, c')"
    "mem_Release s n = s\<lparr>memWaiters := rest, cur := c', memClosed := memClosed s \<union> memCh ` set (mem_woken s n)\<rparr>"
    by (rule mem_Release_parts)
  then show ?thesis
    using take_fitting_fits [OF r(1)] mem_inv_removed [OF assms] assms(1) by (auto simp: front_blocked_def mem_inv_def)
qed

lemma mem_Acquire_front:
  assumes "mem_inv c s H" "admissible c n" "front_blocked s" "mem_Acquire s n = (s', r)"
  shows "front_blocked s'"
  using assms(3,4) mem_inv_sum [OF assms(1,2)]
  by (cases "memWaiters s") (auto simp: front_blocked_def mem_Acquire_def Let_def split: if_splits)

lemma mem_cancel_front:
  assumes "front_blocked s" "\<not> at_front s x"
  shows "front_blocked (fst (mem_cancel s x))"
  using assms by (cases "memWaiters s") (auto simp: front_blocked_def mem_cancel_def at_front_def)

lemma mem_reach_front: "mem_reach c s H fl \<Longrightarrow> 0 \<le> c \<Longrightarrow> c < 2 ^ 63 \<Longrightarrow> \<not> fl \<Longrightarrow> front_blocked s"
proof (induction rule: mem_reach.induct)
  case new
  then show ?case by (simp add: front_blocked_def NewMemSemaphore_def)
next
  case (grant s H fl n s')
  then show ?case using mem_Acquire_front mem_reach_inv by blast
next
  case (block s H fl n s' x)
  then show ?case using mem_Acquire_front mem_reach_inv by blast
next
  case (release s H fl n)
  then show ?case using mem_Release_front mem_reach_inv by blast
next
  case (cancel s H fl x)
  then show ?case using mem_cancel_front by blast
qed

subsection \<open>Correctness\<close>

lemma sample_mem_eval:
  "sample_mem = \<lparr>capacity = 10, cur = 6, memWaiters = [\<lparr>memN = 6, memCh = 0\<rparr>], memClosed = {}, memFresh = 1\<rparr>"
  by (simp add: sample_mem_def mem_Acquire_def NewMemSemaphore_def Let_def int64_def)

lemma sample_mem_reach: "mem_reach 10 sample_mem {#6#} False"
proof -
  let ?s1 = "fst (mem_Acquire (NewMemSemaphore 10) 6)"
  have "mem_reach 10 ?s1 {#6#} False"
    by (rule mem_reach.grant [OF mem_reach.new]) (simp_all add: mem_Acquire_def NewMemSemaphore_def Let_def int64_def admissible_def)
  then have "mem_reach 10 (fst (mem_Acquire ?s1 6)) {#6#} False"
    by (rule mem_reach.block [where n = 6 and x = "\<lparr>memN = 6, memCh = 0\<rparr>"])
      (simp_all add: mem_Acquire_def NewMemSemaphore_def Let_def int64_def admissible_def)
  then show ?thesis by (simp add: sample_mem_def)
qed

text \<open>
  C22: the memory budget holds in every interleaving of acquisitions, releases and
  cancellations whose requests are not negative and fit into 64 bits together with the capacity:
  \<^verbatim>\<open>cur\<close> is the sum of the amounts held, is never negative and never exceeds
  the capacity, and a queued waiter's channel is open.
\<close>

theorem mem_budget:
  assumes "mem_reach c s H fl" "0 \<le> c" "c < 2 ^ 63"
  shows "cur s = sum_mset H \<and> 0 \<le> cur s \<and> cur s \<le> capacity s \<and> capacity s = c \<and>
    (\<forall>x\<in>set (memWaiters s). memCh x \<notin> memClosed s)"
  using mem_reach_inv [OF assms] mem_inv_cur [OF mem_reach_inv [OF assms]] by (auto simp: mem_inv_def)

theorem mem_budget_witness: "cur sample_mem = 6 \<and> capacity sample_mem = 10"
  using mem_budget [OF sample_mem_reach] by simp

text \<open>
  The limit on requests is needed: with six of ten bytes held, a request for the largest int64 wraps
  around, is granted, and leaves a negative amount.
\<close>

lemma mem_Acquire_wraps:
  "mem_Acquire (fst (mem_Acquire (NewMemSemaphore 10) 6)) (2 ^ 63 - 1) =
     (\<lparr>capacity = 10, cur = 5 - 2 ^ 63, memWaiters = [], memClosed = {}, memFresh = 0\<rparr>, None)"
  by (simp add: mem_Acquire_def NewMemSemaphore_def int64_def)

text \<open>
  Nobody waits for memory that is free.  As long as no cancelled \<^verbatim>\<open>Acquire\<close> has left the
  front of the queue since the last \<^verbatim>\<open>Release\<close>, the first waiter's demand does not fit; so once
  everything is released, a queued demand must be larger than the whole capacity.
\<close>

theorem mem_no_lost_wakeup:
  assumes "mem_reach c s H False" "0 \<le> c" "c < 2 ^ 63"
  shows "(memWaiters s = [] \<or> cur s + memN (hd (memWaiters s)) > capacity s) \<and>
    (H = {#} \<and> (\<forall>x\<in>set (memWaiters s). memN x \<le> c) \<longrightarrow> memWaiters s = [])"
proof (intro conjI impI)
  show front: "memWaiters s = [] \<or> cur s + memN (hd (memWaiters s)) > capacity s"
    using mem_reach_front [OF assms] by (auto simp: front_blocked_def)
  assume all: "H = {#} \<and> (\<forall>x\<in>set (memWaiters s). memN x \<le> c)"
  have "cur s = 0" "capacity s = c" using mem_reach_inv [OF assms] all by (simp_all add: mem_inv_def)
  then show "memWaiters s = []" using front all by (cases "memWaiters s") auto
qed

lemma sample_mem_drained: "mem_reach 10 (mem_Release (mem_Release sample_mem 6) 6) {#} False"
proof -
  have w1: "mem_woken sample_mem 6 = [\<lparr>memN = 6, memCh = 0\<rparr>]"
    by (simp add: mem_woken_def sample_mem_eval int64_def)
  have "mem_woken (mem_Release sample_mem 6) 6 = []"
    by (simp add: mem_woken_def mem_Release_def wakeWaiters_def sample_mem_eval int64_def)
  then show ?thesis
    using mem_reach.release [OF mem_reach.release [OF sample_mem_reach, of 6], of 6] w1 by simp
qed

theorem mem_no_lost_wakeup_witness: "memWaiters (mem_Release (mem_Release sample_mem 6) 6) = []"
  using mem_no_lost_wakeup [OF sample_mem_drained]
  by (simp add: mem_Release_def wakeWaiters_def sample_mem_eval int64_def)

text \<open>
  \<^verbatim>\<open>Release\<close> serves waiters in arrival order: those it wakes are a prefix of the queue, the
  others keep their places, and exactly the channels of the woken ones are closed.
\<close>

theorem mem_Release_fifo:
  "memWaiters s = mem_woken s n @ memWaiters (mem_Release s n) \<and>
   memClosed (mem_Release s n) = memClosed s \<union> memCh ` set (mem_woken s n)"
proof -
  obtain rest c' where "memWaiters s = mem_woken s n @ rest"
    "mem_Release s n = s\<lparr>memWaiters := rest, cur := c', memClosed := memClosed s \<union> memCh ` set (mem_woken s n)\<rparr>"
    by (rule mem_Release_parts)
  then show ?thesis by simp
qed

end
