(* ===== verification/Window_Semaphore.thy ===== *)
theory Window_Semaphore
  imports Prelude
begin

section \<open>The window semaphore (internal/worker/pipeline/semaphore.go)\<close>

text \<open>
  \<^verbatim>\<open>WindowSemaphore\<close> bounds the spread of the request ids in flight and tells the commit
  drainer which requests the destination has acknowledged.  Its state is a base id, a ring
  of ``released'' flags for the ids from the base on, a count of granted ids and a queue of
  waiters sorted by id.  Every method runs under the mutex, so a method's critical section
  is one operation here; a waiter's channel is a number, and closing it adds the number to
  \<^term>\<open>closed\<close>.

  The theory first models the operations, then runs them as a state machine together with
  the set of ids granted and the set of ids released so far, and shows that the ring
  buffer represents those sets.
\<close>

subsection \<open>State and operations\<close>

record winWaiter =
  reqID :: u64
  ch :: nat

record WindowSemaphore =
  maxWindow :: nat
  limit :: nat
  base :: u64
  released :: "bool list"
  inFlight :: int
  waiters :: "winWaiter list"
  releaseCh :: bool
  closed :: "nat set"
  freshCh :: nat

definition NewWindowSemaphore :: "nat \<Rightarrow> WindowSemaphore" where
  "NewWindowSemaphore mw =
     \<lparr>maxWindow = mw, limit = 2 * mw, base = 0, released = replicate (2 * mw) False,
      inFlight = 0, waiters = [], releaseCh = False, closed = {}, freshCh = 0\<rparr>"

definition in_window :: "WindowSemaphore \<Rightarrow> u64 \<Rightarrow> bool" where
  "in_window w i \<longleftrightarrow> i - base w < of_nat (limit w)"

fun insertWaiter :: "winWaiter \<Rightarrow> winWaiter list \<Rightarrow> winWaiter list" where
  "insertWaiter x [] = [x]"
| "insertWaiter x (y # ys) = (if reqID y < reqID x then y # insertWaiter x ys else x # y # ys)"

fun removeWaiter :: "winWaiter \<Rightarrow> winWaiter list \<Rightarrow> winWaiter list" where
  "removeWaiter x [] = []"
| "removeWaiter x (y # ys) = (if ch y = ch x then ys else y # removeWaiter x ys)"

text \<open>
  \<^verbatim>\<open>Acquire\<close> up to its \<^verbatim>\<open>select\<close>: granted at once, or a waiter is queued.  The second
  half is what the caller does when its context is cancelled while it waits: a waiter that
  was woken in the meantime keeps its grant.
\<close>

definition win_Acquire :: "WindowSemaphore \<Rightarrow> u64 \<Rightarrow> WindowSemaphore \<times> winWaiter option" where
  "win_Acquire w i =
     (if in_window w i then (w\<lparr>inFlight := inFlight w + 1\<rparr>, None)
      else let x = \<lparr>reqID = i, ch = freshCh w\<rparr> in
        (w\<lparr>waiters := insertWaiter x (waiters w), freshCh := Suc (freshCh w)\<rparr>, Some x))"

definition win_cancel :: "WindowSemaphore \<Rightarrow> winWaiter \<Rightarrow> WindowSemaphore \<times> bool" where
  "win_cancel w x =
     (if ch x \<in> closed w then (w, True)
      else (w\<lparr>waiters := removeWaiter x (waiters w)\<rparr>, False))"

lemma count_list_update_True:
  "i < length xs \<Longrightarrow> xs ! i \<Longrightarrow> count_list (xs[i := False]) True < count_list xs True"
proof (induction xs arbitrary: i)
  case Nil
  then show ?case by simp
next
  case (Cons x xs)
  then show ?case by (cases i) auto
qed

text \<open>\<^verbatim>\<open>Release\<close>: the loop that moves the base past released ids, and the loop that wakes.\<close>

function advance :: "nat \<Rightarrow> bool list \<Rightarrow> u64 \<Rightarrow> bool list \<times> u64" where
  "advance lim rel b =
     (let i = unat (b mod of_nat lim) in
      if i < length rel \<and> rel ! i then advance lim (rel[i := False]) (b + 1) else (rel, b))"
  by pat_completeness auto

termination
  by (relation "measure (\<lambda>(lim, rel, b). count_list rel True)") (auto simp: count_list_update_True)

declare advance.simps [simp del]

lemma advance_unfold:
  "advance lim rel b =
     (if unat (b mod of_nat lim) < length rel \<and> rel ! unat (b mod of_nat lim)
      then advance lim (rel[unat (b mod of_nat lim) := False]) (b + 1) else (rel, b))"
  by (simp add: advance.simps [of lim rel b] Let_def)

fun admit_front :: "u64 \<Rightarrow> nat \<Rightarrow> winWaiter list \<Rightarrow> winWaiter list \<times> winWaiter list" where
  "admit_front b lim [] = ([], [])"
| "admit_front b lim (x # xs) =
     (if reqID x - b \<ge> of_nat lim then ([], x # xs)
      else let (woken, rest) = admit_front b lim xs in (x # woken, rest))"

definition wakeWinWaiters :: "WindowSemaphore \<Rightarrow> WindowSemaphore" where
  "wakeWinWaiters w =
     (let (woken, rest) = admit_front (base w) (limit w) (waiters w) in
      w\<lparr>waiters := rest, inFlight := inFlight w + int (length woken),
        closed := closed w \<union> ch ` set woken\<rparr>)"

definition win_Release :: "WindowSemaphore \<Rightarrow> u64 \<Rightarrow> WindowSemaphore" where
  "win_Release w i =
     (let idx = unat (i mod of_nat (limit w)) in
      if released w ! idx then w
      else
        let (rel, b) = advance (limit w) ((released w)[idx := True]) (base w) in
        (wakeWinWaiters (w\<lparr>released := rel, base := b, inFlight := inFlight w - 1\<rparr>))
          \<lparr>releaseCh := True\<rparr>)"

definition IsReleased :: "WindowSemaphore \<Rightarrow> u64 \<Rightarrow> bool" where
  "IsReleased w i \<longleftrightarrow> base w > i"

subsection \<open>The run of a window, with the ids granted and released so far\<close>

text \<open>
  The environment's obligations are the guards of the rules: an id is acquired at most once,
  only a granted id is released, at most once, and ids stay below \<open>2 ^ 64\<close> by
  the size of the window.  The pipeline meets them: the iterators number blocks
  consecutively from zero.
\<close>

definition id_ok :: "WindowSemaphore \<Rightarrow> u64 \<Rightarrow> bool" where
  "id_ok w i \<longleftrightarrow> unat i + 2 * limit w < 2 ^ 64"

definition woken_by :: "WindowSemaphore \<Rightarrow> u64 \<Rightarrow> nat set" where
  "woken_by w i = (\<lambda>x. unat (reqID x)) ` (set (waiters w) - set (waiters (win_Release w i)))"

inductive win_reach :: "nat \<Rightarrow> WindowSemaphore \<Rightarrow> nat set \<Rightarrow> nat set \<Rightarrow> bool" for mw where
  new: "win_reach mw (NewWindowSemaphore mw) {} {}"
| grant: "win_reach mw w A R \<Longrightarrow> id_ok w i \<Longrightarrow> unat i \<notin> A \<Longrightarrow>
    i \<notin> reqID ` set (waiters w) \<Longrightarrow> win_Acquire w i = (w', None) \<Longrightarrow>
    win_reach mw w' (insert (unat i) A) R"
| block: "win_reach mw w A R \<Longrightarrow> id_ok w i \<Longrightarrow> unat i \<notin> A \<Longrightarrow>
    i \<notin> reqID ` set (waiters w) \<Longrightarrow> win_Acquire w i = (w', Some x) \<Longrightarrow>
    win_reach mw w' A R"
| release: "win_reach mw w A R \<Longrightarrow> unat i \<in> A \<Longrightarrow> unat i \<notin> R \<Longrightarrow>
    win_reach mw (win_Release w i) (A \<union> woken_by w i) (insert (unat i) R)"
| cancel: "win_reach mw w A R \<Longrightarrow> win_reach mw (fst (win_cancel w x)) A R"

text \<open>A short run: a window of two ids grants 0 and 1, queues 2, and 0 is released, which wakes 2.\<close>

definition sample_full :: WindowSemaphore where
  "sample_full = fst (win_Acquire (fst (win_Acquire (fst (win_Acquire (NewWindowSemaphore 1) 0)) 1)) 2)"

definition sample_window :: WindowSemaphore where
  "sample_window = win_Release sample_full 0"

subsection \<open>The invariant\<close>

text \<open>
  A slot of the ring holds whether the id it stands for in the current window is released;
  the base is the least id not released; queued waiters are sorted, lie beyond the window
  and wait on open channels.
\<close>

definition ring_rep :: "nat \<Rightarrow> bool list \<Rightarrow> nat \<Rightarrow> nat set \<Rightarrow> bool" where
  "ring_rep lim rel b R \<longleftrightarrow> length rel = lim \<and> (\<forall>j. b \<le> j \<and> j < b + lim \<longrightarrow> rel ! (j mod lim) = (j \<in> R))"

definition base_ok :: "WindowSemaphore \<Rightarrow> nat set \<Rightarrow> bool" where
  "base_ok w R \<longleftrightarrow> {..<unat (base w)} \<subseteq> R \<and> unat (base w) \<notin> R \<and>
     ring_rep (limit w) (released w) (unat (base w)) R"

definition ids_ok :: "WindowSemaphore \<Rightarrow> nat set \<Rightarrow> nat set \<Rightarrow> bool" where
  "ids_ok w A R \<longleftrightarrow> finite A \<and> R \<subseteq> A \<and> inFlight w = int (card A) - int (card R) \<and>
     (\<forall>a\<in>A. a < unat (base w) + limit w \<and> a + 2 * limit w < 2 ^ 64)"

definition queue_ok :: "WindowSemaphore \<Rightarrow> bool" where
  "queue_ok w \<longleftrightarrow> sorted (map reqID (waiters w)) \<and> distinct (map reqID (waiters w)) \<and>
     (\<forall>x\<in>set (waiters w). id_ok w (reqID x) \<and> unat (base w) + limit w \<le> unat (reqID x))"

definition chans_ok :: "WindowSemaphore \<Rightarrow> bool" where
  "chans_ok w \<longleftrightarrow> distinct (map ch (waiters w)) \<and> (\<forall>c\<in>closed w. c < freshCh w) \<and>
     (\<forall>x\<in>set (waiters w). ch x < freshCh w \<and> ch x \<notin> closed w)"

definition win_inv :: "nat \<Rightarrow> WindowSemaphore \<Rightarrow> nat set \<Rightarrow> nat set \<Rightarrow> bool" where
  "win_inv mw w A R \<longleftrightarrow> 2 * mw = limit w \<and> 0 < limit w \<and> 2 * limit w < 2 ^ 64 \<and>
     base_ok w R \<and> ids_ok w A R \<and> queue_ok w \<and> chans_ok w"

subsection \<open>The ring buffer represents the released ids\<close>


lemma ring_repD: "ring_rep lim rel b R \<Longrightarrow> b \<le> j \<Longrightarrow> j < b + lim \<Longrightarrow> rel ! (j mod lim) = (j \<in> R)"
  by (simp add: ring_rep_def)

lemma ring_rep_length: "ring_rep lim rel b R \<Longrightarrow> length rel = lim"
  by (simp add: ring_rep_def)

text \<open>Two ids of one window share a slot only if they are equal.\<close>

lemma window_slot_inj:
  fixes b i j lim :: nat
  assumes "b \<le> i" "i < b + lim" "b \<le> j" "j < b + lim" "i mod lim = j mod lim"
  shows "i = j"
proof (rule ccontr)
  assume "i \<noteq> j"
  then consider "i < j" | "j < i" by linarith
  then show False
  proof cases
    case 1
    then have "(j - i) mod lim = 0" using assms(5) by (metis mod_eq_dvd_iff_nat less_imp_le dvd_imp_mod_0)
    moreover have "0 < j - i" "j - i < lim" using 1 assms by auto
    ultimately show False by simp
  next
    case 2
    then have "(i - j) mod lim = 0" using assms(5) by (metis mod_eq_dvd_iff_nat less_imp_le dvd_imp_mod_0)
    moreover have "0 < i - j" "i - j < lim" using 2 assms by auto
    ultimately show False by simp
  qed
qed

lemma ring_rep_insert:
  assumes "ring_rep lim rel b R" "b \<le> i" "i < b + lim"
  shows "ring_rep lim (rel[i mod lim := True]) b (insert i R)"
proof -
  have "(rel[i mod lim := True]) ! (j mod lim) = (j \<in> insert i R)" if "b \<le> j" "j < b + lim" for j
  proof (cases "j = i")
    case True
    have "0 < lim" using assms(2,3) by simp
    then show ?thesis using True assms(1) by (simp add: ring_rep_length)
  next
    case False
    then have "j mod lim \<noteq> i mod lim" using window_slot_inj that assms(2,3) by metis
    then show ?thesis using False that ring_repD [OF assms(1)] by simp
  qed
  then show ?thesis using assms(1) by (simp add: ring_rep_def)
qed

lemma ring_rep_advance:
  assumes "ring_rep lim rel b R" "0 < lim" "b + lim \<notin> R"
  shows "ring_rep lim (rel[b mod lim := False]) (Suc b) R"
proof -
  have "(rel[b mod lim := False]) ! (j mod lim) = (j \<in> R)" if "Suc b \<le> j" "j < Suc b + lim" for j
  proof (cases "j = b + lim")
    case True
    then show ?thesis using assms by (simp add: ring_rep_length)
  next
    case False
    then have j: "b \<le> j" "j < b + lim" "j \<noteq> b" using that by auto
    then have "j mod lim \<noteq> b mod lim"
      using window_slot_inj [of b j lim b] assms(2) by auto
    then show ?thesis using j ring_repD [OF assms(1)] by simp
  qed
  then show ?thesis using assms(1) by (simp add: ring_rep_def)
qed

lemma unat_mod_of_nat:
  fixes b :: u64
  assumes "lim < 2 ^ 64"
  shows "unat (b mod of_nat lim) = unat b mod lim"
  using assms by (simp add: unat_mod unat_of_nat)

lemma in_window_unat:
  fixes i b :: u64
  assumes "unat b \<le> unat i" "lim < 2 ^ 64"
  shows "i - b < of_nat lim \<longleftrightarrow> unat i < unat b + lim"
proof -
  have "unat (i - b) = unat i - unat b" using assms(1) by (simp add: unat_sub word_le_nat_alt)
  then show ?thesis using assms by (auto simp: word_less_nat_alt unat_of_nat)
qed

lemma advance_spec:
  assumes "ring_rep lim rel (unat b) R" "0 < lim" "lim < 2 ^ 64"
    and "\<And>a. a \<in> R \<Longrightarrow> a < unat b + lim \<and> a + 1 < 2 ^ 64" "{..<unat b} \<subseteq> R"
    and "advance lim rel b = (rel', b')"
  shows "ring_rep lim rel' (unat b') R \<and> {..<unat b'} \<subseteq> R \<and> unat b' \<notin> R \<and> unat b \<le> unat b'"
  using assms
proof (induction lim rel b rule: advance.induct)
  case (1 lim rel b)
  let ?i = "unat (b mod of_nat lim)"
  have i: "?i = unat b mod lim" using "1.prems"(3) by (rule unat_mod_of_nat)
  have at_b: "rel ! ?i = (unat b \<in> R)" using ring_repD [OF "1.prems"(1), of "unat b"] i "1.prems"(2) by simp
  have len: "?i < length rel" using i "1.prems"(1,2) by (simp add: ring_rep_length)
  show ?case
  proof (cases "unat b \<in> R")
    case False
    then have "rel' = rel" "b' = b" using "1.prems"(6) at_b by (auto simp: advance.simps [of lim rel b] Let_def)
    then show ?thesis using False "1.prems"(1,5) by simp
  next
    case True
    then have suc: "unat (b + 1) = Suc (unat b)"
      using "1.prems"(4) [of "unat b"] by (simp add: unat_word_ariths)
    have step: "advance lim (rel[?i := False]) (b + 1) = (rel', b')"
      using "1.prems"(6) at_b len True by (simp add: advance.simps [of lim rel b] Let_def)
    have "unat b + lim \<notin> R" using "1.prems"(4) by blast
    then have "ring_rep lim (rel[?i := False]) (unat (b + 1)) R"
      using ring_rep_advance [OF "1.prems"(1,2)] suc i by simp
    moreover have "{..<unat (b + 1)} \<subseteq> R" using "1.prems"(5) True suc by (auto simp: less_Suc_eq)
    moreover have "\<And>a. a \<in> R \<Longrightarrow> a < unat (b + 1) + lim \<and> a + 1 < 2 ^ 64"
      using "1.prems"(4) suc by fastforce
    ultimately have "ring_rep lim rel' (unat b') R \<and> {..<unat b'} \<subseteq> R \<and> unat b' \<notin> R \<and> unat (b + 1) \<le> unat b'"
      using "1.IH" [OF refl conjI [OF len]] at_b True "1.prems"(2,3) step by blast
    then show ?thesis using suc by simp
  qed
qed

subsection \<open>The waiters' queue\<close>

lemma set_insertWaiter [simp]: "set (insertWaiter x ws) = insert x (set ws)"
  by (induction ws) auto

lemma mset_insertWaiter: "mset (insertWaiter x ws) = add_mset x (mset ws)"
  by (induction ws) auto

lemma sorted_insertWaiter: "sorted (map reqID ws) \<Longrightarrow> sorted (map reqID (insertWaiter x ws))"
  by (induction ws) auto

lemma distinct_insertWaiter:
  "distinct (map f (insertWaiter x ws)) \<longleftrightarrow> distinct (map f (x # ws))"
  by (induction ws) auto

lemma removeWaiter_subset: "set (removeWaiter x ws) \<subseteq> set ws"
  by (induction ws) auto

lemma removeWaiter_props:
  "sorted (map reqID ws) \<Longrightarrow> sorted (map reqID (removeWaiter x ws))"
  "distinct (map f ws) \<Longrightarrow> distinct (map f (removeWaiter x ws))"
  using removeWaiter_subset by (induction ws) fastforce+

lemma admit_front_split:
  "admit_front b lim ws = (woken, rest) \<Longrightarrow>
     ws = woken @ rest \<and> (\<forall>x\<in>set woken. reqID x - b < of_nat lim) \<and>
     (rest \<noteq> [] \<longrightarrow> \<not> reqID (hd rest) - b < of_nat lim)"
  by (induction ws arbitrary: woken) (auto split: if_splits prod.splits simp: not_less)

lemma admit_front_rest:
  assumes "admit_front b lim ws = (woken, rest)" "sorted (map reqID ws)" "lim < 2 ^ 64"
    and "\<And>x. x \<in> set ws \<Longrightarrow> unat b \<le> unat (reqID x)" "x \<in> set rest"
  shows "unat b + lim \<le> unat (reqID x)"
proof -
  note split = admit_front_split [OF assms(1)]
  obtain h t where rest: "rest = h # t" using assms(5) by (cases rest) auto
  have "unat b + lim \<le> unat (reqID h)"
    using split rest assms(3,4) in_window_unat [of b "reqID h" lim] by auto
  moreover have "reqID h \<le> reqID x" using split assms(2,5) rest by (auto simp: sorted_append)
  ultimately show ?thesis by (simp add: word_le_nat_alt)
qed

subsection \<open>Every operation keeps the invariant\<close>

lemmas win_inv_defs = win_inv_def base_ok_def ids_ok_def queue_ok_def chans_ok_def id_ok_def

lemma win_inv_below_base: "win_inv mw w A R \<Longrightarrow> a < unat (base w) \<Longrightarrow> a \<in> R"
  by (auto simp: win_inv_defs)

lemma win_inv_granted:
  assumes "win_inv mw w A R" "a \<in> A" "a \<notin> R"
  shows "unat (base w) \<le> a" "a < unat (base w) + limit w"
proof -
  show "unat (base w) \<le> a" using win_inv_below_base [OF assms(1)] assms(3) by (meson not_less)
  show "a < unat (base w) + limit w" using assms(1,2) by (auto simp: win_inv_defs)
qed

lemma win_inv_new [inv_rules]:
  assumes "0 < mw" "4 * mw < 2 ^ 64"
  shows "win_inv mw (NewWindowSemaphore mw) {} {}"
  using assms by (auto simp: win_inv_defs NewWindowSemaphore_def ring_rep_def)

lemma win_inv_grant [inv_rules]:
  assumes "win_inv mw w A R" "id_ok w i" "unat i \<notin> A" "win_Acquire w i = (w', None)"
  shows "win_inv mw w' (insert (unat i) A) R"
proof -
  have le: "unat (base w) \<le> unat i"
    using win_inv_below_base [OF assms(1)] assms(1,3) unfolding win_inv_def ids_ok_def
    by (meson not_less subsetD)
  have w': "w' = w\<lparr>inFlight := inFlight w + 1\<rparr>" "in_window w i"
    using assms(4) by (auto simp: win_Acquire_def Let_def split: if_splits)
  then have "unat i < unat (base w) + limit w"
    using in_window_unat [OF le] assms(1) by (simp add: in_window_def win_inv_def)
  then show ?thesis using assms(1-3) w'(1) by (auto simp: win_inv_defs)
qed

lemma win_inv_block [inv_rules]:
  assumes "win_inv mw w A R" "id_ok w i" "unat i \<notin> A" "i \<notin> reqID ` set (waiters w)"
    and "win_Acquire w i = (w', Some x)"
  shows "win_inv mw w' A R"
proof -
  have le: "unat (base w) \<le> unat i"
    using win_inv_below_base [OF assms(1)] assms(1,3) unfolding win_inv_def ids_ok_def
    by (meson not_less subsetD)
  have x: "x = \<lparr>reqID = i, ch = freshCh w\<rparr>" "\<not> in_window w i"
    and w': "w' = w\<lparr>waiters := insertWaiter x (waiters w), freshCh := Suc (freshCh w)\<rparr>"
    using assms(5) by (auto simp: win_Acquire_def Let_def split: if_splits)
  have beyond: "unat (base w) + limit w \<le> unat i"
    using in_window_unat [OF le] assms(1) x(2) by (simp add: in_window_def win_inv_def)
  have "queue_ok w'"
    using assms(1,2,4) beyond x(1) w'
    by (auto simp: win_inv_def queue_ok_def id_ok_def sorted_insertWaiter distinct_insertWaiter)
  moreover have "chans_ok w'"
    using assms(1) x(1) w' by (auto simp: win_inv_def chans_ok_def distinct_insertWaiter)
  moreover have "base_ok w' R" "ids_ok w' A R" "2 * mw = limit w'" "0 < limit w'" "2 * limit w' < 2 ^ 64"
    using assms(1) w' by (simp_all add: win_inv_def base_ok_def ids_ok_def)
  ultimately show ?thesis by (simp add: win_inv_def)
qed

lemma win_inv_cancel [inv_rules]:
  assumes "win_inv mw w A R"
  shows "win_inv mw (fst (win_cancel w x)) A R"
  using assms removeWaiter_subset [of x "waiters w"]
  by (auto simp: win_cancel_def win_inv_defs removeWaiter_props)

text \<open>What \<^verbatim>\<open>Release\<close> does to a granted id that was not released before.\<close>

lemma win_Release_unfold:
  assumes "win_inv mw w A R" "unat i \<in> A" "unat i \<notin> R"
  obtains rel b woken rest where
    "win_Release w i = w\<lparr>released := rel, base := b, waiters := rest,
       inFlight := inFlight w - 1 + int (length woken), closed := closed w \<union> ch ` set woken,
       releaseCh := True\<rparr>"
    "admit_front b (limit w) (waiters w) = (woken, rest)"
    "ring_rep (limit w) rel (unat b) (insert (unat i) R)"
    "{..<unat b} \<subseteq> insert (unat i) R" "unat b \<notin> insert (unat i) R"
    "unat (base w) \<le> unat b" "unat b \<le> unat (base w) + limit w"
proof -
  note granted = win_inv_granted [OF assms]
  have lim: "0 < limit w" "limit w < 2 ^ 64" using assms(1) by (auto simp: win_inv_def)
  have ring: "ring_rep (limit w) (released w) (unat (base w)) R"
    using assms(1) by (simp add: win_inv_def base_ok_def)
  have idx: "unat (i mod of_nat (limit w)) = unat i mod limit w" using lim(2) by (rule unat_mod_of_nat)
  have clear: "\<not> released w ! (unat i mod limit w)" using ring_repD [OF ring granted] assms(3) by simp
  obtain rel b where adv: "advance (limit w) ((released w)[unat i mod limit w := True]) (base w) = (rel, b)"
    by force
  obtain woken rest where wake: "admit_front b (limit w) (waiters w) = (woken, rest)" by force
  have bound: "a < unat (base w) + limit w \<and> a + 1 < 2 ^ 64" if "a \<in> insert (unat i) R" for a
    using that assms(1,2) lim(1) by (force simp: win_inv_def ids_ok_def)
  have spec: "ring_rep (limit w) rel (unat b) (insert (unat i) R) \<and> {..<unat b} \<subseteq> insert (unat i) R \<and>
      unat b \<notin> insert (unat i) R \<and> unat (base w) \<le> unat b"
    using advance_spec [OF ring_rep_insert [OF ring granted] lim bound _ adv] assms(1)
    by (auto simp: win_inv_def base_ok_def)
  have "unat (base w) + limit w \<notin> insert (unat i) R" using bound by blast
  then have le: "unat b \<le> unat (base w) + limit w" using spec by (meson lessThan_iff not_less subsetD)
  have eq: "win_Release w i = w\<lparr>released := rel, base := b, waiters := rest,
       inFlight := inFlight w - 1 + int (length woken), closed := closed w \<union> ch ` set woken,
       releaseCh := True\<rparr>"
    using wake clear adv idx by (simp add: win_Release_def wakeWinWaiters_def Let_def)
  show ?thesis using spec le by (intro that [OF eq wake]) simp_all
qed

lemma win_inv_release [inv_rules]:
  assumes inv: "win_inv mw w A R" and i: "unat i \<in> A" "unat i \<notin> R"
  shows "win_inv mw (win_Release w i) (A \<union> woken_by w i) (insert (unat i) R)"
proof -
  let ?R = "insert (unat i) R"
  obtain rel b woken rest where
    w': "win_Release w i = w\<lparr>released := rel, base := b, waiters := rest,
       inFlight := inFlight w - 1 + int (length woken), closed := closed w \<union> ch ` set woken,
       releaseCh := True\<rparr>"
    and wake: "admit_front b (limit w) (waiters w) = (woken, rest)"
    and ring: "ring_rep (limit w) rel (unat b) ?R" "{..<unat b} \<subseteq> ?R" "unat b \<notin> ?R"
    and b: "unat (base w) \<le> unat b" "unat b \<le> unat (base w) + limit w"
    by (rule win_Release_unfold [OF inv i])
  have lim: "0 < limit w" "limit w < 2 ^ 64" using inv by (auto simp: win_inv_def)
  have parts: "queue_ok w" "chans_ok w" "ids_ok w A R" using inv by (simp_all add: win_inv_def)
  have ws: "waiters w = woken @ rest" and win: "\<And>x. x \<in> set woken \<Longrightarrow> reqID x - b < of_nat (limit w)"
    using admit_front_split [OF wake] by blast+
  have above: "unat b \<le> unat (reqID x)" if "x \<in> set (waiters w)" for x
    using that parts(1) b by (force simp: queue_ok_def)
  let ?W = "(\<lambda>x. unat (reqID x)) ` set woken"
  have dist: "distinct (map reqID (woken @ rest))" using parts(1) ws by (simp add: queue_ok_def)
  have W: "woken_by w i = ?W"
    using dist by (auto simp: woken_by_def w' ws distinct_map)
  have card_W: "card ?W = length woken"
  proof -
    have "inj_on reqID (set woken)" using dist by (simp add: distinct_map)
    then have "inj_on (\<lambda>x. unat (reqID x)) (set woken)"
      unfolding inj_on_def by (metis word_unat_eq_iff)
    then show ?thesis using dist by (simp add: card_image distinct_map distinct_card)
  qed
  have "unat (reqID x) \<notin> A" if "x \<in> set woken" for x
  proof
    assume "unat (reqID x) \<in> A"
    then have "unat (reqID x) < unat (base w) + limit w" using parts(3) by (simp add: ids_ok_def)
    moreover have "unat (base w) + limit w \<le> unat (reqID x)" using that parts(1) ws by (simp add: queue_ok_def)
    ultimately show False by simp
  qed
  then have disj: "A \<inter> ?W = {}" by blast
  have fin: "finite A" "finite R" "R \<subseteq> A" using parts(3) finite_subset by (auto simp: ids_ok_def)
  have "ids_ok (win_Release w i) (A \<union> ?W) ?R"
    unfolding ids_ok_def
  proof (intro conjI ballI)
    show "finite (A \<union> ?W)" "?R \<subseteq> A \<union> ?W" using fin i by auto
    show "inFlight (win_Release w i) = int (card (A \<union> ?W)) - int (card ?R)"
      using fin card_W disj i(2) parts(3) by (simp add: w' card_Un_disjoint ids_ok_def)
    fix a assume "a \<in> A \<union> ?W"
    then consider "a \<in> A" | x where "x \<in> set woken" "a = unat (reqID x)" by blast
    then have "a < unat b + limit w \<and> a + 2 * limit w < 2 ^ 64"
    proof cases
      case 1
      then show ?thesis using parts(3) b by (force simp: ids_ok_def)
    next
      case 2
      then show ?thesis
        using win in_window_unat [OF above lim(2)] ws parts(1) by (auto simp: queue_ok_def id_ok_def)
    qed
    then show "a < unat (base (win_Release w i)) + limit (win_Release w i)"
      and "a + 2 * limit (win_Release w i) < 2 ^ 64" by (simp_all add: w')
  qed
  moreover have "queue_ok (win_Release w i)"
    using admit_front_rest [OF wake _ lim(2) above] parts(1) ws
    by (auto simp: queue_ok_def w' id_ok_def sorted_append)
  moreover have "chans_ok (win_Release w i)"
    using parts(2) ws by (auto simp: chans_ok_def w')
  moreover have "base_ok (win_Release w i) ?R" using ring by (simp add: base_ok_def w')
  ultimately show ?thesis using inv W by (simp add: win_inv_def w')
qed

lemma win_reach_inv:
  assumes "win_reach mw w A R" "0 < mw" "4 * mw < 2 ^ 64"
  shows "win_inv mw w A R"
  using assms by (induction rule: win_reach.induct) (auto intro: inv_rules)

subsection \<open>A concrete run\<close>

lemmas win_op_defs = NewWindowSemaphore_def win_Acquire_def in_window_def win_Release_def
  wakeWinWaiters_def Let_def

lemma sample_full_eval:
  "sample_full = \<lparr>maxWindow = 1, limit = 2, base = 0, released = [False, False], inFlight = 2,
     waiters = [\<lparr>reqID = 2, ch = 0\<rparr>], releaseCh = False, closed = {}, freshCh = 1\<rparr>"
  by (simp add: sample_full_def win_op_defs word_less_nat_alt) (simp add: numeral_2_eq_2)

lemma sample_window_eval:
  "sample_window = \<lparr>maxWindow = 1, limit = 2, base = 1, released = [False, False], inFlight = 2,
     waiters = [], releaseCh = True, closed = {0}, freshCh = 1\<rparr>"
  by (simp add: sample_window_def sample_full_eval win_op_defs advance_unfold word_le_nat_alt)

lemma sample_full_reach: "win_reach 1 sample_full {0, 1} {}"
proof -
  let ?w0 = "NewWindowSemaphore 1"
  let ?w1 = "?w0\<lparr>inFlight := 1\<rparr>" and ?w2 = "?w0\<lparr>inFlight := 2\<rparr>"
  have s1: "win_Acquire ?w0 0 = (?w1, None)" and s2: "win_Acquire ?w1 1 = (?w2, None)"
    by (simp_all add: win_op_defs)
  have s3: "win_Acquire ?w2 2 = (sample_full, Some \<lparr>reqID = 2, ch = 0\<rparr>)"
    by (simp add: sample_full_eval win_op_defs numeral_2_eq_2)
  have "win_reach 1 ?w1 (insert (unat (0 :: u64)) {}) {}"
    by (rule win_reach.grant [OF win_reach.new _ _ _ s1]) (simp_all add: NewWindowSemaphore_def id_ok_def)
  then have "win_reach 1 ?w2 (insert (unat (1 :: u64)) {0}) {}"
    by (intro win_reach.grant [OF _ _ _ _ s2]) (simp_all add: NewWindowSemaphore_def id_ok_def)
  then have "win_reach 1 sample_full (insert (unat (1 :: u64)) {0}) {}"
    by (rule win_reach.block [OF _ _ _ _ s3]) (simp_all add: NewWindowSemaphore_def id_ok_def)
  then show ?thesis by (simp add: insert_commute)
qed

lemma sample_window_reach: "win_reach 1 sample_window {0, 1, 2} {0}"
proof -
  have "woken_by sample_full 0 = {2}"
    using sample_window_eval by (simp add: woken_by_def sample_window_def) (simp add: sample_full_eval)
  then show ?thesis
    using win_reach.release [OF sample_full_reach, of 0]
    by (simp add: sample_window_def insert_commute)
qed

subsection \<open>Correctness\<close>

lemma IsReleased_set:
  assumes "win_reach mw w A R" "0 < mw" "4 * mw < 2 ^ 64"
  shows "IsReleased w i \<longleftrightarrow> {..unat i} \<subseteq> R"
proof -
  have inv: "base_ok w R" using win_reach_inv [OF assms] by (simp add: win_inv_def)
  show ?thesis
  proof (cases "unat i < unat (base w)")
    case True
    then have "{..unat i} \<subseteq> R" using inv by (auto simp: base_ok_def)
    then show ?thesis using True by (simp add: IsReleased_def word_less_nat_alt)
  next
    case False
    then have "unat (base w) \<in> {..unat i}" by simp
    then have "\<not> {..unat i} \<subseteq> R" using inv by (auto simp: base_ok_def)
    then show ?thesis using False by (simp add: IsReleased_def word_less_nat_alt)
  qed
qed

text \<open>
  C10: at every point of a run, \<^verbatim>\<open>IsReleased(i)\<close> is true exactly when every id up to
  \<^verbatim>\<open>i\<close> has been released, however the releases were ordered: the ring buffer implements
  the abstract set of released ids, and the base is its least missing id.
\<close>

theorem IsReleased_iff:
  assumes "win_reach mw w A R" "0 < mw" "4 * mw < 2 ^ 64"
  shows "IsReleased w i \<longleftrightarrow> {..unat i} \<subseteq> R"
  using assms by (rule IsReleased_set)

theorem IsReleased_iff_witness:
  "IsReleased sample_window 0 \<and> \<not> IsReleased sample_window 1"
  using IsReleased_iff [OF sample_window_reach, of 0] IsReleased_iff [OF sample_window_reach, of 1]
  by (simp add: atMost_Suc)

text \<open>
  The window bounds what is in flight: any two ids that are granted and not released lie
  less than twice \<^verbatim>\<open>maxWindow\<close> apart, and \<^verbatim>\<open>inFlight\<close> counts them and never exceeds that limit.
\<close>

theorem window_bounds:
  assumes "win_reach mw w A R" "0 < mw" "4 * mw < 2 ^ 64"
  shows "inFlight w = int (card (A - R)) \<and> inFlight w \<le> int (limit w) \<and> limit w = 2 * mw \<and>
    (\<forall>a\<in>A - R. \<forall>b\<in>A - R. a < b + 2 * mw)"
proof -
  note inv = win_reach_inv [OF assms]
  have lim: "limit w = 2 * mw" and fin: "finite A" "R \<subseteq> A" "inFlight w = int (card A) - int (card R)"
    using inv by (auto simp: win_inv_defs)
  have "card R \<le> card A" using fin card_mono by blast
  then have card: "inFlight w = int (card (A - R))"
    using fin finite_subset [OF fin(2,1)] by (simp add: card_Diff_subset of_nat_diff)
  have sub: "A - R \<subseteq> {unat (base w)..<unat (base w) + limit w}"
    using win_inv_granted [OF inv] by fastforce
  then have "card (A - R) \<le> limit w" using card_mono [OF _ sub] by simp
  moreover have "a < b + 2 * mw" if "a \<in> A - R" "b \<in> A - R" for a b
    using subsetD [OF sub that(1)] subsetD [OF sub that(2)] lim by simp
  ultimately show ?thesis using card lim by simp
qed

theorem window_bounds_witness:
  "inFlight sample_window = int (card ({0, 1, 2} - {0} :: nat set)) \<and> limit sample_window = 2"
  using window_bounds [OF sample_window_reach] by simp

text \<open>
  C23: no wake-up is lost and the window never blocks its own base: every queued waiter asks
  for an id beyond the window and waits on an open channel, the queue is sorted by id, and an
  \<^verbatim>\<open>Acquire\<close> of the least id not released is granted at once.
\<close>

theorem no_lost_wakeup:
  assumes "win_reach mw w A R" "0 < mw" "4 * mw < 2 ^ 64"
  shows "(\<forall>x\<in>set (waiters w). \<not> in_window w (reqID x) \<and> ch x \<notin> closed w) \<and>
    sorted (map reqID (waiters w)) \<and> snd (win_Acquire w (base w)) = None"
proof -
  note inv = win_reach_inv [OF assms]
  have lim: "limit w < 2 ^ 64" "0 < limit w" using inv by (auto simp: win_inv_def)
  have "\<not> in_window w (reqID x) \<and> ch x \<notin> closed w" if "x \<in> set (waiters w)" for x
  proof -
    have "unat (base w) + limit w \<le> unat (reqID x)" "ch x \<notin> closed w"
      using that inv by (auto simp: win_inv_def queue_ok_def chans_ok_def)
    then show ?thesis using in_window_unat [of "base w" "reqID x"] lim by (simp add: in_window_def)
  qed
  moreover have "in_window w (base w)" using in_window_unat [of "base w" "base w"] lim by (simp add: in_window_def)
  ultimately show ?thesis using inv by (simp add: win_Acquire_def win_inv_def queue_ok_def)
qed

theorem no_lost_wakeup_witness:
  "waiters sample_full \<noteq> [] \<and> \<not> in_window sample_full (reqID (hd (waiters sample_full)))"
  using no_lost_wakeup [OF sample_full_reach] by (simp add: sample_full_eval)

end
