(* ===== verification/Block_IO.thy ===== *)
theory Block_IO
  imports Prelude
begin

section \<open>Files, zero detection and zeroing (internal/worker/common/util.go, */zero.go)\<close>

text \<open>
  The model of an open file or block device, of the three kernel calls the workers make on it
  (\<^verbatim>\<open>pwrite\<close>, \<^verbatim>\<open>BLKZEROOUT\<close> and \<^verbatim>\<open>FALLOC_FL_PUNCH_HOLE\<close>), and of the routines the code
  builds on them: \<^verbatim>\<open>IsAllZero\<close>, \<^verbatim>\<open>WriteZeros\<close> and the two \<^verbatim>\<open>zeroRange\<close> functions.

  A call may fail at any moment and may then have done part of its work.  The outcomes of
  the coming calls are a component of the file: \<^term>\<open>None\<close> lets a call through, \<^term>\<open>Some k\<close>
  makes it fail after \<^term>\<open>k\<close> bytes, and an exhausted plan lets every call through.  The
  lemmas hold for every plan.
\<close>

subsection \<open>Files\<close>

record os_file =
  content :: bytes
  fixedSize :: bool
  plan :: "nat option list"

definition byte_at :: "bytes \<Rightarrow> nat \<Rightarrow> byte" where
  "byte_at c i = (if i < length c then c ! i else 0)"

definition overwrite :: "bytes \<Rightarrow> nat \<Rightarrow> bytes \<Rightarrow> bytes" where
  "overwrite c off d =
     (if d = [] then c
      else take off c @ replicate (off - length c) 0 @ d @ drop (off + length d) c)"

definition next_outcome :: "os_file \<Rightarrow> nat option \<times> os_file" where
  "next_outcome f = (case plan f of [] \<Rightarrow> (None, f) | x # xs \<Rightarrow> (x, f\<lparr>plan := xs\<rparr>))"

text \<open>
  \<^verbatim>\<open>os.File.WriteAt\<close>: a regular file grows, a block device refuses what lies beyond its end.
  An empty buffer makes no system call.
\<close>

definition WriteAt :: "os_file \<Rightarrow> nat \<Rightarrow> bytes \<Rightarrow> os_file \<times> bool" where
  "WriteAt f off d =
     (if d = [] then (f, True)
      else case next_outcome f of
        (Some k, f') \<Rightarrow> (f'\<lparr>content := overwrite (content f) off (take k d)\<rparr>, False)
      | (None, f') \<Rightarrow>
          if fixedSize f \<and> length (content f) < off + length d
          then (f'\<lparr>content := overwrite (content f) off (take (length (content f) - off) d)\<rparr>, False)
          else (f'\<lparr>content := overwrite (content f) off d\<rparr>, True))"

text \<open>
  The two zeroing calls change bytes below the end of the file only.  \<^verbatim>\<open>BLKZEROOUT\<close> refuses a
  range that is not on the device, \<^verbatim>\<open>fallocate\<close> an empty one; punching with
  \<^verbatim>\<open>FALLOC_FL_KEEP_SIZE\<close> never changes the size.
\<close>

definition zero_below_end :: "bytes \<Rightarrow> nat \<Rightarrow> nat \<Rightarrow> bytes" where
  "zero_below_end c off n = take off c @ replicate (min n (length c - off)) 0 @ drop (off + n) c"

definition BLKZEROOUT :: "os_file \<Rightarrow> nat \<Rightarrow> nat \<Rightarrow> os_file \<times> bool" where
  "BLKZEROOUT f off n =
     (case next_outcome f of
        (Some k, f') \<Rightarrow> (f'\<lparr>content := zero_below_end (content f) off (min k n)\<rparr>, False)
      | (None, f') \<Rightarrow>
          if length (content f) < off + n then (f', False)
          else (f'\<lparr>content := zero_below_end (content f) off n\<rparr>, True))"

definition PunchHole :: "os_file \<Rightarrow> nat \<Rightarrow> nat \<Rightarrow> os_file \<times> bool" where
  "PunchHole f off n =
     (case next_outcome f of
        (Some k, f') \<Rightarrow> (f'\<lparr>content := zero_below_end (content f) off (min k n)\<rparr>, False)
      | (None, f') \<Rightarrow>
          if n = 0 then (f', False)
          else (f'\<lparr>content := zero_below_end (content f) off n\<rparr>, True))"

subsection \<open>The code\<close>

fun IsAllZero :: "bytes \<Rightarrow> bool" where
  "IsAllZero [] = True"
| "IsAllZero (b # bs) = (if b \<noteq> 0 then False else IsAllZero bs)"

definition zeroBufSize :: nat where
  "zeroBufSize = 2 ^ 20"

lemma zeroBufSize_pos: "0 < zeroBufSize"
  by (simp add: zeroBufSize_def)

text \<open>The buffer size is an argument of the loop, so that small instances can be run.\<close>

function WriteZeros_loop :: "nat \<Rightarrow> os_file \<Rightarrow> nat \<Rightarrow> nat \<Rightarrow> os_file \<times> bool" where
  "WriteZeros_loop buf f off n =
     (if n = 0 \<or> buf = 0 then (f, n = 0)
      else let k = min buf n in
        case WriteAt f off (replicate k 0) of
          (f', False) \<Rightarrow> (f', False)
        | (f', True) \<Rightarrow> WriteZeros_loop buf f' (off + k) (n - k))"
  by pat_completeness auto
termination by (relation "measure (\<lambda>(buf, f, off, n). n)") auto

declare WriteZeros_loop.simps [simp del]

definition WriteZeros :: "os_file \<Rightarrow> nat \<Rightarrow> nat \<Rightarrow> os_file \<times> bool" where
  "WriteZeros f off n = WriteZeros_loop zeroBufSize f off n"

definition rbd_zeroRange :: "os_file \<Rightarrow> nat \<Rightarrow> nat \<Rightarrow> os_file \<times> bool" where
  "rbd_zeroRange f off n =
     (case BLKZEROOUT f off n of
        (f', True) \<Rightarrow> (f', True)
      | (f', False) \<Rightarrow> WriteZeros f' off n)"

definition cephfs_zeroRange :: "os_file \<Rightarrow> nat \<Rightarrow> nat \<Rightarrow> os_file \<times> bool" where
  "cephfs_zeroRange f off n =
     (case PunchHole f off n of
        (f', True) \<Rightarrow> (f', True)
      | (f', False) \<Rightarrow> WriteZeros f' off n)"

text \<open>A device for the witnesses: eight bytes, and a first call that fails after two bytes.\<close>

definition sample_dev :: os_file where
  "sample_dev = \<lparr>content = [1, 2, 3, 4, 5, 6, 7, 8], fixedSize = True, plan = [Some 2]\<rparr>"

subsection \<open>The contract of a zeroing routine\<close>

text \<open>
  What a caller of \<^verbatim>\<open>zeroRange\<close> relies on.  On success the range reads as zero; whatever the
  outcome, no byte outside the range changes, a byte inside it is zero or as before, and a
  file that holds the range keeps its size; and without faults the call succeeds.
\<close>

definition zero_effect :: "os_file \<Rightarrow> nat \<Rightarrow> nat \<Rightarrow> os_file \<Rightarrow> bool \<Rightarrow> bool" where
  "zero_effect f off n f' r \<longleftrightarrow>
     (\<forall>i. off \<le> i \<and> i < off + n \<or> byte_at (content f') i = byte_at (content f) i) \<and>
     (\<forall>i. byte_at (content f') i = 0 \<or> byte_at (content f') i = byte_at (content f) i) \<and>
     (r \<longrightarrow> (\<forall>i. off \<le> i \<and> i < off + n \<longrightarrow> byte_at (content f') i = 0)) \<and>
     (off + n \<le> length (content f) \<longrightarrow> length (content f') = length (content f)) \<and>
     fixedSize f' = fixedSize f"

locale zeroing =
  fixes zr :: "os_file \<Rightarrow> nat \<Rightarrow> nat \<Rightarrow> os_file \<times> bool"
  assumes zr_effect: "zr f off n = (f', r) \<Longrightarrow> zero_effect f off n f' r"
    and zr_total: "plan f = [] \<Longrightarrow> off + n \<le> length (content f) \<Longrightarrow>
      snd (zr f off n) \<and> plan (fst (zr f off n)) = []"
begin

lemma zr_ok:
  "zr f off n = (f', True) \<Longrightarrow>
     byte_at (content f') i = (if off \<le> i \<and> i < off + n then 0 else byte_at (content f) i)"
  using zr_effect by (simp add: zero_effect_def) blast

lemma zr_frame:
  "zr f off n = (f', r) \<Longrightarrow> \<not> (off \<le> i \<and> i < off + n) \<Longrightarrow> byte_at (content f') i = byte_at (content f) i"
  using zr_effect by (simp add: zero_effect_def) blast

lemma zr_size:
  "zr f off n = (f', r) \<Longrightarrow> off + n \<le> length (content f) \<Longrightarrow> length (content f') = length (content f)"
  using zr_effect by (simp add: zero_effect_def)

end

subsection \<open>Bytes of a file\<close>

lemma byte_at_overwrite [simp]:
  "byte_at (overwrite c off d) i = (if off \<le> i \<and> i < off + length d then d ! (i - off) else byte_at c i)"
proof (cases "d = []")
  case True
  then show ?thesis by (auto simp: overwrite_def)
next
  case False
  define p where "p = take off c @ replicate (off - length c) 0"
  have len: "length p = off" by (simp add: p_def)
  have eq: "overwrite c off d = p @ d @ drop (off + length d) c" using False by (simp add: overwrite_def p_def)
  consider "i < off" | "off \<le> i" "i < off + length d" | "off + length d \<le> i" by linarith
  then show ?thesis
  proof cases
    case 1
    then have "byte_at (overwrite c off d) i = p ! i" by (simp add: byte_at_def eq len nth_append)
    also have "p ! i = byte_at c i" using 1 by (auto simp: p_def nth_append byte_at_def)
    finally show ?thesis using 1 by simp
  next
    case 2
    then show ?thesis by (auto simp: byte_at_def eq len nth_append)
  next
    case 3
    then show ?thesis by (auto simp: byte_at_def eq len nth_append)
  qed
qed

lemma length_overwrite [simp]:
  "length (overwrite c off d) = (if d = [] then length c else max (length c) (off + length d))"
  by (auto simp: overwrite_def)

lemma byte_at_zero_below_end [simp]:
  "byte_at (zero_below_end c off n) i = (if off \<le> i \<and> i < off + n then 0 else byte_at c i)"
proof (cases "off \<le> length c")
  case True
  then have len: "length (take off c) = off" by simp
  consider "i < off" | "off \<le> i" "i < off + n" | "off + n \<le> i" by linarith
  then show ?thesis
    by cases (use True in \<open>auto simp: byte_at_def zero_below_end_def nth_append len\<close>)
next
  case False
  then have "zero_below_end c off n = c" by (simp add: zero_below_end_def)
  then show ?thesis using False by (simp add: byte_at_def)
qed

lemma length_zero_below_end [simp]: "length (zero_below_end c off n) = length c"
  by (auto simp: zero_below_end_def)

lemma byte_at_eqI:
  assumes "length c = length d" "\<And>i. i < length c \<Longrightarrow> byte_at c i = byte_at d i"
  shows "c = d"
  using assms by (auto intro!: nth_equalityI simp: byte_at_def)

lemma next_outcome_simps [simp]:
  "next_outcome f = (r, f') \<Longrightarrow> content f' = content f"
  "next_outcome f = (r, f') \<Longrightarrow> fixedSize f' = fixedSize f"
  by (auto simp: next_outcome_def split: list.splits)

lemma next_outcome_quiet [simp]: "plan f = [] \<Longrightarrow> next_outcome f = (None, f)"
  by (simp add: next_outcome_def)

text \<open>However it ends, a write has stored a prefix of its buffer.\<close>

lemma WriteAt_prefix:
  assumes "WriteAt f off d = (f', r)"
  obtains k where "content f' = overwrite (content f) off (take k d)" "r \<Longrightarrow> take k d = d"
    "fixedSize f' = fixedSize f"
proof (cases "d = []")
  case True
  then show ?thesis using assms that [of 0] by (simp add: WriteAt_def overwrite_def)
next
  case False
  obtain x f1 where n: "next_outcome f = (x, f1)" by force
  show ?thesis
  proof (cases x)
    case None
    then show ?thesis
      using assms False n that [of "length (content f) - off"] that [of "length d"]
      by (auto simp: WriteAt_def split: if_splits)
  next
    case (Some k)
    then show ?thesis using assms False n that [of k] by (auto simp: WriteAt_def)
  qed
qed

lemma WriteAt_ok: "WriteAt f off d = (f', True) \<Longrightarrow> content f' = overwrite (content f) off d"
  by (erule WriteAt_prefix) simp

lemma WriteAt_frame:
  "WriteAt f off d = (f', r) \<Longrightarrow> \<not> (off \<le> i \<and> i < off + length d) \<Longrightarrow>
     byte_at (content f') i = byte_at (content f) i"
  by (erule WriteAt_prefix) (simp, linarith)

lemma WriteAt_mixed:
  "WriteAt f off d = (f', r) \<Longrightarrow> byte_at (content f') i = byte_at (content f) i \<or>
     (off \<le> i \<and> i < off + length d \<and> byte_at (content f') i = d ! (i - off))"
proof (erule WriteAt_prefix)
  fix k
  assume c: "content f' = overwrite (content f) off (take k d)"
  show ?thesis
  proof (cases "off \<le> i \<and> i < off + length (take k d)")
    case True
    then have "i - off < k" "i < off + length d" by auto
    then show ?thesis using True by (simp add: c)
  next
    case False
    then show ?thesis by (simp only: c byte_at_overwrite if_False simp_thms)
  qed
qed

lemma WriteAt_size:
  "WriteAt f off d = (f', r) \<Longrightarrow> off + length d \<le> length (content f) \<Longrightarrow>
     length (content f') = length (content f)"
  by (erule WriteAt_prefix) auto

lemma WriteAt_fixedSize: "WriteAt f off d = (f', r) \<Longrightarrow> fixedSize f' = fixedSize f"
  by (erule WriteAt_prefix)

lemma WriteAt_total:
  "plan f = [] \<Longrightarrow> off + length d \<le> length (content f) \<Longrightarrow>
     snd (WriteAt f off d) \<and> plan (fst (WriteAt f off d)) = []"
  by (auto simp: WriteAt_def)

subsection \<open>Both zeroing routines meet the contract\<close>

lemma IsAllZero_iff: "IsAllZero d \<longleftrightarrow> d = replicate (length d) 0"
  by (induction d) auto

lemma WriteZeros_loop_cases:
  assumes "0 < buf" "0 < n" "WriteZeros_loop buf f off n = (f', r)"
  obtains f1 r1 where "WriteAt f off (replicate (min buf n) 0) = (f1, r1)"
    "\<not> r1 \<Longrightarrow> f' = f1 \<and> \<not> r" "r1 \<Longrightarrow> WriteZeros_loop buf f1 (off + min buf n) (n - min buf n) = (f', r)"
proof -
  obtain f1 r1 where w: "WriteAt f off (replicate (min buf n) 0) = (f1, r1)" by force
  show ?thesis
    using assms w by (intro that [OF w]) (auto simp: WriteZeros_loop.simps [of buf f off n] Let_def)
qed

lemma WriteZeros_loop_done: "WriteZeros_loop buf f off 0 = (f, True)"
  by (simp add: WriteZeros_loop.simps)

lemma zero_effect_same: "content f' = content f \<Longrightarrow> fixedSize f' = fixedSize f \<Longrightarrow> r \<longrightarrow> n = 0 \<Longrightarrow>
    zero_effect f off n f' r"
  unfolding zero_effect_def by (metis add.right_neutral not_less)

lemma zero_effect_WriteAt:
  assumes "WriteAt f off (replicate k 0) = (f', r)"
  shows "zero_effect f off k f' r"
proof -
  have zero: "replicate k 0 ! (i - off) = 0" if "off \<le> i" "i < off + k" for i
    using that by (intro nth_replicate) linarith
  have "off \<le> i \<and> i < off + k \<or> byte_at (content f') i = byte_at (content f) i" for i
    using WriteAt_frame [OF assms] by fastforce
  moreover have "byte_at (content f') i = 0 \<or> byte_at (content f') i = byte_at (content f) i" for i
    using WriteAt_mixed [OF assms, of i] zero by (metis length_replicate)
  moreover have "byte_at (content f') i = 0" if "off \<le> i" "i < off + k" r for i
    using WriteAt_ok [of f off "replicate k 0" f'] assms that zero by simp
  moreover have "off + k \<le> length (content f) \<longrightarrow> length (content f') = length (content f)"
    using WriteAt_size [OF assms] by simp
  ultimately show ?thesis using WriteAt_fixedSize [OF assms] unfolding zero_effect_def by blast
qed

text \<open>Zeroing a range and then its continuation zeroes both; a failure of either is one of the whole.\<close>

lemma zero_effect_more: "zero_effect f off k f' False \<Longrightarrow> k \<le> n \<Longrightarrow> zero_effect f off n f' False"
proof -
  assume e: "zero_effect f off k f' False" and "k \<le> n"
  then have "i < off + n" if "i < off + k" for i using that by linarith
  moreover have "off + k \<le> length (content f)" if "off + n \<le> length (content f)" using that \<open>k \<le> n\<close> by linarith
  ultimately show ?thesis using e unfolding zero_effect_def by blast
qed

lemma zero_effect_trans:
  assumes "zero_effect f off k f1 True" "zero_effect f1 (off + k) m f' r"
  shows "zero_effect f off (k + m) f' r"
proof -
  have "off \<le> i \<and> i < off + (k + m) \<or> byte_at (content f') i = byte_at (content f) i" for i
    using assms unfolding zero_effect_def by (metis add.assoc add_leD1 le_add1 less_le_trans)
  moreover have "byte_at (content f') i = 0 \<or> byte_at (content f') i = byte_at (content f) i" for i
    using assms unfolding zero_effect_def by metis
  moreover have "byte_at (content f') i = 0" if "off \<le> i" "i < off + (k + m)" r for i
  proof (cases "i < off + k")
    case True
    then have "byte_at (content f') i = byte_at (content f1) i"
      using assms(2) unfolding zero_effect_def by (meson not_less)
    then show ?thesis using assms(1) that(1) True by (simp add: zero_effect_def)
  next
    case False
    then show ?thesis using assms(2) that by (simp add: zero_effect_def add.assoc)
  qed
  moreover have "off + (k + m) \<le> length (content f) \<longrightarrow> length (content f') = length (content f)"
    using assms by (simp add: zero_effect_def)
  ultimately show ?thesis using assms unfolding zero_effect_def by (simp add: add.assoc)
qed

lemma WriteZeros_loop_effect:
  assumes "0 < buf" "WriteZeros_loop buf f off n = (f', r)"
  shows "zero_effect f off n f' r"
  using assms
proof (induction n arbitrary: f off rule: less_induct)
  case (less n)
  show ?case
  proof (cases "n = 0")
    case True
    then show ?thesis using less.prems by (simp add: WriteZeros_loop_done zero_effect_same)
  next
    case False
    let ?k = "min buf n"
    obtain f1 r1 where w: "WriteAt f off (replicate ?k 0) = (f1, r1)"
      and no: "\<not> r1 \<Longrightarrow> f' = f1 \<and> \<not> r"
      and yes: "r1 \<Longrightarrow> WriteZeros_loop buf f1 (off + ?k) (n - ?k) = (f', r)"
      using False less.prems by (elim WriteZeros_loop_cases [rotated 2]) auto
    note first = zero_effect_WriteAt [OF w]
    show ?thesis
    proof (cases r1)
      case False
      then show ?thesis using no first zero_effect_more [of f off ?k f1 n] by simp
    next
      case True
      have "zero_effect f1 (off + ?k) (n - ?k) f' r"
        using less.IH [OF _ less.prems(1) yes [OF True]] \<open>n \<noteq> 0\<close> less.prems(1) by simp
      then show ?thesis using zero_effect_trans [of f off ?k f1 "n - ?k"] first True by simp
    qed
  qed
qed

lemma WriteZeros_loop_total:
  assumes "0 < buf" "plan f = []" "off + n \<le> length (content f)"
  shows "snd (WriteZeros_loop buf f off n) \<and> plan (fst (WriteZeros_loop buf f off n)) = []"
  using assms
proof (induction n arbitrary: f off rule: less_induct)
  case (less n)
  show ?case
  proof (cases "n = 0")
    case True
    then show ?thesis using less.prems by (simp add: WriteZeros_loop_done)
  next
    case False
    let ?k = "min buf n"
    obtain f1 r1 where w: "WriteAt f off (replicate ?k 0) = (f1, r1)" by force
    have ok: "r1" "plan f1 = []" using WriteAt_total [of f off "replicate ?k 0"] less.prems w by auto
    have "length (content f1) = length (content f)" using WriteAt_size [OF w] less.prems by simp
    then have "snd (WriteZeros_loop buf f1 (off + ?k) (n - ?k)) \<and>
        plan (fst (WriteZeros_loop buf f1 (off + ?k) (n - ?k))) = []"
      using less.IH [of "n - ?k" f1 "off + ?k"] False less.prems ok(2) by simp
    then show ?thesis using False less.prems(1) w ok(1) by (simp add: WriteZeros_loop.simps [of buf f off n] Let_def)
  qed
qed

text \<open>A call that may have zeroed part of the range, followed by \<^verbatim>\<open>WriteZeros\<close>.\<close>

lemma zero_effect_call:
  assumes "content f' = zero_below_end (content f) off k" "fixedSize f' = fixedSize f" "k \<le> n" "r \<longrightarrow> k = n"
  shows "zero_effect f off n f' r"
proof -
  have e: "zero_effect f off k f' r" for r using assms(1,2) by (simp add: zero_effect_def)
  show ?thesis
  proof (cases r)
    case True
    then show ?thesis using e assms(4) by simp
  next
    case False
    then show ?thesis using zero_effect_more [OF e assms(3)] by simp
  qed
qed

lemma fallback_effect:
  assumes "zero_effect f off n f1 False" "zero_effect f1 off n f' r"
  shows "zero_effect f off n f' r"
proof -
  have "off \<le> i \<and> i < off + n \<or> byte_at (content f') i = byte_at (content f) i" for i
    using assms unfolding zero_effect_def by metis
  moreover have "byte_at (content f') i = 0 \<or> byte_at (content f') i = byte_at (content f) i" for i
    using assms unfolding zero_effect_def by metis
  ultimately show ?thesis using assms unfolding zero_effect_def by simp
qed

lemma WriteZeros_one:
  assumes "0 < n" "n \<le> zeroBufSize"
  shows "WriteZeros f off n = WriteAt f off (replicate n 0)"
  using assms
  by (cases "WriteAt f off (replicate n 0)")
    (auto simp: WriteZeros_def WriteZeros_loop.simps [of zeroBufSize f off n] min_absorb2 WriteZeros_loop_done
      split: bool.splits)

lemma WriteZeros_effect: "WriteZeros f off n = (f', r) \<Longrightarrow> zero_effect f off n f' r"
  unfolding WriteZeros_def using WriteZeros_loop_effect [OF zeroBufSize_pos] .

lemma BLKZEROOUT_effect:
  assumes "BLKZEROOUT f off n = (f', r)"
  shows "zero_effect f off n f' r"
proof -
  obtain x f1 where n: "next_outcome f = (x, f1)" by force
  show ?thesis
  proof (cases x)
    case None
    then show ?thesis
      using assms n
      by (cases "length (content f) < off + n")
        (auto simp: BLKZEROOUT_def intro: zero_effect_same zero_effect_call [where k = n])
  next
    case (Some k)
    then show ?thesis
      using assms n by (intro zero_effect_call [of f' f off "min k n"]) (auto simp: BLKZEROOUT_def)
  qed
qed

lemma PunchHole_effect:
  assumes "PunchHole f off n = (f', r)"
  shows "zero_effect f off n f' r"
proof -
  obtain x f1 where n: "next_outcome f = (x, f1)" by force
  show ?thesis
  proof (cases x)
    case None
    then show ?thesis
      using assms n
      by (cases "n = 0") (auto simp: PunchHole_def intro: zero_effect_same zero_effect_call [where k = n])
  next
    case (Some k)
    then show ?thesis
      using assms n by (intro zero_effect_call [of f' f off "min k n"]) (auto simp: PunchHole_def)
  qed
qed

interpretation rz: zeroing rbd_zeroRange
proof
  fix f off n f' r
  show "zero_effect f off n f' r" if "rbd_zeroRange f off n = (f', r)"
    using that BLKZEROOUT_effect [of f off n] fallback_effect [of f off n] WriteZeros_effect [of _ off n]
    by (auto simp: rbd_zeroRange_def split: prod.splits bool.splits)
  show "snd (rbd_zeroRange f off n) \<and> plan (fst (rbd_zeroRange f off n)) = []"
    if "plan f = []" "off + n \<le> length (content f)"
    using that by (simp add: rbd_zeroRange_def BLKZEROOUT_def)
qed

interpretation cz: zeroing cephfs_zeroRange
proof
  fix f off n f' r
  show "zero_effect f off n f' r" if "cephfs_zeroRange f off n = (f', r)"
    using that PunchHole_effect [of f off n] fallback_effect [of f off n] WriteZeros_effect [of _ off n]
    by (auto simp: cephfs_zeroRange_def split: prod.splits bool.splits)
  show "snd (cephfs_zeroRange f off n) \<and> plan (fst (cephfs_zeroRange f off n)) = []"
    if "plan f = []" "off + n \<le> length (content f)"
    using that by (auto simp: cephfs_zeroRange_def PunchHole_def WriteZeros_def WriteZeros_loop_done)
qed

subsection \<open>Correctness\<close>

text \<open>
  The RBD \<^verbatim>\<open>zeroRange\<close> clears exactly its range.  Whatever faults the kernel calls meet, bytes
  outside the range are untouched and a range on the device keeps the device's size; when the
  call returns success, by the ioctl or by the fallback that writes zeros piece by piece, every
  byte of the range is zero; and without faults it does succeed.
\<close>

theorem rbd_zeroRange_correct:
  assumes "off + n \<le> length (content f)" "rbd_zeroRange f off n = (f', ok)"
  shows "length (content f') = length (content f) \<and>
    (\<forall>i < length (content f). content f' ! i =
       (if off \<le> i \<and> i < off + n then (if ok then 0 else content f' ! i) else content f ! i)) \<and>
    (plan f = [] \<longrightarrow> ok)"
proof (intro conjI allI impI)
  show len: "length (content f') = length (content f)" using rz.zr_size [OF assms(2,1)] .
  fix i assume "i < length (content f)"
  then have at: "content f' ! i = byte_at (content f') i" "content f ! i = byte_at (content f) i"
    using len by (simp_all add: byte_at_def)
  show "content f' ! i =
       (if off \<le> i \<and> i < off + n then (if ok then 0 else content f' ! i) else content f ! i)"
  proof (cases "off \<le> i \<and> i < off + n")
    case True
    then have "ok \<Longrightarrow> byte_at (content f') i = 0" using rz.zr_ok [of f off n f' i] assms(2) by simp
    then show ?thesis using at True by simp
  next
    case False
    then show ?thesis unfolding at if_not_P [OF False] by (intro rz.zr_frame [OF assms(2)])
  qed
next
  show ok if "plan f = []" using rz.zr_total [OF that assms(1)] assms(2) by simp
qed

lemma sample_dev_zeroed:
  "rbd_zeroRange sample_dev 2 3 = (\<lparr>content = [1, 2, 0, 0, 0, 6, 7, 8], fixedSize = True, plan = []\<rparr>, True)"
proof -
  have "WriteZeros \<lparr>content = [1, 2, 0, 0, 5, 6, 7, 8], fixedSize = True, plan = []\<rparr> 2 3 =
      (\<lparr>content = [1, 2, 0, 0, 0, 6, 7, 8], fixedSize = True, plan = []\<rparr>, True)"
    by (simp add: WriteZeros_one zeroBufSize_def WriteAt_def overwrite_def numeral_3_eq_3)
  then show ?thesis
    by (simp add: rbd_zeroRange_def BLKZEROOUT_def sample_dev_def next_outcome_def zero_below_end_def numeral_2_eq_2)
qed

theorem rbd_zeroRange_correct_witness:
  "content (fst (rbd_zeroRange sample_dev 2 3)) ! 4 = 0 \<and> content (fst (rbd_zeroRange sample_dev 2 3)) ! 5 = 6"
proof -
  have "2 + 3 \<le> length (content sample_dev)" by (simp add: sample_dev_def)
  note zr = rbd_zeroRange_correct [OF this sample_dev_zeroed]
  have "length (content sample_dev) = 8" "content sample_dev ! 5 = 6" by (simp_all add: sample_dev_def)
  then show ?thesis using zr sample_dev_zeroed by simp
qed

end
