(* ===== verification/Csi_Config.thy ===== *)
theory Csi_Config
  imports Prelude
begin

section \<open>The Ceph CSI configuration (internal/ceph/config/csiconfig.go)\<close>

text \<open>
  Lookup of a cluster in the CSI configuration.  Reading the file and decoding the JSON are library
  calls: their results are the arguments \<^verbatim>\<open>readFile\<close> and \<^verbatim>\<open>unmarshal\<close>.
\<close>

record ClusterInfo =
  ClusterID :: string
  Monitors :: "string list"
  RbdRadosNamespace :: string
  RbdSecretName :: string
  RbdSecretNamespace :: string
  CephFSRadosNamespace :: string
  CephFSSubvolGroup :: string
  CephFSSecretName :: string
  CephFSSecretNamespace :: string

datatype csi_error = ReadFileFailed | UnmarshalFailed | ErrConfigNotFound string | EmptyMonitors | ErrClusterIDNotSet

type_synonym unmarshal = "bytes \<Rightarrow> ClusterInfo list option"
type_synonym readFile = "path \<Rightarrow> bytes option"

definition defaultCsiSubvolumeGroup :: string where "defaultCsiSubvolumeGroup = ''csi''"
definition defaultCsiCephFSRadosNamespace :: string where "defaultCsiCephFSRadosNamespace = ''csi''"
definition CsiConfigFile :: path where "CsiConfigFile = ''/etc/ceph-csi-config/config.json''"
definition ClusterIDKey :: string where "ClusterIDKey = ''clusterID''"

fun find_cluster :: "ClusterInfo list \<Rightarrow> string \<Rightarrow> csi_error + ClusterInfo" where
  "find_cluster [] cid = Inl (ErrConfigNotFound cid)"
| "find_cluster (c # cs) cid = (if ClusterID c = cid then Inr c else find_cluster cs cid)"

definition ReadClusterInfoFromData :: "unmarshal \<Rightarrow> bytes \<Rightarrow> string \<Rightarrow> csi_error + ClusterInfo" where
  "ReadClusterInfoFromData um data cid =
     (case um data of None \<Rightarrow> Inl UnmarshalFailed | Some cfg \<Rightarrow> find_cluster cfg cid)"

definition readClusterInfo :: "readFile \<Rightarrow> unmarshal \<Rightarrow> path \<Rightarrow> string \<Rightarrow> csi_error + ClusterInfo" where
  "readClusterInfo rf um p cid =
     (case rf p of None \<Rightarrow> Inl ReadFileFailed | Some data \<Rightarrow> ReadClusterInfoFromData um data cid)"

text \<open>\<^verbatim>\<open>strings.Join\<close> with a comma.\<close>

fun join_comma :: "string list \<Rightarrow> string" where
  "join_comma [] = []"
| "join_comma [x] = x"
| "join_comma (x # xs) = x @ '','' @ join_comma xs"

definition Mons :: "readFile \<Rightarrow> unmarshal \<Rightarrow> path \<Rightarrow> string \<Rightarrow> csi_error + string" where
  "Mons rf um p cid =
     (case readClusterInfo rf um p cid of
        Inl e \<Rightarrow> Inl e
      | Inr c \<Rightarrow> if length (Monitors c) = 0 then Inl EmptyMonitors else Inr (join_comma (Monitors c)))"

definition GetRBDRadosNamespace :: "readFile \<Rightarrow> unmarshal \<Rightarrow> path \<Rightarrow> string \<Rightarrow> csi_error + string" where
  "GetRBDRadosNamespace rf um p cid =
     (case readClusterInfo rf um p cid of Inl e \<Rightarrow> Inl e | Inr c \<Rightarrow> Inr (RbdRadosNamespace c))"

definition GetCephFSRadosNamespace :: "readFile \<Rightarrow> unmarshal \<Rightarrow> path \<Rightarrow> string \<Rightarrow> csi_error + string" where
  "GetCephFSRadosNamespace rf um p cid =
     (case readClusterInfo rf um p cid of
        Inl e \<Rightarrow> Inl e
      | Inr c \<Rightarrow> if CephFSRadosNamespace c = '''' then Inr defaultCsiCephFSRadosNamespace
                 else Inr (CephFSRadosNamespace c))"

definition CephFSSubvolumeGroup :: "readFile \<Rightarrow> unmarshal \<Rightarrow> path \<Rightarrow> string \<Rightarrow> csi_error + string" where
  "CephFSSubvolumeGroup rf um p cid =
     (case readClusterInfo rf um p cid of
        Inl e \<Rightarrow> Inl e
      | Inr c \<Rightarrow> if CephFSSubvolGroup c = '''' then Inr defaultCsiSubvolumeGroup
                 else Inr (CephFSSubvolGroup c))"

definition GetClusterID :: "(string \<rightharpoonup> string) \<Rightarrow> csi_error + string" where
  "GetClusterID opts = (case opts ClusterIDKey of None \<Rightarrow> Inl ErrClusterIDNotSet | Some cid \<Rightarrow> Inr cid)"

definition GetRBDControllerPublishSecretRef ::
  "readFile \<Rightarrow> unmarshal \<Rightarrow> path \<Rightarrow> string \<Rightarrow> csi_error + string \<times> string" where
  "GetRBDControllerPublishSecretRef rf um p cid =
     (case readClusterInfo rf um p cid of Inl e \<Rightarrow> Inl e | Inr c \<Rightarrow> Inr (RbdSecretName c, RbdSecretNamespace c))"

definition GetCephFSControllerPublishSecretRef ::
  "readFile \<Rightarrow> unmarshal \<Rightarrow> path \<Rightarrow> string \<Rightarrow> csi_error + string \<times> string" where
  "GetCephFSControllerPublishSecretRef rf um p cid =
     (case readClusterInfo rf um p cid of Inl e \<Rightarrow> Inl e | Inr c \<Rightarrow> Inr (CephFSSecretName c, CephFSSecretNamespace c))"

definition GetRBDControllerPublishSecretRefFromData :: "unmarshal \<Rightarrow> bytes \<Rightarrow> string \<Rightarrow> csi_error + string \<times> string" where
  "GetRBDControllerPublishSecretRefFromData um data cid =
     (case ReadClusterInfoFromData um data cid of Inl e \<Rightarrow> Inl e | Inr c \<Rightarrow> Inr (RbdSecretName c, RbdSecretNamespace c))"

definition GetCephFSControllerPublishSecretRefFromData :: "unmarshal \<Rightarrow> bytes \<Rightarrow> string \<Rightarrow> csi_error + string \<times> string" where
  "GetCephFSControllerPublishSecretRefFromData um data cid =
     (case ReadClusterInfoFromData um data cid of Inl e \<Rightarrow> Inl e | Inr c \<Rightarrow> Inr (CephFSSecretName c, CephFSSecretNamespace c))"

lemma find_cluster_first:
  "find_cluster cfg cid = Inr c \<longleftrightarrow>
     (\<exists>xs ys. cfg = xs @ c # ys \<and> ClusterID c = cid \<and> cid \<notin> ClusterID ` set xs)"
proof (induction cfg)
  case (Cons a cfg)
  show ?case
  proof (cases "ClusterID a = cid")
    case True
    then show ?thesis by (auto simp: Cons_eq_append_conv)
  next
    case False
    show ?thesis (is "_ \<longleftrightarrow> ?R (a # cfg)")
    proof -
      have "?R (a # cfg)" if "?R cfg"
      proof -
        obtain xs ys where "cfg = xs @ c # ys" "ClusterID c = cid" "cid \<notin> ClusterID ` set xs" using \<open>?R cfg\<close> by blast
        then have "a # cfg = (a # xs) @ c # ys \<and> ClusterID c = cid \<and> cid \<notin> ClusterID ` set (a # xs)" using False by auto
        then show ?thesis by blast
      qed
      moreover have "?R (a # cfg) \<Longrightarrow> ?R cfg" using False by (auto simp: Cons_eq_append_conv)
      ultimately show ?thesis using False Cons.IH by auto
    qed
  qed
qed simp

text \<open>
  A lookup returns the first entry for the cluster id: the monitor list is returned exactly when
  the file can be read and decoded, it has an entry for the id, and the first such entry has
  monitors; the CephFS subvolume group and namespace are never empty; and the secret reference
  read from the file is the one read from the file's contents.
\<close>

theorem csi_config_lookup:
  "(Mons rf um p cid = Inr m \<longleftrightarrow>
      (\<exists>data xs c ys. rf p = Some data \<and> um data = Some (xs @ c # ys) \<and> ClusterID c = cid \<and>
         cid \<notin> ClusterID ` set xs \<and> Monitors c \<noteq> [] \<and> m = join_comma (Monitors c))) \<and>
   CephFSSubvolumeGroup rf um p cid \<noteq> Inr '''' \<and> GetCephFSRadosNamespace rf um p cid \<noteq> Inr '''' \<and>
   GetRBDControllerPublishSecretRef rf um p cid =
     (case rf p of None \<Rightarrow> Inl ReadFileFailed | Some data \<Rightarrow> GetRBDControllerPublishSecretRefFromData um data cid)"
proof (intro conjI)
  show "Mons rf um p cid = Inr m \<longleftrightarrow>
      (\<exists>data xs c ys. rf p = Some data \<and> um data = Some (xs @ c # ys) \<and> ClusterID c = cid \<and>
         cid \<notin> ClusterID ` set xs \<and> Monitors c \<noteq> [] \<and> m = join_comma (Monitors c))"
  proof -
    have "Mons rf um p cid = Inr m \<longleftrightarrow>
        (\<exists>data cfg c. rf p = Some data \<and> um data = Some cfg \<and> find_cluster cfg cid = Inr c \<and>
           Monitors c \<noteq> [] \<and> m = join_comma (Monitors c))"
      by (auto simp: Mons_def readClusterInfo_def ReadClusterInfoFromData_def split: option.splits sum.splits if_splits)
    then show ?thesis unfolding find_cluster_first by blast
  qed
qed (auto simp: CephFSSubvolumeGroup_def GetCephFSRadosNamespace_def defaultCsiSubvolumeGroup_def
    defaultCsiCephFSRadosNamespace_def GetRBDControllerPublishSecretRef_def readClusterInfo_def
    GetRBDControllerPublishSecretRefFromData_def split: sum.splits option.splits)

end
