(* ===== verification/Pipeline_Config.thy ===== *)
theory Pipeline_Config
  imports Prelude
begin

section \<open>The pipeline's parameters (internal/worker/pipeline/config.go)\<close>

text \<open>
  \<^verbatim>\<open>Config\<close>, the defaults for fields left at zero, and the checks \<^verbatim>\<open>Pipeline.Run\<close> makes before it
  starts.  The theorems say which configurations pass after the defaults are filled in, and that
  filling in defaults is idempotent and keeps every value that was given.
\<close>

record Config =
  MaxRawMemoryBytes :: int
  MaxWindow :: int
  ReadWorkers :: int
  DataSendWorkers :: int
  DataBatchMaxCount :: int
  DataBatchMaxBytes :: int
  ChunkSize :: int
  ReadChanBuf :: int

definition defaultChunkSize :: int where "defaultChunkSize = 16 * 1024 * 1024"
definition minChunkSize :: int where "minChunkSize = 64 * 1024"
definition maxChunkSize :: int where "maxChunkSize = 16 * 1024 * 1024"
definition minMaxWindow :: int where "minMaxWindow = 8"
definition maxMaxWindow :: int where "maxMaxWindow = 4096"
definition minReadWorkers :: int where "minReadWorkers = 2"
definition minDataSendWorkers :: int where "minDataSendWorkers = 1"
definition maxDataSendWorkers :: int where "maxDataSendWorkers = 16"
definition minBatchCount :: int where "minBatchCount = 4"
definition maxBatchCount :: int where "maxBatchCount = 256"

lemmas config_consts = defaultChunkSize_def minChunkSize_def maxChunkSize_def minMaxWindow_def maxMaxWindow_def
  minReadWorkers_def minDataSendWorkers_def maxDataSendWorkers_def minBatchCount_def maxBatchCount_def

text \<open>The assignments run in order; the last one reads the \<^verbatim>\<open>ReadWorkers\<close> set before it.\<close>

definition SetDefaults :: "Config \<Rightarrow> Config" where
  "SetDefaults c0 =
     (let c1 = (if ChunkSize c0 = 0 then c0\<lparr>ChunkSize := defaultChunkSize\<rparr> else c0);
          c2 = (if ReadWorkers c1 = 0 then c1\<lparr>ReadWorkers := 8\<rparr> else c1);
          c3 = (if DataSendWorkers c2 = 0 then c2\<lparr>DataSendWorkers := 8\<rparr> else c2);
          c4 = (if MaxWindow c3 = 0 then c3\<lparr>MaxWindow := 1024\<rparr> else c3);
          c5 = (if MaxRawMemoryBytes c4 = 0 then c4\<lparr>MaxRawMemoryBytes := 1024 * 1024 * 1024\<rparr> else c4);
          c6 = (if DataBatchMaxCount c5 = 0 then c5\<lparr>DataBatchMaxCount := 16\<rparr> else c5);
          c7 = (if DataBatchMaxBytes c6 = 0 then c6\<lparr>DataBatchMaxBytes := 16 * 1024 * 1024\<rparr> else c6)
      in if ReadChanBuf c7 = 0 then c7\<lparr>ReadChanBuf := ReadWorkers c7 * 2\<rparr> else c7)"

datatype config_error =
  ChunkSizeOutside | ChunkSizeOverMemory | MaxWindowOutside | TooFewReadWorkers |
  DataSendWorkersOutside | DataBatchMaxCountOutside

definition validate :: "Config \<Rightarrow> config_error option" where
  "validate c =
     (if ChunkSize c < minChunkSize \<or> ChunkSize c > maxChunkSize then Some ChunkSizeOutside
      else if ChunkSize c > MaxRawMemoryBytes c then Some ChunkSizeOverMemory
      else if MaxWindow c < minMaxWindow \<or> MaxWindow c > maxMaxWindow then Some MaxWindowOutside
      else if ReadWorkers c < minReadWorkers then Some TooFewReadWorkers
      else if DataSendWorkers c < minDataSendWorkers \<or> DataSendWorkers c > maxDataSendWorkers
      then Some DataSendWorkersOutside
      else if DataBatchMaxCount c < minBatchCount \<or> DataBatchMaxCount c > maxBatchCount
      then Some DataBatchMaxCountOutside
      else None)"

text \<open>The configuration the RBD source worker passes (internal/worker/rbd/source.go).\<close>

definition zero_config :: Config where
  "zero_config = \<lparr>MaxRawMemoryBytes = 0, MaxWindow = 0, ReadWorkers = 0, DataSendWorkers = 0,
     DataBatchMaxCount = 0, DataBatchMaxBytes = 0, ChunkSize = 0, ReadChanBuf = 0\<rparr>"

definition rbd_config :: Config where
  "rbd_config = SetDefaults (zero_config\<lparr>ReadWorkers := 16, MaxWindow := 256\<rparr>)"

subsection \<open>Correctness\<close>

lemma SetDefaults_fields [simp]:
  "ChunkSize (SetDefaults c) = (if ChunkSize c = 0 then defaultChunkSize else ChunkSize c)"
  "ReadWorkers (SetDefaults c) = (if ReadWorkers c = 0 then 8 else ReadWorkers c)"
  "DataSendWorkers (SetDefaults c) = (if DataSendWorkers c = 0 then 8 else DataSendWorkers c)"
  "MaxWindow (SetDefaults c) = (if MaxWindow c = 0 then 1024 else MaxWindow c)"
  "MaxRawMemoryBytes (SetDefaults c) = (if MaxRawMemoryBytes c = 0 then 1024 * 1024 * 1024 else MaxRawMemoryBytes c)"
  "DataBatchMaxCount (SetDefaults c) = (if DataBatchMaxCount c = 0 then 16 else DataBatchMaxCount c)"
  "DataBatchMaxBytes (SetDefaults c) = (if DataBatchMaxBytes c = 0 then 16 * 1024 * 1024 else DataBatchMaxBytes c)"
  "ReadChanBuf (SetDefaults c) = (if ReadChanBuf c = 0 then (if ReadWorkers c = 0 then 16 else ReadWorkers c * 2) else ReadChanBuf c)"
  by (simp_all add: SetDefaults_def Let_def)

lemma validate_None_iff:
  "validate c = None \<longleftrightarrow> ChunkSize c \<in> {minChunkSize..maxChunkSize} \<and> ChunkSize c \<le> MaxRawMemoryBytes c \<and>
     MaxWindow c \<in> {minMaxWindow..maxMaxWindow} \<and> minReadWorkers \<le> ReadWorkers c \<and>
     DataSendWorkers c \<in> {minDataSendWorkers..maxDataSendWorkers} \<and>
     DataBatchMaxCount c \<in> {minBatchCount..maxBatchCount}"
  by (simp add: validate_def not_less)

text \<open>
  A configuration passes the pipeline's checks after the defaults are filled in exactly when
  every field that was given lies in its range and a chunk fits the memory budget; the
  all-default configuration and the one of the RBD worker pass, and filling in defaults a
  second time, as \<^verbatim>\<open>Pipeline.Run\<close> does, changes nothing.
\<close>

theorem validate_SetDefaults_iff:
  "(validate (SetDefaults c) = None \<longleftrightarrow>
      ChunkSize c \<in> insert 0 {minChunkSize..maxChunkSize} \<and>
      (if ChunkSize c = 0 then defaultChunkSize else ChunkSize c) \<le>
        (if MaxRawMemoryBytes c = 0 then 1024 * 1024 * 1024 else MaxRawMemoryBytes c) \<and>
      MaxWindow c \<in> insert 0 {minMaxWindow..maxMaxWindow} \<and>
      (ReadWorkers c = 0 \<or> minReadWorkers \<le> ReadWorkers c) \<and>
      DataSendWorkers c \<in> insert 0 {minDataSendWorkers..maxDataSendWorkers} \<and>
      DataBatchMaxCount c \<in> insert 0 {minBatchCount..maxBatchCount}) \<and>
   validate (SetDefaults zero_config) = None \<and> validate rbd_config = None \<and>
   SetDefaults (SetDefaults c) = SetDefaults c"
proof (intro conjI)
  show "validate (SetDefaults c) = None \<longleftrightarrow>
      ChunkSize c \<in> insert 0 {minChunkSize..maxChunkSize} \<and>
      (if ChunkSize c = 0 then defaultChunkSize else ChunkSize c) \<le>
        (if MaxRawMemoryBytes c = 0 then 1024 * 1024 * 1024 else MaxRawMemoryBytes c) \<and>
      MaxWindow c \<in> insert 0 {minMaxWindow..maxMaxWindow} \<and>
      (ReadWorkers c = 0 \<or> minReadWorkers \<le> ReadWorkers c) \<and>
      DataSendWorkers c \<in> insert 0 {minDataSendWorkers..maxDataSendWorkers} \<and>
      DataBatchMaxCount c \<in> insert 0 {minBatchCount..maxBatchCount}"
    unfolding validate_None_iff SetDefaults_fields
    by (intro arg_cong2 [where f = "(\<and>)"]) (auto simp: config_consts)
  show "SetDefaults (SetDefaults c) = SetDefaults c"
    by (intro Config.equality) (auto simp: defaultChunkSize_def)
qed (simp_all add: validate_def rbd_config_def zero_config_def config_consts)

end
