(* ===== verification/Feeder.thy ===== *)
theory Feeder
  imports Prelude
begin

section \<open>Block iterators and the feeder (internal/worker/pipeline/pipeline.go)\<close>

text \<open>
  The blocks an iterator yields, the chunks of the pipeline's first channel
  (internal/worker/pipeline/chunk.go), the \<^verbatim>\<open>BlockIterator\<close> interface as a locale, and its client,
  the \<^verbatim>\<open>feeder\<close>: it forwards every block in order, the request ids it sends are consecutive, and it
  reaches the end of the iterator when it is not cancelled.
\<close>

record ChangeBlock =
  cbFilePath :: path
  cbOffset :: int
  cbLen :: int
  cbReqID :: u64
  cbTotalSize :: int
  cbIsZero :: bool

record Chunk =
  chReqID :: u64
  chFilePath :: path
  chOffset :: int
  chLength :: int
  chTotalSize :: int
  chIsZero :: bool

definition to_chunk :: "ChangeBlock \<Rightarrow> Chunk" where
  "to_chunk b = \<lparr>chReqID = cbReqID b, chFilePath = cbFilePath b, chOffset = cbOffset b,
     chLength = cbLen b, chTotalSize = cbTotalSize b, chIsZero = cbIsZero b\<rparr>"

text \<open>
  The feeder sends every block it gets until the iterator is exhausted or, after the given number
  of sends, its context is cancelled.  The flag tells whether it returned without an error.
\<close>

fun feeder :: "('s \<Rightarrow> 's \<times> ChangeBlock option) \<Rightarrow> nat \<Rightarrow> 's \<Rightarrow> Chunk list \<times> bool \<times> 's" where
  "feeder nxt n s =
     (case nxt s of
        (s', None) \<Rightarrow> ([], True, s')
      | (s', Some b) \<Rightarrow>
          (case n of
             0 \<Rightarrow> ([], False, s')
           | Suc m \<Rightarrow> (case feeder nxt m s' of (cs, ok, s'') \<Rightarrow> (to_chunk b # cs, ok, s''))))"

declare feeder.simps [simp del]

lemma feeder_end: "nxt s = (s', None) \<Longrightarrow> feeder nxt n s = ([], True, s')"
  by (simp add: feeder.simps [of nxt n s])

lemma feeder_cancel: "nxt s = (s', Some b) \<Longrightarrow> feeder nxt 0 s = ([], False, s')"
  by (simp add: feeder.simps [of nxt 0 s])

lemma feeder_send:
  "nxt s = (s', Some b) \<Longrightarrow>
     feeder nxt (Suc n) s = (case feeder nxt n s' of (cs, ok, s'') \<Rightarrow> (to_chunk b # cs, ok, s''))"
  by (simp add: feeder.simps [of nxt "Suc n" s])

text \<open>A feeder that reached the end would do the same with more sends.\<close>

lemma feeder_more: "feeder nxt n s = (cs, True, s') \<Longrightarrow> feeder nxt (n + k) s = (cs, True, s')"
proof (induction n arbitrary: s cs)
  case 0
  obtain s1 r where "nxt s = (s1, r)" by force
  then show ?case using 0 by (cases r) (auto simp: feeder_end feeder_cancel)
next
  case (Suc n)
  obtain s1 r where r: "nxt s = (s1, r)" by force
  then show ?case using Suc by (cases r) (auto simp: feeder_end feeder_send split: prod.splits)
qed

text \<open>What the pipeline expects of a block iterator: consecutive request ids, and an end.\<close>

locale block_iterator =
  fixes nxt :: "'s \<Rightarrow> 's \<times> ChangeBlock option"
    and nid :: "'s \<Rightarrow> u64"
    and before :: "('s \<times> 's) set"
  assumes next_id: "nxt s = (s', Some b) \<Longrightarrow> cbReqID b = nid s \<and> nid s' = nid s + 1"
    and next_wf: "wf before"
    and next_before: "nxt s = (s', Some b) \<Longrightarrow> (s', s) \<in> before"
begin

lemma feeder_ids:
  "feeder nxt n s = (cs, ok, s') \<Longrightarrow> map chReqID cs = map (\<lambda>k. nid s + of_nat k) [0..<length cs]"
proof (induction n arbitrary: s cs)
  case 0
  obtain s1 r where "nxt s = (s1, r)" by force
  then show ?case using 0 by (cases r) (auto simp: feeder_end feeder_cancel)
next
  case (Suc n)
  obtain s1 r where r: "nxt s = (s1, r)" by force
  show ?case
  proof (cases r)
    case None
    then show ?thesis using Suc.prems r by (simp add: feeder_end)
  next
    case (Some b)
    then obtain cs1 where b: "feeder nxt n s1 = (cs1, ok, s')" "cs = to_chunk b # cs1"
      using Suc.prems r by (auto simp: feeder_send split: prod.splits)
    have "map (\<lambda>k. nid s1 + of_nat k) [0..<length cs1] = map (\<lambda>k. nid s + of_nat k) [1..<Suc (length cs1)]"
      using next_id r Some by (intro nth_equalityI) (auto simp: ac_simps simp del: upt_Suc)
    then show ?thesis
      using Suc.IH [OF b(1)] b(2) next_id r Some
      by (simp add: to_chunk_def upt_conv_Cons del: upt_Suc)
  qed
qed

lemma feeder_completes: "\<exists>n cs s'. \<forall>m \<ge> n. feeder nxt m s = (cs, True, s')"
  using next_wf
proof (induction s rule: wf_induct_rule)
  case (less s)
  obtain s1 r where r: "nxt s = (s1, r)" by force
  show ?case
  proof (cases r)
    case None
    then have "feeder nxt m s = ([], True, s1)" for m using r by (simp add: feeder_end)
    then show ?thesis by blast
  next
    case (Some b)
    then have "(s1, s) \<in> before" using next_before r by blast
    then obtain n cs s' where ih: "\<forall>m \<ge> n. feeder nxt m s1 = (cs, True, s')" using less by blast
    have "feeder nxt m s = (to_chunk b # cs, True, s')" if "m \<ge> Suc n" for m
      using that ih r Some by (cases m) (simp_all add: feeder_send)
    then show ?thesis by blast
  qed
qed

end

end
