(* ===== verification/Rbd_Iter.thy ===== *)
theory Rbd_Iter
  imports Feeder
begin

section \<open>The RBD block iterator (internal/worker/rbd/source.go)\<close>

text \<open>
  \<^verbatim>\<open>rbdIterAdapter\<close> turns the extents of an RBD diff into the numbered blocks the pipeline
  transfers: it splits long extents into pieces of \<^verbatim>\<open>chunkSize\<close>, drops what overlaps an earlier
  extent, and, for a full diff, inserts zero blocks for the gaps.  The extents the Ceph library
  reports are the list \<^verbatim>\<open>iter\<close>, an input of the model.
\<close>

subsection \<open>The adapter\<close>

definition DevicePath :: path where
  "DevicePath = ''/dev/block''"

record diffBlock =
  dbOffset :: int
  dbLen :: int

record rbdIterAdapter =
  iter :: "diffBlock list"
  reqID :: u64
  totalSize :: int
  chunkSize :: int
  isFullDiff :: bool
  currentPos :: int
  remOffset :: int
  remLen :: int
  remIsZero :: bool
  hasRem :: bool
  pendingOffset :: int
  pendingLen :: int
  hasPending :: bool
  iterDone :: bool

definition newAdapter :: "diffBlock list \<Rightarrow> int \<Rightarrow> int \<Rightarrow> bool \<Rightarrow> rbdIterAdapter" where
  "newAdapter es tot cs full =
     \<lparr>iter = es, reqID = 0, totalSize = tot, chunkSize = cs, isFullDiff = full, currentPos = 0,
      remOffset = 0, remLen = 0, remIsZero = False, hasRem = False,
      pendingOffset = 0, pendingLen = 0, hasPending = False, iterDone = False\<rparr>"

definition set_rem :: "int \<Rightarrow> int \<Rightarrow> bool \<Rightarrow> rbdIterAdapter \<Rightarrow> rbdIterAdapter" where
  "set_rem off len z a = a\<lparr>remOffset := off, remLen := len, remIsZero := z, hasRem := True\<rparr>"

text \<open>The loop of \<^verbatim>\<open>loadNext\<close>, which takes extents from the diff until one yields a remainder.\<close>

fun load_loop :: "rbdIterAdapter \<Rightarrow> diffBlock list \<Rightarrow> rbdIterAdapter \<times> bool" where
  "load_loop a [] =
     (let a = a\<lparr>iter := [], iterDone := True\<rparr> in
      if isFullDiff a \<and> currentPos a < totalSize a
      then (set_rem (currentPos a) (totalSize a - currentPos a) True a, True)
      else (a, False))"
| "load_loop a (cb # es) =
     (let a = a\<lparr>iter := es\<rparr> in
      if isFullDiff a \<and> dbOffset cb > currentPos a
      then (set_rem (currentPos a) (dbOffset cb - currentPos a) True
              (a\<lparr>pendingOffset := dbOffset cb, pendingLen := dbLen cb, hasPending := True\<rparr>), True)
      else if dbOffset cb < currentPos a
      then let overlap = currentPos a - dbOffset cb in
           if overlap \<ge> dbLen cb then load_loop a es
           else (set_rem (dbOffset cb + overlap) (dbLen cb - overlap) False a, True)
      else (set_rem (dbOffset cb) (dbLen cb) False a, True))"

definition loadNext :: "rbdIterAdapter \<Rightarrow> rbdIterAdapter \<times> bool" where
  "loadNext a =
     (if hasPending a
      then ((set_rem (pendingOffset a) (pendingLen a) False a)\<lparr>hasPending := False\<rparr>, True)
      else if iterDone a then (a, False)
      else load_loop a (iter a))"

definition emitFromRemainder :: "rbdIterAdapter \<Rightarrow> rbdIterAdapter \<times> ChangeBlock" where
  "emitFromRemainder a =
     (let emitLen = (if chunkSize a > 0 \<and> remLen a > chunkSize a then chunkSize a else remLen a);
          off = remOffset a;
          b = \<lparr>cbFilePath = DevicePath, cbOffset = off, cbLen = emitLen, cbReqID = reqID a,
               cbTotalSize = totalSize a, cbIsZero = remIsZero a\<rparr>
      in (a\<lparr>reqID := reqID a + 1, remOffset := remOffset a + emitLen, remLen := remLen a - emitLen,
            hasRem := (if remLen a - emitLen \<le> 0 then False else hasRem a),
            currentPos := off + emitLen\<rparr>, b))"

definition rbd_Next :: "rbdIterAdapter \<Rightarrow> rbdIterAdapter \<times> ChangeBlock option" where
  "rbd_Next a =
     (if hasRem a then (case emitFromRemainder a of (a', b) \<Rightarrow> (a', Some b))
      else case loadNext a of
          (a1, False) \<Rightarrow> (a1, None)
        | (a1, True) \<Rightarrow> (case emitFromRemainder a1 of (a', b) \<Rightarrow> (a', Some b)))"

subsection \<open>The iterator ends\<close>

definition rank :: "rbdIterAdapter \<Rightarrow> nat \<times> nat \<times> nat" where
  "rank a = (length (iter a) + (if iterDone a then 0 else 1), (if hasPending a then 1 else 0),
             (if hasRem a then Suc (nat (remLen a)) else 0))"

definition before_rel :: "(rbdIterAdapter \<times> rbdIterAdapter) set" where
  "before_rel = inv_image (less_than <*lex*> less_than <*lex*> less_than) rank"

lemma wf_before: "wf before_rel"
  by (auto simp: before_rel_def intro!: wf_inv_image)

lemma load_loop_keeps:
  "load_loop a es = (a', ok) \<Longrightarrow> reqID a' = reqID a \<and> chunkSize a' = chunkSize a \<and>
     totalSize a' = totalSize a \<and> isFullDiff a' = isFullDiff a \<and> currentPos a' = currentPos a \<and>
     (ok \<longrightarrow> hasRem a') \<and>
     (\<not> iterDone a \<longrightarrow> length (iter a') + (if iterDone a' then 0 else 1) < Suc (length es))"
proof (induction a es rule: load_loop.induct)
  case (1 a)
  then show ?case by (auto simp: Let_def set_rem_def split: if_splits)
next
  case (2 a cb es)
  let ?skip = "\<not> (isFullDiff a \<and> dbOffset cb > currentPos a) \<and> dbOffset cb < currentPos a \<and>
    currentPos a - dbOffset cb \<ge> dbLen cb"
  show ?case
  proof (cases ?skip)
    case True
    then have "load_loop (a\<lparr>iter := es\<rparr>) es = (a', ok)" using "2.prems" by auto
    then show ?thesis using "2.IH" [OF refl _ _ refl] True by force
  next
    case False
    then show ?thesis using "2.prems" by (simp add: Let_def set_rem_def split: if_splits) auto
  qed
qed

lemma loadNext_rank:
  assumes "loadNext a = (a', True)" "\<not> hasRem a"
  shows "hasRem a'" "fst (rank a') < fst (rank a) \<or>
    (fst (rank a') = fst (rank a) \<and> fst (snd (rank a')) < fst (snd (rank a)))"
  using assms load_loop_keeps [of a "iter a" a' True]
  by (auto simp: loadNext_def rank_def set_rem_def split: if_splits)

lemma emit_rank:
  assumes "emitFromRemainder a = (a', b)" "hasRem a"
  shows "fst (rank a') = fst (rank a)" "fst (snd (rank a')) = fst (snd (rank a))"
    "snd (snd (rank a')) < snd (snd (rank a))"
  using assms by (auto simp: emitFromRemainder_def rank_def Let_def split: if_splits)

lemma rbd_Next_before:
  assumes "rbd_Next a = (a', Some b)"
  shows "(a', a) \<in> before_rel"
proof (cases "hasRem a")
  case True
  then have "emitFromRemainder a = (a', b)" using assms by (auto simp: rbd_Next_def split: prod.splits)
  then show ?thesis using emit_rank [OF _ True] by (cases "rank a"; cases "rank a'") (simp add: before_rel_def)
next
  case False
  then obtain a1 where l: "loadNext a = (a1, True)" "emitFromRemainder a1 = (a', b)"
    using assms by (auto simp: rbd_Next_def split: prod.splits bool.splits)
  then show ?thesis
    using loadNext_rank [OF l(1) False] emit_rank [OF l(2)]
    by (cases "rank a"; cases "rank a'"; cases "rank a1") (auto simp: before_rel_def)
qed

lemma loadNext_reqID: "loadNext a = (a', ok) \<Longrightarrow> reqID a' = reqID a"
  using load_loop_keeps [of a "iter a" a' ok] by (auto simp: loadNext_def set_rem_def split: if_splits)

interpretation rbd: block_iterator rbd_Next reqID before_rel
proof
  fix a a' b
  assume n: "rbd_Next a = (a', Some b)"
  show "cbReqID b = reqID a \<and> reqID a' = reqID a + 1"
    using n by (auto simp: rbd_Next_def emitFromRemainder_def Let_def dest: loadNext_reqID split: if_splits prod.splits bool.splits)
  show "(a', a) \<in> before_rel" using n by (rule rbd_Next_before)
qed (rule wf_before)

function rbd_blocks :: "rbdIterAdapter \<Rightarrow> ChangeBlock list" where
  "rbd_blocks a = (case rbd_Next a of (a', None) \<Rightarrow> [] | (a', Some b) \<Rightarrow> b # rbd_blocks a')"
  by pat_completeness auto
termination
  by (relation before_rel) (auto simp: wf_before dest: rbd_Next_before sym)

declare rbd_blocks.simps [simp del]

subsection \<open>A reference definition: segments, cut into pieces and numbered\<close>

text \<open>
  A segment is an offset, a length and whether it is a gap.  \<^verbatim>\<open>segments\<close> walks the extents from a
  position on; \<^verbatim>\<open>pieces\<close> cuts a segment.
\<close>

type_synonym segment = "int \<times> int \<times> bool"

fun segments :: "bool \<Rightarrow> int \<Rightarrow> int \<Rightarrow> diffBlock list \<Rightarrow> segment list" where
  "segments full tot pos [] = (if full \<and> pos < tot then [(pos, tot - pos, True)] else [])"
| "segments full tot pos (cb # es) =
     (if full \<and> pos < dbOffset cb
      then (pos, dbOffset cb - pos, True) # (dbOffset cb, dbLen cb, False) # segments full tot (dbOffset cb + dbLen cb) es
      else if dbOffset cb < pos
      then if dbLen cb \<le> pos - dbOffset cb then segments full tot pos es
           else (pos, dbOffset cb + dbLen cb - pos, False) # segments full tot (dbOffset cb + dbLen cb) es
      else (dbOffset cb, dbLen cb, False) # segments full tot (dbOffset cb + dbLen cb) es)"

function pieces :: "int \<Rightarrow> segment \<Rightarrow> segment list" where
  "pieces cs (off, len, z) =
     (if 0 < cs \<and> cs < len then (off, cs, z) # pieces cs (off + cs, len - cs, z) else [(off, len, z)])"
  by pat_completeness auto
termination by (relation "measure (\<lambda>(cs, off, len, z). nat len)") auto

declare pieces.simps [simp del]

lemma pieces_cut: "0 < cs \<Longrightarrow> cs < len \<Longrightarrow> pieces cs (off, len, z) = (off, cs, z) # pieces cs (off + cs, len - cs, z)"
  by (simp add: pieces.simps [of cs off len z])

lemma pieces_one: "\<not> (0 < cs \<and> cs < len) \<Longrightarrow> pieces cs (off, len, z) = [(off, len, z)]"
  by (auto simp: pieces.simps [of cs off len z])

text \<open>Induction over the cuts.\<close>

lemma pieces_induct [case_names cut one]:
  assumes "\<And>off len. 0 < cs \<Longrightarrow> cs < len \<Longrightarrow> P (off + cs) (len - cs) \<Longrightarrow> P off len"
    and "\<And>off len. \<not> (0 < cs \<and> cs < len) \<Longrightarrow> P off len"
  shows "P off (len :: int)"
proof (induction "nat len" arbitrary: off len rule: less_induct)
  case less
  then show ?case using assms by (cases "0 < cs \<and> cs < len") auto
qed

definition to_block :: "int \<Rightarrow> u64 \<Rightarrow> segment \<Rightarrow> ChangeBlock" where
  "to_block tot i s = (case s of (off, len, z) \<Rightarrow>
     \<lparr>cbFilePath = DevicePath, cbOffset = off, cbLen = len, cbReqID = i, cbTotalSize = tot, cbIsZero = z\<rparr>)"

primrec number :: "int \<Rightarrow> u64 \<Rightarrow> segment list \<Rightarrow> ChangeBlock list" where
  "number tot i [] = []"
| "number tot i (s # ss) = to_block tot i s # number tot (i + 1) ss"

text \<open>What an adapter has still to emit.\<close>

definition todo :: "rbdIterAdapter \<Rightarrow> segment list" where
  "todo a =
     (if hasRem a then [(remOffset a, remLen a, remIsZero a)] else []) @
     (if hasPending a
      then (pendingOffset a, pendingLen a, False) #
           segments (isFullDiff a) (totalSize a) (pendingOffset a + pendingLen a) (iter a)
      else if iterDone a then []
      else segments (isFullDiff a) (totalSize a)
             (if hasRem a then remOffset a + remLen a else currentPos a) (iter a))"

definition adapter_ok :: "rbdIterAdapter \<Rightarrow> bool" where
  "adapter_ok a \<longleftrightarrow> (hasPending a \<longrightarrow> \<not> iterDone a)"

text \<open>The bytes a segment, a block or an extent stands for, and ascending, non-empty segments.\<close>

definition seg_range :: "segment \<Rightarrow> int set" where
  "seg_range s = (case s of (off, len, z) \<Rightarrow> {off..<off + len})"

definition block_range :: "ChangeBlock \<Rightarrow> int set" where
  "block_range b = {cbOffset b..<cbOffset b + cbLen b}"

definition extent_range :: "diffBlock \<Rightarrow> int set" where
  "extent_range e = {dbOffset e..<dbOffset e + dbLen e}"

fun ascending :: "int \<Rightarrow> segment list \<Rightarrow> bool" where
  "ascending pos [] = True"
| "ascending pos ((off, len, z) # ss) = (pos \<le> off \<and> 0 < len \<and> ascending (off + len) ss)"

text \<open>What the Ceph library promises of a diff: non-empty extents by ascending offset.\<close>

definition extents_ok :: "diffBlock list \<Rightarrow> bool" where
  "extents_ok es \<longleftrightarrow> (\<forall>e\<in>set es. 0 \<le> dbOffset e \<and> 0 < dbLen e) \<and> sorted (map dbOffset es)"

definition sample_extents :: "diffBlock list" where
  "sample_extents = [\<lparr>dbOffset = 2, dbLen = 5\<rparr>, \<lparr>dbOffset = 4, dbLen = 2\<rparr>, \<lparr>dbOffset = 5, dbLen = 4\<rparr>]"

lemma load_loop_todo:
  assumes "load_loop a es = (a', ok)" "\<not> hasRem a" "\<not> hasPending a" "\<not> iterDone a"
  shows "adapter_ok a' \<and> (ok \<longrightarrow> hasRem a' \<and> todo a' = segments (isFullDiff a) (totalSize a) (currentPos a) es) \<and>
    (\<not> ok \<longrightarrow> segments (isFullDiff a) (totalSize a) (currentPos a) es = [])"
  using assms
proof (induction a es rule: load_loop.induct)
  case (1 a)
  then show ?case by (auto simp: Let_def set_rem_def todo_def adapter_ok_def split: if_splits)
next
  case (2 a cb es)
  let ?skip = "\<not> (isFullDiff a \<and> dbOffset cb > currentPos a) \<and> dbOffset cb < currentPos a \<and>
    currentPos a - dbOffset cb \<ge> dbLen cb"
  show ?case
  proof (cases ?skip)
    case True
    then have "load_loop (a\<lparr>iter := es\<rparr>) es = (a', ok)" using "2.prems" by auto
    then show ?thesis using "2.IH" [OF refl _ _ refl] True "2.prems" by force
  next
    case False
    then consider "isFullDiff a" "dbOffset cb > currentPos a"
      | "\<not> (isFullDiff a \<and> dbOffset cb > currentPos a)" "dbOffset cb < currentPos a"
          "currentPos a - dbOffset cb < dbLen cb"
      | "\<not> (isFullDiff a \<and> dbOffset cb > currentPos a)" "\<not> dbOffset cb < currentPos a"
      by linarith
    then show ?thesis
    proof cases
      case 1
      then show ?thesis using "2.prems" by (clarsimp simp: set_rem_def todo_def adapter_ok_def)
    next
      case 2
      then show ?thesis using "2.prems" by (clarsimp simp: set_rem_def todo_def adapter_ok_def) (simp add: add.commute)
    next
      case 3
      then have "(a', ok) = (set_rem (dbOffset cb) (dbLen cb) False (a\<lparr>iter := es\<rparr>), True)"
        using "2.prems"(1) by auto
      moreover have "segments (isFullDiff a) (totalSize a) (currentPos a) (cb # es) =
          (dbOffset cb, dbLen cb, False) # segments (isFullDiff a) (totalSize a) (dbOffset cb + dbLen cb) es"
        using 3 by auto
      ultimately show ?thesis using "2.prems" by (simp add: set_rem_def todo_def adapter_ok_def)
    qed
  qed
qed

lemma loadNext_todo:
  assumes "loadNext a = (a', ok)" "\<not> hasRem a" "adapter_ok a"
  shows "adapter_ok a' \<and> (ok \<longrightarrow> hasRem a' \<and> todo a' = todo a) \<and> (\<not> ok \<longrightarrow> todo a = [])"
proof (cases "hasPending a \<or> iterDone a")
  case True
  then show ?thesis using assms by (auto simp: loadNext_def set_rem_def todo_def adapter_ok_def split: if_splits)
next
  case False
  then have "load_loop a (iter a) = (a', ok)" using assms(1) by (simp add: loadNext_def)
  then show ?thesis using load_loop_todo [of a "iter a" a' ok] False assms(2) by (auto simp: todo_def)
qed

lemma emit_todo:
  assumes "emitFromRemainder a = (a', b)" "hasRem a" "adapter_ok a"
  shows "concat (map (pieces (chunkSize a)) (todo a)) =
      (remOffset a, cbLen b, remIsZero a) # concat (map (pieces (chunkSize a)) (todo a')) \<and>
    b = to_block (totalSize a) (reqID a) (remOffset a, cbLen b, remIsZero a) \<and>
    adapter_ok a' \<and> reqID a' = reqID a + 1 \<and> totalSize a' = totalSize a \<and> chunkSize a' = chunkSize a"
proof (cases "0 < chunkSize a \<and> chunkSize a < remLen a")
  case True
  then show ?thesis
    using assms by (clarsimp simp: emitFromRemainder_def todo_def to_block_def Let_def adapter_ok_def
        pieces.simps [of "chunkSize a" "remOffset a"] add.assoc)
next
  case False
  then have "emitFromRemainder a = (a\<lparr>reqID := reqID a + 1, remOffset := remOffset a + remLen a, remLen := 0,
      hasRem := False, currentPos := remOffset a + remLen a\<rparr>,
      to_block (totalSize a) (reqID a) (remOffset a, remLen a, remIsZero a))"
    by (auto simp: emitFromRemainder_def Let_def to_block_def)
  moreover have "pieces (chunkSize a) (remOffset a, remLen a, remIsZero a) = [(remOffset a, remLen a, remIsZero a)]"
    using False by (simp add: pieces.simps)
  ultimately show ?thesis
    using assms by (clarsimp simp: todo_def adapter_ok_def to_block_def)
qed

lemma rbd_Next_todo:
  assumes "rbd_Next a = (a', r)" "adapter_ok a"
  shows "case r of
      None \<Rightarrow> todo a = []
    | Some b \<Rightarrow> (\<exists>s. concat (map (pieces (chunkSize a)) (todo a)) = s # concat (map (pieces (chunkSize a)) (todo a')) \<and>
        b = to_block (totalSize a) (reqID a) s) \<and>
        adapter_ok a' \<and> reqID a' = reqID a + 1 \<and> totalSize a' = totalSize a \<and> chunkSize a' = chunkSize a"
proof (cases "hasRem a")
  case True
  then show ?thesis
    using assms emit_todo [of a a'] by (auto simp: rbd_Next_def split: prod.splits)
next
  case False
  obtain a1 ok where l: "loadNext a = (a1, ok)" by force
  have same: "reqID a1 = reqID a" "totalSize a1 = totalSize a" "chunkSize a1 = chunkSize a"
    using l load_loop_keeps [of a "iter a" a1 ok] by (auto simp: loadNext_def set_rem_def split: if_splits)
  show ?thesis
  proof (cases ok)
    case True
    then obtain b where e: "emitFromRemainder a1 = (a', b)" "r = Some b"
      using assms(1) False l by (auto simp: rbd_Next_def split: prod.splits)
    have "adapter_ok a1" "hasRem a1" "todo a1 = todo a" using loadNext_todo [OF l False assms(2)] True by auto
    then show ?thesis using emit_todo [OF e(1)] same e(2) by auto
  next
    case no: False
    then show ?thesis using assms(1) False l loadNext_todo [OF l False assms(2)] by (auto simp: rbd_Next_def)
  qed
qed

lemma rbd_blocks_todo:
  "adapter_ok a \<Longrightarrow>
     rbd_blocks a = number (totalSize a) (reqID a) (concat (map (pieces (chunkSize a)) (todo a)))"
proof (induction a rule: rbd_blocks.induct)
  case (1 a)
  obtain a' r where n: "rbd_Next a = (a', r)" by force
  note step = rbd_Next_todo [OF n "1.prems"]
  show ?case
  proof (cases r)
    case None
    then show ?thesis using n step by (simp add: rbd_blocks.simps [of a])
  next
    case (Some b)
    then have "rbd_blocks a' = number (totalSize a') (reqID a') (concat (map (pieces (chunkSize a')) (todo a')))"
      using "1.IH" [OF n [symmetric] Some] step by simp
    then show ?thesis using n step Some by (auto simp: rbd_blocks.simps [of a])
  qed
qed

subsection \<open>Segments and pieces cover the right bytes\<close>

lemma pieces_range: "\<Union> (seg_range ` set (pieces cs (off, len, z))) = seg_range (off, len, z)"
proof (induction off len rule: pieces_induct [where cs = cs])
  case (cut off len)
  then show ?case by (auto simp: pieces_cut seg_range_def)
qed (simp add: pieces_one)

lemma pieces_zero: "t \<in> set (pieces cs (off, len, z)) \<Longrightarrow> snd (snd t) = z"
  by (induction off len rule: pieces_induct [where cs = cs]) (auto simp: pieces_cut pieces_one)

lemma pieces_bound: "0 < cs \<Longrightarrow> t \<in> set (pieces cs (off, len, z)) \<Longrightarrow> fst (snd t) \<le> cs"
  by (induction off len rule: pieces_induct [where cs = cs]) (auto simp: pieces_cut pieces_one)

lemma ascending_pieces:
  "pos \<le> off \<Longrightarrow> 0 < len \<Longrightarrow> ascending (off + len) rest \<Longrightarrow> ascending pos (pieces cs (off, len, z) @ rest)"
  by (induction off len arbitrary: pos rule: pieces_induct [where cs = cs]) (auto simp: pieces_cut pieces_one)

lemma ascending_concat_pieces: "ascending pos ss \<Longrightarrow> ascending pos (concat (map (pieces cs) ss))"
proof (induction ss arbitrary: pos)
  case (Cons s ss)
  obtain off len z where s: "s = (off, len, z)" by (cases s)
  then have "ascending (off + len) (concat (map (pieces cs) ss))" using Cons by simp
  then show ?case using ascending_pieces [of pos off len _ cs z] Cons.prems s by simp
qed simp

lemma ascending_segments:
  "(\<forall>e\<in>set es. 0 < dbLen e) \<Longrightarrow> ascending pos (segments full tot pos es)"
  by (induction full tot pos es rule: segments.induct) auto

definition segs_bytes :: "bool \<Rightarrow> segment list \<Rightarrow> int set" where
  "segs_bytes z ss = \<Union> (seg_range ` {s \<in> set ss. snd (snd s) = z})"

lemma segs_bytes_simps [simp]:
  "segs_bytes z [] = {}"
  "segs_bytes z ((off, len, z') # ss) = (if z' = z then {off..<off + len} else {}) \<union> segs_bytes z ss"
proof -
  have "{s \<in> set ((off, len, z') # ss). snd (snd s) = z} =
      (if z' = z then {(off, len, z')} else {}) \<union> {s \<in> set ss. snd (snd s) = z}"
    by (cases "z' = z") auto
  then show "segs_bytes z ((off, len, z') # ss) = (if z' = z then {off..<off + len} else {}) \<union> segs_bytes z ss"
    by (cases "z' = z") (simp_all add: segs_bytes_def seg_range_def)
qed (simp add: segs_bytes_def)

lemma segs_bytes_append: "segs_bytes z (xs @ ys) = segs_bytes z xs \<union> segs_bytes z ys"
  by (auto simp: segs_bytes_def)

lemma segs_bytes_pieces: "segs_bytes z (concat (map (pieces cs) ss)) = segs_bytes z ss"
proof (induction ss)
  case (Cons s ss)
  obtain off len z' where s: "s = (off, len, z')" by (cases s)
  have "segs_bytes z (pieces cs s) = (if z' = z then {off..<off + len} else {})"
  proof -
    have "{t \<in> set (pieces cs s). snd (snd t) = z} = (if z' = z then set (pieces cs s) else {})"
      using pieces_zero [of _ cs off len z'] s by (auto simp del: split_paired_All)
    moreover have "seg_range (off, len, z') = {off..<off + len}" by (simp add: seg_range_def)
    ultimately show ?thesis unfolding segs_bytes_def using pieces_range [of cs off len z'] s by auto
  qed
  then show ?case using Cons.IH s by (simp add: segs_bytes_append)
qed simp

lemma segments_data:
  "(\<forall>e\<in>set es. 0 < dbLen e) \<Longrightarrow> sorted (map dbOffset es) \<Longrightarrow>
     segs_bytes False (segments full tot pos es) = \<Union> (extent_range ` set es) \<inter> {pos..}"
proof (induction full tot pos es rule: segments.induct)
  case (2 full tot pos cb es)
  have above: "dbOffset cb \<le> x" if "x \<in> extent_range e" "e \<in> set es" for e x
    using that "2.prems"(2) by (auto simp: extent_range_def)
  define U where "U = \<Union> (extent_range ` set es)"
  have U: "\<forall>x\<in>U. dbOffset cb \<le> x" using above unfolding U_def by blast
  have all: "\<Union> (extent_range ` set (cb # es)) = {dbOffset cb..<dbOffset cb + dbLen cb} \<union> U"
    by (simp add: extent_range_def U_def)
  have l: "0 < dbLen cb" using "2.prems"(1) by simp
  consider "full \<and> pos < dbOffset cb"
    | "\<not> (full \<and> pos < dbOffset cb)" "dbOffset cb < pos" "dbLen cb \<le> pos - dbOffset cb"
    | "\<not> (full \<and> pos < dbOffset cb)" "dbOffset cb < pos" "\<not> dbLen cb \<le> pos - dbOffset cb"
    | "\<not> (full \<and> pos < dbOffset cb)" "\<not> dbOffset cb < pos"
    by linarith
  then show ?case
  proof cases
    case 1
    then have "segs_bytes False (segments full tot (dbOffset cb + dbLen cb) es) = U \<inter> {dbOffset cb + dbLen cb..}"
      using 2 unfolding U_def by simp
    then show ?thesis unfolding all using 1 U l by auto
  next
    case 2
    then have "segs_bytes False (segments full tot pos es) = U \<inter> {pos..}" using "2.IH" "2.prems" unfolding U_def by simp
    then show ?thesis unfolding all using 2 U l by auto
  next
    case 3
    then have "segs_bytes False (segments full tot (dbOffset cb + dbLen cb) es) = U \<inter> {dbOffset cb + dbLen cb..}"
      using "2.IH" "2.prems" unfolding U_def by simp
    then show ?thesis unfolding all using 3 U l by auto
  next
    case 4
    then have "segs_bytes False (segments full tot (dbOffset cb + dbLen cb) es) = U \<inter> {dbOffset cb + dbLen cb..}"
      using "2.IH" "2.prems" unfolding U_def by simp
    then show ?thesis unfolding all using 4 U l by auto
  qed
qed simp

lemma segments_incremental_data_only: "s \<in> set (segments False tot pos es) \<Longrightarrow> \<not> snd (snd s)"
  by (induction "False" tot pos es rule: segments.induct) (auto split: if_splits)

lemma segments_gaps:
  "(\<forall>e\<in>set es. 0 < dbLen e \<and> dbOffset e + dbLen e \<le> tot) \<Longrightarrow> sorted (map dbOffset es) \<Longrightarrow>
     segs_bytes True (segments True tot pos es) = {pos..<tot} - \<Union> (extent_range ` set es)"
proof (induction True tot pos es rule: segments.induct)
  case (2 tot pos cb es)
  have above: "dbOffset cb \<le> x" if "x \<in> extent_range e" "e \<in> set es" for e x
    using that "2.prems"(2) by (auto simp: extent_range_def)
  define U where "U = \<Union> (extent_range ` set es)"
  have U: "\<forall>x\<in>U. dbOffset cb \<le> x" using above unfolding U_def by blast
  have all: "\<Union> (extent_range ` set (cb # es)) = {dbOffset cb..<dbOffset cb + dbLen cb} \<union> U"
    by (simp add: extent_range_def U_def)
  have l: "0 < dbLen cb" "dbOffset cb + dbLen cb \<le> tot" using "2.prems"(1) by auto
  consider "pos < dbOffset cb"
    | "\<not> pos < dbOffset cb" "dbOffset cb < pos" "dbLen cb \<le> pos - dbOffset cb"
    | "\<not> pos < dbOffset cb" "dbOffset cb < pos" "\<not> dbLen cb \<le> pos - dbOffset cb"
    | "\<not> pos < dbOffset cb" "\<not> dbOffset cb < pos"
    by linarith
  then show ?case
  proof cases
    case 1
    then have "segs_bytes True (segments True tot (dbOffset cb + dbLen cb) es) = {dbOffset cb + dbLen cb..<tot} - U"
      using 2 unfolding U_def by simp
    then show ?thesis unfolding all using 1 U l by auto
  next
    case 2
    then have "segs_bytes True (segments True tot pos es) = {pos..<tot} - U" using "2.hyps" "2.prems" unfolding U_def by simp
    then show ?thesis unfolding all using 2 U l by auto
  next
    case 3
    then have "segs_bytes True (segments True tot (dbOffset cb + dbLen cb) es) = {dbOffset cb + dbLen cb..<tot} - U"
      using "2.hyps" "2.prems" unfolding U_def by simp
    then show ?thesis unfolding all using 3 U l by auto
  next
    case 4
    then have "segs_bytes True (segments True tot (dbOffset cb + dbLen cb) es) = {dbOffset cb + dbLen cb..<tot} - U"
      using "2.hyps" "2.prems" unfolding U_def by simp
    then show ?thesis unfolding all using 4 U l by auto
  qed
qed auto

subsection \<open>From segments to blocks\<close>

lemma number_segments:
  "map (\<lambda>b. (cbOffset b, cbLen b, cbIsZero b)) (number tot i ss) = ss"
  by (induction ss arbitrary: i) (auto simp: to_block_def split: prod.splits)

lemma number_block:
  "b \<in> set (number tot i ss) \<Longrightarrow> cbFilePath b = DevicePath \<and> cbTotalSize b = tot"
  by (induction ss arbitrary: i) (auto simp: to_block_def split: prod.splits)

lemma number_ids: "map cbReqID (number tot i ss) = map (\<lambda>k. i + of_nat k) [0..<length ss]"
proof (induction ss arbitrary: i)
  case (Cons s ss)
  have "map (\<lambda>k. i + 1 + of_nat k) [0..<length ss] = map (\<lambda>k. i + of_nat k) [1..<Suc (length ss)]"
    by (intro nth_equalityI) (auto simp: ac_simps simp del: upt_Suc)
  then show ?case using Cons.IH [of "i + 1"]
    by (simp add: to_block_def upt_conv_Cons del: upt_Suc split: prod.splits)
qed simp

lemma length_number [simp]: "length (number tot i ss) = length ss"
  by (induction ss arbitrary: i) auto

lemma number_bytes:
  "\<Union> (block_range ` {b \<in> set (number tot i ss). cbIsZero b = z}) = segs_bytes z ss"
proof -
  let ?f = "\<lambda>b. (cbOffset b, cbLen b, cbIsZero b)"
  have "segs_bytes z ss = segs_bytes z (map ?f (number tot i ss))" by (simp only: number_segments)
  also have "\<dots> = \<Union> (block_range ` {b \<in> set (number tot i ss). cbIsZero b = z})"
    by (auto simp: segs_bytes_def seg_range_def block_range_def)
  finally show ?thesis by (rule sym)
qed

lemma ascending_lower: "ascending pos ss \<Longrightarrow> s \<in> set ss \<Longrightarrow> pos \<le> fst s \<and> 0 < fst (snd s)"
  by (induction pos ss rule: ascending.induct) force+

lemma ascending_sorted: "ascending pos ss \<Longrightarrow> sorted_wrt (\<lambda>s t. fst s + fst (snd s) \<le> fst t) ss"
  by (induction pos ss rule: ascending.induct) (auto dest: ascending_lower)

lemma rbd_blocks_eq:
  "rbd_blocks (newAdapter es tot cs full) = number tot 0 (concat (map (pieces cs) (segments full tot 0 es)))"
  using rbd_blocks_todo [of "newAdapter es tot cs full"] by (simp add: newAdapter_def adapter_ok_def todo_def)

lemma rbd_blocks_ascending:
  assumes "extents_ok es"
  shows "ascending 0 (map (\<lambda>b. (cbOffset b, cbLen b, cbIsZero b)) (rbd_blocks (newAdapter es tot cs full)))"
proof -
  have "ascending 0 (segments full tot 0 es)" using assms by (intro ascending_segments) (simp add: extents_ok_def)
  then show ?thesis unfolding rbd_blocks_eq number_segments by (rule ascending_concat_pieces)
qed

subsection \<open>Correctness\<close>

text \<open>
  Draining the adapter, with its remainder, pending-extent and done flags, yields exactly the
  reference list: walk the extents once, cut every segment into pieces of at most \<^verbatim>\<open>chunkSize\<close>,
  and number the pieces consecutively from zero.
\<close>

theorem rbd_blocks_reference:
  "rbd_blocks (newAdapter es tot cs full) = number tot 0 (concat (map (pieces cs) (segments full tot 0 es))) \<and>
   map cbReqID (rbd_blocks (newAdapter es tot cs full)) =
     map of_nat [0..<length (rbd_blocks (newAdapter es tot cs full))]"
  by (simp add: rbd_blocks_eq number_ids)

lemma full_diff_partition:
  assumes "extents_ok es" "\<forall>e\<in>set es. dbOffset e + dbLen e \<le> tot" "0 < cs"
  shows "\<Union> (block_range ` {b \<in> set (rbd_blocks (newAdapter es tot cs True)). \<not> cbIsZero b}) = \<Union> (extent_range ` set es) \<and>
    \<Union> (block_range ` {b \<in> set (rbd_blocks (newAdapter es tot cs True)). cbIsZero b}) = {0..<tot} - \<Union> (extent_range ` set es) \<and>
    sorted_wrt (\<lambda>b c. cbOffset b + cbLen b \<le> cbOffset c) (rbd_blocks (newAdapter es tot cs True)) \<and>
    (\<forall>b\<in>set (rbd_blocks (newAdapter es tot cs True)). 0 < cbLen b \<and> cbLen b \<le> cs)"
proof -
  let ?bs = "rbd_blocks (newAdapter es tot cs True)" and ?f = "\<lambda>b. (cbOffset b, cbLen b, cbIsZero b)"
  have pos: "\<Union> (extent_range ` set es) \<inter> {0..} = \<Union> (extent_range ` set es)"
    using assms(1) by (force simp: extents_ok_def extent_range_def)
  have data: "segs_bytes False (segments True tot 0 es) = \<Union> (extent_range ` set es)"
    using segments_data [of es True tot 0] assms(1) pos by (simp add: extents_ok_def)
  have gaps: "segs_bytes True (segments True tot 0 es) = {0..<tot} - \<Union> (extent_range ` set es)"
    using assms(1,2) by (intro segments_gaps) (auto simp: extents_ok_def)
  note asc = rbd_blocks_ascending [OF assms(1), of tot cs True]
  have "sorted_wrt (\<lambda>b c. cbOffset b + cbLen b \<le> cbOffset c) ?bs"
    using ascending_sorted [OF asc] by (simp add: sorted_wrt_map)
  moreover have "0 < cbLen b \<and> cbLen b \<le> cs" if "b \<in> set ?bs" for b
  proof
    show "0 < cbLen b" using ascending_lower [OF asc, of "?f b"] that by simp
    have "?f b \<in> set (concat (map (pieces cs) (segments True tot 0 es)))"
      using that number_segments [of tot 0] unfolding rbd_blocks_eq by (metis (no_types, lifting) image_eqI set_map)
    then show "cbLen b \<le> cs" using pieces_bound [OF assms(3)] by fastforce
  qed
  ultimately show ?thesis
    using number_bytes [of tot 0 _ False] number_bytes [of tot 0 _ True] data gaps
    by (simp add: rbd_blocks_eq segs_bytes_pieces)
qed

text \<open>
  C11: for a full diff of an image of \<^verbatim>\<open>tot\<close> bytes the blocks partition the image: the data blocks
  cover exactly the allocated extents (also when those overlap), the zero blocks exactly the
  rest, no two blocks overlap, and none is empty or longer than the chunk size.
\<close>

theorem rbd_full_diff_partition:
  assumes "extents_ok es" "\<forall>e\<in>set es. dbOffset e + dbLen e \<le> tot" "0 < cs"
  shows "\<Union> (block_range ` {b \<in> set (rbd_blocks (newAdapter es tot cs True)). \<not> cbIsZero b}) = \<Union> (extent_range ` set es) \<and>
    \<Union> (block_range ` {b \<in> set (rbd_blocks (newAdapter es tot cs True)). cbIsZero b}) = {0..<tot} - \<Union> (extent_range ` set es) \<and>
    sorted_wrt (\<lambda>b c. cbOffset b + cbLen b \<le> cbOffset c) (rbd_blocks (newAdapter es tot cs True)) \<and>
    (\<forall>b\<in>set (rbd_blocks (newAdapter es tot cs True)). 0 < cbLen b \<and> cbLen b \<le> cs)"
  using assms by (rule full_diff_partition)

theorem rbd_full_diff_partition_witness:
  "\<Union> (block_range ` {b \<in> set (rbd_blocks (newAdapter sample_extents 12 4 True)). cbIsZero b}) =
     {0..<12} - \<Union> (extent_range ` set sample_extents)"
  using rbd_full_diff_partition [of sample_extents 12 4]
  by (simp add: extents_ok_def sample_extents_def)

text \<open>
  For an incremental diff the adapter emits data blocks only, they cover exactly the changed
  extents, and no two of them overlap.
\<close>

theorem rbd_incremental_diff_cover:
  assumes "extents_ok es"
  shows "\<Union> (block_range ` set (rbd_blocks (newAdapter es tot cs False))) = \<Union> (extent_range ` set es) \<and>
    (\<forall>b\<in>set (rbd_blocks (newAdapter es tot cs False)). \<not> cbIsZero b) \<and>
    sorted_wrt (\<lambda>b c. cbOffset b + cbLen b \<le> cbOffset c) (rbd_blocks (newAdapter es tot cs False))"
proof -
  let ?bs = "rbd_blocks (newAdapter es tot cs False)"
  have pos: "\<Union> (extent_range ` set es) \<inter> {0..} = \<Union> (extent_range ` set es)"
    using assms(1) by (force simp: extents_ok_def extent_range_def)
  have data: "segs_bytes False (segments False tot 0 es) = \<Union> (extent_range ` set es)"
    using segments_data [of es False tot 0] assms(1) pos by (simp add: extents_ok_def)
  have nz: "\<not> cbIsZero b" if "b \<in> set ?bs" for b
  proof -
    have "(cbOffset b, cbLen b, cbIsZero b) \<in> set (concat (map (pieces cs) (segments False tot 0 es)))"
      using that number_segments [of tot 0] unfolding rbd_blocks_eq by (metis (no_types, lifting) image_eqI set_map)
    then show ?thesis using pieces_zero segments_incremental_data_only by fastforce
  qed
  then have only: "{b \<in> set ?bs. cbIsZero b = False} = set ?bs" by auto
  have "\<Union> (block_range ` {b \<in> set ?bs. cbIsZero b = False}) = \<Union> (extent_range ` set es)"
    using data by (simp only: rbd_blocks_eq number_bytes segs_bytes_pieces)
  then have "\<Union> (block_range ` set ?bs) = \<Union> (extent_range ` set es)" unfolding only .
  moreover have "sorted_wrt (\<lambda>b c. cbOffset b + cbLen b \<le> cbOffset c) ?bs"
    using ascending_sorted [OF rbd_blocks_ascending [OF assms(1), of tot cs False]] by (simp add: sorted_wrt_map)
  ultimately show ?thesis using nz by blast
qed

theorem rbd_incremental_diff_cover_witness:
  "\<Union> (block_range ` set (rbd_blocks (newAdapter sample_extents 12 4 False))) = \<Union> (extent_range ` set sample_extents)"
  using rbd_incremental_diff_cover [of sample_extents 12 4]
  by (simp add: extents_ok_def sample_extents_def)

lemma feeder_blocks: "\<exists>a'. feeder rbd_Next (length (rbd_blocks a) + k) a = (map to_chunk (rbd_blocks a), True, a')"
proof (induction a rule: rbd_blocks.induct)
  case (1 a)
  obtain a1 r where r: "rbd_Next a = (a1, r)" by force
  show ?case
  proof (cases r)
    case None
    then show ?thesis using r by (simp add: rbd_blocks.simps [of a] feeder_end)
  next
    case (Some b)
    then have bs: "rbd_blocks a = b # rbd_blocks a1" using r by (simp add: rbd_blocks.simps [of a])
    obtain a' where "feeder rbd_Next (length (rbd_blocks a1) + k) a1 = (map to_chunk (rbd_blocks a1), True, a')"
      using "1.IH" [OF r [symmetric] Some] by blast
    then show ?thesis unfolding bs using r Some by (simp add: feeder_send)
  qed
qed

text \<open>
  C35: the pipeline's feeder over this iterator sends request ids that count up from the adapter's,
  however early it is cancelled; and when it may send all blocks, it ends without an error and
  has sent exactly the blocks of the diff, in order.
\<close>

theorem rbd_feeder:
  "map chReqID (fst (feeder rbd_Next n a)) = map (\<lambda>k. reqID a + of_nat k) [0..<length (fst (feeder rbd_Next n a))] \<and>
   (\<exists>a'. feeder rbd_Next (length (rbd_blocks a) + k) a = (map to_chunk (rbd_blocks a), True, a'))"
proof
  show "map chReqID (fst (feeder rbd_Next n a)) = map (\<lambda>k. reqID a + of_nat k) [0..<length (fst (feeder rbd_Next n a))]"
    using rbd.feeder_ids [of n a] by (cases "feeder rbd_Next n a") simp
qed (rule feeder_blocks)

end
