(* ===== verification/Paths.thy ===== *)
theory Paths
  imports Prelude
begin

section \<open>Paths (the path functions the workers use, and sanitizePath of cephfs/destination.go)\<close>

text \<open>
  The lexical path functions of Go's \<^verbatim>\<open>path\<close> and \<^verbatim>\<open>filepath\<close> packages (which agree on Unix) as the
  code uses them, and the destination's check of the paths it is told to delete.  The lemmas show that
  a cleaned path is in normal form, that a path that passes the check stays below the mount point, and
  that the check also refuses names that are no traversal.
\<close>

subsection \<open>Strings\<close>

text \<open>\<^verbatim>\<open>strings.Split(s, "/")\<close> and \<^verbatim>\<open>strings.Join(ss, "/")\<close>, and \<^verbatim>\<open>strings.Contains\<close>.\<close>

fun split_slash :: "string \<Rightarrow> string list" where
  "split_slash [] = ['''']"
| "split_slash (c # cs) =
     (if c = CHR ''/'' then '''' # split_slash cs
      else case split_slash cs of [] \<Rightarrow> [[c]] | p # ps \<Rightarrow> (c # p) # ps)"

fun join_slash :: "string list \<Rightarrow> string" where
  "join_slash [] = ''''"
| "join_slash [s] = s"
| "join_slash (s # ss) = s @ ''/'' @ join_slash ss"

fun contains :: "string \<Rightarrow> string \<Rightarrow> bool" where
  "contains [] pat = (pat = [])"
| "contains (c # cs) pat = (take (length pat) (c # cs) = pat \<or> contains cs pat)"

lemma split_slash_ne: "split_slash s \<noteq> []"
  by (induction s) (auto split: list.splits)

lemma split_slash_plain: "CHR ''/'' \<notin> set s \<Longrightarrow> split_slash s = [s]"
  by (induction s) auto

lemma split_slash_append: "CHR ''/'' \<notin> set s \<Longrightarrow> split_slash (s @ CHR ''/'' # t) = s # split_slash t"
  by (induction s) auto

lemma split_slash_plain_parts: "p \<in> set (split_slash s) \<Longrightarrow> CHR ''/'' \<notin> set p"
  by (induction s arbitrary: p) (auto split: if_splits list.splits)

lemma split_join: "ss \<noteq> [] \<Longrightarrow> \<forall>s\<in>set ss. CHR ''/'' \<notin> set s \<Longrightarrow> split_slash (join_slash ss) = ss"
  by (induction ss rule: join_slash.induct) (simp_all add: split_slash_plain split_slash_append)

lemma join_split: "join_slash (split_slash s) = s"
proof (induction s)
  case (Cons c s)
  then show ?case using split_slash_ne [of s] by (cases "split_slash s"; cases "tl (split_slash s)") auto
qed simp

lemma contains_append: "contains (xs @ pat @ ys) pat"
proof (induction xs)
  case Nil
  then show ?case by (cases pat; cases ys) (auto simp: take_append)
next
  case (Cons x xs)
  then show ?case by simp
qed

lemma contains_iff: "contains s pat \<longleftrightarrow> (\<exists>xs ys. s = xs @ pat @ ys)"
proof
  show "contains s pat \<Longrightarrow> \<exists>xs ys. s = xs @ pat @ ys"
  proof (induction s)
    case (Cons c s)
    then consider "take (length pat) (c # s) = pat" | "contains s pat" by auto
    then show ?case
    proof cases
      case 1
      then have "c # s = [] @ pat @ drop (length pat) (c # s)" by (metis append_Nil append_take_drop_id)
      then show ?thesis by blast
    next
      case 2
      then obtain xs ys where "s = xs @ pat @ ys" using Cons.IH by blast
      then have "c # s = (c # xs) @ pat @ ys" by simp
      then show ?thesis by blast
    qed
  qed simp
qed (auto simp: contains_append)

lemma part_contained: "p \<in> set (split_slash s) \<Longrightarrow> \<exists>xs ys. s = xs @ p @ ys"
proof (induction s arbitrary: p)
  case (Cons c s)
  show ?case
  proof (cases "p \<in> set (split_slash s)")
    case True
    then obtain xs ys where "s = xs @ p @ ys" using Cons.IH by blast
    then have "c # s = (c # xs) @ p @ ys" by simp
    then show ?thesis by blast
  next
    case False
    obtain q qs where q: "split_slash s = q # qs" using split_slash_ne by (cases "split_slash s") auto
    show ?thesis
    proof (cases "c = CHR ''/''")
      case True
      then have "p = ''''" using Cons.prems False by simp
      then show ?thesis by (metis append_Nil)
    next
      case c: False
      then have p: "p = c # q" using Cons.prems False q by auto
      have "\<exists>ys. s = q @ ys" using join_split [of s] q by (cases qs) auto
      then show ?thesis using p by (metis append_Cons append_Nil)
    qed
  qed
qed simp

subsection \<open>Cleaning and joining\<close>

text \<open>
  \<^verbatim>\<open>Clean\<close> processes the elements left to right on a stack: empty elements and \<^verbatim>\<open>.\<close> are dropped, \<^verbatim>\<open>..\<close>
  removes the element before it, and is dropped at the root.
\<close>

fun clean_elems :: "bool \<Rightarrow> string list \<Rightarrow> string list \<Rightarrow> string list" where
  "clean_elems rooted st [] = rev st"
| "clean_elems rooted st (e # es) =
     (if e = '''' \<or> e = ''.'' then clean_elems rooted st es
      else if e = ''..'' then
        (case st of
           [] \<Rightarrow> clean_elems rooted (if rooted then [] else [''..'']) es
         | t # ts \<Rightarrow> if t = ''..'' then clean_elems rooted (''..'' # st) es else clean_elems rooted ts es)
      else clean_elems rooted (e # st) es)"

definition rooted :: "string \<Rightarrow> bool" where
  "rooted p \<longleftrightarrow> (case p of [] \<Rightarrow> False | c # _ \<Rightarrow> c = CHR ''/'')"

definition Clean :: "string \<Rightarrow> string" where
  "Clean p =
     (let es = clean_elems (rooted p) [] (split_slash p) in
      if rooted p then CHR ''/'' # join_slash es else if es = [] then ''.'' else join_slash es)"

definition path_Join :: "string list \<Rightarrow> string" where
  "path_Join ps = (let qs = filter (\<lambda>p. p \<noteq> '''') ps in if qs = [] then '''' else Clean (join_slash qs))"

text \<open>An element that survives cleaning, and the elements of a path without \<^verbatim>\<open>..\<close>.\<close>

definition proper :: "string \<Rightarrow> bool" where
  "proper e \<longleftrightarrow> e \<noteq> '''' \<and> e \<noteq> ''.'' \<and> e \<noteq> ''..'' \<and> CHR ''/'' \<notin> set e"

definition plain_elems :: "string list \<Rightarrow> string list" where
  "plain_elems es = filter (\<lambda>e. e \<noteq> '''' \<and> e \<noteq> ''.'') es"

lemma clean_elems_plain: "''..'' \<notin> set es \<Longrightarrow> clean_elems r st es = rev st @ plain_elems es"
  by (induction es arbitrary: st) (auto simp: plain_elems_def)

lemma plain_elems_proper:
  "''..'' \<notin> set es \<Longrightarrow> \<forall>e\<in>set es. CHR ''/'' \<notin> set e \<Longrightarrow> \<forall>e\<in>set (plain_elems es). proper e"
  by (auto simp: plain_elems_def proper_def)

lemma clean_elems_ne: "\<forall>x\<in>set st. x \<noteq> '''' \<Longrightarrow> x \<in> set (clean_elems r st es) \<Longrightarrow> x \<noteq> ''''"
proof (induction es arbitrary: st)
  case (Cons e es)
  show ?case
  proof (cases "e = '''' \<or> e = ''.'' \<or> e = ''..''")
    case True
    then show ?thesis
      using Cons.IH [of st] Cons.IH [of "[''..'']"] Cons.IH [of "[]"] Cons.IH [of "''..'' # st"] Cons.IH [of "tl st"] Cons.prems
      by (cases st) (auto split: if_splits)
  next
    case False
    then show ?thesis using Cons.IH [of "e # st"] Cons.prems by auto
  qed
qed auto

subsection \<open>The destination's check\<close>

definition DataMountPath :: path where "DataMountPath = ''/data''"

datatype path_error = EmptyPath | PathTraversal

definition sanitizePath :: "string \<Rightarrow> path_error + path" where
  "sanitizePath relPath =
     (if relPath = '''' then Inl EmptyPath
      else let cleanPath = Clean relPath in
        if contains cleanPath ''..'' then Inl PathTraversal else Inr (path_Join [DataMountPath, cleanPath]))"

lemma Clean_ne: "Clean p \<noteq> ''''"
proof (cases "rooted p \<or> clean_elems (rooted p) [] (split_slash p) = []")
  case False
  then obtain e es where es: "clean_elems False [] (split_slash p) = e # es" by (auto simp: neq_Nil_conv)
  have "e \<noteq> ''''" using clean_elems_ne [of "[]" e False "split_slash p"] es by simp
  then show ?thesis using False es by (cases es) (auto simp: Clean_def)
qed (auto simp: Clean_def Let_def)

lemma path_Join_data:
  assumes "\<not> contains c ''..''" "c \<noteq> ''''"
  shows "path_Join [DataMountPath, c] = CHR ''/'' # join_slash (''data'' # plain_elems (split_slash c))"
proof -
  have dd: "''..'' \<notin> set (split_slash c)" using assms(1) part_contained [of "''..''" c] by (auto simp: contains_iff)
  have s: "split_slash (''/data/'' @ c) = '''' # ''data'' # split_slash c"
    using split_slash_append [of "''data''" c] by simp
  have "path_Join [DataMountPath, c] = Clean (''/data/'' @ c)" using assms(2) by (simp add: path_Join_def DataMountPath_def)
  also have "\<dots> = CHR ''/'' # join_slash (''data'' # plain_elems (split_slash c))"
    using s dd clean_elems_plain [of "'''' # ''data'' # split_slash c" True "[]"]
    by (simp add: Clean_def rooted_def plain_elems_def)
  finally show ?thesis .
qed

lemma sanitizePath_elems:
  assumes "sanitizePath p = Inr q"
  shows "\<exists>es. q = CHR ''/'' # join_slash (''data'' # es) \<and> (\<forall>e\<in>set es. proper e)"
proof -
  have c: "\<not> contains (Clean p) ''..''" "q = path_Join [DataMountPath, Clean p]"
    using assms by (auto simp: sanitizePath_def Let_def split: if_splits)
  have dd: "''..'' \<notin> set (split_slash (Clean p))" using c(1) part_contained [of "''..''" "Clean p"] by (auto simp: contains_iff)
  show ?thesis
    using path_Join_data [OF c(1) Clean_ne] c(2) plain_elems_proper [OF dd] split_slash_plain_parts by blast
qed

text \<open>
  A path that passes the check lies below the mount point.  Whatever the client sent, the path
  that is deleted is \<^verbatim>\<open>/data\<close> followed by elements none of which is empty, \<^verbatim>\<open>.\<close> or \<^verbatim>\<open>..\<close>; and the check
  fails exactly for the empty path and when the cleaned path contains two dots in a row.
\<close>

theorem sanitizePath_confined:
  "case sanitizePath p of
     Inl e \<Rightarrow> p = '''' \<or> contains (Clean p) ''..''
   | Inr q \<Rightarrow> \<exists>es. split_slash q = '''' # ''data'' # es \<and> list_all proper es"
proof (cases "sanitizePath p")
  case (Inl e)
  then show ?thesis by (auto simp: sanitizePath_def Let_def split: if_splits)
next
  case (Inr q)
  obtain es where es: "q = CHR ''/'' # join_slash (''data'' # es)" "\<forall>e\<in>set es. proper e" using sanitizePath_elems [OF Inr] by blast
  then have "split_slash (join_slash (''data'' # es)) = ''data'' # es" by (intro split_join) (auto simp: proper_def)
  then show ?thesis using Inr es by (simp add: list_all_iff)
qed

text \<open>
  The check is too strict: a file whose name merely contains two dots, such as \<^verbatim>\<open>a..b\<close>, is refused
  as a traversal.  The same test guards the file cache, so such a file can neither be
  deleted nor written.
\<close>

theorem sanitizePath_refuses_name:
  assumes "s \<noteq> ''''" "CHR ''/'' \<notin> set s" "t \<noteq> ''''" "CHR ''/'' \<notin> set t" "CHR ''.'' \<notin> set s"
  shows "proper (s @ ''..'' @ t) \<and> Clean (s @ ''..'' @ t) = s @ ''..'' @ t \<and> sanitizePath (s @ ''..'' @ t) = Inl PathTraversal"
proof -
  let ?p = "s @ ''..'' @ t"
  have p: "proper ?p" using assms by (cases s) (auto simp: proper_def)
  have "split_slash ?p = [?p]" using assms by (intro split_slash_plain) auto
  moreover have "\<not> rooted ?p" using assms by (cases s) (auto simp: rooted_def)
  ultimately have c: "Clean ?p = ?p" using p by (auto simp: Clean_def proper_def Let_def)
  then show ?thesis using p contains_append [of s "''..''" t] assms(1) by (simp add: sanitizePath_def)
qed

theorem sanitizePath_refuses_name_witness:
  "proper (''a'' @ ''..'' @ ''b'') \<and> Clean (''a'' @ ''..'' @ ''b'') = ''a'' @ ''..'' @ ''b'' \<and>
   sanitizePath (''a'' @ ''..'' @ ''b'') = Inl PathTraversal"
  by (rule sanitizePath_refuses_name) simp_all

end
