(* ===== verification/Rbd_Source.thy ===== *)
theory Rbd_Source
  imports Volid Csi_Config Pipeline_Config Rbd_Iter Paths
begin

section \<open>RBD images and the RBD source worker (internal/ceph/rbd/rbd.go, internal/worker/rbd/source.go)\<close>

text \<open>
  Image specifications, opening images, the diff iterator, and the source worker's \<^verbatim>\<open>Sync\<close>: it
  finds the image and the snapshots to compare, sets up the transfer, runs the pipeline, waits for
  the acknowledgements and commits.  The Ceph cluster is the record \<^verbatim>\<open>ceph\<close> of what its library calls
  return; the rest of the worker's surroundings (certificates, streams, the pipeline's result) is
  \<^verbatim>\<open>sync_env\<close>.  Connections and images that are opened or released are logged, so that the lemmas
  can say that none is leaked.
\<close>

subsection \<open>Image specifications\<close>

definition RBDImageSpec :: "string \<Rightarrow> string \<Rightarrow> string \<Rightarrow> string" where
  "RBDImageSpec pool ns img = (if ns \<noteq> '''' then pool @ ''/'' @ ns @ ''/'' @ img else pool @ ''/'' @ img)"

definition parse_spec :: "string \<Rightarrow> (string \<times> string \<times> string) option" where
  "parse_spec spec =
     (let parts = split_slash spec in
      if length parts \<noteq> 2 \<and> length parts \<noteq> 3 then None
      else Some (parts ! 0, if length parts = 3 then parts ! 1 else '''', parts ! (length parts - 1)))"

subsection \<open>The cluster, and the log of resources\<close>

type_synonym image = "string \<times> string \<times> string"

record ImageParent =
  parentPool :: string
  parentPoolNS :: string
  parentImage :: string
  parentPID :: u64
  parentSnap :: u64

record ceph =
  cephConnect :: "string \<Rightarrow> bool"
  cephPoolByID :: "u64 \<Rightarrow> string option"
  cephIoctx :: "string \<Rightarrow> bool"
  cephOpenImage :: "image \<Rightarrow> bool"
  cephGetParent :: "image \<Rightarrow> ImageParent option option"
  cephGetSize :: "image \<Rightarrow> u64 option"
  cephCloseImage :: "image \<Rightarrow> bool"
  cephSetSnap :: "image \<Rightarrow> u64 \<Rightarrow> bool"
  cephDiff :: "image \<Rightarrow> u64 \<Rightarrow> u64 \<Rightarrow> u64 \<Rightarrow> diffBlock list \<times> bool"

datatype resource_op = Connected | Destroyed | ImageOpened image | ImageClosed image

datatype source_error =
  HandlePanic | BadHandle volid_error | CsiError csi_error | ConnectFailed | PoolUnknown | BadSpec | IoctxFailed |
  OpenImageFailed | GetParentFailed | NoParent | GetSizeFailed | SetSnapFailed | OpenDeviceFailed |
  CertFailed | ExchangeFailed | TLSFailed | DirectConnectFailed | PipelineFailed | AckWaitCancelled |
  SnapshotNamesFailed | SnapshotNotFound | CommitOpenFailed | CommitSendFailed | CommitRecvFailed | DoneFailed

type_synonym 'a src = "(resource_op, source_error, 'a) logged"

definition NewClusterConnection :: "ceph \<Rightarrow> string \<Rightarrow> unit src" where
  "NewClusterConnection cl mons =
     (if cephConnect cl mons then act Connected else fail ConnectFailed)"

definition PoolNameByID :: "ceph \<Rightarrow> u64 \<Rightarrow> string src" where
  "PoolNameByID cl i = need (cephPoolByID cl i) PoolUnknown"

definition NewImage :: "ceph \<Rightarrow> string \<Rightarrow> image src" where
  "NewImage cl spec =
     (case parse_spec spec of
        None \<Rightarrow> fail BadSpec
      | Some (pool, ns, img) \<Rightarrow>
          if \<not> cephIoctx cl pool then fail IoctxFailed
          else if cephOpenImage cl (pool, ns, img)
          then andThen (act (ImageOpened (pool, ns, img))) (\<lambda>_. ret (pool, ns, img))
          else fail OpenImageFailed)"

definition NewImageBySpec :: "ceph \<Rightarrow> image \<Rightarrow> image src" where
  "NewImageBySpec cl spec =
     (case spec of (pool, ns, img) \<Rightarrow>
        NewImage cl (let s = pool @ ''/'' @ img in if ns \<noteq> '''' then pool @ ''/'' @ ns @ ''/'' @ img else s))"

text \<open>The argument is what \<^verbatim>\<open>GetSnapshotNames\<close> returned, \<^verbatim>\<open>None\<close> for its error.\<close>

definition SnapshotIDByName :: "(string \<times> u64) list option \<Rightarrow> string \<Rightarrow> source_error + u64" where
  "SnapshotIDByName r n =
     (case r of
        None \<Rightarrow> Inl SnapshotNamesFailed
      | Some snaps \<Rightarrow> (case find (\<lambda>s. fst s = n) snaps of None \<Rightarrow> Inl SnapshotNotFound | Some s \<Rightarrow> Inr (snd s)))"

subsection \<open>The diff iterator\<close>

text \<open>
  The diff runs in a goroutine that sends extents on a channel and closes it when the diff call
  returns; the call's error waits in \<^verbatim>\<open>doneChan\<close>.  \<^verbatim>\<open>Next\<close> sees the channel only.
\<close>

record RBDBlockDiffIterator =
  blocksChan :: "diffBlock list"
  doneErr :: bool
  itImage :: image
  itClosed :: bool
  closeErr :: bool

definition NewRBDBlockDiffIterator ::
  "ceph \<Rightarrow> string \<Rightarrow> u64 \<Rightarrow> string \<Rightarrow> string \<Rightarrow> u64 \<Rightarrow> u64 \<Rightarrow> u64 \<Rightarrow> RBDBlockDiffIterator src" where
  "NewRBDBlockDiffIterator cl mons poolID ns img from target vol =
     andThen (NewClusterConnection cl mons) (\<lambda>_.
     andThen (onError (PoolNameByID cl poolID) [Destroyed]) (\<lambda>pool.
     andThen (onError (NewImage cl (RBDImageSpec pool ns img)) [Destroyed]) (\<lambda>im.
     andThen (if target \<noteq> 0 \<and> \<not> cephSetSnap cl im target
              then onError (fail SetSnapFailed) [ImageClosed im, Destroyed] else ret ()) (\<lambda>_.
     ret (case cephDiff cl im from target vol of
            (es, ok) \<Rightarrow> \<lparr>blocksChan = es, doneErr = \<not> ok, itImage = im, itClosed = False, closeErr = False\<rparr>)))))"

definition diff_Next :: "RBDBlockDiffIterator \<Rightarrow> RBDBlockDiffIterator \<times> diffBlock option" where
  "diff_Next it = (case blocksChan it of [] \<Rightarrow> (it, None) | b # bs \<Rightarrow> (it\<lparr>blocksChan := bs\<rparr>, Some b))"

text \<open>
  \<^verbatim>\<open>Close\<close> drains the channel, releases image and connection, and stores its error (the diff's, or
  else that of closing the image), all of it once; it returns the stored error.
\<close>

definition diff_Close :: "ceph \<Rightarrow> RBDBlockDiffIterator \<Rightarrow> RBDBlockDiffIterator \<times> resource_op list \<times> bool" where
  "diff_Close cl it =
     (if itClosed it then (it, [], closeErr it)
      else let e = doneErr it \<or> \<not> cephCloseImage cl (itImage it) in
        (it\<lparr>blocksChan := [], itClosed := True, closeErr := e\<rparr>, [ImageClosed (itImage it), Destroyed], e))"

subsection \<open>Finding the image and the snapshots\<close>

record sourceContext =
  scMons :: string
  scRadosNS :: string
  scVolumeID :: CSIIdentifier
  scParentPoolID :: u64
  scParentNS :: string
  scParentImageName :: string
  scParentPoolName :: string
  scFromSnapID :: u64
  scTargetSnapID :: u64

record source_env =
  envVolumeHandle :: string
  envBaseSnapshot :: string
  envTargetSnapshot :: string
  envReadFile :: readFile
  envUnmarshal :: unmarshal

definition empty_id :: CSIIdentifier where
  "empty_id = \<lparr>LocationID = 0, encodingVersion = 0, ClusterID = '''', ObjectUUID = ''''\<rparr>"

text \<open>
  A panic of \<^verbatim>\<open>DecomposeCSIID\<close> ends the process; as the process's log is then of no interest, it
  is an error like the others here.
\<close>

definition decompose :: "string \<Rightarrow> CSIIdentifier src" where
  "decompose h =
     (case DecomposeCSIID empty_id h of
        Panicked \<Rightarrow> fail HandlePanic
      | Returned ci None \<Rightarrow> ret ci
      | Returned ci (Some e) \<Rightarrow> fail (BadHandle e))"

definition from_csi :: "csi_error + 'a \<Rightarrow> 'a src" where
  "from_csi r = (case r of Inl e \<Rightarrow> fail (CsiError e) | Inr x \<Rightarrow> ret x)"

definition resolveSourceConfig :: "ceph \<Rightarrow> source_env \<Rightarrow> sourceContext src" where
  "resolveSourceConfig cl env =
     andThen (decompose (envVolumeHandle env)) (\<lambda>vid.
     andThen (from_csi (Mons (envReadFile env) (envUnmarshal env) CsiConfigFile (CSIIdentifier.ClusterID vid))) (\<lambda>mons.
     andThen (from_csi (GetRBDRadosNamespace (envReadFile env) (envUnmarshal env) CsiConfigFile (CSIIdentifier.ClusterID vid))) (\<lambda>ns.
     andThen (NewClusterConnection cl mons) (\<lambda>_.
     ret \<lparr>scMons = mons, scRadosNS = ns, scVolumeID = vid, scParentPoolID = 0, scParentNS = '''',
          scParentImageName = '''', scParentPoolName = '''', scFromSnapID = 0, scTargetSnapID = 0\<rparr>))))"

definition resolveFullDiffFromVolume :: "ceph \<Rightarrow> sourceContext \<Rightarrow> sourceContext src" where
  "resolveFullDiffFromVolume cl sc =
     andThen (PoolNameByID cl (LocationID (scVolumeID sc))) (\<lambda>pool.
     ret (sc\<lparr>scParentPoolID := LocationID (scVolumeID sc), scParentNS := scRadosNS sc,
             scParentImageName := ''csi-vol-'' @ ObjectUUID (scVolumeID sc), scParentPoolName := pool\<rparr>))"

text \<open>The parent of an image: closed again on every path, as the code does.\<close>

definition parent_of :: "ceph \<Rightarrow> string \<Rightarrow> ImageParent src" where
  "parent_of cl spec =
     andThen (NewImage cl spec) (\<lambda>im.
     andThen (act (ImageClosed im)) (\<lambda>_.
     case cephGetParent cl im of
       None \<Rightarrow> fail GetParentFailed
     | Some None \<Rightarrow> fail NoParent
     | Some (Some p) \<Rightarrow> ret p))"

definition resolveSnapshotDiff :: "ceph \<Rightarrow> sourceContext \<Rightarrow> string \<Rightarrow> string \<Rightarrow> sourceContext src" where
  "resolveSnapshotDiff cl sc base target =
     andThen (decompose target) (\<lambda>tid.
     andThen (if base \<noteq> '''' then andThen (decompose base) (\<lambda>b. ret (Some b)) else ret None) (\<lambda>bid.
     andThen (PoolNameByID cl (LocationID tid)) (\<lambda>pool.
     andThen (parent_of cl (RBDImageSpec pool (scRadosNS sc) (''csi-snap-'' @ ObjectUUID tid))) (\<lambda>p.
     let sc1 = sc\<lparr>scParentPoolName := parentPool p, scParentNS := parentPoolNS p,
                  scParentImageName := parentImage p, scParentPoolID := parentPID p,
                  scTargetSnapID := parentSnap p\<rparr> in
     case bid of
       None \<Rightarrow> ret sc1
     | Some b \<Rightarrow>
         andThen (parent_of cl (RBDImageSpec (scParentPoolName sc1) (scParentNS sc1) (''csi-snap-'' @ ObjectUUID b))) (\<lambda>bp.
         ret (sc1\<lparr>scFromSnapID := parentSnap bp\<rparr>))))))"

definition resolveParentImage :: "ceph \<Rightarrow> source_env \<Rightarrow> sourceContext \<Rightarrow> sourceContext src" where
  "resolveParentImage cl env sc =
     (if envBaseSnapshot env = '''' \<and> envTargetSnapshot env = ''''
      then resolveFullDiffFromVolume cl sc
      else resolveSnapshotDiff cl sc (envBaseSnapshot env) (envTargetSnapshot env))"

subsection \<open>The source worker's Sync\<close>

record sync_env =
  deviceOpens :: bool
  certGenerated :: bool
  certsExchanged :: bool
  tlsConfigured :: bool
  directConnected :: bool
  pipelineOk :: bool
  acksArrive :: bool
  commitOpens :: bool
  commitSent :: bool
  commitAcked :: bool
  doneSignalled :: bool

text \<open>What a successful run did: the blocks it transferred and the commit entry it sent, if any.\<close>

record sync_result =
  transferred :: "ChangeBlock list"
  commitEntry :: "(path \<times> u64) option"

definition closeAndSignalDone :: "sync_env \<Rightarrow> unit src" where
  "closeAndSignalDone se = check (doneSignalled se) DoneFailed"

definition run_transfer :: "sync_env \<Rightarrow> sourceContext \<Rightarrow> u64 \<Rightarrow> RBDBlockDiffIterator \<Rightarrow> sync_result src" where
  "run_transfer se sc vol it =
     andThen (check (deviceOpens se) OpenDeviceFailed) (\<lambda>_.
     andThen (check (certGenerated se) CertFailed) (\<lambda>_.
     andThen (check (certsExchanged se) ExchangeFailed) (\<lambda>_.
     andThen (check (tlsConfigured se) TLSFailed) (\<lambda>_.
     andThen (check (directConnected se) DirectConnectFailed) (\<lambda>_.
     let bs = rbd_blocks (newAdapter (blocksChan it) (sint vol) (ChunkSize rbd_config) (scFromSnapID sc = 0)) in
     andThen (check (pipelineOk se) PipelineFailed) (\<lambda>_.
     if bs = [] then andThen (closeAndSignalDone se) (\<lambda>_. ret \<lparr>transferred = [], commitEntry = None\<rparr>)
     else
       andThen (check (acksArrive se) AckWaitCancelled) (\<lambda>_.
       andThen (check (commitOpens se) CommitOpenFailed) (\<lambda>_.
       andThen (check (commitSent se) CommitSendFailed) (\<lambda>_.
       andThen (check (commitAcked se) CommitRecvFailed) (\<lambda>_.
       andThen (closeAndSignalDone se) (\<lambda>_.
       ret \<lparr>transferred = bs, commitEntry = Some (DevicePath, vol)\<rparr>)))))))))))"

definition rbd_Sync :: "ceph \<Rightarrow> source_env \<Rightarrow> sync_env \<Rightarrow> sync_result src" where
  "rbd_Sync cl env se =
     andThen (resolveSourceConfig cl env) (\<lambda>sc0.
     andThen (onError (resolveParentImage cl env sc0) [Destroyed]) (\<lambda>sc.
     andThen (onError (NewImage cl (RBDImageSpec (scParentPoolName sc) (scParentNS sc) (scParentImageName sc))) [Destroyed]) (\<lambda>im.
     andThen (onError (need (cephGetSize cl im) GetSizeFailed) [ImageClosed im, Destroyed]) (\<lambda>vol.
     andThen (act (ImageClosed im)) (\<lambda>_.
     andThen (act Destroyed) (\<lambda>_.
     andThen (NewRBDBlockDiffIterator cl (scMons sc) (scParentPoolID sc) (scParentNS sc) (scParentImageName sc)
                (scFromSnapID sc) (scTargetSnapID sc) vol) (\<lambda>it.
     deferred (run_transfer se sc vol it) (fst (snd (diff_Close cl it))))))))))"

subsection \<open>Image specifications round-trip\<close>

text \<open>
  An image specification is read back as it was written: for a pool, a possibly empty namespace
  and an image name without slashes, \<^verbatim>\<open>NewImage\<close> opens exactly the image \<^verbatim>\<open>RBDImageSpec\<close> was given.
\<close>

theorem image_spec_roundtrip:
  assumes "CHR ''/'' \<notin> set pool" "CHR ''/'' \<notin> set ns" "CHR ''/'' \<notin> set img"
  shows "parse_spec (RBDImageSpec pool ns img) = Some (pool, ns, img)"
  using assms by (auto simp: RBDImageSpec_def parse_spec_def split_slash_append split_slash_plain)

theorem image_spec_roundtrip_witness:
  "parse_spec (RBDImageSpec ''pool'' ''ns'' ''csi-vol-1'') = Some (''pool'', ''ns'', ''csi-vol-1'')"
  by (rule image_spec_roundtrip) simp_all

subsection \<open>No connection and no image is leaked\<close>

datatype resource = Conn | Img image

fun delta :: "resource_op \<Rightarrow> resource \<Rightarrow> int" where
  "delta Connected r = (if r = Conn then 1 else 0)"
| "delta Destroyed r = (if r = Conn then - 1 else 0)"
| "delta (ImageOpened im) r = (if r = Img im then 1 else 0)"
| "delta (ImageClosed im) r = (if r = Img im then - 1 else 0)"

abbreviation net :: "resource_op list \<Rightarrow> resource \<Rightarrow> int" where "net \<equiv> log_net delta"

abbreviation nets :: "'a src \<Rightarrow> (resource \<Rightarrow> int) \<Rightarrow> ('a \<Rightarrow> resource \<Rightarrow> int) \<Rightarrow> bool" where "nets \<equiv> log_nets delta"

lemma nets_NewImage: "nets (NewImage cl spec) (\<lambda>_. 0) (\<lambda>im. net [ImageOpened im])"
  by (auto simp: NewImage_def log_nets_def logged_defs fun_eq_iff split: option.splits)

lemma nets_NewClusterConnection: "nets (NewClusterConnection cl mons) (\<lambda>_. 0) (\<lambda>_. net [Connected])"
  by (auto simp: NewClusterConnection_def log_nets_def logged_defs fun_eq_iff)

lemma nets_PoolNameByID: "nets (PoolNameByID cl i) (\<lambda>_. 0) (\<lambda>_ _. 0)"
  by (simp add: PoolNameByID_def nets_need)

lemma nets_decompose: "nets (decompose h) (\<lambda>_. 0) (\<lambda>_ _. 0)"
  by (auto simp: decompose_def nets_fail nets_ret split: decomposed.splits option.splits)

lemma nets_from_csi: "nets (from_csi r) (\<lambda>_. 0) (\<lambda>_ _. 0)"
  by (auto simp: from_csi_def nets_fail nets_ret split: sum.splits)

lemma nets_parent_of: "nets (parent_of cl spec) (\<lambda>_. 0) (\<lambda>_ _. 0)"
proof -
  have "nets (andThen (act (ImageClosed im)) (\<lambda>_. case cephGetParent cl im of
       None \<Rightarrow> fail GetParentFailed | Some None \<Rightarrow> fail NoParent | Some (Some p) \<Rightarrow> ret p))
     (\<lambda>r. 0 - net [ImageOpened im] r) (\<lambda>_ r. 0 - net [ImageOpened im] r)" for im
    by (auto simp: log_nets_def logged_defs fun_eq_iff split: option.splits)
  then show ?thesis unfolding parent_of_def by (intro nets_andThen [OF nets_NewImage])
qed

lemma nets_resolveSourceConfig: "nets (resolveSourceConfig cl env) (\<lambda>_. 0) (\<lambda>_. net [Connected])"
  unfolding resolveSourceConfig_def
  by (intro nets_step [OF nets_decompose] nets_step [OF nets_from_csi] nets_andThen [OF nets_NewClusterConnection])
    (auto intro: nets_ret simp: fun_eq_iff)

lemma nets_resolveSnapshotDiff: "nets (resolveSnapshotDiff cl sc base target) (\<lambda>_. 0) (\<lambda>_ _. 0)"
proof -
  have base: "nets (if base \<noteq> '''' then andThen (decompose base) (\<lambda>b. ret (Some b)) else ret None) (\<lambda>_. 0) (\<lambda>_ _. 0)"
    by (auto intro: nets_step [OF nets_decompose] nets_ret)
  show ?thesis unfolding resolveSnapshotDiff_def Let_def
    by (intro nets_step [OF nets_decompose] nets_step [OF base] nets_step [OF nets_PoolNameByID] nets_step [OF nets_parent_of])
      (auto intro: nets_ret nets_step [OF nets_parent_of] split: option.splits)
qed

lemma nets_resolveParentImage: "nets (resolveParentImage cl env sc) (\<lambda>_. 0) (\<lambda>_ _. 0)"
  unfolding resolveParentImage_def resolveFullDiffFromVolume_def
  by (auto intro: nets_resolveSnapshotDiff nets_step [OF nets_PoolNameByID] nets_ret)

text \<open>Opening an image while a connection is held, with the connection destroyed on failure.\<close>

lemma nets_open_held:
  assumes "\<And>im. nets (k im) (net [ImageClosed im, Destroyed]) (\<lambda>y r. n y r - net [ImageOpened im] r)"
  shows "nets (andThen (onError (NewImage cl spec) [Destroyed]) k) (net [Destroyed]) n"
proof (rule nets_andThen)
  show "nets (onError (NewImage cl spec) [Destroyed]) (net [Destroyed]) (\<lambda>im. net [ImageOpened im])"
    using nets_NewImage by (intro nets_onError) simp
  have "(\<lambda>r. net [Destroyed] r - net [ImageOpened im] r) = net [ImageClosed im, Destroyed]" for im
    by (auto simp: fun_eq_iff)
  then show "nets (k im) (\<lambda>r. net [Destroyed] r - net [ImageOpened im] r) (\<lambda>y r. n y r - net [ImageOpened im] r)" for im
    using assms by simp
qed

lemma nets_connect_held:
  assumes "\<And>x. nets (k x) (net [Destroyed]) (\<lambda>y r. n y r - net [Connected] r)" "nets m (\<lambda>_. 0) (\<lambda>_. net [Connected])"
  shows "nets (andThen m k) (\<lambda>_. 0) n"
proof (rule nets_andThen [OF assms(2)])
  have "(\<lambda>r. 0 - net [Connected] r) = net [Destroyed]" by (auto simp: fun_eq_iff)
  then show "nets (k x) (\<lambda>r. 0 - net [Connected] r) (\<lambda>y r. n y r - net [Connected] r)" for x using assms(1) by simp
qed

lemma nets_iterator:
  "nets (NewRBDBlockDiffIterator cl mons poolID ns img from target vol) (\<lambda>_. 0)
     (\<lambda>it. net [Connected, ImageOpened (itImage it)])"
  unfolding NewRBDBlockDiffIterator_def
proof (intro nets_connect_held [OF _ nets_NewClusterConnection] nets_guarded [OF nets_PoolNameByID] nets_open_held)
  fix im
  show "nets (andThen (if target \<noteq> 0 \<and> \<not> cephSetSnap cl im target
        then onError (fail SetSnapFailed) [ImageClosed im, Destroyed] else ret ())
      (\<lambda>_. ret (case cephDiff cl im from target vol of
            (es, ok) \<Rightarrow> \<lparr>blocksChan = es, doneErr = \<not> ok, itImage = im, itClosed = False, closeErr = False\<rparr>)))
    (net [ImageClosed im, Destroyed])
    (\<lambda>y r. net [Connected, ImageOpened (itImage y)] r - net [Connected] r - net [ImageOpened im] r)"
    by (auto simp: log_nets_def logged_defs fun_eq_iff split: prod.splits)
qed

lemma nets_run_transfer: "nets (run_transfer se sc vol it) (\<lambda>_. 0) (\<lambda>_ _. 0)"
  unfolding run_transfer_def closeAndSignalDone_def Let_def
  by (auto intro!: nets_step [OF nets_check] nets_ret)

lemma given_back:
  "(\<lambda>r. 0 - net [Connected, ImageOpened im] r - net [ImageClosed im, Destroyed] r) = (\<lambda>_. 0)"
  by (auto simp: fun_eq_iff)

lemma iterator_open:
  "snd (NewRBDBlockDiffIterator cl mons poolID ns img from target vol) = Inr it \<Longrightarrow> \<not> itClosed it"
  by (auto simp: NewRBDBlockDiffIterator_def andThen_def ret_def split: prod.splits sum.splits)

lemma diff_unused:
  "NewClusterConnection (cl\<lparr>cephDiff := d\<rparr>) = NewClusterConnection cl"
  "PoolNameByID (cl\<lparr>cephDiff := d\<rparr>) = PoolNameByID cl"
  "NewImage (cl\<lparr>cephDiff := d\<rparr>) = NewImage cl"
  "parent_of (cl\<lparr>cephDiff := d\<rparr>) = parent_of cl"
  "diff_Close (cl\<lparr>cephDiff := d\<rparr>) = diff_Close cl"
  "resolveSourceConfig (cl\<lparr>cephDiff := d\<rparr>) = resolveSourceConfig cl"
  "resolveParentImage (cl\<lparr>cephDiff := d\<rparr>) = resolveParentImage cl"
proof -
  show conn: "NewClusterConnection (cl\<lparr>cephDiff := d\<rparr>) = NewClusterConnection cl"
    and pool: "PoolNameByID (cl\<lparr>cephDiff := d\<rparr>) = PoolNameByID cl"
    and img: "NewImage (cl\<lparr>cephDiff := d\<rparr>) = NewImage cl"
    by (auto simp: fun_eq_iff NewClusterConnection_def PoolNameByID_def NewImage_def split: option.splits)
  show "diff_Close (cl\<lparr>cephDiff := d\<rparr>) = diff_Close cl"
    by (simp add: fun_eq_iff diff_Close_def)
  show par: "parent_of (cl\<lparr>cephDiff := d\<rparr>) = parent_of cl"
    by (simp add: fun_eq_iff parent_of_def img)
  show "resolveSourceConfig (cl\<lparr>cephDiff := d\<rparr>) = resolveSourceConfig cl"
    by (simp add: fun_eq_iff resolveSourceConfig_def conn)
  show "resolveParentImage (cl\<lparr>cephDiff := d\<rparr>) = resolveParentImage cl"
    unfolding fun_eq_iff resolveParentImage_def resolveFullDiffFromVolume_def resolveSnapshotDiff_def pool par by simp
qed

lemma iterator_error_unused:
  assumes "\<And>es a b im. k \<lparr>blocksChan = es, doneErr = a, itImage = im, itClosed = False, closeErr = False\<rparr> =
      k \<lparr>blocksChan = es, doneErr = b, itImage = im, itClosed = False, closeErr = False\<rparr>"
  shows "andThen (NewRBDBlockDiffIterator (cl\<lparr>cephDiff := \<lambda>im a b v. (fst (cephDiff cl im a b v), ok)\<rparr>) mons pid ns img frm target vol) k =
    andThen (NewRBDBlockDiffIterator cl mons pid ns img frm target vol) k"
proof -
  have "k (case cephDiff cl im frm target vol of (es, ok) \<Rightarrow> \<lparr>blocksChan = es, doneErr = \<not> ok, itImage = im, itClosed = False, closeErr = False\<rparr>) =
      k \<lparr>blocksChan = fst (cephDiff cl im frm target vol), doneErr = \<not> ok, itImage = im, itClosed = False, closeErr = False\<rparr>" for im
    using assms by (auto split: prod.splits)
  then show ?thesis
    by (simp add: NewRBDBlockDiffIterator_def diff_unused andThen_assoc andThen_ret)
qed

subsection \<open>Correctness\<close>

text \<open>
  Whatever calls fail, a \<^verbatim>\<open>Sync\<close> releases what it acquired: in its log every cluster connection
  made is destroyed, and every image opened is closed, exactly once.
\<close>

theorem rbd_Sync_no_leak: "net (fst (rbd_Sync cl env se)) r = 0"
proof -
  have tail: "nets (andThen (NewRBDBlockDiffIterator cl mons pid ns img frm target vol)
      (\<lambda>it. deferred (run_transfer se sc vol it) (fst (snd (diff_Close cl it))))) (\<lambda>_. 0) (\<lambda>_ _. 0)"
    for mons pid ns img frm target vol sc
  proof (rule nets_andThen [OF nets_iterator])
    fix it
    assume "snd (NewRBDBlockDiffIterator cl mons pid ns img frm target vol) = Inr it"
    then have "fst (snd (diff_Close cl it)) = [ImageClosed (itImage it), Destroyed]"
      using iterator_open by (simp add: diff_Close_def Let_def)
    then show "nets (deferred (run_transfer se sc vol it) (fst (snd (diff_Close cl it))))
        (\<lambda>r. 0 - net [Connected, ImageOpened (itImage it)] r) (\<lambda>_ r. 0 - net [Connected, ImageOpened (itImage it)] r)"
      using nets_run_transfer [of se sc vol it] by (intro nets_deferred) (simp only: given_back)
  qed
  have "nets (rbd_Sync cl env se) (\<lambda>_. 0) (\<lambda>_ _. 0)"
    unfolding rbd_Sync_def
  proof (intro nets_connect_held [OF _ nets_resolveSourceConfig] nets_guarded [OF nets_resolveParentImage]
      nets_open_held nets_guarded [OF nets_need])
    fix sc im vol
    let ?k = "andThen (NewRBDBlockDiffIterator cl (scMons sc) (scParentPoolID sc) (scParentNS sc) (scParentImageName sc)
        (scFromSnapID sc) (scTargetSnapID sc) vol) (\<lambda>it. deferred (run_transfer se sc vol it) (fst (snd (diff_Close cl it))))"
    have "net (fst ?k) = (\<lambda>_. 0)" by (rule nets_zero [OF tail])
    then show "nets (andThen (act (ImageClosed im)) (\<lambda>_. andThen (act Destroyed) (\<lambda>_. ?k)))
        (net [ImageClosed im, Destroyed]) (\<lambda>y r. 0 - net [Connected] r - net [ImageOpened im] r)"
      by (cases ?k) (auto simp: log_nets_def andThen_def act_def fun_eq_iff split: sum.splits prod.splits)
  qed
  then show ?thesis by (simp add: nets_zero)
qed

text \<open>
  C37: the worker cannot tell a diff that failed from one that ended.  \<^verbatim>\<open>Close\<close> reports the error of the
  diff call, but \<^verbatim>\<open>Sync\<close> discards it: its result is the same whether the diff call succeeded or
  failed after the extents delivered so far.  For a full diff the adapter then declares
  everything behind the last delivered extent to be zero.
\<close>

theorem rbd_Sync_ignores_diff_error:
  "rbd_Sync (cl\<lparr>cephDiff := \<lambda>im a b v. (fst (cephDiff cl im a b v), ok)\<rparr>) env se = rbd_Sync cl env se \<and>
   (let es = [\<lparr>dbOffset = 0, dbLen = 4\<rparr>, \<lparr>dbOffset = 4, dbLen = 4\<rparr>] in
     map (\<lambda>b. (cbOffset b, cbLen b, cbIsZero b)) (rbd_blocks (newAdapter (take 1 es) 8 4 True)) = [(0, 4, False), (4, 4, True)])"
proof
  let ?cl = "cl\<lparr>cephDiff := \<lambda>im a b v. (fst (cephDiff cl im a b v), ok)\<rparr>"
  have same: "NewClusterConnection ?cl = NewClusterConnection cl" "PoolNameByID ?cl = PoolNameByID cl"
    "NewImage ?cl = NewImage cl" "diff_Close ?cl = diff_Close cl" "resolveSourceConfig ?cl = resolveSourceConfig cl"
    "resolveParentImage ?cl = resolveParentImage cl" "cephGetSize ?cl = cephGetSize cl"
    by (simp_all add: diff_unused)
  have inner: "andThen (NewRBDBlockDiffIterator ?cl mons pid ns img frm target vol)
      (\<lambda>it. deferred (run_transfer se sc vol it) (fst (snd (diff_Close cl it)))) =
    andThen (NewRBDBlockDiffIterator cl mons pid ns img frm target vol)
      (\<lambda>it. deferred (run_transfer se sc vol it) (fst (snd (diff_Close cl it))))" for mons pid ns img frm target vol sc
    by (rule iterator_error_unused) (simp add: run_transfer_def diff_Close_def Let_def)
  show "rbd_Sync ?cl env se = rbd_Sync cl env se"
    unfolding rbd_Sync_def same inner ..
  show "let es = [\<lparr>dbOffset = 0, dbLen = 4\<rparr>, \<lparr>dbOffset = 4, dbLen = 4\<rparr>] in
     map (\<lambda>b. (cbOffset b, cbLen b, cbIsZero b)) (rbd_blocks (newAdapter (take 1 es) 8 4 True)) = [(0, 4, False), (4, 4, True)]"
    by (simp add: rbd_blocks_eq pieces_one to_block_def)
qed

end
