(* ===== verification/Pipeline_Read.thy ===== *)
theory Pipeline_Read
  imports Pipeline_Config Feeder Block_IO Mem_Semaphore Window_Semaphore
begin

section \<open>Held resources and the read stage (internal/worker/pipeline)\<close>

text \<open>
  A chunk on its way through the pipeline owns memory and a window slot, recorded in its
  \<^verbatim>\<open>held\<close> value (held.go).  The read stage (stage_read.go) acquires them, reads the block, and hands
  both on; on every error path it must give back what it acquired.

  What a stage does to the two semaphores is a list of \<^verbatim>\<open>sem_op\<close>s, which \<^verbatim>\<open>run_op\<close> performs on the
  semaphores of the earlier theories.  Where the code waits, the outcome is an input: whether an
  \<^verbatim>\<open>Acquire\<close> was granted or its context cancelled, and whether the send to the next channel
  happened or the context was cancelled first.
\<close>

subsection \<open>Held resources\<close>

datatype sem_op = MemAcq int | WinAcq u64 | MemRel int | WinRel u64

record held =
  heldReqID :: u64
  memRawN :: int
  hasWin :: bool
  hasMem :: bool

definition releaseMemOnly :: "held \<Rightarrow> held \<times> sem_op list" where
  "releaseMemOnly h = (if hasMem h then (h\<lparr>hasMem := False\<rparr>, [MemRel (memRawN h)]) else (h, []))"

definition held_release :: "held \<Rightarrow> held \<times> sem_op list" where
  "held_release h =
     (let (h1, ops1) = (if hasMem h then (h\<lparr>hasMem := False\<rparr>, [MemRel (memRawN h)]) else (h, []));
          (h2, ops2) = (if hasWin h1 then (h1\<lparr>hasWin := False\<rparr>, [WinRel (heldReqID h1)]) else (h1, []))
      in (h2, ops1 @ ops2))"

text \<open>Performing an operation; a granted \<^verbatim>\<open>Acquire\<close> is one that does not have to wait.\<close>

fun run_op :: "sem_op \<Rightarrow> MemSemaphore \<times> WindowSemaphore \<Rightarrow> MemSemaphore \<times> WindowSemaphore" where
  "run_op (MemAcq n) (m, w) = (fst (mem_Acquire m n), w)"
| "run_op (WinAcq i) (m, w) = (m, fst (win_Acquire w i))"
| "run_op (MemRel n) (m, w) = (mem_Release m n, w)"
| "run_op (WinRel i) (m, w) = (m, win_Release w i)"

text \<open>The net effect of a list of operations: bytes kept, and ids granted or given back.\<close>

fun mem_net :: "sem_op list \<Rightarrow> int" where
  "mem_net [] = 0"
| "mem_net (MemAcq n # ops) = n + mem_net ops"
| "mem_net (MemRel n # ops) = mem_net ops - n"
| "mem_net (_ # ops) = mem_net ops"

fun win_acqs :: "sem_op list \<Rightarrow> u64 multiset" where
  "win_acqs [] = {#}"
| "win_acqs (WinAcq i # ops) = add_mset i (win_acqs ops)"
| "win_acqs (_ # ops) = win_acqs ops"

fun win_rels :: "sem_op list \<Rightarrow> u64 multiset" where
  "win_rels [] = {#}"
| "win_rels (WinRel i # ops) = add_mset i (win_rels ops)"
| "win_rels (_ # ops) = win_rels ops"

definition held_mem :: "held \<Rightarrow> int" where
  "held_mem h = (if hasMem h then memRawN h else 0)"

definition held_win :: "held \<Rightarrow> u64 multiset" where
  "held_win h = (if hasWin h then {#heldReqID h#} else {#})"

subsection \<open>The read stage\<close>

record ReadChunk =
  rcReqID :: u64
  rcFilePath :: path
  rcOffset :: int
  rcLength :: int
  rcData :: bytes
  rcIsZero :: bool
  rcTotalSize :: int
  rcHeld :: held

record Stats =
  ReadCount :: int
  ReadBytes :: int
  ReadZeroCount :: int
  SendCount :: int
  SendBytes :: int
  SendFlushes :: int
  AckCount :: int

record read_env =
  memGranted :: bool
  winGranted :: bool
  sendTaken :: bool

type_synonym 'e reader = "path \<Rightarrow> int \<Rightarrow> int \<Rightarrow> 'e + bytes"

datatype 'e stage_error = CtxErr | ReadErr 'e | SendErr | RecvErr | OpenErr

text \<open>
  The body of \<^verbatim>\<open>readWorker\<close>'s loop for one chunk: what it did to the semaphores, the statistics,
  and either the chunk it emitted or the error it returned.
\<close>

definition read_zero_chunk ::
  "Stats \<Rightarrow> read_env \<Rightarrow> Chunk \<Rightarrow> sem_op list \<times> Stats \<times> ('e stage_error + ReadChunk)" where
  "read_zero_chunk st env c =
     (if \<not> winGranted env then ([], st, Inl CtxErr)
      else
        let st' = st\<lparr>ReadCount := ReadCount st + 1, ReadZeroCount := ReadZeroCount st + 1\<rparr> in
        if sendTaken env
        then ([WinAcq (chReqID c)], st',
              Inr \<lparr>rcReqID = chReqID c, rcFilePath = chFilePath c, rcOffset = chOffset c,
                   rcLength = chLength c, rcData = [], rcIsZero = True, rcTotalSize = chTotalSize c,
                   rcHeld = \<lparr>heldReqID = chReqID c, memRawN = 0, hasWin = True, hasMem = False\<rparr>\<rparr>)
        else ([WinAcq (chReqID c), WinRel (chReqID c)], st', Inl CtxErr))"

definition read_data_chunk ::
  "Config \<Rightarrow> 'e reader \<Rightarrow> Stats \<Rightarrow> read_env \<Rightarrow> Chunk \<Rightarrow> sem_op list \<times> Stats \<times> ('e stage_error + ReadChunk)" where
  "read_data_chunk cfg rd st env c =
     (let n = min (chLength c) (ChunkSize cfg) in
      if \<not> memGranted env then ([], st, Inl CtxErr)
      else if \<not> winGranted env then ([MemAcq n, MemRel n], st, Inl CtxErr)
      else case rd (chFilePath c) (chOffset c) n of
        Inl e \<Rightarrow> ([MemAcq n, WinAcq (chReqID c), MemRel n, WinRel (chReqID c)], st, Inl (ReadErr e))
      | Inr d \<Rightarrow>
          let st1 = st\<lparr>ReadCount := ReadCount st + 1, ReadBytes := ReadBytes st + int (length d)\<rparr> in
          if IsAllZero d
          then let st2 = st1\<lparr>ReadZeroCount := ReadZeroCount st1 + 1\<rparr> in
            if sendTaken env
            then ([MemAcq n, WinAcq (chReqID c), MemRel n], st2,
                  Inr \<lparr>rcReqID = chReqID c, rcFilePath = chFilePath c, rcOffset = chOffset c,
                       rcLength = chLength c, rcData = [], rcIsZero = True, rcTotalSize = chTotalSize c,
                       rcHeld = \<lparr>heldReqID = chReqID c, memRawN = 0, hasWin = True, hasMem = False\<rparr>\<rparr>)
            else ([MemAcq n, WinAcq (chReqID c), MemRel n, WinRel (chReqID c)], st2, Inl CtxErr)
          else let h = \<lparr>heldReqID = chReqID c, memRawN = n, hasWin = True, hasMem = True\<rparr> in
            if sendTaken env
            then ([MemAcq n, WinAcq (chReqID c)], st1,
                  Inr \<lparr>rcReqID = chReqID c, rcFilePath = chFilePath c, rcOffset = chOffset c,
                       rcLength = int (length d), rcData = d, rcIsZero = False,
                       rcTotalSize = chTotalSize c, rcHeld = h\<rparr>)
            else ([MemAcq n, WinAcq (chReqID c)] @ snd (held_release h), st1, Inl CtxErr))"

definition read_chunk ::
  "Config \<Rightarrow> 'e reader \<Rightarrow> Stats \<Rightarrow> read_env \<Rightarrow> Chunk \<Rightarrow> sem_op list \<times> Stats \<times> ('e stage_error + ReadChunk)" where
  "read_chunk cfg rd st env c =
     (if chIsZero c then read_zero_chunk st env c else read_data_chunk cfg rd st env c)"

text \<open>
  The loop: \<^term>\<open>None\<close> in the input is a cancelled context at the receive, the end of the input a
  closed channel.  The result holds the emitted chunks and the error, if any.
\<close>

fun readWorker ::
  "Config \<Rightarrow> 'e reader \<Rightarrow> Stats \<Rightarrow> (Chunk \<times> read_env) option list \<Rightarrow>
     sem_op list \<times> Stats \<times> ReadChunk list \<times> 'e stage_error option" where
  "readWorker cfg rd st [] = ([], st, [], None)"
| "readWorker cfg rd st (None # ins) = ([], st, [], Some CtxErr)"
| "readWorker cfg rd st (Some (c, env) # ins) =
     (case read_chunk cfg rd st env c of
        (ops, st', Inl e) \<Rightarrow> (ops, st', [], Some e)
      | (ops, st', Inr rc) \<Rightarrow>
          (case readWorker cfg rd st' ins of
             (ops', st'', rcs, err) \<Rightarrow> (ops @ ops', st'', rc # rcs, err)))"

text \<open>The bytes a read chunk stands for.\<close>

definition payload :: "ReadChunk \<Rightarrow> bytes" where
  "payload rc = (if rcIsZero rc then replicate (nat (rcLength rc)) 0 else rcData rc)"

definition read_slice :: "bytes \<Rightarrow> int \<Rightarrow> int \<Rightarrow> bytes" where
  "read_slice img off n = take (nat n) (drop (nat off) img)"

definition sample_chunk :: Chunk where
  "sample_chunk = \<lparr>chReqID = 7, chFilePath = ''f'', chOffset = 1, chLength = 2, chTotalSize = 4, chIsZero = False\<rparr>"

definition sample_env :: read_env where
  "sample_env = \<lparr>memGranted = True, winGranted = True, sendTaken = True\<rparr>"

definition sample_stats :: Stats where
  "sample_stats = \<lparr>ReadCount = 0, ReadBytes = 0, ReadZeroCount = 0, SendCount = 0, SendBytes = 0,
     SendFlushes = 0, AckCount = 0\<rparr>"

subsection \<open>Net effects\<close>

lemma mem_net_append [simp]: "mem_net (xs @ ys) = mem_net xs + mem_net ys"
  by (induction xs rule: mem_net.induct) auto

lemma win_acqs_append [simp]: "win_acqs (xs @ ys) = win_acqs xs + win_acqs ys"
  by (induction xs rule: win_acqs.induct) auto

lemma win_rels_append [simp]: "win_rels (xs @ ys) = win_rels xs + win_rels ys"
  by (induction xs rule: win_rels.induct) auto

lemma held_release_net [simp]:
  "mem_net (snd (held_release h)) = - held_mem h"
  "win_acqs (snd (held_release h)) = {#}"
  "win_rels (snd (held_release h)) = held_win h"
  by (auto simp: held_release_def held_mem_def held_win_def)

lemma releaseMemOnly_net [simp]:
  "mem_net (snd (releaseMemOnly h)) = - held_mem h"
  "win_acqs (snd (releaseMemOnly h)) = {#}"
  "win_rels (snd (releaseMemOnly h)) = {#}"
  by (auto simp: releaseMemOnly_def held_mem_def)

text \<open>
  Releasing is idempotent: after \<^verbatim>\<open>release\<close>, or after \<^verbatim>\<open>releaseMemOnly\<close> and then \<^verbatim>\<open>release\<close>, a
  held value owns nothing, and a further \<^verbatim>\<open>release\<close> touches no semaphore; in both orders the memory
  and the window slot are given back exactly once.
\<close>

theorem held_release_once:
  "snd (held_release (fst (held_release h))) = [] \<and>
   held_mem (fst (held_release h)) = 0 \<and> held_win (fst (held_release h)) = {#} \<and>
   (let (h1, ops1) = releaseMemOnly h; (h2, ops2) = held_release h1 in
      ops1 @ ops2 = snd (held_release h) \<and> snd (held_release h2) = [])"
  by (auto simp: held_release_def releaseMemOnly_def held_mem_def held_win_def)

lemma read_chunk_net:
  "read_chunk cfg rd st env c = (ops, st', r) \<Longrightarrow>
     mem_net ops = (case r of Inl e \<Rightarrow> 0 | Inr rc \<Rightarrow> held_mem (rcHeld rc)) \<and>
     win_acqs ops = win_rels ops + (case r of Inl e \<Rightarrow> {#} | Inr rc \<Rightarrow> held_win (rcHeld rc))"
  by (auto simp: read_chunk_def read_zero_chunk_def read_data_chunk_def Let_def held_mem_def held_win_def
      split: if_splits sum.splits)

text \<open>
  The read stage leaks nothing on any path.  Whatever is granted, cancelled or fails to read,
  the memory the worker still holds when it returns is exactly what the emitted chunks carry, and
  every window slot it acquired was either given back or travels with an emitted chunk.
\<close>

theorem readWorker_no_leak:
  "case readWorker cfg rd st ins of (ops, st', rcs, err) \<Rightarrow>
     mem_net ops = sum_list (map (held_mem \<circ> rcHeld) rcs) \<and>
     win_acqs ops = win_rels ops + sum_list (map (held_win \<circ> rcHeld) rcs)"
proof (induction cfg rd st ins rule: readWorker.induct)
  case (3 cfg rd st c env ins)
  obtain ops st' r where r: "read_chunk cfg rd st env c = (ops, st', r)" by (cases "read_chunk cfg rd st env c")
  show ?case
  proof (cases r)
    case (Inl e)
    then show ?thesis using read_chunk_net [OF r] r by simp
  next
    case (Inr rc)
    then show ?thesis using read_chunk_net [OF r] r "3.IH" [OF r [symmetric] refl Inr]
      by (auto split: prod.splits)
  qed
qed simp_all

text \<open>
  The read stage makes only admissible requests: with a validated configuration whose memory limit is
  within a chunk of 64 bits, \<^verbatim>\<open>cur + n\<close> never wraps around in \<^verbatim>\<open>Acquire\<close> and the
  budget of the memory semaphore applies to every acquisition.
\<close>

lemma read_chunk_admissible:
  assumes "read_chunk cfg rd st env c = (ops, st', r)" "MemAcq n \<in> set ops" "0 \<le> chLength c"
    and "validate cfg = None" "MaxRawMemoryBytes cfg + maxChunkSize < 2 ^ 63"
  shows "admissible (MaxRawMemoryBytes cfg) n"
proof -
  have "n = min (chLength c) (ChunkSize cfg)"
    using assms(1,2)
    by (auto simp: read_chunk_def read_zero_chunk_def read_data_chunk_def held_release_def Let_def split: if_splits sum.splits)
  moreover have "0 \<le> ChunkSize cfg" "ChunkSize cfg \<le> maxChunkSize"
    using assms(4) by (auto simp: validate_None_iff minChunkSize_def)
  ultimately show ?thesis using assms(3,5) by (auto simp: admissible_def)
qed

theorem readWorker_admissible:
  assumes "validate cfg = None" "MaxRawMemoryBytes cfg + maxChunkSize < 2 ^ 63"
    and "\<forall>c env. Some (c, env) \<in> set ins \<longrightarrow> 0 \<le> chLength c"
    and "MemAcq n \<in> set (fst (readWorker cfg rd st ins))"
  shows "admissible (MaxRawMemoryBytes cfg) n"
  using assms(3,4)
proof (induction ins arbitrary: st)
  case (Cons i ins)
  show ?case
  proof (cases i)
    case (Some ce)
    obtain c env where ce: "ce = (c, env)" by (cases ce)
    obtain ops st' r where r: "read_chunk cfg rd st env c = (ops, st', r)" by (cases "read_chunk cfg rd st env c")
    have "MemAcq n \<in> set ops \<or> MemAcq n \<in> set (fst (readWorker cfg rd st' ins))"
      using Cons.prems(2) Some ce r by (cases r) (auto split: prod.splits)
    then show ?thesis
      using read_chunk_admissible [OF r _ _ assms(1,2)] Cons.IH [of st'] Cons.prems(1) Some ce by auto
  qed (use Cons.prems in simp)
qed simp

text \<open>What an emitted chunk says of the image it was read from.\<close>

definition reads_image :: "'e reader \<Rightarrow> (path \<Rightarrow> bytes) \<Rightarrow> bool" where
  "reads_image rd img \<longleftrightarrow> (\<forall>p off n. 0 \<le> off \<and> 0 \<le> n \<longrightarrow> rd p off n = Inr (read_slice (img p) off n))"

definition chunk_ok :: "Config \<Rightarrow> (path \<Rightarrow> bytes) \<Rightarrow> Chunk \<Rightarrow> bool" where
  "chunk_ok cfg img c \<longleftrightarrow> 0 \<le> chOffset c \<and> 0 \<le> chLength c \<and> chLength c \<le> ChunkSize cfg \<and>
     chOffset c + chLength c \<le> int (length (img (chFilePath c))) \<and>
     (chIsZero c \<longrightarrow> read_slice (img (chFilePath c)) (chOffset c) (chLength c) = replicate (nat (chLength c)) 0)"

definition carries :: "(path \<Rightarrow> bytes) \<Rightarrow> Chunk \<Rightarrow> ReadChunk \<Rightarrow> bool" where
  "carries img c rc \<longleftrightarrow> rcReqID rc = chReqID c \<and> rcFilePath rc = chFilePath c \<and> rcOffset rc = chOffset c \<and>
     rcLength rc = chLength c \<and> rcTotalSize rc = chTotalSize c \<and>
     payload rc = read_slice (img (chFilePath c)) (chOffset c) (chLength c) \<and>
     heldReqID (rcHeld rc) = chReqID c \<and> hasWin (rcHeld rc)"

lemma length_read_slice: "0 \<le> off \<Longrightarrow> 0 \<le> n \<Longrightarrow> off + n \<le> int (length img) \<Longrightarrow> length (read_slice img off n) = nat n"
  by (simp add: read_slice_def)

lemma read_chunk_carries:
  assumes "reads_image rd img" "chunk_ok cfg img c" "env = \<lparr>memGranted = True, winGranted = True, sendTaken = True\<rparr>"
  obtains ops st' rc where "read_chunk cfg rd st env c = (ops, st', Inr rc)" "carries img c rc"
proof (cases "chIsZero c")
  case True
  then show ?thesis
    using assms that by (auto simp: read_chunk_def read_zero_chunk_def Let_def carries_def payload_def chunk_ok_def)
next
  case False
  let ?d = "read_slice (img (chFilePath c)) (chOffset c) (chLength c)"
  have n: "min (chLength c) (ChunkSize cfg) = chLength c" using assms(2) by (simp add: chunk_ok_def)
  have rd: "rd (chFilePath c) (chOffset c) (chLength c) = Inr ?d"
    using assms(1,2) by (simp add: reads_image_def chunk_ok_def)
  have len: "length ?d = nat (chLength c)" using assms(2) length_read_slice by (simp add: chunk_ok_def)
  have pos: "0 \<le> chLength c" using assms(2) by (simp add: chunk_ok_def)
  show ?thesis
  proof (cases "IsAllZero ?d")
    case True
    then have "?d = replicate (nat (chLength c)) 0" using len by (simp add: IsAllZero_iff)
    then show ?thesis using False True assms(3) n rd that
      by (auto simp: read_chunk_def read_data_chunk_def Let_def carries_def payload_def)
  next
    case nz: False
    then show ?thesis using False assms(3) n rd len pos that
      by (auto simp: read_chunk_def read_data_chunk_def Let_def carries_def payload_def)
  qed
qed

text \<open>
  What the read stage emits is what the source holds.  When nothing is cancelled and the
  reader returns the bytes of the image, every chunk within the chunk size comes out once, in
  order, under its own id, and stands for exactly the bytes of the image at its place, be it as
  data, as a block found to be all zero, or as a gap known to be zero.
\<close>

theorem readWorker_carries:
  assumes "reads_image rd img" "\<forall>c\<in>set cs. chunk_ok cfg img c"
  shows "case readWorker cfg rd st (map (\<lambda>c. Some (c, \<lparr>memGranted = True, winGranted = True, sendTaken = True\<rparr>)) cs) of
    (ops, st', rcs, err) \<Rightarrow> list_all2 (carries img) cs rcs \<and> err = None"
  using assms(2)
proof (induction cs arbitrary: st)
  case (Cons c cs)
  let ?env = "\<lparr>memGranted = True, winGranted = True, sendTaken = True\<rparr>"
  have ok: "chunk_ok cfg img c" using Cons.prems by simp
  obtain ops st' rc where r: "read_chunk cfg rd st ?env c = (ops, st', Inr rc)" "carries img c rc"
    using read_chunk_carries [OF assms(1) ok refl] .
  then show ?case using Cons.IH [of st'] Cons.prems by (auto split: prod.splits)
qed simp

definition sample_reader :: "unit reader" where
  "sample_reader p off n = Inr (read_slice [5, 0, 0, 6] off n)"

theorem readWorker_carries_witness:
  "case readWorker rbd_config sample_reader sample_stats [Some (sample_chunk, sample_env)] of
    (ops, st', rcs, err) \<Rightarrow> list_all2 (carries (\<lambda>p. [5, 0, 0, 6])) [sample_chunk] rcs \<and> err = None"
  using readWorker_carries [of sample_reader "\<lambda>p. [5, 0, 0, 6]" "[sample_chunk]" rbd_config sample_stats]
  by (simp add: reads_image_def sample_reader_def chunk_ok_def sample_chunk_def sample_env_def rbd_config_def
      zero_config_def config_consts)

end
