(* ===== verification/Pipeline_Send.thy ===== *)
theory Pipeline_Send
  imports Pipeline_Read
begin

section \<open>The send stage (internal/worker/pipeline/stage_send_data.go)\<close>

text \<open>
  \<^verbatim>\<open>dataSender\<close> collects read chunks into write requests and frees their memory once a request is
  on the stream; \<^verbatim>\<open>ackReceiver\<close> frees the window slots the destination acknowledges.  The results
  of \<^verbatim>\<open>stream.Send\<close> and the moment of a cancellation are inputs.
\<close>

subsection \<open>The sender\<close>

record ChangedBlock =
  blkRequestId :: u64
  blkFilePath :: path
  blkTotalSize :: nat
  blkOffset :: nat
  blkLength :: nat
  blkIsZero :: bool
  blkData :: bytes

definition to_changed :: "ReadChunk \<Rightarrow> ChangedBlock" where
  "to_changed cc = \<lparr>blkRequestId = rcReqID cc, blkFilePath = rcFilePath cc, blkTotalSize = nat (rcTotalSize cc),
     blkOffset = nat (rcOffset cc), blkLength = nat (rcLength cc), blkIsZero = rcIsZero cc, blkData = rcData cc\<rparr>"

text \<open>
  The sender's variables, what it has put on the stream, and what it did to the semaphores; the
  outcomes of the coming \<^verbatim>\<open>Send\<close> calls are the list \<^verbatim>\<open>sendOuts\<close>, an exhausted list means success.
\<close>

record sender =
  blocks :: "ChangedBlock list"
  pending :: "held list"
  accum :: int
  sent :: "ChangedBlock list list"
  semOps :: "sem_op list"
  sndStats :: Stats
  sendOuts :: "bool list"

definition newSender :: "Stats \<Rightarrow> bool list \<Rightarrow> sender" where
  "newSender st outs = \<lparr>blocks = [], pending = [], accum = 0, sent = [], semOps = [], sndStats = st, sendOuts = outs\<rparr>"

definition release_all :: "held list \<Rightarrow> sem_op list" where
  "release_all hs = concat (map (\<lambda>h. snd (held_release h)) hs)"

definition release_mems :: "held list \<Rightarrow> sem_op list" where
  "release_mems hs = concat (map (\<lambda>h. snd (releaseMemOnly h)) hs)"

definition flush :: "sender \<Rightarrow> sender \<times> bool" where
  "flush s =
     (if blocks s = [] then (s, True)
      else
        let (ok, outs) = (case sendOuts s of [] \<Rightarrow> (True, []) | x # xs \<Rightarrow> (x, xs)) in
        if \<not> ok
        then (s\<lparr>sendOuts := outs, semOps := semOps s @ release_all (pending s),
                pending := map (\<lambda>h. fst (held_release h)) (pending s)\<rparr>, False)
        else
          let st = sndStats s in
          (s\<lparr>sendOuts := outs, sent := sent s @ [blocks s],
             sndStats := st\<lparr>SendBytes := SendBytes st + accum s,
                            SendCount := SendCount st + int (length (blocks s)),
                            SendFlushes := SendFlushes st + 1\<rparr>,
             semOps := semOps s @ release_mems (pending s),
             blocks := [], pending := [], accum := 0\<rparr>, True))"

definition must_flush :: "Config \<Rightarrow> sender \<Rightarrow> ReadChunk \<Rightarrow> bool" where
  "must_flush cfg s cc \<longleftrightarrow> blocks s \<noteq> [] \<and>
     (accum s + int (length (rcData cc)) \<ge> DataBatchMaxBytes cfg \<or>
      int (length (blocks s)) \<ge> DataBatchMaxCount cfg)"

definition push_chunk :: "sender \<Rightarrow> ReadChunk \<Rightarrow> sender" where
  "push_chunk s cc = s\<lparr>blocks := blocks s @ [to_changed cc], pending := pending s @ [rcHeld cc],
     accum := accum s + int (length (rcData cc))\<rparr>"

definition send_step :: "Config \<Rightarrow> sender \<Rightarrow> ReadChunk \<Rightarrow> sender \<times> bool" where
  "send_step cfg s cc =
     (if must_flush cfg s cc
      then case flush s of
          (s', False) \<Rightarrow> (s'\<lparr>semOps := semOps s' @ snd (held_release (rcHeld cc))\<rparr>, False)
        | (s', True) \<Rightarrow> (push_chunk s' cc, True)
      else (push_chunk s cc, True))"

text \<open>
  The loop.  \<^term>\<open>None\<close> in the input is a cancelled context, the end of the input a closed channel.
  The first component of the result lists the chunks the sender took from the channel.
\<close>

fun dataSender :: "Config \<Rightarrow> sender \<Rightarrow> ReadChunk option list \<Rightarrow> ReadChunk list \<times> sender \<times> 'e stage_error option" where
  "dataSender cfg s [] =
     (case flush s of (s', True) \<Rightarrow> ([], s', None) | (s', False) \<Rightarrow> ([], s', Some SendErr))"
| "dataSender cfg s (None # ins) =
     ([], s\<lparr>semOps := semOps s @ release_all (pending s)\<rparr>, Some CtxErr)"
| "dataSender cfg s (Some cc # ins) =
     (case send_step cfg s cc of
        (s', False) \<Rightarrow> ([cc], s', Some SendErr)
      | (s', True) \<Rightarrow> (case dataSender cfg s' ins of (ccs, s'', err) \<Rightarrow> (cc # ccs, s'', err)))"

subsection \<open>The receiver of acknowledgements\<close>

datatype ack_event = Ack "u64 list" | AckEOF | AckError | AckCancelled

fun ackReceiver :: "Stats \<Rightarrow> ack_event list \<Rightarrow> sem_op list \<times> Stats \<times> 'e stage_error option" where
  "ackReceiver st [] = ([], st, Some CtxErr)"
| "ackReceiver st (AckCancelled # evs) = ([], st, Some CtxErr)"
| "ackReceiver st (AckEOF # evs) = ([], st, None)"
| "ackReceiver st (AckError # evs) = ([], st, Some RecvErr)"
| "ackReceiver st (Ack ids # evs) =
     (case ackReceiver (st\<lparr>AckCount := AckCount st + int (length ids)\<rparr>) evs of
        (ops, st', err) \<Rightarrow> (map WinRel ids @ ops, st', err))"

subsection \<open>What is in a batch\<close>

definition data_bytes :: "ChangedBlock list \<Rightarrow> int" where
  "data_bytes bs = sum_list (map (\<lambda>b. int (length (blkData b))) bs)"

definition batch_ok :: "Config \<Rightarrow> ChangedBlock list \<Rightarrow> bool" where
  "batch_ok cfg bs \<longleftrightarrow> bs \<noteq> [] \<and> int (length bs) \<le> DataBatchMaxCount cfg \<and>
     (data_bytes bs < DataBatchMaxBytes cfg \<or> length bs = 1)"

text \<open>
  The sender's invariant, relative to the chunks taken so far: blocks and held values belong
  together, the byte count is right, the open batch is within its limits and so are those sent.
\<close>

definition sender_inv :: "Config \<Rightarrow> ReadChunk list \<Rightarrow> sender \<Rightarrow> bool" where
  "sender_inv cfg ccs s \<longleftrightarrow>
     concat (sent s) @ blocks s = map to_changed ccs \<and>
     pending s = map rcHeld (drop (length (concat (sent s))) ccs) \<and>
     accum s = data_bytes (blocks s) \<and> (\<forall>b\<in>set (sent s). batch_ok cfg b) \<and>
     (blocks s = [] \<or> batch_ok cfg (blocks s)) \<and>
     mem_net (semOps s) = - sum_list (map (held_mem \<circ> rcHeld) (take (length (concat (sent s))) ccs)) \<and>
     win_acqs (semOps s) = {#} \<and> win_rels (semOps s) = {#}"

definition MaxGRPCMessageSize :: int where
  "MaxGRPCMessageSize = 20 * 1024 * 1024"

definition sample_read :: "u64 \<Rightarrow> ReadChunk" where
  "sample_read i = \<lparr>rcReqID = i, rcFilePath = ''f'', rcOffset = 0, rcLength = 1, rcData = [1], rcIsZero = False,
     rcTotalSize = 1, rcHeld = \<lparr>heldReqID = i, memRawN = 1, hasWin = True, hasMem = True\<rparr>\<rparr>"

lemma blkData_to_changed [simp]: "blkData (to_changed cc) = rcData cc"
  by (simp add: to_changed_def)

lemma data_bytes_simps [simp]:
  "data_bytes [] = 0" "data_bytes (b # bs) = int (length (blkData b)) + data_bytes bs"
  "data_bytes (xs @ ys) = data_bytes xs + data_bytes ys"
  by (simp_all add: data_bytes_def)

lemma release_all_net:
  "mem_net (release_all hs) = - sum_list (map held_mem hs)"
  "win_acqs (release_all hs) = {#}"
  "win_rels (release_all hs) = sum_list (map held_win hs)"
  by (induction hs) (simp_all add: release_all_def)

lemma releaseMem_all_net:
  "mem_net (release_mems hs) = - sum_list (map held_mem hs)"
  "win_acqs (release_mems hs) = {#}"
  "win_rels (release_mems hs) = {#}"
  by (induction hs) (simp_all add: release_mems_def)

lemma sender_inv_new [inv_rules]: "sender_inv cfg [] (newSender st outs)"
  by (simp add: sender_inv_def newSender_def data_bytes_def)

lemma sender_inv_lengths:
  assumes "sender_inv cfg ccs s"
  shows "length (concat (sent s)) \<le> length ccs" "length (concat (sent s)) + length (blocks s) = length ccs"
  using assms by (auto simp: sender_inv_def dest: arg_cong [of _ _ length])

lemma flush_ok_inv [inv_rules]:
  assumes "sender_inv cfg ccs s" "flush s = (s', True)"
  shows "sender_inv cfg ccs s' \<and> blocks s' = [] \<and> concat (sent s') = map to_changed ccs"
proof (cases "blocks s = []")
  case True
  then show ?thesis using assms by (simp add: flush_def sender_inv_def)
next
  case False
  let ?n = "length (concat (sent s))"
  obtain outs st where s': "s' = s\<lparr>sendOuts := outs, sent := sent s @ [blocks s], sndStats := st,
      semOps := semOps s @ release_mems (pending s),
      blocks := [], pending := [], accum := 0\<rparr>"
    using assms(2) False by (auto simp: flush_def Let_def split: if_splits list.splits)
  have all: "concat (sent s') = map to_changed ccs" using assms(1) s' by (simp add: sender_inv_def)
  then have n: "length (concat (sent s')) = length ccs" by simp
  have "sum_list (map (held_mem \<circ> rcHeld) (take ?n ccs)) + sum_list (map (held_mem \<circ> rcHeld) (drop ?n ccs)) =
      sum_list (map (held_mem \<circ> rcHeld) ccs)"
    by (metis append_take_drop_id map_append sum_list_append)
  then have "mem_net (semOps s') = - sum_list (map (held_mem \<circ> rcHeld) ccs)"
    using assms(1) s' by (simp add: sender_inv_def releaseMem_all_net)
  moreover have "win_acqs (semOps s') = {#}" "win_rels (semOps s') = {#}"
    using assms(1) s' by (simp_all add: sender_inv_def releaseMem_all_net)
  moreover have "blocks s' = []" "pending s' = []" "accum s' = 0" "\<forall>b\<in>set (sent s'). batch_ok cfg b"
    using assms(1) s' False by (simp_all add: sender_inv_def) 
  ultimately show ?thesis using all n by (simp add: sender_inv_def data_bytes_def)
qed

lemma flush_fail:
  assumes "sender_inv cfg ccs s" "flush s = (s', False)"
  shows "sent s' = sent s \<and> semOps s' = semOps s @ release_all (pending s)"
  using assms(2) by (auto simp: flush_def Let_def split: if_splits list.splits)

lemma push_inv [inv_rules]:
  assumes "sender_inv cfg ccs s" "\<not> must_flush cfg s cc" "0 < DataBatchMaxCount cfg"
  shows "sender_inv cfg (ccs @ [cc]) (push_chunk s cc)"
proof -
  let ?n = "length (concat (sent s))"
  have n: "?n \<le> length ccs" using sender_inv_lengths [OF assms(1)] by simp
  have "batch_ok cfg (blocks s @ [to_changed cc])"
  proof (cases "blocks s = []")
    case True
    then show ?thesis using assms(3) by (simp add: batch_ok_def)
  next
    case False
    then show ?thesis using assms(1,2)
      by (auto simp: must_flush_def batch_ok_def sender_inv_def data_bytes_def to_changed_def)
  qed
  then show ?thesis using assms(1) n
    by (simp add: sender_inv_def push_chunk_def data_bytes_def to_changed_def)
qed

text \<open>One chunk: the invariant is kept, or a failed send has given everything back.\<close>

definition sender_done :: "Config \<Rightarrow> ReadChunk list \<Rightarrow> sender \<Rightarrow> bool" where
  "sender_done cfg ccs s \<longleftrightarrow>
     (\<exists>n \<le> length ccs. concat (sent s) = map to_changed (take n ccs) \<and>
        mem_net (semOps s) = - sum_list (map (held_mem \<circ> rcHeld) ccs) \<and> win_acqs (semOps s) = {#} \<and>
        win_rels (semOps s) = sum_list (map (held_win \<circ> rcHeld) (drop n ccs))) \<and>
     (\<forall>b\<in>set (sent s). batch_ok cfg b)"

lemma sender_release_done:
  assumes "sender_inv cfg ccs s" "sent s' = sent s" "semOps s' = semOps s @ release_all (pending s) @ release_all (map rcHeld ex)"
  shows "sender_done cfg (ccs @ ex) s'"
proof -
  let ?n = "length (concat (sent s))" and ?f = "held_mem \<circ> rcHeld"
  have n: "?n \<le> length ccs" using sender_inv_lengths [OF assms(1)] by simp
  have pre: "concat (sent s) = map to_changed (take ?n ccs)"
    using assms(1) by (metis sender_inv_def append_eq_conv_conj take_map)
  have "sum_list (map ?f (take ?n ccs)) + sum_list (map ?f (drop ?n ccs)) = sum_list (map ?f ccs)"
    by (metis append_take_drop_id map_append sum_list_append)
  then have "mem_net (semOps s') = - sum_list (map ?f (ccs @ ex))"
    using assms(1,3) by (simp add: sender_inv_def release_all_net comp_def)
  moreover have "win_rels (semOps s') = sum_list (map (held_win \<circ> rcHeld) (drop ?n (ccs @ ex)))"
    using assms(1,3) n by (simp add: sender_inv_def release_all_net comp_def)
  moreover have "win_acqs (semOps s') = {#}" using assms(1,3) by (simp add: sender_inv_def release_all_net)
  moreover have "concat (sent s') = map to_changed (take ?n (ccs @ ex))" using pre n assms(2) by simp
  moreover have "?n \<le> length (ccs @ ex)" using n by simp
  ultimately show ?thesis using assms(1,2) unfolding sender_done_def by (auto simp: sender_inv_def)
qed

lemma send_step_inv:
  assumes "sender_inv cfg ccs s" "0 < DataBatchMaxCount cfg" "send_step cfg s cc = (s', ok)"
  shows "if ok then sender_inv cfg (ccs @ [cc]) s' else sender_done cfg (ccs @ [cc]) s'"
proof (cases "must_flush cfg s cc")
  case False
  then show ?thesis using assms push_inv by (auto simp: send_step_def)
next
  case True
  obtain s1 ok1 where f: "flush s = (s1, ok1)" by force
  show ?thesis
  proof (cases ok1)
    case True
    then have "sender_inv cfg ccs s1" "\<not> must_flush cfg s1 cc"
      using flush_ok_inv [OF assms(1)] f by (auto simp: must_flush_def)
    then show ?thesis using assms(2,3) push_inv f True \<open>must_flush cfg s cc\<close> by (auto simp: send_step_def)
  next
    case False
    then have "s' = s1\<lparr>semOps := semOps s1 @ snd (held_release (rcHeld cc))\<rparr>" "\<not> ok"
      using assms(3) f True by (auto simp: send_step_def)
    then show ?thesis
      using flush_fail [OF assms(1)] f False sender_release_done [OF assms(1), of s' "[cc]"]
      by (simp add: release_all_def)
  qed
qed

lemma flush_done:
  assumes "sender_inv cfg ccs s" "flush s = (s', ok)"
  shows "sender_done cfg ccs s' \<and> (ok \<longrightarrow> concat (sent s') = map to_changed ccs)"
proof (cases ok)
  case True
  then have i: "sender_inv cfg ccs s'" "concat (sent s') = map to_changed ccs"
    using flush_ok_inv [OF assms(1)] assms(2) by auto
  then have "length (concat (sent s')) = length ccs" by simp
  then show ?thesis using i True unfolding sender_done_def
    by (intro conjI exI [of _ "length ccs"]) (simp_all add: sender_inv_def)
next
  case False
  then show ?thesis
    using flush_fail [OF assms(1)] assms(2) sender_release_done [OF assms(1), of s' "[]"]
    by (simp add: release_all_def)
qed

lemma dataSender_done:
  assumes "sender_inv cfg ccs s" "0 < DataBatchMaxCount cfg" "dataSender cfg s ins = (tk, s', err)"
  shows "sender_done cfg (ccs @ tk) s' \<and> (err = None \<longrightarrow> tk = map the ins \<and> concat (sent s') = map to_changed (ccs @ tk))"
  using assms
proof (induction cfg s ins arbitrary: ccs tk rule: dataSender.induct)
  case (1 cfg s)
  then show ?case using flush_done [of cfg ccs s] by (auto split: prod.splits bool.splits)
next
  case (2 cfg s ins)
  then show ?case using sender_release_done [of cfg ccs s _ "[]"] by (auto simp: release_all_def)
next
  case (3 cfg s cc ins)
  obtain s1 ok where st: "send_step cfg s cc = (s1, ok)" by force
  note inv = send_step_inv [OF "3.prems"(1,2) st]
  show ?case
  proof (cases ok)
    case False
    then show ?thesis using inv st "3.prems"(3) by auto
  next
    case True
    then obtain m where m: "dataSender cfg s1 ins = (m, s', err)" "tk = cc # m"
      using st "3.prems"(3) by (auto split: prod.splits)
    then show ?thesis using "3.IH" [OF st [symmetric], of "ccs @ [cc]" m] inv True "3.prems"(2) by simp
  qed
qed

subsection \<open>Correctness\<close>

lemma rbd_config_batch [simp]: "DataBatchMaxCount rbd_config = 16" "DataBatchMaxBytes rbd_config = 16 * 1024 * 1024"
  by (simp_all add: rbd_config_def zero_config_def)

text \<open>
  C21: the sender keeps order and limits.  Whatever sends fail or cancellations come, the blocks on
  the stream are a prefix of the chunks taken, in order and unchanged; no request is empty or
  has more than \<^verbatim>\<open>DataBatchMaxCount\<close> blocks, and one that reaches \<^verbatim>\<open>DataBatchMaxBytes\<close> holds a
  single block.  When the sender returns without an error, every chunk of its channel is sent.
\<close>

theorem dataSender_order:
  assumes "0 < DataBatchMaxCount cfg"
  shows "case dataSender cfg (newSender st outs) ins of (taken, s, err) \<Rightarrow>
    (\<exists>n. concat (sent s) = map to_changed (take n taken)) \<and> (\<forall>b\<in>set (sent s). batch_ok cfg b) \<and>
    (err = None \<longrightarrow> taken = map the ins \<and> concat (sent s) = map to_changed taken)"
  using dataSender_done [OF sender_inv_new assms, of st outs ins]
  by (auto simp: sender_done_def split: prod.splits)

theorem dataSender_order_witness:
  "case dataSender rbd_config (newSender sample_stats []) [Some (sample_read 0), Some (sample_read 1)] of
    (taken, s, err :: unit stage_error option) \<Rightarrow>
    (\<exists>n. concat (sent s) = map to_changed (take n taken)) \<and> (\<forall>b\<in>set (sent s). batch_ok rbd_config b) \<and>
    (err = None \<longrightarrow> taken = map the [Some (sample_read 0), Some (sample_read 1)] \<and> concat (sent s) = map to_changed taken)"
  by (rule dataSender_order) simp

text \<open>
  The sender frees what it must and no more.  On every exit all memory of the chunks taken has
  been released; the window slots it gave back are exactly those of the chunks that did not
  reach the stream, so a slot of a sent block is freed by an acknowledgement only.
\<close>

theorem dataSender_no_leak:
  assumes "0 < DataBatchMaxCount cfg"
  shows "case dataSender cfg (newSender st outs) ins of (taken, s, err) \<Rightarrow>
    mem_net (semOps s) = - sum_list (map (held_mem \<circ> rcHeld) taken) \<and>
    win_rels (semOps s) = sum_list (map (held_win \<circ> rcHeld) (drop (length (concat (sent s))) taken))"
  using dataSender_done [OF sender_inv_new assms, of st outs ins]
  by (auto simp: sender_done_def min_def split: prod.splits)

theorem dataSender_no_leak_witness:
  "case dataSender rbd_config (newSender sample_stats [False]) [Some (sample_read 0)] of
    (taken, s, err :: unit stage_error option) \<Rightarrow>
    mem_net (semOps s) = - sum_list (map (held_mem \<circ> rcHeld) taken) \<and>
    win_rels (semOps s) = sum_list (map (held_win \<circ> rcHeld) (drop (length (concat (sent s))) taken))"
  by (rule dataSender_no_leak) simp

lemma dataSender_taken:
  "dataSender cfg s ins = (tk, s', err) \<Longrightarrow> Some ` set tk \<subseteq> set ins"
proof (induction cfg s ins arbitrary: tk rule: dataSender.induct)
  case (3 cfg s cc ins)
  obtain s1 ok where st: "send_step cfg s cc = (s1, ok)" by force
  show ?case
  proof (cases ok)
    case True
    then obtain m where "dataSender cfg s1 ins = (m, s', err)" "tk = cc # m"
      using st "3.prems" by (auto split: prod.splits)
    then show ?thesis using "3.IH" [OF st [symmetric], of m] True by auto
  next
    case False
    then show ?thesis using st "3.prems" by auto
  qed
qed (auto split: prod.splits bool.splits)

text \<open>
  With the default batch size, no request carries more data than 16 MiB as long as the chunks
  are within the largest chunk size, which leaves 4 MiB of the gRPC message limit for the rest
  of the message.
\<close>

theorem dataSender_message_bound:
  assumes "0 < DataBatchMaxCount cfg" "DataBatchMaxBytes cfg = 16 * 1024 * 1024"
    and "\<forall>cc. Some cc \<in> set ins \<longrightarrow> int (length (rcData cc)) \<le> maxChunkSize"
  shows "case dataSender cfg (newSender st outs) ins of (taken, s, err) \<Rightarrow>
    \<forall>b\<in>set (sent s). data_bytes b + 4 * 1024 * 1024 \<le> MaxGRPCMessageSize"
proof -
  have "data_bytes b + 4 * 1024 * 1024 \<le> MaxGRPCMessageSize"
    if d: "dataSender cfg (newSender st outs) ins = (tk, s', err)" and b: "b \<in> set (sent s')"
    for tk s' err b
  proof -
    note fin = dataSender_done [OF sender_inv_new assms(1) d, unfolded sender_done_def]
    obtain n where "concat (sent s') = map to_changed (take n tk)" using fin by auto
    then have "set b \<subseteq> to_changed ` set (take n tk)" using b by (metis UN_upper set_concat set_map)
    then have "set b \<subseteq> to_changed ` set tk" using set_take_subset [of n tk] by blast
    have small: "int (length (blkData x)) \<le> maxChunkSize" if x: "x \<in> set b" for x
    proof -
      obtain cc where "cc \<in> set tk" "x = to_changed cc" using \<open>set b \<subseteq> to_changed ` set tk\<close> x by blast
      then show ?thesis using dataSender_taken [OF d] assms(3) by auto
    qed
    moreover have "data_bytes b < DataBatchMaxBytes cfg \<or> length b = 1" using fin b by (auto simp: batch_ok_def)
    ultimately have "data_bytes b \<le> 16 * 1024 * 1024"
      using assms(2) by (auto simp: maxChunkSize_def length_Suc_conv)
    then show ?thesis by (simp add: MaxGRPCMessageSize_def)
  qed
  then show ?thesis by (auto split: prod.splits)
qed

theorem dataSender_message_bound_witness:
  "case dataSender rbd_config (newSender sample_stats []) [Some (sample_read 0)] of
    (taken, s, err :: unit stage_error option) \<Rightarrow> \<forall>b\<in>set (sent s). data_bytes b + 4 * 1024 * 1024 \<le> MaxGRPCMessageSize"
  by (rule dataSender_message_bound) (simp_all add: sample_read_def maxChunkSize_def)

subsection \<open>A configuration that passes the checks and can stall\<close>

lemma send_all_batched:
  assumes "int (length ccs) \<le> DataBatchMaxCount cfg" "data_bytes (map to_changed ccs) < DataBatchMaxBytes cfg"
  shows "foldl (\<lambda>s cc. fst (send_step cfg s cc)) (newSender st outs) ccs =
    (newSender st outs)\<lparr>blocks := map to_changed ccs, pending := map rcHeld ccs, accum := data_bytes (map to_changed ccs)\<rparr>"
  using assms
proof (induction ccs rule: rev_induct)
  case (snoc cc ccs)
  have "\<not> must_flush cfg ((newSender st outs)\<lparr>blocks := map to_changed ccs, pending := map rcHeld ccs,
      accum := data_bytes (map to_changed ccs)\<rparr>) cc"
    using snoc.prems by (simp add: must_flush_def)
  moreover have "data_bytes (map to_changed ccs) < DataBatchMaxBytes cfg" using snoc.prems by simp
  ultimately show ?case
    using snoc by (simp add: send_step_def push_chunk_def)
qed (simp add: newSender_def)

text \<open>
  The checks admit configurations under which a transfer can stop for good.  A sender that has
  taken as many small blocks as the window holds, and may batch that many, has sent none of
  them; no acknowledgement can come, and the window refuses the next id, so the read stage
  never delivers the chunk that would make the sender flush.
\<close>

theorem full_window_unsent:
  assumes "int (length ccs) \<le> DataBatchMaxCount cfg" "data_bytes (map to_changed ccs) < DataBatchMaxBytes cfg"
    and "limit w = length ccs" "base w = 0" "limit w < 2 ^ 64"
  shows "sent (foldl (\<lambda>s cc. fst (send_step cfg s cc)) (newSender st outs) ccs) = [] \<and>
    \<not> in_window w (of_nat (length ccs))"
proof -
  have "unat (of_nat (limit w) :: u64) = limit w" using assms(5) by (simp add: unat_of_nat)
  then have "\<not> in_window w (of_nat (length ccs))"
    using assms(3-5) in_window_unat [of "base w" "of_nat (length ccs)" "limit w"] by (simp add: in_window_def)
  then show ?thesis using send_all_batched [OF assms(1,2)] by (simp add: newSender_def)
qed

theorem full_window_unsent_witness:
  "validate (SetDefaults (zero_config\<lparr>MaxWindow := 8, DataSendWorkers := 1\<rparr>)) = None \<and>
   sent (foldl (\<lambda>s cc. fst (send_step (SetDefaults (zero_config\<lparr>MaxWindow := 8, DataSendWorkers := 1\<rparr>)) s cc))
     (newSender sample_stats []) (map (\<lambda>k. sample_read (of_nat k)) [0..<16])) = [] \<and>
   \<not> in_window (NewWindowSemaphore 8) 16"
  using full_window_unsent [where ccs = "map (\<lambda>k. sample_read (of_nat k)) [0..<16]" and
      cfg = "SetDefaults (zero_config\<lparr>MaxWindow := 8, DataSendWorkers := 1\<rparr>)" and
      w = "NewWindowSemaphore 8" and st = sample_stats and outs = "[]"]
  by (simp add: validate_def zero_config_def config_consts NewWindowSemaphore_def data_bytes_def to_changed_def
      sample_read_def comp_def sum_list_triv)

end
