(* ===== verification/Rbd_Dest.thy ===== *)
theory Rbd_Dest
  imports Pipeline_Send
begin

section \<open>The RBD destination (internal/worker/rbd/destination.go)\<close>

text \<open>
  The server side of an RBD transfer: \<^verbatim>\<open>writeBlocks\<close> puts a batch of blocks on the device, \<^verbatim>\<open>Write\<close>
  acknowledges a batch once it is written, \<^verbatim>\<open>Commit\<close> syncs the device, \<^verbatim>\<open>Delete\<close> answers without
  doing anything.  A gRPC stream is the list of what \<^verbatim>\<open>Recv\<close> returns; the outcomes of opens,
  syncs, closes and sends are inputs.
\<close>

subsection \<open>Writing blocks\<close>

fun write_blocks ::
  "(os_file \<Rightarrow> nat \<Rightarrow> nat \<Rightarrow> os_file \<times> bool) \<Rightarrow> os_file \<Rightarrow> ChangedBlock list \<Rightarrow> os_file \<times> bool" where
  "write_blocks zr f [] = (f, True)"
| "write_blocks zr f (b # bs) =
     (case (if blkIsZero b then zr f (blkOffset b) (blkLength b) else WriteAt f (blkOffset b) (blkData b)) of
        (f', False) \<Rightarrow> (f', False)
      | (f', True) \<Rightarrow> write_blocks zr f' bs)"

definition rbd_writeBlocks :: "os_file \<Rightarrow> ChangedBlock list \<Rightarrow> os_file \<times> bool" where
  "rbd_writeBlocks f bs = write_blocks rbd_zeroRange f bs"

fun collectRequestIDs :: "ChangedBlock list \<Rightarrow> u64 list" where
  "collectRequestIDs [] = []"
| "collectRequestIDs (b # bs) = blkRequestId b # collectRequestIDs bs"

subsection \<open>The Write handler\<close>

datatype write_event = WriteReq "ChangedBlock list" | WriteEOF | WriteErr

datatype dest_error = RecvFailed | OpenFailed | WriteFailed | SendFailed | SyncFailed | CloseFailed

record write_state =
  dev :: os_file
  opened :: bool
  acked :: "u64 list list"
  outs :: "bool list"

definition open_device :: "write_state \<Rightarrow> write_state \<times> bool" where
  "open_device s =
     (if opened s then (s, True)
      else case pop_ok (outs s) of (ok, os) \<Rightarrow> (s\<lparr>opened := ok, outs := os\<rparr>, ok))"

definition send_acks :: "write_state \<Rightarrow> u64 list \<Rightarrow> write_state \<times> bool" where
  "send_acks s ids =
     (if ids = [] then (s, True)
      else case pop_ok (outs s) of
          (False, os) \<Rightarrow> (s\<lparr>outs := os\<rparr>, False)
        | (True, os) \<Rightarrow> (s\<lparr>outs := os, acked := acked s @ [ids]\<rparr>, True))"

fun write_loop :: "write_state \<Rightarrow> write_event list \<Rightarrow> write_state \<times> dest_error option" where
  "write_loop s [] = (s, Some RecvFailed)"
| "write_loop s (WriteEOF # evs) = (s, None)"
| "write_loop s (WriteErr # evs) = (s, Some RecvFailed)"
| "write_loop s (WriteReq bs # evs) =
     (case open_device s of
        (s1, False) \<Rightarrow> (s1, Some OpenFailed)
      | (s1, True) \<Rightarrow>
          (case rbd_writeBlocks (dev s1) bs of
             (d, False) \<Rightarrow> (s1\<lparr>dev := d\<rparr>, Some WriteFailed)
           | (d, True) \<Rightarrow>
               (case send_acks (s1\<lparr>dev := d\<rparr>) (collectRequestIDs bs) of
                  (s2, False) \<Rightarrow> (s2, Some SendFailed)
                | (s2, True) \<Rightarrow> write_loop s2 evs)))"

text \<open>The deferred function: an open device is synced and closed, the first error is returned.\<close>

definition close_device :: "write_state \<Rightarrow> dest_error option \<Rightarrow> write_state \<times> dest_error option" where
  "close_device s err =
     (if \<not> opened s then (s, err)
      else
        let (ok1, os1) = pop_ok (outs s);
            err1 = (if \<not> ok1 \<and> err = None then Some SyncFailed else err);
            (ok2, os2) = pop_ok os1;
            err2 = (if \<not> ok2 \<and> err1 = None then Some CloseFailed else err1)
        in (s\<lparr>opened := False, outs := os2\<rparr>, err2))"

definition rbd_Write :: "os_file \<Rightarrow> bool list \<Rightarrow> write_event list \<Rightarrow> write_state \<times> dest_error option" where
  "rbd_Write d os evs =
     (case write_loop \<lparr>dev = d, opened = False, acked = [], outs = os\<rparr> evs of (s, err) \<Rightarrow> close_device s err)"

subsection \<open>The Commit and Delete handlers\<close>

datatype commit_event = CommitReq "path list" | CommitEOF | CommitErr

fun sync_entries :: "bool list \<Rightarrow> path list \<Rightarrow> nat \<Rightarrow> bool list \<times> nat \<times> bool" where
  "sync_entries os [] n = (os, n, True)"
| "sync_entries os (p # ps) n =
     (case pop_ok os of (False, os') \<Rightarrow> (os', n, False) | (True, os') \<Rightarrow> sync_entries os' ps (Suc n))"

text \<open>The result: the answers sent, how often the device was synced, and the error.\<close>

fun rbd_Commit :: "bool list \<Rightarrow> commit_event list \<Rightarrow> nat \<Rightarrow> path list list \<Rightarrow> path list list \<times> nat \<times> dest_error option" where
  "rbd_Commit os [] n rs = (rs, n, Some RecvFailed)"
| "rbd_Commit os (CommitEOF # evs) n rs = (rs, n, None)"
| "rbd_Commit os (CommitErr # evs) n rs = (rs, n, Some RecvFailed)"
| "rbd_Commit os (CommitReq ps # evs) n rs =
     (case pop_ok os of
        (False, os1) \<Rightarrow> (rs, n, Some OpenFailed)
      | (True, os1) \<Rightarrow>
          (case sync_entries os1 ps n of
             (os2, n2, False) \<Rightarrow> (rs, n2, Some SyncFailed)
           | (os2, n2, True) \<Rightarrow>
               (case pop_ok os2 of
                  (False, os3) \<Rightarrow> (rs, n2, Some CloseFailed)
                | (True, os3) \<Rightarrow>
                    (case pop_ok os3 of
                       (False, os4) \<Rightarrow> (rs, n2, Some SendFailed)
                     | (True, os4) \<Rightarrow> rbd_Commit os4 evs n2 (rs @ [ps])))))"

text \<open>\<^verbatim>\<open>Delete\<close> receives until any error, end of stream included, and answers each request.\<close>

fun rbd_Delete :: "bool list \<Rightarrow> path list option list \<Rightarrow> nat \<Rightarrow> nat \<times> dest_error option" where
  "rbd_Delete os [] n = (n, None)"
| "rbd_Delete os (None # evs) n = (n, None)"
| "rbd_Delete os (Some ps # evs) n =
     (case pop_ok os of (False, os') \<Rightarrow> (n, Some SendFailed) | (True, os') \<Rightarrow> rbd_Delete os' evs (Suc n))"

subsection \<open>What blocks mean\<close>

definition blk_payload :: "ChangedBlock \<Rightarrow> bytes" where
  "blk_payload b = (if blkIsZero b then replicate (blkLength b) 0 else blkData b)"

definition blk_bytes :: "ChangedBlock \<Rightarrow> nat set" where
  "blk_bytes b = {blkOffset b..<blkOffset b + length (blk_payload b)}"

definition blk_in :: "nat \<Rightarrow> ChangedBlock \<Rightarrow> bool" where
  "blk_in n b \<longleftrightarrow> blkOffset b + length (blk_payload b) \<le> n"

definition apply_block :: "bytes \<Rightarrow> ChangedBlock \<Rightarrow> bytes" where
  "apply_block c b = overwrite c (blkOffset b) (blk_payload b)"

definition apply_blocks :: "bytes \<Rightarrow> ChangedBlock list \<Rightarrow> bytes" where
  "apply_blocks c bs = foldl apply_block c bs"

text \<open>A block that carries the bytes of an image at its place.\<close>

definition blk_of :: "bytes \<Rightarrow> ChangedBlock \<Rightarrow> bool" where
  "blk_of img b \<longleftrightarrow> blk_in (length img) b \<and>
     blk_payload b = take (length (blk_payload b)) (drop (blkOffset b) img)"

lemma collectRequestIDs_map: "collectRequestIDs bs = map blkRequestId bs"
  by (induction bs) auto

lemma length_apply_block [simp]: "blk_in (length c) b \<Longrightarrow> length (apply_block c b) = length c"
  by (auto simp: apply_block_def blk_in_def)

lemma apply_blocks_simps [simp]:
  "apply_blocks c [] = c" "apply_blocks c (b # bs) = apply_blocks (apply_block c b) bs"
  "apply_blocks c (xs @ ys) = apply_blocks (apply_blocks c xs) ys"
  by (simp_all add: apply_blocks_def)

lemma length_apply_blocks [simp]: "\<forall>b\<in>set bs. blk_in (length c) b \<Longrightarrow> length (apply_blocks c bs) = length c"
  by (induction bs arbitrary: c) auto

lemma byte_at_apply_block:
  "byte_at (apply_block c b) i = (if i \<in> blk_bytes b then blk_payload b ! (i - blkOffset b) else byte_at c i)"
  by (simp add: apply_block_def blk_bytes_def)

lemma byte_at_blk_of: "blk_of img b \<Longrightarrow> i \<in> blk_bytes b \<Longrightarrow> blk_payload b ! (i - blkOffset b) = byte_at img i"
proof -
  assume b: "blk_of img b" and i: "i \<in> blk_bytes b"
  have lt: "i - blkOffset b < length (blk_payload b)" "blkOffset b \<le> i" using i by (auto simp: blk_bytes_def)
  have "blk_payload b ! (i - blkOffset b) = take (length (blk_payload b)) (drop (blkOffset b) img) ! (i - blkOffset b)"
    using b unfolding blk_of_def by metis
  moreover have "blkOffset b \<le> length img" using b by (simp add: blk_of_def blk_in_def)
  then have "take (length (blk_payload b)) (drop (blkOffset b) img) ! (i - blkOffset b) = img ! i" using lt by simp
  moreover have "img ! i = byte_at img i" using lt b by (auto simp: byte_at_def blk_of_def blk_in_def)
  ultimately show ?thesis by simp
qed

text \<open>Blocks of one image may be applied in any order: each byte they touch ends up as in the image.\<close>

lemma byte_at_apply_blocks:
  "\<forall>b\<in>set bs. blk_of img b \<Longrightarrow>
     byte_at (apply_blocks c bs) i = (if i \<in> \<Union> (blk_bytes ` set bs) then byte_at img i else byte_at c i)"
  by (induction bs arbitrary: c) (auto simp: byte_at_apply_block byte_at_blk_of)

subsection \<open>The handler writes what it is sent\<close>

context zeroing
begin

lemma write_one:
  assumes "(if blkIsZero b then zr f (blkOffset b) (blkLength b) else WriteAt f (blkOffset b) (blkData b)) = (f', r)"
    and "blk_in (length (content f)) b"
  shows "length (content f') = length (content f)" "r \<Longrightarrow> content f' = apply_block (content f) b"
    "i \<notin> blk_bytes b \<Longrightarrow> byte_at (content f') i = byte_at (content f) i"
proof -
  show len: "length (content f') = length (content f)"
    using assms zr_size [of f "blkOffset b" "blkLength b" f' r] WriteAt_size [of f "blkOffset b" "blkData b" f' r]
    by (auto simp: blk_in_def blk_payload_def split: if_splits)
  show "content f' = apply_block (content f) b" if r
  proof (rule byte_at_eqI)
    show "length (content f') = length (apply_block (content f) b)" using len assms(2) by simp
    show "byte_at (content f') i = byte_at (apply_block (content f) b) i" for i
    proof (cases "blkIsZero b")
      case True
      then have "zr f (blkOffset b) (blkLength b) = (f', True)" using assms(1) \<open>r\<close> by simp
      from zr_ok [OF this, of i] show ?thesis using True
        by (auto simp: byte_at_apply_block blk_bytes_def blk_payload_def)
    next
      case False
      then have "content f' = overwrite (content f) (blkOffset b) (blkData b)" using WriteAt_ok assms(1) \<open>r\<close> by simp
      then show ?thesis using False by (simp add: apply_block_def blk_payload_def)
    qed
  qed
  show "byte_at (content f') i = byte_at (content f) i" if "i \<notin> blk_bytes b"
    using assms(1) that zr_frame [of f "blkOffset b" "blkLength b" f' r i] WriteAt_frame [of f "blkOffset b" "blkData b" f' r i]
    by (auto simp: blk_bytes_def blk_payload_def split: if_splits)
qed

lemma write_blocks_effect:
  assumes "write_blocks zr f bs = (f', r)" "\<forall>b\<in>set bs. blk_in (length (content f)) b"
  shows "length (content f') = length (content f) \<and> (r \<longrightarrow> content f' = apply_blocks (content f) bs) \<and>
    (\<forall>i. i \<notin> \<Union> (blk_bytes ` set bs) \<longrightarrow> byte_at (content f') i = byte_at (content f) i)"
  using assms
proof (induction bs arbitrary: f)
  case (Cons b bs)
  obtain f1 r1 where one: "(if blkIsZero b then zr f (blkOffset b) (blkLength b)
      else WriteAt f (blkOffset b) (blkData b)) = (f1, r1)" by force
  note w = write_one [OF one]
  have inb: "blk_in (length (content f)) b" using Cons.prems by simp
  show ?case
  proof (cases r1)
    case False
    then show ?thesis using Cons.prems(1) one w [OF inb] by auto
  next
    case True
    then have "write_blocks zr f1 bs = (f', r)" using Cons.prems(1) one by simp
    moreover have "\<forall>b\<in>set bs. blk_in (length (content f1)) b" using Cons.prems(2) w(1) [OF inb] by simp
    ultimately show ?thesis using Cons.IH [of f1] w [OF inb] True by auto
  qed
qed simp

lemma write_blocks_total:
  "plan f = [] \<Longrightarrow> \<forall>b\<in>set bs. blk_in (length (content f)) b \<Longrightarrow>
     snd (write_blocks zr f bs) \<and> plan (fst (write_blocks zr f bs)) = []"
proof (induction bs arbitrary: f)
  case (Cons b bs)
  obtain f1 r1 where one: "(if blkIsZero b then zr f (blkOffset b) (blkLength b)
      else WriteAt f (blkOffset b) (blkData b)) = (f1, r1)" by force
  have inb: "blk_in (length (content f)) b" using Cons.prems by simp
  have "r1 \<and> plan f1 = []"
    using one inb Cons.prems(1) zr_total [of f "blkOffset b" "blkLength b"] WriteAt_total [of f "blkOffset b" "blkData b"]
    by (auto simp: blk_in_def blk_payload_def split: if_splits)
  then show ?case using Cons.IH [of f1] Cons.prems(2) one write_one(1) [OF one inb] by simp
qed simp

text \<open>When all blocks are of one image, a byte never leaves the two values it may have.\<close>

lemma write_one_image:
  assumes "(if blkIsZero b then zr f (blkOffset b) (blkLength b) else WriteAt f (blkOffset b) (blkData b)) = (f', r)"
    and "blk_of img b" "length (content f) = length img"
  shows "byte_at (content f') i = byte_at (content f) i \<or> byte_at (content f') i = byte_at img i"
proof (cases "i \<in> blk_bytes b")
  case False
  then show ?thesis using write_one(3) [OF assms(1)] assms(2,3) by (simp add: blk_of_def)
next
  case True
  note img = byte_at_blk_of [OF assms(2) True]
  show ?thesis
  proof (cases "blkIsZero b")
    case z: True
    then have "byte_at (content f') i = 0 \<or> byte_at (content f') i = byte_at (content f) i"
      using zr_effect [of f "blkOffset b" "blkLength b" f' r] assms(1) by (simp add: zero_effect_def)
    moreover have "byte_at img i = 0" using img True z by (auto simp: blk_payload_def blk_bytes_def)
    ultimately show ?thesis by auto
  next
    case nz: False
    then show ?thesis using WriteAt_mixed [of f "blkOffset b" "blkData b" f' r i] assms(1) img
      by (auto simp: blk_payload_def)
  qed
qed

lemma write_blocks_image:
  assumes "write_blocks zr f bs = (f', r)" "\<forall>b\<in>set bs. blk_of img b" "length (content f) = length img"
  shows "length (content f') = length img \<and>
    (\<forall>i. byte_at (content f') i = byte_at (content f) i \<or> byte_at (content f') i = byte_at img i) \<and>
    (r \<longrightarrow> (\<forall>i\<in>\<Union> (blk_bytes ` set bs). byte_at (content f') i = byte_at img i))"
  using assms
proof (induction bs arbitrary: f)
  case (Cons b bs)
  obtain f1 r1 where one: "(if blkIsZero b then zr f (blkOffset b) (blkLength b)
      else WriteAt f (blkOffset b) (blkData b)) = (f1, r1)" by force
  have b: "blk_of img b" "blk_in (length (content f)) b" using Cons.prems(2,3) by (auto simp: blk_of_def)
  have len: "length (content f1) = length img" using write_one(1) [OF one b(2)] Cons.prems(3) by simp
  note mixed = write_one_image [OF one b(1) Cons.prems(3)]
  show ?case
  proof (cases r1)
    case False
    then show ?thesis using Cons.prems(1) one len mixed by auto
  next
    case True
    then have rest: "write_blocks zr f1 bs = (f', r)" using Cons.prems(1) one by simp
    note ih = Cons.IH [OF rest _ len]
    have "byte_at (content f1) i = byte_at img i" if "i \<in> blk_bytes b" for i
      using write_one(2) [OF one b(2) True] that byte_at_blk_of [OF b(1)] by (simp add: byte_at_apply_block)
    then have first: "\<forall>i\<in>blk_bytes b. byte_at (content f') i = byte_at img i" using ih Cons.prems(2) by (metis list.set_intros(2))
    have two: "byte_at (content f') i = byte_at (content f) i \<or> byte_at (content f') i = byte_at img i" for i
      using ih Cons.prems(2) mixed [of i] by (metis list.set_intros(2))
    show ?thesis using ih Cons.prems(2) first two by auto
  qed
qed simp

end

subsection \<open>Runs of the Write handler\<close>

fun requests :: "write_event list \<Rightarrow> ChangedBlock list list" where
  "requests (WriteReq bs # evs) = bs # requests evs"
| "requests _ = []"

lemma open_device_keeps: "open_device s = (s', r) \<Longrightarrow> dev s' = dev s \<and> acked s' = acked s"
  by (auto simp: open_device_def split: if_splits prod.splits)

lemma send_acks_keeps:
  "send_acks s ids = (s', r) \<Longrightarrow> dev s' = dev s \<and> concat (acked s') = concat (acked s) @ (if r then ids else [])"
  by (auto simp: send_acks_def split: if_splits prod.splits bool.splits)

lemma send_acks_quiet: "outs s = [] \<Longrightarrow> snd (send_acks s ids) \<and> outs (fst (send_acks s ids)) = []"
  by (simp add: send_acks_def)

lemma close_device_keeps: "close_device s err = (s', err') \<Longrightarrow> dev s' = dev s \<and> acked s' = acked s"
  by (auto simp: close_device_def Let_def split: if_splits prod.splits)

lemma write_loop_image:
  assumes "write_loop s evs = (s', err)" "\<forall>bs\<in>set (requests evs). \<forall>b\<in>set bs. blk_of img b"
    and "length (content (dev s)) = length img"
  shows "length (content (dev s')) = length img \<and>
    (\<forall>i. byte_at (content (dev s')) i = byte_at (content (dev s)) i \<or> byte_at (content (dev s')) i = byte_at img i) \<and>
    (\<exists>n. concat (acked s') = concat (acked s) @ map blkRequestId (concat (take n (requests evs))) \<and>
       (\<forall>b\<in>set (concat (take n (requests evs))). \<forall>i\<in>blk_bytes b. byte_at (content (dev s')) i = byte_at img i))"
  using assms
proof (induction s evs rule: write_loop.induct)
  case (4 s bs evs)
  obtain s1 r1 where o: "open_device s = (s1, r1)" by force
  obtain d r2 where w: "rbd_writeBlocks (dev s1) bs = (d, r2)" by force
  obtain s2 r3 where a: "send_acks (s1\<lparr>dev := d\<rparr>) (collectRequestIDs bs) = (s2, r3)" by force
  note keeps = open_device_keeps [OF o] send_acks_keeps [OF a]
  have img: "length (content d) = length img \<and>
      (\<forall>i. byte_at (content d) i = byte_at (content (dev s)) i \<or> byte_at (content d) i = byte_at img i) \<and>
      (r2 \<longrightarrow> (\<forall>i\<in>\<Union> (blk_bytes ` set bs). byte_at (content d) i = byte_at img i))"
    using rz.write_blocks_image [of "dev s1" bs d r2 img] w "4.prems"(2,3) keeps by (simp add: rbd_writeBlocks_def)
  consider "\<not> r1" | "r1" "\<not> r2" | "r1" "r2" "\<not> r3" | "r1" "r2" "r3" by blast
  then show ?case
  proof cases
    case 1
    then show ?thesis using "4.prems" o keeps by (auto intro: exI [of _ 0])
  next
    case 2
    then have "s' = s1\<lparr>dev := d\<rparr>" using "4.prems"(1) o w by auto
    then show ?thesis using img keeps by (auto intro: exI [of _ 0])
  next
    case 3
    then have "s' = s2" using "4.prems"(1) o w a by auto
    then show ?thesis using img keeps 3 by (auto intro: exI [of _ 0])
  next
    case all: 4
    then have rest: "write_loop s2 evs = (s', err)" using "4.prems"(1) o w a by auto
    have "length (content (dev s2)) = length img" using img keeps by simp
    then obtain n where ih: "length (content (dev s')) = length img"
      "\<forall>i. byte_at (content (dev s')) i = byte_at (content d) i \<or> byte_at (content (dev s')) i = byte_at img i"
      "concat (acked s') = concat (acked s2) @ map blkRequestId (concat (take n (requests evs)))"
      "\<forall>b\<in>set (concat (take n (requests evs))). \<forall>i\<in>blk_bytes b. byte_at (content (dev s')) i = byte_at img i"
      using "4.IH" [OF o [symmetric] _ w [symmetric] _ a [symmetric] _ rest] all "4.prems"(2) keeps by auto
    have "concat (acked s') = concat (acked s) @ map blkRequestId (concat (take (Suc n) (requests (WriteReq bs # evs))))"
      using ih(3) keeps all(3) by (simp add: collectRequestIDs_map)
    moreover have "\<forall>b\<in>set (concat (take (Suc n) (requests (WriteReq bs # evs)))). \<forall>i\<in>blk_bytes b.
        byte_at (content (dev s')) i = byte_at img i"
      using ih(2,4) img all(2) by (auto; metis UN_I)
    moreover have "\<forall>i. byte_at (content (dev s')) i = byte_at (content (dev s)) i \<or> byte_at (content (dev s')) i = byte_at img i"
      using ih(2) img by metis
    ultimately show ?thesis using ih(1) by blast
  qed
qed (auto intro: exI [of _ 0])

lemma write_loop_quiet:
  assumes "plan (dev s) = []" "outs s = []" "\<forall>bs\<in>set reqs. \<forall>b\<in>set bs. blk_in (length (content (dev s))) b"
  shows "\<exists>s'. write_loop s (map WriteReq reqs @ [WriteEOF]) = (s', None) \<and> outs s' = [] \<and>
    content (dev s') = apply_blocks (content (dev s)) (concat reqs) \<and>
    concat (acked s') = concat (acked s) @ map blkRequestId (concat reqs)"
  using assms
proof (induction reqs arbitrary: s)
  case (Cons bs reqs)
  obtain d r2 where w: "rbd_writeBlocks (dev s) bs = (d, r2)" by force
  have inb: "\<forall>b\<in>set bs. blk_in (length (content (dev s))) b" using Cons.prems(3) by simp
  have ok: "r2" "plan d = []" "content d = apply_blocks (content (dev s)) bs" "length (content d) = length (content (dev s))"
    using rz.write_blocks_total [OF Cons.prems(1) inb] rz.write_blocks_effect [OF _ inb, of d r2] w
    by (auto simp: rbd_writeBlocks_def)
  let ?s1 = "s\<lparr>opened := True\<rparr>"
  have o: "open_device s = (?s1, True)" using Cons.prems(2) by (auto simp: open_device_def)
  obtain s2 where a: "send_acks (?s1\<lparr>dev := d\<rparr>) (collectRequestIDs bs) = (s2, True)" "outs s2 = []"
    using send_acks_quiet [of "?s1\<lparr>dev := d\<rparr>" "collectRequestIDs bs"] Cons.prems(2)
    by (cases "send_acks (?s1\<lparr>dev := d\<rparr>) (collectRequestIDs bs)") auto
  note k = send_acks_keeps [OF a(1)]
  have step: "write_loop s (map WriteReq (bs # reqs) @ [WriteEOF]) = write_loop s2 (map WriteReq reqs @ [WriteEOF])"
    using o w ok(1) a(1) by simp
  show ?case using Cons.IH [of s2] Cons.prems(3) ok k a(2) unfolding step by (auto simp: collectRequestIDs_map)
qed simp

subsection \<open>Correctness\<close>

definition sample_block :: ChangedBlock where
  "sample_block = \<lparr>blkRequestId = 0, blkFilePath = ''/dev/block'', blkTotalSize = 8, blkOffset = 2, blkLength = 2,
     blkIsZero = False, blkData = [9, 9]\<rparr>"

definition sample_image :: bytes where
  "sample_image = [1, 2, 9, 9, 5, 6, 7, 8]"

text \<open>
  C7: an acknowledgement means the block is on the device.  For blocks of one source image and
  under every pattern of faults, the ids acknowledged are those of the first requests, in order;
  every byte of their blocks reads as in the source image when the handler returns, whatever a
  later request did; and a byte of the device is always the old or the new one.
\<close>

theorem rbd_Write_ack_safe:
  assumes "\<forall>bs\<in>set (requests evs). \<forall>b\<in>set bs. blk_of img b" "length (content d) = length img"
  shows "case rbd_Write d os evs of (s, err) \<Rightarrow>
    length (content (dev s)) = length img \<and>
    (\<forall>i. byte_at (content (dev s)) i = byte_at (content d) i \<or> byte_at (content (dev s)) i = byte_at img i) \<and>
    (\<exists>n. concat (acked s) = map blkRequestId (concat (take n (requests evs))) \<and>
       (\<forall>b\<in>set (concat (take n (requests evs))). \<forall>i\<in>blk_bytes b. byte_at (content (dev s)) i = byte_at img i))"
proof -
  let ?s0 = "\<lparr>dev = d, opened = False, acked = [], outs = os\<rparr>"
  obtain s1 err1 where w: "write_loop ?s0 evs = (s1, err1)" by force
  have len: "length (content (dev ?s0)) = length img" using assms(2) by simp
  obtain s err where c: "close_device s1 err1 = (s, err)" by force
  then show ?thesis
    using write_loop_image [OF w assms(1) len] close_device_keeps [OF c] w by (simp add: rbd_Write_def)
qed

lemma sample_block_of: "blk_of sample_image sample_block"
  by (simp add: blk_of_def blk_in_def blk_payload_def sample_image_def sample_block_def numeral_2_eq_2)

theorem rbd_Write_ack_safe_witness:
  "case rbd_Write sample_dev [] [WriteReq [sample_block]] of (s, err) \<Rightarrow> length (content (dev s)) = 8"
proof -
  have "\<forall>bs\<in>set (requests [WriteReq [sample_block]]). \<forall>b\<in>set bs. blk_of sample_image b"
    using sample_block_of by simp
  moreover have len: "length (content sample_dev) = length sample_image" by (simp add: sample_dev_def sample_image_def)
  ultimately show ?thesis
    using rbd_Write_ack_safe [of "[WriteReq [sample_block]]" sample_image sample_dev "[]"]
    by (cases "rbd_Write sample_dev [] [WriteReq [sample_block]]") (simp add: sample_image_def)
qed

text \<open>
  Without faults the handler acknowledges everything and the device holds exactly the blocks
  applied in order; the handler returns no error.
\<close>

theorem rbd_Write_complete:
  assumes "plan d = []" "\<forall>bs\<in>set reqs. \<forall>b\<in>set bs. blk_in (length (content d)) b"
  shows "case rbd_Write d [] (map WriteReq reqs @ [WriteEOF]) of (s, err) \<Rightarrow>
    err = None \<and> content (dev s) = apply_blocks (content d) (concat reqs) \<and>
    concat (acked s) = map blkRequestId (concat reqs)"
proof -
  let ?s0 = "\<lparr>dev = d, opened = False, acked = [], outs = []\<rparr>"
  obtain s' where "write_loop ?s0 (map WriteReq reqs @ [WriteEOF]) = (s', None)" "outs s' = []"
    "content (dev s') = apply_blocks (content d) (concat reqs)" "concat (acked s') = map blkRequestId (concat reqs)"
    using write_loop_quiet [of ?s0 reqs] assms by auto
  then show ?thesis by (simp add: rbd_Write_def close_device_def)
qed

theorem rbd_Write_complete_witness:
  "case rbd_Write (sample_dev\<lparr>plan := []\<rparr>) [] (map WriteReq [[sample_block]] @ [WriteEOF]) of (s, err) \<Rightarrow>
     err = None \<and> concat (acked s) = [0]"
  using rbd_Write_complete [of "sample_dev\<lparr>plan := []\<rparr>" "[[sample_block]]"]
  by (auto simp: blk_in_def blk_payload_def sample_dev_def sample_block_def split: prod.splits)

lemma sync_entries_ok: "sync_entries os ps n = (os', n', True) \<Longrightarrow> n' = n + length ps"
  by (induction os ps n rule: sync_entries.induct) (auto split: prod.splits bool.splits)

lemma sync_entries_mono: "sync_entries os ps n = (os', n', r) \<Longrightarrow> n \<le> n'"
  by (induction os ps n rule: sync_entries.induct) (fastforce split: prod.splits bool.splits)+

text \<open>
  A commit is answered only after its syncs: the device has been synced at least once for
  every entry of every answered commit request, and the answers name the entries of the first
  requests in order.
\<close>

theorem rbd_Commit_synced:
  "case rbd_Commit os evs 0 [] of (rs, n, err) \<Rightarrow>
     length (concat rs) \<le> n \<and> (\<exists>k. map CommitReq rs = take k evs)"
proof -
  have "length (concat rs') \<le> n' \<and> (\<exists>k. map CommitReq rs' = map CommitReq rs @ take k evs)"
    if "rbd_Commit os evs n rs = (rs', n', err)" "length (concat rs) \<le> n" for os evs n rs rs' n' err
    using that
  proof (induction os evs n rs rule: rbd_Commit.induct)
    case (4 os ps evs n rs)
    obtain o1 os1 where 1: "pop_ok os = (o1, os1)" by force
    obtain os2 n2 o2 where 2: "sync_entries os1 ps n = (os2, n2, o2)" by (cases "sync_entries os1 ps n")
    obtain o3 os3 where 3: "pop_ok os2 = (o3, os3)" by force
    obtain o4 os4 where 4: "pop_ok os3 = (o4, os4)" by force
    show ?case
    proof (cases "o1 \<and> o2 \<and> o3 \<and> o4")
      case True
      then have "rbd_Commit os4 evs n2 (rs @ [ps]) = (rs', n', err)" using "4.prems"(1) 1 2 3 4 by simp
      moreover have "length (concat (rs @ [ps])) \<le> n2" using sync_entries_ok [of os1 ps n os2 n2] 2 True "4.prems"(2) by auto
      ultimately obtain k where "length (concat rs') \<le> n'" "map CommitReq rs' = map CommitReq (rs @ [ps]) @ take k evs"
        using "4.IH" [OF 1 [symmetric] _ 2 [symmetric] refl _ 3 [symmetric] _ 4 [symmetric]] True by blast
      then show ?thesis by (auto intro: exI [of _ "Suc k"])
    next
      case False
      then have "rs' = rs \<and> n \<le> n'" using "4.prems"(1) 1 2 3 4 sync_entries_mono [OF 2]
        by (cases o1; cases o2; cases o3; cases o4) auto
      then show ?thesis using "4.prems"(2) by (auto intro: exI [of _ 0])
    qed
  qed (auto intro: exI [of _ 0])
  then show ?thesis by (fastforce split: prod.splits)
qed

end
