(* ===== verification/Fs_Split.thy ===== *)
theory Fs_Split
  imports Prelude
begin

section \<open>Splitting large extents (internal/worker/cephfs/block_iterator.go, splitLargeBlocks)\<close>

text \<open>
  \<^verbatim>\<open>splitLargeBlocks\<close> cuts the extents of a CephFS diff to the pipeline's limit.  It appends to
  \<^verbatim>\<open>blocks[:0]\<close>, which shares its backing array with the list it is still reading.  The model keeps
  that array explicit: the list read and the list written are one array until the writer runs
  past its end and gets an array of its own.  Both callers pass a slice whose capacity is its
  length, so the array ends with the slice.

  The lemmas show when the sharing is harmless, and that otherwise extents are lost.
\<close>

subsection \<open>Definitions\<close>

record changedBlock =
  dOffset :: u64
  dLen :: u64

definition maxBlockLen :: u64 where "maxBlockLen = 16 * 1024 * 1024"

text \<open>The slice that is appended to: a prefix of the shared array, or an array of its own.\<close>

datatype out_slice = Shared nat | Own "changedBlock list"

fun append_out :: "changedBlock list \<times> out_slice \<Rightarrow> changedBlock \<Rightarrow> changedBlock list \<times> out_slice" where
  "append_out (arr, Shared n) b =
     (if n < length arr then (arr[n := b], Shared (Suc n)) else (arr, Own (take n arr @ [b])))"
| "append_out (arr, Own ys) b = (arr, Own (ys @ [b]))"

fun out_of :: "changedBlock list \<times> out_slice \<Rightarrow> changedBlock list" where
  "out_of (arr, Shared n) = take n arr"
| "out_of (arr, Own ys) = ys"

text \<open>
  The inner loop.  With a limit of zero it would cut empty blocks for ever; \<^verbatim>\<open>None\<close> is that case.
\<close>

lemma cut_decreases: "0 < r \<Longrightarrow> 0 < m \<Longrightarrow> unat (r - (if m < r then m else r)) < unat (r :: u64)"
  by (auto simp: unat_sub unat_gt_0 word_less_nat_alt word_le_nat_alt less_imp_le)

function cut_block :: "u64 \<Rightarrow> u64 \<Rightarrow> u64 \<Rightarrow> changedBlock list option" where
  "cut_block m off r =
     (if r = 0 then Some []
      else if m = 0 then None
      else let l = (if m < r then m else r) in
        map_option (Cons \<lparr>dOffset = off, dLen = l\<rparr>) (cut_block m (off + l) (r - l)))"
  by pat_completeness auto
termination
  by (relation "measure (\<lambda>(m, off, r). unat r)") (use cut_decreases in \<open>auto simp: word_gt_0\<close>)

declare cut_block.simps [simp del]

text \<open>The outer loop reads the array at each index, as \<^verbatim>\<open>range\<close> does.\<close>

primrec split_loop :: "u64 \<Rightarrow> nat list \<Rightarrow> changedBlock list \<times> out_slice \<Rightarrow> (changedBlock list \<times> out_slice) option" where
  "split_loop m [] st = Some st"
| "split_loop m (i # is) st =
     (let b = fst st ! i in
      if dLen b \<le> m then split_loop m is (append_out st b)
      else case cut_block m (dOffset b) (dLen b) of
             None \<Rightarrow> None
           | Some ps \<Rightarrow> split_loop m is (foldl append_out st ps))"

definition splitLargeBlocks :: "changedBlock list \<Rightarrow> u64 \<Rightarrow> changedBlock list option" where
  "splitLargeBlocks blocks m =
     (if \<not> list_ex (\<lambda>b. dLen b > m) blocks then Some blocks
      else map_option out_of (split_loop m [0..<length blocks] (blocks, Shared 0)))"

subsection \<open>Cutting one extent\<close>

text \<open>The bytes of an extent that does not run past the end of the 64-bit range.\<close>

definition ext_ok :: "changedBlock \<Rightarrow> bool" where
  "ext_ok b \<longleftrightarrow> uint (dOffset b) + uint (dLen b) < 2 ^ 64"

definition ext_range :: "changedBlock \<Rightarrow> int set" where
  "ext_range b = {uint (dOffset b)..<uint (dOffset b) + uint (dLen b)}"

definition cuts :: "u64 \<Rightarrow> changedBlock \<Rightarrow> changedBlock list" where
  "cuts m b = (if dLen b \<le> m then [b] else the (cut_block m (dOffset b) (dLen b)))"

lemma cut_block_0 [simp]: "cut_block m off 0 = Some []"
  by (simp add: cut_block.simps)

lemma cut_block_step:
  "0 < m \<Longrightarrow> 0 < r \<Longrightarrow> cut_block m off r =
     map_option (Cons \<lparr>dOffset = off, dLen = min m r\<rparr>) (cut_block m (off + min m r) (r - min m r))"
  by (subst cut_block.simps) (auto simp: Let_def min_def word_gt_0)

lemma cut_block_total:
  assumes "0 < m"
  shows "\<exists>ps. cut_block m off r = Some ps \<and> (\<forall>p\<in>set ps. 0 < dLen p \<and> dLen p \<le> m)"
proof (induction "unat r" arbitrary: off r rule: less_induct)
  case less
  show ?case
  proof (cases "r = 0")
    case False
    then have "unat (r - min m r) < unat r"
      using cut_decreases [of r m] assms by (auto simp: min_def word_gt_0 split: if_splits)
    then obtain ps where "cut_block m (off + min m r) (r - min m r) = Some ps" "\<forall>p\<in>set ps. 0 < dLen p \<and> dLen p \<le> m"
      using less by blast
    then show ?thesis using assms False by (auto simp: cut_block_step word_gt_0 min_def)
  qed simp
qed

lemma cut_block_range:
  assumes "0 < m" "uint off + uint r < 2 ^ 64" "cut_block m off r = Some ps"
  shows "\<Union> (ext_range ` set ps) = {uint off..<uint off + uint r} \<and> (\<forall>p\<in>set ps. ext_ok p)"
  using assms
proof (induction "unat r" arbitrary: off r ps rule: less_induct)
  case less
  show ?case
  proof (cases "r = 0")
    case True
    then show ?thesis using less.prems by simp
  next
    case False
    define l where "l = min m r"
    have l: "0 < l" "l \<le> r" using less.prems False by (auto simp: l_def word_gt_0 min_def)
    obtain qs where qs: "cut_block m (off + l) (r - l) = Some qs" "ps = \<lparr>dOffset = off, dLen = l\<rparr> # qs"
      using less.prems False by (auto simp: l_def cut_block_step word_gt_0)
    have u: "uint (r - l) = uint r - uint l" using l by (simp add: uint_sub_lem word_le_def)
    have ul: "uint l \<le> uint r" using l by (simp add: word_le_def)
    have "uint off + uint l < 2 ^ LENGTH(64)" using less.prems(2) ul by simp
    then have a: "uint (off + l) = uint off + uint l" by (rule uint_add_lem [THEN iffD1])
    have lt: "unat (r - l) < unat r"
      using cut_decreases [of r m] less.prems(1) False by (auto simp: l_def min_def word_gt_0 split: if_splits)
    have ih: "\<Union> (ext_range ` set qs) = {uint off + uint l..<uint off + uint r} \<and> (\<forall>p\<in>set qs. ext_ok p)"
      using less.hyps [OF lt less.prems(1) _ qs(1)] less.prems(2) a u by simp
    have "{uint off..<uint off + uint l} \<union> {uint off + uint l..<uint off + uint r} = {uint off..<uint off + uint r}"
      by (rule ivl_disj_un_two(3)) (use ul in simp_all)
    then show ?thesis using ih less.prems(2) ul by (auto simp: qs(2) ext_range_def ext_ok_def)
  qed
qed

lemma cuts_some: "0 < m \<Longrightarrow> \<not> dLen b \<le> m \<Longrightarrow> cut_block m (dOffset b) (dLen b) = Some (cuts m b)"
  using cut_block_total [of m "dOffset b" "dLen b"] by (auto simp: cuts_def)

lemma cuts_le: "0 < m \<Longrightarrow> p \<in> set (cuts m b) \<Longrightarrow> dLen p \<le> m"
  using cut_block_total [of m "dOffset b" "dLen b"] by (auto simp: cuts_def split: if_splits)

lemma cuts_range: "0 < m \<Longrightarrow> ext_ok b \<Longrightarrow> \<Union> (ext_range ` set (cuts m b)) = ext_range b"
proof (cases "dLen b \<le> m")
  case False
  assume m: "0 < m" and ok: "ext_ok b"
  show ?thesis
    using cut_block_range [OF m ok [unfolded ext_ok_def] cuts_some [OF m False]] unfolding ext_range_def [of b] by (rule conjunct1)
qed (simp add: cuts_def)

lemma cuts_two:
  assumes "0 < m" "m < dLen b"
  shows "\<exists>p q r. cuts m b = p # q # r"
proof -
  let ?o = "dOffset b + m" and ?r = "dLen b - m"
  have "cut_block m (dOffset b) (dLen b) = map_option (Cons \<lparr>dOffset = dOffset b, dLen = m\<rparr>) (cut_block m ?o ?r)"
    using assms cut_block_step [OF assms(1) less_trans [OF assms], of "dOffset b"] by (simp add: min.absorb1 less_imp_le)
  moreover have "0 < ?r" using assms by (auto simp: word_gt_0)
  then have "\<exists>q r. cut_block m ?o ?r = Some (q # r)"
    using assms cut_block_step [of m ?r ?o] cut_block_total [of m "?o + min m ?r" "?r - min m ?r"] by auto
  ultimately show ?thesis using assms cuts_some [of m b] by auto
qed

subsection \<open>The shared array\<close>

lemma append_out_len [simp]: "length (fst (append_out st b)) = length (fst st)"
  by (cases st; cases "snd st") auto

lemma foldl_append_len [simp]: "length (fst (foldl append_out st ps)) = length (fst st)"
  by (induction ps arbitrary: st) simp_all

lemma foldl_append_own [simp]: "foldl append_out (arr, Own ys) ps = (arr, Own (ys @ ps))"
  by (induction ps arbitrary: ys) simp_all

text \<open>While the writer is at or behind the reader, what is written is what a list would hold.\<close>

lemma split_fits:
  "drop k arr = xs @ ys \<Longrightarrow> \<forall>x\<in>set xs. dLen x \<le> m \<Longrightarrow>
     split_loop m [k..<k + length xs] (arr, Shared k) = Some (arr, Shared (k + length xs))"
proof (induction xs arbitrary: k)
  case (Cons x xs)
  then have d: "drop k arr = x # xs @ ys" by simp
  have "arr ! k = x" "k < length arr" "drop (Suc k) arr = xs @ ys"
    using nth_via_drop [OF d] d by (simp_all add: drop_Suc tl_drop [symmetric]) (metis drop_eq_Nil list.distinct(1) not_le)
  then show ?case
    using Cons.IH [of "Suc k"] Cons.prems(2) by (auto simp: upt_conv_Cons list_update_same_conv simp del: upt_Suc)
qed simp

lemma split_loop_append:
  "split_loop m (is @ js) st = (case split_loop m is st of None \<Rightarrow> None | Some st' \<Rightarrow> split_loop m js st')"
  by (induction "is" arbitrary: st) (auto simp: Let_def split: option.splits)

text \<open>What is written past the reader stays inside a set that is closed under cutting.\<close>

definition closed :: "u64 \<Rightarrow> changedBlock set \<Rightarrow> changedBlock set \<Rightarrow> bool" where
  "closed m W Y \<longleftrightarrow> (\<forall>w\<in>W. dLen w \<le> m) \<and> (\<forall>y\<in>Y. set (cuts m y) \<subseteq> W)"

definition reads_in :: "changedBlock set \<Rightarrow> nat \<Rightarrow> changedBlock list \<Rightarrow> bool" where
  "reads_in S i arr \<longleftrightarrow> (\<forall>j. i \<le> j \<longrightarrow> j < length arr \<longrightarrow> arr ! j \<in> S)"

lemma reads_in_Suc: "reads_in S i arr \<Longrightarrow> reads_in S (Suc i) arr"
  by (auto simp: reads_in_def)

lemma reads_in_step: "reads_in S (Suc i) arr \<Longrightarrow> arr ! i \<in> S \<Longrightarrow> reads_in S i arr"
  by (auto simp: reads_in_def) (metis Suc_leI le_neq_implies_less)

lemma append_out_in:
  "b \<in> W \<Longrightarrow> W \<subseteq> S \<Longrightarrow> reads_in S i (fst st) \<Longrightarrow> set (out_of st) \<subseteq> W \<Longrightarrow>
     reads_in S i (fst (append_out st b)) \<and> set (out_of (append_out st b)) \<subseteq> W"
  by (cases st; cases "snd st") (auto simp: reads_in_def nth_list_update take_Suc_conv_app_nth)

lemma foldl_append_in:
  "set ps \<subseteq> W \<Longrightarrow> W \<subseteq> S \<Longrightarrow> reads_in S i (fst st) \<Longrightarrow> set (out_of st) \<subseteq> W \<Longrightarrow>
     reads_in S i (fst (foldl append_out st ps)) \<and> set (out_of (foldl append_out st ps)) \<subseteq> W"
proof (induction ps arbitrary: st)
  case (Cons p ps)
  then show ?case using append_out_in [of p W S i st] Cons.IH [of "append_out st p"] by simp
qed simp

lemma split_loop_in:
  assumes "0 < m" "closed m W Y" "reads_in (W \<union> Y) i (fst st)" "set (out_of st) \<subseteq> W" "n = length (fst st)"
  shows "\<exists>st'. split_loop m [i..<n] st = Some st' \<and> set (out_of st') \<subseteq> W"
  using assms
proof (induction "n - i" arbitrary: i st)
  case (Suc d)
  then have i: "i < n" "d = n - Suc i" by auto
  let ?b = "fst st ! i"
  have b: "?b \<in> W \<union> Y" using Suc.prems i by (auto simp: reads_in_def)
  have cut: "set (cuts m ?b) \<subseteq> W"
  proof (cases "?b \<in> W")
    case True
    then show ?thesis using Suc.prems(2) by (simp add: closed_def cuts_def)
  qed (use b Suc.prems(2) in \<open>auto simp: closed_def\<close>)
  let ?st = "foldl append_out st (cuts m ?b)"
  have "split_loop m [i..<n] st = split_loop m [Suc i..<n] ?st"
    using i cuts_some [OF Suc.prems(1), of ?b]
    by (cases "dLen ?b \<le> m") (simp_all add: upt_conv_Cons Let_def, simp add: cuts_def)
  moreover have "reads_in (W \<union> Y) i (fst ?st) \<and> set (out_of ?st) \<subseteq> W"
    using foldl_append_in [OF cut _ Suc.prems(3,4)] by blast
  ultimately show ?case
    using Suc.hyps(1) [of "Suc i" ?st] i Suc.prems reads_in_Suc by simp
qed simp

text \<open>An extent that is too long overwrites the one behind it.\<close>

lemma foldl_append_behind: "j < n \<Longrightarrow> n \<le> length arr \<Longrightarrow> fst (foldl append_out (arr, Shared n) ps) ! j = arr ! j"
proof (induction ps arbitrary: n arr)
  case (Cons p ps)
  show ?case
  proof (cases "n < length arr")
    case True
    then show ?thesis using Cons.IH [of "Suc n" "arr[n := p]"] Cons.prems by simp
  qed (use Cons.prems in simp)
qed simp

lemma overwrites_next:
  assumes "Suc k < length arr"
  shows "fst (foldl append_out (arr, Shared k) (p # q # ps)) ! Suc k = q"
  using assms foldl_append_behind [of "Suc k" "Suc (Suc k)" "arr[k := p, Suc k := q]" ps] by simp

subsection \<open>Correctness\<close>

lemma splitLargeBlocks_total: "0 < m \<Longrightarrow> \<exists>out. splitLargeBlocks bs m = Some out \<and> (\<forall>b\<in>set out. dLen b \<le> m)"
proof (cases "list_ex (\<lambda>b. dLen b > m) bs")
  case True
  assume m: "0 < m"
  let ?W = "\<Union> (set ` cuts m ` set bs)"
  have "closed m ?W (set bs)" using cuts_le [OF m] by (auto simp: closed_def)
  moreover have "reads_in (?W \<union> set bs) 0 bs" by (auto simp: reads_in_def)
  ultimately have "\<exists>st'. split_loop m [0..<length bs] (bs, Shared 0) = Some st' \<and> set (out_of st') \<subseteq> ?W"
    using split_loop_in [OF m, of ?W "set bs" 0 "(bs, Shared 0)" "length bs"] by simp
  then show ?thesis using True cuts_le [OF m] by (fastforce simp: splitLargeBlocks_def)
qed (auto simp: splitLargeBlocks_def list_ex_iff not_less)


lemma maxBlockLen_pos: "0 < maxBlockLen"
  by (simp add: maxBlockLen_def)

lemma split_to_big:
  assumes "0 < m" "\<forall>x\<in>set xs. dLen x \<le> m" "m < dLen b"
  shows "split_loop m [0..<length (xs @ b # ys)] (xs @ b # ys, Shared 0) =
    split_loop m [Suc (length xs)..<length (xs @ b # ys)] (foldl append_out (xs @ b # ys, Shared (length xs)) (cuts m b))"
proof -
  have "[0..<length (xs @ b # ys)] = [0..<0 + length xs] @ length xs # [Suc (length xs)..<length (xs @ b # ys)]"
    using upt_add_eq_append [of 0 "length xs" "Suc (length ys)"] upt_conv_Cons [of "length xs" "length xs + Suc (length ys)"]
    by (simp del: upt_Suc)
  then show ?thesis
    using split_fits [of 0 "xs @ b # ys" xs "b # ys" m] assms cuts_some [OF assms(1), of b]
    by (simp add: split_loop_append Let_def not_le [symmetric] del: upt_Suc)
qed

lemma out_append_end: "out_of (foldl append_out (xs @ [b], Shared (length xs)) (p # ps)) = xs @ p # ps"
  by (cases ps) simp_all

lemma splitLargeBlocks_end:
  assumes "0 < m" "\<forall>x\<in>set xs. dLen x \<le> m"
  shows "splitLargeBlocks (xs @ [b]) m = Some (xs @ cuts m b)"
proof (cases "dLen b \<le> m")
  case True
  then show ?thesis using assms by (auto simp: splitLargeBlocks_def cuts_def list_ex_iff not_less)
next
  case False
  then obtain p ps where "cuts m b = p # ps" using cuts_two [OF assms(1), of b] by (auto simp: not_le)
  then show ?thesis
    using split_to_big [OF assms, of b "[]"] False out_append_end by (simp add: splitLargeBlocks_def not_le del: upt_Suc foldl_Cons)
qed

text \<open>
  Where at most the last extent of a reply is too long, splitting keeps the bytes: the result
  covers exactly the bytes of the given extents, and every block fits the limit.
\<close>

theorem splitLargeBlocks_last:
  assumes "\<forall>x\<in>set xs. dLen x \<le> maxBlockLen" "\<forall>x\<in>set (xs @ [b]). ext_ok x"
  shows "\<exists>out. splitLargeBlocks (xs @ [b]) maxBlockLen = Some out \<and>
    \<Union> (ext_range ` set out) = \<Union> (ext_range ` set (xs @ [b])) \<and> (\<forall>x\<in>set out. dLen x \<le> maxBlockLen)"
  using splitLargeBlocks_end [OF _ assms(1), of b] cuts_range [of maxBlockLen b] cuts_le [of maxBlockLen _ b] assms
  by (auto simp: maxBlockLen_pos)

theorem splitLargeBlocks_last_witness:
  "\<exists>out. splitLargeBlocks ([\<lparr>dOffset = 0, dLen = 4096\<rparr>] @ [\<lparr>dOffset = 8192, dLen = 40 * 1024 * 1024\<rparr>]) maxBlockLen = Some out \<and>
    \<Union> (ext_range ` set out) =
      \<Union> (ext_range ` set ([\<lparr>dOffset = 0, dLen = 4096\<rparr>] @ [\<lparr>dOffset = 8192, dLen = 40 * 1024 * 1024\<rparr>])) \<and>
    (\<forall>x\<in>set out. dLen x \<le> maxBlockLen)"
  by (rule splitLargeBlocks_last) (simp_all add: maxBlockLen_def ext_ok_def)

text \<open>
  C38: an extent that is too long and is not the last of its reply destroys the one behind it.  The
  blocks that come out are cut from the other extents only, so the bytes of the overwritten extent are
  not transferred (unless another extent covers them as well).
\<close>

theorem splitLargeBlocks_loses:
  assumes "\<forall>x\<in>set xs. dLen x \<le> maxBlockLen" "maxBlockLen < dLen b" "\<forall>x\<in>set (xs @ b # ys). ext_ok x"
  shows "\<exists>out. splitLargeBlocks (xs @ b # c # ys) maxBlockLen = Some out \<and>
    \<Union> (ext_range ` set out) \<subseteq> \<Union> (ext_range ` set (xs @ b # ys))"
proof -
  let ?m = maxBlockLen and ?arr = "xs @ b # c # ys"
  let ?W = "\<Union> (set ` cuts ?m ` set (xs @ b # ys))"
  obtain p q r where cuts: "cuts ?m b = p # q # r" using cuts_two [OF maxBlockLen_pos assms(2)] by blast
  let ?st = "foldl append_out (?arr, Shared (length xs)) (cuts ?m b)"
  have "split_loop ?m [0..<length ?arr] (?arr, Shared 0) =
      split_loop ?m [Suc (length xs)..<length ?arr] ?st"
    using split_to_big [OF maxBlockLen_pos assms(1,2), of "c # ys"] by simp
  moreover have "closed ?m ?W (set ys)" using cuts_le [OF maxBlockLen_pos] by (auto simp: closed_def)
  moreover have "reads_in (?W \<union> set ys) (Suc (length xs)) (fst ?st) \<and> set (out_of ?st) \<subseteq> ?W"
  proof -
    have xs: "set xs \<subseteq> ?W" using assms(1) by (force simp: cuts_def)
    have "reads_in (?W \<union> set ys) (Suc (Suc (length xs))) ?arr" by (auto simp: reads_in_def nth_append nth_Cons split: nat.splits)
    then have "reads_in (?W \<union> set ys) (Suc (Suc (length xs))) (fst ?st) \<and> set (out_of ?st) \<subseteq> ?W"
      using xs by (intro foldl_append_in) auto
    moreover have "fst ?st ! Suc (length xs) = q" using overwrites_next [of "length xs" ?arr p q r] cuts by simp
    moreover have "q \<in> ?W" using cuts by auto
    ultimately show ?thesis by (metis UnI1 reads_in_step)
  qed
  ultimately obtain st' where st': "split_loop ?m [0..<length ?arr] (?arr, Shared 0) = Some st'" "set (out_of st') \<subseteq> ?W"
    using split_loop_in [OF maxBlockLen_pos, of ?W "set ys" "Suc (length xs)" ?st "length ?arr"] by auto
  have sub: "ext_range x \<subseteq> \<Union> (ext_range ` set (xs @ b # ys))" if "x \<in> ?W" for x
    using that cuts_range [OF maxBlockLen_pos] assms(3) by blast
  have "\<Union> (ext_range ` set (out_of st')) \<subseteq> \<Union> (ext_range ` set (xs @ b # ys))"
    by (intro UN_least sub subsetD [OF st'(2)])
  moreover have "splitLargeBlocks ?arr ?m = Some (out_of st')"
    using st'(1) assms(2) by (simp add: splitLargeBlocks_def)
  ultimately show ?thesis by blast
qed


theorem splitLargeBlocks_loses_witness:
  "\<exists>out. splitLargeBlocks ([] @ \<lparr>dOffset = 0, dLen = 32 * 1024 * 1024\<rparr> # \<lparr>dOffset = 100 * 1024 * 1024, dLen = 4096\<rparr> # []) maxBlockLen =
      Some out \<and> \<Union> (ext_range ` set out) \<subseteq> \<Union> (ext_range ` set ([] @ \<lparr>dOffset = 0, dLen = 32 * 1024 * 1024\<rparr> # []))"
  by (rule splitLargeBlocks_loses) (simp_all add: maxBlockLen_def ext_ok_def)

end
