(* ===== verification/Fs_Iter.thy ===== *)
theory Fs_Iter
  imports Fs_Split Feeder "HOL-Library.Multiset"
begin

section \<open>The CephFS block iterator (internal/worker/cephfs/block_iterator.go)\<close>

text \<open>
  \<^verbatim>\<open>CephFSBlockIterator\<close> flattens the changed extents of many files into one numbered sequence of
  blocks, and reports on a channel which request id was the last of each file.  The per-file diff
  iterator of the Ceph library is the list of what its successive \<^verbatim>\<open>Read\<close> calls return; \<^verbatim>\<open>More\<close> is
  true while the list is not empty.  Whether the boundary channel has room at a non-blocking
  send, and whether the context is cancelled at a blocking one, is taken from lists of outcomes.

  The lemmas show that the iterator yields exactly the blocks of a reference definition, that it
  satisfies the contract of the pipeline's block iterators, that every file with blocks gets
  exactly one boundary, naming the id of its last block, and that no diff iterator is leaked.
\<close>

subsection \<open>Definitions\<close>

datatype diff_read = Blocks "changedBlock list" | ReadFailed

type_synonym fileDiffIterator = "diff_read list"

record fileBoundary =
  fbPath :: path
  fbLastReqID :: u64
  fbTotalSize :: int

record changedFileEntry =
  fePath :: path
  feSize :: int

record CephFSBlockIterator =
  newIter :: "path \<Rightarrow> fileDiffIterator option"
  files :: "path list"
  fileCh :: "changedFileEntry list option"
  ctxOuts :: "bool list option"
  fileIdx :: nat
  curIter :: "fileDiffIterator option"
  openIters :: int
  curFile :: path
  buf :: "changedBlock list"
  bufIdx :: nat
  itReqID :: u64
  fileStartReqID :: u64
  itTotalSize :: int
  boundaryCh :: "(bool list \<times> fileBoundary list) option"
  pendingBoundaries :: "fileBoundary list"
  itFailed :: bool
  smallFileThreshold :: int

text \<open>
  The boundary channel is the outcomes of the non-blocking sends to come and what was sent so far.
\<close>

definition WithBoundaryChan :: "bool list \<Rightarrow> CephFSBlockIterator \<Rightarrow> CephFSBlockIterator" where
  "WithBoundaryChan room it = it\<lparr>boundaryCh := Some (room, [])\<rparr>"

definition WithFileChan :: "changedFileEntry list \<Rightarrow> CephFSBlockIterator \<Rightarrow> CephFSBlockIterator" where
  "WithFileChan ch it = it\<lparr>fileCh := Some ch\<rparr>"

definition WithSmallFileThreshold :: "int \<Rightarrow> CephFSBlockIterator \<Rightarrow> CephFSBlockIterator" where
  "WithSmallFileThreshold n it = it\<lparr>smallFileThreshold := n\<rparr>"

definition WithContext :: "bool list \<Rightarrow> CephFSBlockIterator \<Rightarrow> CephFSBlockIterator" where
  "WithContext outs it = it\<lparr>ctxOuts := Some outs\<rparr>"

definition NewCephFSBlockIterator ::
  "(path \<Rightarrow> fileDiffIterator option) \<Rightarrow> path list \<Rightarrow> (CephFSBlockIterator \<Rightarrow> CephFSBlockIterator) list \<Rightarrow> CephFSBlockIterator" where
  "NewCephFSBlockIterator ni fs opts =
     foldl (\<lambda>it f. f it)
       \<lparr>newIter = ni, files = fs, fileCh = None, ctxOuts = None, fileIdx = 0, curIter = None, openIters = 0, curFile = '''',
        buf = [], bufIdx = 0, itReqID = 0, fileStartReqID = 0, itTotalSize = 0, boundaryCh = None,
        pendingBoundaries = [], itFailed = False, smallFileThreshold = 0\<rparr> opts"

text \<open>A send that is abandoned when the context is cancelled; without a context it just blocks.\<close>

definition ctx_ok :: "CephFSBlockIterator \<Rightarrow> bool \<times> CephFSBlockIterator" where
  "ctx_ok it =
     (case ctxOuts it of
        None \<Rightarrow> (True, it)
      | Some outs \<Rightarrow> (case pop_ok outs of (ok, outs') \<Rightarrow> (ok, it\<lparr>ctxOuts := Some outs'\<rparr>)))"

definition nextFile :: "CephFSBlockIterator \<Rightarrow> CephFSBlockIterator \<times> path option" where
  "nextFile it =
     (case fileCh it of
        Some ch \<Rightarrow>
          (case ctx_ok it of
             (False, it1) \<Rightarrow> (it1, None)
           | (True, it1) \<Rightarrow>
               (case ch of
                  [] \<Rightarrow> (it1, None)
                | fe # ch' \<Rightarrow> (it1\<lparr>fileCh := Some ch', itTotalSize := feSize fe\<rparr>, Some (fePath fe))))
      | None \<Rightarrow>
          if length (files it) \<le> fileIdx it then (it, None)
          else (it\<lparr>fileIdx := Suc (fileIdx it)\<rparr>, Some (files it ! fileIdx it)))"

definition closeCurrentIter :: "CephFSBlockIterator \<Rightarrow> CephFSBlockIterator" where
  "closeCurrentIter it =
     (if curIter it = None then it
      else it\<lparr>curIter := None, openIters := openIters it - 1, buf := [], bufIdx := 0\<rparr>)"

definition emitBoundary :: "CephFSBlockIterator \<Rightarrow> CephFSBlockIterator" where
  "emitBoundary it =
     (let fb = \<lparr>fbPath = curFile it, fbLastReqID = itReqID it - 1, fbTotalSize = itTotalSize it\<rparr> in
      case boundaryCh it of
        None \<Rightarrow> it\<lparr>pendingBoundaries := pendingBoundaries it @ [fb]\<rparr>
      | Some (room, sent) \<Rightarrow>
          (case pop_ok room of
             (True, room') \<Rightarrow> it\<lparr>boundaryCh := Some (room', sent @ [fb])\<rparr>
           | (False, room') \<Rightarrow> it\<lparr>boundaryCh := Some (room', sent), pendingBoundaries := pendingBoundaries it @ [fb]\<rparr>))"

fun drain_loop :: "fileBoundary list \<Rightarrow> bool list \<Rightarrow> fileBoundary list \<Rightarrow> fileBoundary list \<times> bool list \<times> fileBoundary list" where
  "drain_loop [] room sent = ([], room, sent)"
| "drain_loop (fb # fbs) room sent =
     (case pop_ok room of
        (True, room') \<Rightarrow> drain_loop fbs room' (sent @ [fb])
      | (False, room') \<Rightarrow> (fb # fbs, room', sent))"

text \<open>A send on a nil channel is never ready, so without a channel nothing is drained.\<close>

definition drainPendingBoundaries :: "CephFSBlockIterator \<Rightarrow> CephFSBlockIterator" where
  "drainPendingBoundaries it =
     (case boundaryCh it of
        None \<Rightarrow> it
      | Some (room, sent) \<Rightarrow>
          (case drain_loop (pendingBoundaries it) room sent of
             (rest, room', sent') \<Rightarrow> it\<lparr>boundaryCh := Some (room', sent'), pendingBoundaries := rest\<rparr>))"

definition has_blocks :: "CephFSBlockIterator \<Rightarrow> bool" where
  "has_blocks it \<longleftrightarrow> curFile it \<noteq> '''' \<and> boundaryCh it \<noteq> None \<and> itReqID it > fileStartReqID it"

text \<open>\<^verbatim>\<open>Next\<close>, in the steps of its loop: drain the buffer, refill it, finish a file, open the next.\<close>

definition emit_block :: "CephFSBlockIterator \<Rightarrow> CephFSBlockIterator \<times> ChangeBlock" where
  "emit_block it =
     (let b = buf it ! bufIdx it in
      (it\<lparr>bufIdx := Suc (bufIdx it), itReqID := itReqID it + 1\<rparr>,
       \<lparr>cbFilePath = curFile it, cbOffset = sint (dOffset b), cbLen = sint (dLen b), cbReqID = itReqID it,
        cbTotalSize = itTotalSize it, cbIsZero = False\<rparr>))"

definition split_max :: "changedBlock list \<Rightarrow> changedBlock list" where
  "split_max bs = the (splitLargeBlocks bs maxBlockLen)"

definition finish_file :: "CephFSBlockIterator \<Rightarrow> CephFSBlockIterator" where
  "finish_file it =
     (let it1 = (case curIter it of Some (_ # _) \<Rightarrow> closeCurrentIter it | _ \<Rightarrow> it);
          it2 = (if has_blocks it1 then emitBoundary it1 else it1)
      in closeCurrentIter (drainPendingBoundaries it2))"

definition open_file :: "CephFSBlockIterator \<Rightarrow> path \<Rightarrow> CephFSBlockIterator" where
  "open_file it f =
     (let it1 = it\<lparr>curFile := f, fileStartReqID := itReqID it\<rparr> in
      if fileCh it1 \<noteq> None \<and> itTotalSize it1 = 0 then it1
      else if fileCh it1 \<noteq> None \<and> 0 < smallFileThreshold it1 \<and> 0 < itTotalSize it1 \<and> itTotalSize it1 \<le> smallFileThreshold it1
      then it1\<lparr>buf := split_max [\<lparr>dOffset = 0, dLen = word_of_int (itTotalSize it1)\<rparr>], bufIdx := 0\<rparr>
      else case newIter it1 f of
             None \<Rightarrow> it1
           | Some rs \<Rightarrow> it1\<lparr>curIter := Some rs, openIters := openIters it1 + 1\<rparr>)"

text \<open>Every round of the loop takes a reply from the current diff or a file from the input.\<close>

definition files_left :: "CephFSBlockIterator \<Rightarrow> nat" where
  "files_left it = (case fileCh it of Some ch \<Rightarrow> length ch | None \<Rightarrow> length (files it) - fileIdx it)"

definition replies_left :: "CephFSBlockIterator \<Rightarrow> nat" where
  "replies_left it = (case curIter it of None \<Rightarrow> 0 | Some rs \<Rightarrow> length rs)"

lemma closeCurrentIter_keeps [simp]:
  "fileCh (closeCurrentIter it) = fileCh it" "files (closeCurrentIter it) = files it" "fileIdx (closeCurrentIter it) = fileIdx it"
  "newIter (closeCurrentIter it) = newIter it" "ctxOuts (closeCurrentIter it) = ctxOuts it" "curIter (closeCurrentIter it) = None"
  "curFile (closeCurrentIter it) = curFile it" "itReqID (closeCurrentIter it) = itReqID it"
  "fileStartReqID (closeCurrentIter it) = fileStartReqID it" "itTotalSize (closeCurrentIter it) = itTotalSize it"
  "boundaryCh (closeCurrentIter it) = boundaryCh it" "pendingBoundaries (closeCurrentIter it) = pendingBoundaries it"
  "itFailed (closeCurrentIter it) = itFailed it" "smallFileThreshold (closeCurrentIter it) = smallFileThreshold it"
  by (simp_all add: closeCurrentIter_def)

lemma emitBoundary_keeps [simp]:
  "fileCh (emitBoundary it) = fileCh it" "files (emitBoundary it) = files it" "fileIdx (emitBoundary it) = fileIdx it"
  "newIter (emitBoundary it) = newIter it" "ctxOuts (emitBoundary it) = ctxOuts it" "curIter (emitBoundary it) = curIter it"
  "openIters (emitBoundary it) = openIters it" "curFile (emitBoundary it) = curFile it" "buf (emitBoundary it) = buf it"
  "bufIdx (emitBoundary it) = bufIdx it" "itReqID (emitBoundary it) = itReqID it"
  "fileStartReqID (emitBoundary it) = fileStartReqID it" "itTotalSize (emitBoundary it) = itTotalSize it"
  "itFailed (emitBoundary it) = itFailed it" "smallFileThreshold (emitBoundary it) = smallFileThreshold it"
  by (simp_all add: emitBoundary_def Let_def split: option.splits prod.splits bool.splits)

lemma drain_keeps [simp]:
  "fileCh (drainPendingBoundaries it) = fileCh it" "files (drainPendingBoundaries it) = files it"
  "fileIdx (drainPendingBoundaries it) = fileIdx it" "newIter (drainPendingBoundaries it) = newIter it"
  "ctxOuts (drainPendingBoundaries it) = ctxOuts it" "curIter (drainPendingBoundaries it) = curIter it"
  "openIters (drainPendingBoundaries it) = openIters it" "curFile (drainPendingBoundaries it) = curFile it"
  "buf (drainPendingBoundaries it) = buf it" "bufIdx (drainPendingBoundaries it) = bufIdx it"
  "itReqID (drainPendingBoundaries it) = itReqID it" "fileStartReqID (drainPendingBoundaries it) = fileStartReqID it"
  "itTotalSize (drainPendingBoundaries it) = itTotalSize it" "itFailed (drainPendingBoundaries it) = itFailed it"
  "smallFileThreshold (drainPendingBoundaries it) = smallFileThreshold it"
  by (simp_all add: drainPendingBoundaries_def split: option.splits prod.splits)

lemma finish_file_keeps [simp]:
  "fileCh (finish_file it) = fileCh it" "files (finish_file it) = files it" "fileIdx (finish_file it) = fileIdx it"
  "newIter (finish_file it) = newIter it" "ctxOuts (finish_file it) = ctxOuts it" "curIter (finish_file it) = None"
  "curFile (finish_file it) = curFile it" "itReqID (finish_file it) = itReqID it"
  "fileStartReqID (finish_file it) = fileStartReqID it" "itTotalSize (finish_file it) = itTotalSize it"
  "itFailed (finish_file it) = itFailed it" "smallFileThreshold (finish_file it) = smallFileThreshold it"
  by (simp_all add: finish_file_def Let_def split: option.splits list.splits)

lemma nextFile_left: "nextFile it = (it1, Some f) \<Longrightarrow> files_left it1 < files_left it"
  by (auto simp: nextFile_def ctx_ok_def files_left_def split: option.splits list.splits prod.splits bool.splits if_splits)

lemma open_file_left [simp]: "files_left (open_file it f) = files_left it"
  by (auto simp: open_file_def files_left_def Let_def split: option.splits)

lemma finish_file_left [simp]: "files_left (finish_file it) = files_left it"
  by (simp add: files_left_def split: option.splits)

lemma next_step_left: "nextFile (finish_file it) = (it1, Some f) \<Longrightarrow> files_left (open_file it1 f) < files_left it"
  using nextFile_left [of "finish_file it" it1 f] by simp

lemma update_left [simp]:
  "files_left (it\<lparr>curIter := x, buf := y, bufIdx := z\<rparr>) = files_left it"
  "files_left (it\<lparr>bufIdx := z, itReqID := i\<rparr>) = files_left it"
  by (simp_all add: files_left_def split: option.splits)

function fs_Next :: "CephFSBlockIterator \<Rightarrow> CephFSBlockIterator \<times> ChangeBlock option" where
  "fs_Next it =
     (if bufIdx it < length (buf it) then (case emit_block it of (it1, b) \<Rightarrow> (it1, Some b))
      else case curIter it of
        Some (Blocks (b # bs) # rs) \<Rightarrow> fs_Next (it\<lparr>curIter := Some rs, buf := split_max (b # bs), bufIdx := 0\<rparr>)
      | _ \<Rightarrow>
          (case nextFile (finish_file it) of
             (it1, None) \<Rightarrow> (it1\<lparr>curFile := ''''\<rparr>, None)
           | (it1, Some f) \<Rightarrow> fs_Next (open_file it1 f)))"
  by pat_completeness auto
termination
  by (relation "inv_image (less_than <*lex*> less_than) (\<lambda>it. (files_left it, replies_left it))")
     (auto simp: replies_left_def dest!: next_step_left [OF sym])

declare fs_Next.simps [simp del]

subsection \<open>The iterator ends, and numbers its blocks\<close>

lemma fs_Next_emit: "bufIdx it < length (buf it) \<Longrightarrow> fs_Next it = (fst (emit_block it), Some (snd (emit_block it)))"
  by (simp add: fs_Next.simps [of it] split: prod.splits)

definition can_read :: "CephFSBlockIterator \<Rightarrow> bool" where
  "can_read it \<longleftrightarrow> (\<exists>b bs rs. curIter it = Some (Blocks (b # bs) # rs))"

lemma fs_Next_read:
  "\<not> bufIdx it < length (buf it) \<Longrightarrow> curIter it = Some (Blocks (b # bs) # rs) \<Longrightarrow>
     fs_Next it = fs_Next (it\<lparr>curIter := Some rs, buf := split_max (b # bs), bufIdx := 0\<rparr>)"
  by (simp add: fs_Next.simps [of it])

lemma fs_Next_file:
  "\<not> bufIdx it < length (buf it) \<Longrightarrow> \<not> can_read it \<Longrightarrow>
     fs_Next it = (case nextFile (finish_file it) of
         (it1, None) \<Rightarrow> (it1\<lparr>curFile := ''''\<rparr>, None)
       | (it1, Some f) \<Rightarrow> fs_Next (open_file it1 f))"
  by (subst fs_Next.simps) (auto simp: can_read_def split: option.splits list.splits diff_read.splits)

text \<open>Induction over the rounds of one call.\<close>

lemma fs_Next_induct [case_names emit read stop opened]:
  assumes "\<And>it. bufIdx it < length (buf it) \<Longrightarrow> P it"
    and "\<And>it b bs rs. \<not> bufIdx it < length (buf it) \<Longrightarrow> curIter it = Some (Blocks (b # bs) # rs) \<Longrightarrow>
      P (it\<lparr>curIter := Some rs, buf := split_max (b # bs), bufIdx := 0\<rparr>) \<Longrightarrow> P it"
    and "\<And>it it1. \<not> bufIdx it < length (buf it) \<Longrightarrow> \<not> can_read it \<Longrightarrow> nextFile (finish_file it) = (it1, None) \<Longrightarrow> P it"
    and "\<And>it it1 f. \<not> bufIdx it < length (buf it) \<Longrightarrow> \<not> can_read it \<Longrightarrow> nextFile (finish_file it) = (it1, Some f) \<Longrightarrow>
      P (open_file it1 f) \<Longrightarrow> P it"
  shows "P it"
proof -
  have "wf (inv_image (less_than <*lex*> less_than) (\<lambda>it. (files_left it, replies_left it)))"
    by (intro wf_inv_image wf_lex_prod wf_less_than)
  then show ?thesis
  proof (induction it rule: wf_induct_rule)
  case (less it)
  consider "bufIdx it < length (buf it)" | b bs rs where "\<not> bufIdx it < length (buf it)" "curIter it = Some (Blocks (b # bs) # rs)"
    | "\<not> bufIdx it < length (buf it)" "\<not> can_read it" by (auto simp: can_read_def)
  then show ?case
  proof cases
    case (2 b bs rs)
    then show ?thesis using assms(2) [OF 2] less.IH by (simp add: replies_left_def)
  next
    case 3
    obtain it1 r where r: "nextFile (finish_file it) = (it1, r)" by force
    show ?thesis
    proof (cases r)
      case None
      then show ?thesis using assms(3) [OF 3] r by simp
    next
      case (Some f)
      then show ?thesis using assms(4) [OF 3] r less.IH next_step_left [of it it1 f] by simp
    qed
  qed (rule assms(1))
  qed
qed

definition fs_before :: "(CephFSBlockIterator \<times> CephFSBlockIterator) set" where
  "fs_before = inv_image (less_than <*lex*> less_than <*lex*> less_than) (\<lambda>it. (files_left it, replies_left it, length (buf it) - bufIdx it))"

lemma wf_fs_before: "wf fs_before"
  by (simp add: fs_before_def wf_inv_image wf_lex_prod)

lemma fs_before_trans: "(a, b) \<in> fs_before \<Longrightarrow> (b, c) \<in> fs_before \<Longrightarrow> (a, c) \<in> fs_before"
  by (auto simp: fs_before_def)

lemma fs_Next_before: "fs_Next it = (it', Some b) \<Longrightarrow> (it', it) \<in> fs_before"
proof (induction it rule: fs_Next_induct)
  case (emit it)
  then show ?case by (auto simp: fs_Next_emit emit_block_def Let_def fs_before_def replies_left_def)
next
  case (read it b bs rs)
  let ?it = "it\<lparr>curIter := Some rs, buf := split_max (b # bs), bufIdx := 0\<rparr>"
  have "(it', ?it) \<in> fs_before" using read by (simp add: fs_Next_read)
  moreover have "(?it, it) \<in> fs_before" using read(2) by (simp add: fs_before_def replies_left_def)
  ultimately show ?case by (rule fs_before_trans)
next
  case (opened it it1 f)
  have "(it', open_file it1 f) \<in> fs_before" using opened by (simp add: fs_Next_file)
  moreover have "(open_file it1 f, it) \<in> fs_before" using next_step_left [OF opened(3)] by (simp add: fs_before_def)
  ultimately show ?case by (rule fs_before_trans)
qed (simp add: fs_Next_file)

lemma nextFile_reqID: "nextFile it = (it1, r) \<Longrightarrow> itReqID it1 = itReqID it"
  by (auto simp: nextFile_def ctx_ok_def split: option.splits list.splits prod.splits bool.splits if_splits)

lemma open_file_reqID [simp]: "itReqID (open_file it f) = itReqID it"
  by (simp add: open_file_def Let_def split: option.splits)

lemma fs_Next_ids: "fs_Next it = (it', Some b) \<Longrightarrow> cbReqID b = itReqID it \<and> itReqID it' = itReqID it + 1"
proof (induction it rule: fs_Next_induct)
  case (emit it)
  then show ?case by (auto simp: fs_Next_emit emit_block_def Let_def)
next
  case (read it b bs rs)
  then show ?case by (simp add: fs_Next_read)
next
  case (opened it it1 f)
  then show ?case using nextFile_reqID [OF opened(3)] by (simp add: fs_Next_file)
qed (simp add: fs_Next_file)

interpretation fs: block_iterator fs_Next itReqID fs_before
  by unfold_locales (fact fs_Next_ids wf_fs_before fs_Next_before)+


text \<open>The feeder's loop over \<^verbatim>\<open>Next\<close>, to the end.\<close>

function fs_run :: "CephFSBlockIterator \<Rightarrow> ChangeBlock list \<times> CephFSBlockIterator" where
  "fs_run it =
     (case fs_Next it of
        (it1, None) \<Rightarrow> ([], it1)
      | (it1, Some b) \<Rightarrow> (case fs_run it1 of (bs, it2) \<Rightarrow> (b # bs, it2)))"
  by pat_completeness auto
termination
  by (relation fs_before) (auto simp: wf_fs_before dest: fs_Next_before sym)

declare fs_run.simps [simp del]

text \<open>\<^verbatim>\<open>Close\<close> and the blocking flush of the boundaries that did not fit before.\<close>

definition send_boundary :: "fileBoundary \<Rightarrow> CephFSBlockIterator \<Rightarrow> CephFSBlockIterator" where
  "send_boundary fb it = it\<lparr>boundaryCh := map_option (apsnd (\<lambda>sent. sent @ [fb])) (boundaryCh it)\<rparr>"

fun flush_loop :: "fileBoundary list \<Rightarrow> CephFSBlockIterator \<Rightarrow> bool \<times> CephFSBlockIterator" where
  "flush_loop [] it = (True, it)"
| "flush_loop (fb # fbs) it =
     (case ctx_ok it of
        (True, it1) \<Rightarrow> flush_loop fbs (send_boundary fb it1)
      | (False, it1) \<Rightarrow> (False, it1))"

definition flushAllBoundaries :: "CephFSBlockIterator \<Rightarrow> CephFSBlockIterator" where
  "flushAllBoundaries it =
     (case flush_loop (pendingBoundaries it) it of
        (True, it1) \<Rightarrow> it1\<lparr>pendingBoundaries := []\<rparr>
      | (False, it1) \<Rightarrow> it1)"

definition fs_Close :: "CephFSBlockIterator \<Rightarrow> CephFSBlockIterator" where
  "fs_Close it =
     (let it1 = (if \<not> itFailed it \<and> has_blocks it then emitBoundary it else it);
          it2 = (if boundaryCh it1 \<noteq> None then flushAllBoundaries it1 else it1)
      in closeCurrentIter it2)"

definition SetFailed :: "CephFSBlockIterator \<Rightarrow> CephFSBlockIterator" where
  "SetFailed it = it\<lparr>itFailed := True\<rparr>"

subsection \<open>A reference definition of the sequence of blocks\<close>

text \<open>
  A file's blocks: none if it is empty, the whole file if it is small, and else what its diff
  returned before it ended, returned nothing or failed.
\<close>

fun reply_blocks :: "fileDiffIterator \<Rightarrow> changedBlock list" where
  "reply_blocks (Blocks (b # bs) # rs) = split_max (b # bs) @ reply_blocks rs"
| "reply_blocks _ = []"

definition entry_blocks :: "bool \<Rightarrow> int \<Rightarrow> (path \<Rightarrow> fileDiffIterator option) \<Rightarrow> changedFileEntry \<Rightarrow> changedBlock list" where
  "entry_blocks chan thr ni e =
     (if chan \<and> feSize e = 0 then []
      else if chan \<and> 0 < thr \<and> 0 < feSize e \<and> feSize e \<le> thr
      then split_max [\<lparr>dOffset = 0, dLen = word_of_int (feSize e)\<rparr>]
      else case ni (fePath e) of None \<Rightarrow> [] | Some rs \<Rightarrow> reply_blocks rs)"

definition blocks_of :: "CephFSBlockIterator \<Rightarrow> changedFileEntry \<Rightarrow> changedBlock list" where
  "blocks_of it = entry_blocks (fileCh it \<noteq> None) (smallFileThreshold it) (newIter it)"

fun arrivals :: "bool list option \<Rightarrow> changedFileEntry list \<Rightarrow> changedFileEntry list" where
  "arrivals (Some (True # outs)) (e # es) = e # arrivals (Some outs) es"
| "arrivals (Some (False # outs)) es = []"
| "arrivals _ es = es"

definition entries_left :: "CephFSBlockIterator \<Rightarrow> changedFileEntry list" where
  "entries_left it =
     (case fileCh it of
        Some ch \<Rightarrow> arrivals (ctxOuts it) ch
      | None \<Rightarrow> map (\<lambda>p. \<lparr>fePath = p, feSize = itTotalSize it\<rparr>) (drop (fileIdx it) (files it)))"

definition cur_left :: "CephFSBlockIterator \<Rightarrow> changedBlock list" where
  "cur_left it = drop (bufIdx it) (buf it) @ (case curIter it of None \<Rightarrow> [] | Some rs \<Rightarrow> reply_blocks rs)"

definition tagged :: "(changedFileEntry \<Rightarrow> changedBlock list) \<Rightarrow> changedFileEntry \<Rightarrow> (changedFileEntry \<times> changedBlock) list" where
  "tagged bl e = map (Pair e) (bl e)"

definition cur_entry :: "CephFSBlockIterator \<Rightarrow> changedFileEntry" where
  "cur_entry it = \<lparr>fePath = curFile it, feSize = itTotalSize it\<rparr>"

definition todo :: "CephFSBlockIterator \<Rightarrow> (changedFileEntry \<times> changedBlock) list" where
  "todo it = map (Pair (cur_entry it)) (cur_left it) @ concat (map (tagged (blocks_of it)) (entries_left it))"

definition fs_block :: "u64 \<Rightarrow> changedFileEntry \<times> changedBlock \<Rightarrow> ChangeBlock" where
  "fs_block i x =
     \<lparr>cbFilePath = fePath (fst x), cbOffset = sint (dOffset (snd x)), cbLen = sint (dLen (snd x)), cbReqID = i,
      cbTotalSize = feSize (fst x), cbIsZero = False\<rparr>"

primrec fs_number :: "u64 \<Rightarrow> (changedFileEntry \<times> changedBlock) list \<Rightarrow> ChangeBlock list" where
  "fs_number i [] = []"
| "fs_number i (x # xs) = fs_block i x # fs_number (i + 1) xs"

lemma reply_blocks_stuck:
  "curIter it = Some rs \<Longrightarrow> \<not> can_read it \<Longrightarrow> reply_blocks rs = []"
  by (cases rs rule: reply_blocks.cases) (auto simp: can_read_def)

lemma cur_left_done: "\<not> bufIdx it < length (buf it) \<Longrightarrow> \<not> can_read it \<Longrightarrow> cur_left it = []"
  by (auto simp: cur_left_def reply_blocks_stuck split: option.splits)

lemma finish_file_buf:
  "\<not> bufIdx it < length (buf it) \<Longrightarrow> \<not> bufIdx (finish_file it) < length (buf (finish_file it))"
  by (auto simp: finish_file_def closeCurrentIter_def Let_def split: option.splits list.splits)

lemma finish_file_entries [simp]: "entries_left (finish_file it) = entries_left it" "blocks_of (finish_file it) = blocks_of it"
  by (simp_all add: entries_left_def blocks_of_def split: option.splits)

lemma arrivals_Nil [simp]: "arrivals c [] = []"
  by (cases "(c, [] :: changedFileEntry list)" rule: arrivals.cases) auto

lemma nextFile_None: "nextFile it = (it1, None) \<Longrightarrow> entries_left it = []"
  by (auto simp: nextFile_def entries_left_def ctx_ok_def pop_ok_def split: option.splits list.splits prod.splits bool.splits if_splits)

lemma nextFile_Some:
  "nextFile it = (it1, Some f) \<Longrightarrow>
     entries_left it = \<lparr>fePath = f, feSize = itTotalSize it1\<rparr> # entries_left it1 \<and> blocks_of it1 = blocks_of it \<and>
     buf it1 = buf it \<and> bufIdx it1 = bufIdx it \<and> curIter it1 = curIter it"
  by (auto simp: nextFile_def entries_left_def ctx_ok_def pop_ok_def blocks_of_def Cons_nth_drop_Suc [symmetric]
      split: option.splits list.splits prod.splits bool.splits if_splits)

lemma open_file_cur:
  assumes "curIter it = None" "\<not> bufIdx it < length (buf it)"
  shows "cur_left (open_file it f) = blocks_of it \<lparr>fePath = f, feSize = itTotalSize it\<rparr>"
    "entries_left (open_file it f) = entries_left it" "blocks_of (open_file it f) = blocks_of it"
    "curFile (open_file it f) = f" "itTotalSize (open_file it f) = itTotalSize it" "fileStartReqID (open_file it f) = itReqID it"
  using assms
  by (auto simp: open_file_def cur_left_def entries_left_def blocks_of_def entry_blocks_def Let_def split: option.splits)

text \<open>What a call of \<^verbatim>\<open>Next\<close> takes from the blocks to come.\<close>

lemma todo_opened:
  assumes "\<not> bufIdx it < length (buf it)" "\<not> can_read it" "nextFile (finish_file it) = (it1, Some f)"
  shows "todo (open_file it1 f) = todo it"
proof -
  note n = nextFile_Some [OF assms(3)]
  have c: "curIter it1 = None" "\<not> bufIdx it1 < length (buf it1)" using n finish_file_buf [OF assms(1)] by auto
  show ?thesis
    using n by (simp add: todo_def cur_left_done [OF assms(1,2)] open_file_cur [OF c] tagged_def cur_entry_def)
qed

lemma todo_read:
  assumes "\<not> bufIdx it < length (buf it)" "curIter it = Some (Blocks (b # bs) # rs)"
  shows "todo (it\<lparr>curIter := Some rs, buf := split_max (b # bs), bufIdx := 0\<rparr>) = todo it"
  using assms by (simp add: todo_def cur_left_def entries_left_def blocks_of_def cur_entry_def split: option.splits)

lemma todo_emit:
  assumes "bufIdx it < length (buf it)"
  shows "\<exists>x. todo it = x # todo (fst (emit_block it)) \<and> snd (emit_block it) = fs_block (itReqID it) x"
  using assms
  by (simp add: todo_def cur_left_def emit_block_def Let_def entries_left_def blocks_of_def cur_entry_def fs_block_def
      Cons_nth_drop_Suc [symmetric] split: option.splits)

lemma fs_Next_todo:
  "fs_Next it = (it', r) \<Longrightarrow>
     (case r of None \<Rightarrow> todo it = [] | Some b \<Rightarrow> (\<exists>x. todo it = x # todo it' \<and> b = fs_block (itReqID it) x))"
proof (induction it rule: fs_Next_induct)
  case (emit it)
  then show ?case using todo_emit [OF emit(1)] by (auto simp: fs_Next_emit)
next
  case (read it b bs rs)
  then show ?case using todo_read [OF read(1,2)] by (cases r) (simp_all add: fs_Next_read)
next
  case (stop it it1)
  then show ?case using nextFile_None [OF stop(3)] by (auto simp: fs_Next_file todo_def cur_left_done)
next
  case (opened it it1 f)
  then show ?case
    using todo_opened [OF opened(1-3)] nextFile_reqID [OF opened(3)] by (cases r) (simp_all add: fs_Next_file)
qed

lemma fs_run_todo: "fst (fs_run it) = fs_number (itReqID it) (todo it)"
proof (induction it rule: fs_run.induct)
  case (1 it)
  obtain it1 r where n: "fs_Next it = (it1, r)" by force
  show ?case
  proof (cases r)
    case None
    then show ?thesis using fs_Next_todo [OF n] n by (simp add: fs_run.simps [of it])
  next
    case (Some b)
    then show ?thesis
      using fs_Next_todo [OF n] fs_Next_ids n "1.IH" [OF n [symmetric] Some]
      by (auto simp: fs_run.simps [of it] split: prod.splits)
  qed
qed


subsection \<open>File boundaries\<close>

text \<open>The boundaries of a list of files whose blocks are numbered from an id on.\<close>

fun expected :: "(changedFileEntry \<Rightarrow> changedBlock list) \<Rightarrow> u64 \<Rightarrow> changedFileEntry list \<Rightarrow> fileBoundary list" where
  "expected bl i [] = []"
| "expected bl i (e # es) =
     (if bl e = [] then expected bl i es
      else \<lparr>fbPath = fePath e, fbLastReqID = i + of_nat (length (bl e)) - 1, fbTotalSize = feSize e\<rparr> #
           expected bl (i + of_nat (length (bl e))) es)"

definition owed :: "CephFSBlockIterator \<Rightarrow> fileBoundary list" where
  "owed it =
     (if curFile it \<noteq> '''' \<and> (cur_left it \<noteq> [] \<or> fileStartReqID it < itReqID it)
      then [\<lparr>fbPath = curFile it, fbLastReqID = itReqID it + of_nat (length (cur_left it)) - 1, fbTotalSize = itTotalSize it\<rparr>]
      else []) @ expected (blocks_of it) (itReqID it + of_nat (length (cur_left it))) (entries_left it)"

definition reported :: "CephFSBlockIterator \<Rightarrow> fileBoundary multiset" where
  "reported it = (case boundaryCh it of None \<Rightarrow> {#} | Some (room, sent) \<Rightarrow> mset sent) + mset (pendingBoundaries it)"

definition iter_inv :: "CephFSBlockIterator \<Rightarrow> bool" where
  "iter_inv it \<longleftrightarrow> unat (itReqID it) + length (todo it) < 2 ^ 64 \<and> fileStartReqID it \<le> itReqID it \<and>
     boundaryCh it \<noteq> None \<and> (curFile it = '''' \<longrightarrow> cur_left it = []) \<and> (\<forall>e\<in>set (entries_left it). fePath e \<noteq> '''') \<and>
     openIters it = (if curIter it = None then 0 else 1)"

lemma drain_loop_mset: "drain_loop fbs room sent = (rest, room', sent') \<Longrightarrow> mset sent' + mset rest = mset sent + mset fbs"
  by (induction fbs room sent rule: drain_loop.induct) (auto split: prod.splits bool.splits)

lemma reported_closed [simp]: "reported (closeCurrentIter it) = reported it"
  by (simp add: reported_def)

lemma reported_drained [simp]: "reported (drainPendingBoundaries it) = reported it"
  using drain_loop_mset by (fastforce simp: reported_def drainPendingBoundaries_def split: option.splits prod.splits)

lemma reported_emitted:
  "boundaryCh it \<noteq> None \<Longrightarrow>
     reported (emitBoundary it) = add_mset \<lparr>fbPath = curFile it, fbLastReqID = itReqID it - 1, fbTotalSize = itTotalSize it\<rparr> (reported it)"
  by (auto simp: reported_def emitBoundary_def Let_def split: option.splits prod.splits bool.splits)

lemma boundaryCh_emitted [simp]: "boundaryCh (emitBoundary it) = None \<longleftrightarrow> boundaryCh it = None"
  by (auto simp: emitBoundary_def Let_def split: option.splits prod.splits bool.splits)

lemma boundaryCh_drained [simp]: "boundaryCh (drainPendingBoundaries it) = None \<longleftrightarrow> boundaryCh it = None"
  by (auto simp: drainPendingBoundaries_def split: option.splits prod.splits)

lemma boundaryCh_finished [simp]: "boundaryCh (finish_file it) = None \<longleftrightarrow> boundaryCh it = None"
  by (simp add: finish_file_def Let_def split: option.splits list.splits)

lemma openIters_finished: "openIters it = (if curIter it = None then 0 else 1) \<Longrightarrow> openIters (finish_file it) = 0"
  by (auto simp: finish_file_def closeCurrentIter_def Let_def split: option.splits list.splits)

lemma reported_finished:
  assumes "iter_inv it" "cur_left it = []"
  shows "reported (finish_file it) + mset (expected (blocks_of it) (itReqID it) (entries_left it)) = reported it + mset (owed it)"
proof -
  let ?it1 = "case curIter it of Some (_ # _) \<Rightarrow> closeCurrentIter it | _ \<Rightarrow> it"
  have same: "has_blocks ?it1 = has_blocks it" "reported ?it1 = reported it" "boundaryCh ?it1 = boundaryCh it"
    "curFile ?it1 = curFile it" "itReqID ?it1 = itReqID it" "itTotalSize ?it1 = itTotalSize it"
    "fileStartReqID ?it1 = fileStartReqID it"
    by (simp_all add: has_blocks_def split: option.splits list.splits)
  show ?thesis
    using assms reported_emitted [of ?it1] unfolding finish_file_def Let_def
    by (auto simp: same owed_def has_blocks_def iter_inv_def)
qed

lemma nextFile_keeps:
  "nextFile it = (it1, r) \<Longrightarrow> reported it1 = reported it \<and> boundaryCh it1 = boundaryCh it \<and> openIters it1 = openIters it \<and>
     pendingBoundaries it1 = pendingBoundaries it \<and> curIter it1 = curIter it \<and> (ctxOuts it = Some [] \<longrightarrow> ctxOuts it1 = Some [])"
  by (auto simp: nextFile_def ctx_ok_def reported_def split: option.splits list.splits prod.splits bool.splits if_splits)

lemma open_file_keeps:
  "reported (open_file it f) = reported it" "boundaryCh (open_file it f) = boundaryCh it" "ctxOuts (open_file it f) = ctxOuts it"
  "pendingBoundaries (open_file it f) = pendingBoundaries it"
  by (simp_all add: open_file_def reported_def Let_def split: option.splits)

lemma open_file_open:
  "curIter it = None \<Longrightarrow> openIters it = 0 \<Longrightarrow>
     openIters (open_file it f) = (if curIter (open_file it f) = None then 0 else 1)"
  by (simp add: open_file_def Let_def split: option.splits)

lemma step_opened:
  assumes "iter_inv it" "\<not> bufIdx it < length (buf it)" "\<not> can_read it" "nextFile (finish_file it) = (it1, Some f)"
  shows "iter_inv (open_file it1 f) \<and> reported (open_file it1 f) + mset (owed (open_file it1 f)) = reported it + mset (owed it)"
proof -
  note n = nextFile_Some [OF assms(4)] and k = nextFile_keeps [OF assms(4)]
  have c: "curIter it1 = None" "\<not> bufIdx it1 < length (buf it1)" using n finish_file_buf [OF assms(2)] by auto
  have id: "itReqID it1 = itReqID it" using nextFile_reqID [OF assms(4)] by simp
  have f: "f \<noteq> ''''" using assms(1) n by (auto simp: iter_inv_def)
  have "openIters it1 = 0" using openIters_finished assms(1) k by (auto simp: iter_inv_def)
  then have "iter_inv (open_file it1 f)"
    using assms(1) todo_opened [OF assms(2-4)] f n k c id
    by (auto simp: iter_inv_def open_file_cur [OF c] open_file_keeps open_file_open)
  moreover have "mset (owed (open_file it1 f)) = mset (expected (blocks_of it) (itReqID it) (entries_left it))"
    using n f id by (auto simp: owed_def open_file_cur [OF c])
  ultimately show ?thesis
    using reported_finished [OF assms(1) cur_left_done [OF assms(2,3)]] k by (simp add: open_file_keeps)
qed

lemma step_stop:
  assumes "iter_inv it" "\<not> bufIdx it < length (buf it)" "\<not> can_read it" "nextFile (finish_file it) = (it1, None)"
  shows "reported (it1\<lparr>curFile := ''''\<rparr>) = reported it + mset (owed it) \<and> openIters it1 = 0 \<and> curIter it1 = None \<and> boundaryCh it1 \<noteq> None"
  using reported_finished [OF assms(1) cur_left_done [OF assms(2,3)]] nextFile_None [OF assms(4)] nextFile_keeps [OF assms(4)]
    openIters_finished [of it] assms(1)
  by (auto simp: iter_inv_def reported_def)

lemma step_emit:
  assumes "iter_inv it" "bufIdx it < length (buf it)"
  shows "iter_inv (fst (emit_block it)) \<and> reported (fst (emit_block it)) + mset (owed (fst (emit_block it))) = reported it + mset (owed it)"
proof -
  let ?it = "fst (emit_block it)"
  obtain x where x: "cur_left it = x # cur_left ?it"
    using assms(2) by (simp add: cur_left_def emit_block_def Let_def Cons_nth_drop_Suc [symmetric])
  have t: "length (todo it) = Suc (length (todo ?it))" using todo_emit [OF assms(2)] by auto
  have "unat (itReqID it) + 1 < 2 ^ LENGTH(64)" using assms(1) t by (simp add: iter_inv_def)
  then have u: "unat (itReqID it + 1) = unat (itReqID it) + 1" using unat_add_lem [of "itReqID it" 1] by simp
  then have lt: "fileStartReqID it < itReqID it + 1" using assms(1) by (simp add: iter_inv_def word_less_nat_alt word_le_nat_alt)
  have same: "itReqID ?it = itReqID it + 1" "curFile ?it = curFile it" "fileStartReqID ?it = fileStartReqID it"
    "itTotalSize ?it = itTotalSize it" "entries_left ?it = entries_left it" "blocks_of ?it = blocks_of it"
    "reported ?it = reported it" "boundaryCh ?it = boundaryCh it" "openIters ?it = openIters it" "curIter ?it = curIter it"
    by (simp_all add: emit_block_def Let_def entries_left_def blocks_of_def reported_def split: option.splits)
  have "iter_inv ?it" using assms(1) x t u lt unfolding iter_inv_def same by auto
  moreover have "owed ?it = owed it" using x lt unfolding owed_def same by (simp add: algebra_simps)
  ultimately show ?thesis by (simp add: same)
qed

lemma step_read:
  assumes "iter_inv it" "\<not> bufIdx it < length (buf it)" "curIter it = Some (Blocks (b # bs) # rs)"
  shows "iter_inv (it\<lparr>curIter := Some rs, buf := split_max (b # bs), bufIdx := 0\<rparr>) \<and>
    reported (it\<lparr>curIter := Some rs, buf := split_max (b # bs), bufIdx := 0\<rparr>) = reported it \<and>
    owed (it\<lparr>curIter := Some rs, buf := split_max (b # bs), bufIdx := 0\<rparr>) = owed it"
proof -
  let ?it = "it\<lparr>curIter := Some rs, buf := split_max (b # bs), bufIdx := 0\<rparr>"
  have same: "cur_left ?it = cur_left it" "entries_left ?it = entries_left it" "blocks_of ?it = blocks_of it" "reported ?it = reported it"
    using assms by (simp_all add: cur_left_def entries_left_def blocks_of_def reported_def split: option.splits)
  show ?thesis using assms todo_read [OF assms(2,3)] by (auto simp: iter_inv_def owed_def same)
qed

lemma fs_Next_reported:
  "iter_inv it \<Longrightarrow> fs_Next it = (it', r) \<Longrightarrow>
     (case r of
        None \<Rightarrow> reported it' = reported it + mset (owed it) \<and> openIters it' = 0 \<and> curIter it' = None \<and> curFile it' = '''' \<and> boundaryCh it' \<noteq> None
      | Some b \<Rightarrow> iter_inv it' \<and> reported it' + mset (owed it') = reported it + mset (owed it)) \<and>
     (ctxOuts it = Some [] \<longrightarrow> ctxOuts it' = Some [])"
proof (induction it rule: fs_Next_induct)
  case (emit it)
  have "ctxOuts (fst (emit_block it)) = ctxOuts it" by (simp add: emit_block_def Let_def)
  then show ?case using emit step_emit [OF emit(2,1)] by (auto simp: fs_Next_emit)
next
  case (read it b bs rs)
  then show ?case using step_read [OF read(4,1,2)] by (cases r) (simp_all add: fs_Next_read)
next
  case (stop it it1)
  have "it' = it1\<lparr>curFile := ''''\<rparr>" "r = None" using stop by (simp_all add: fs_Next_file)
  then show ?case using step_stop [OF stop(4,1-3)] nextFile_keeps [OF stop(3)] by simp
next
  case (opened it it1 f)
  then show ?case
    using step_opened [OF opened(5,1-3)] nextFile_keeps [OF opened(3)] by (cases r) (simp_all add: fs_Next_file open_file_keeps)
qed

lemma fs_run_reported:
  assumes "iter_inv it" "fs_run it = (bs, it')"
  shows "reported it' = reported it + mset (owed it) \<and> openIters it' = 0 \<and> curIter it' = None \<and> curFile it' = '''' \<and>
    boundaryCh it' \<noteq> None \<and> (ctxOuts it = Some [] \<longrightarrow> ctxOuts it' = Some [])"
  using assms
proof (induction it arbitrary: bs rule: fs_run.induct)
  case (1 it)
  obtain it1 r where n: "fs_Next it = (it1, r)" by force
  note s = fs_Next_reported [OF "1.prems"(1) n]
  show ?case
  proof (cases r)
    case None
    then show ?thesis using s n "1.prems"(2) by (simp add: fs_run.simps [of it])
  next
    case (Some b)
    then obtain bs1 where "fs_run it1 = (bs1, it')" using n "1.prems"(2) by (auto simp: fs_run.simps [of it] split: prod.splits)
    then show ?thesis using "1.IH" [OF n [symmetric] Some] s Some by simp
  qed
qed

lemma flush_loop_reported:
  "ctxOuts it = Some [] \<Longrightarrow> boundaryCh it = Some (room, sent) \<Longrightarrow>
     flush_loop fbs it = (True, it\<lparr>boundaryCh := Some (room, sent @ fbs)\<rparr>)"
  by (induction fbs arbitrary: it sent) (simp_all add: ctx_ok_def send_boundary_def)


lemma fs_Close_reported:
  assumes "curFile it = ''''" "curIter it = None" "openIters it = 0" "ctxOuts it = Some []" "boundaryCh it \<noteq> None"
  shows "\<exists>room sent. boundaryCh (fs_Close it) = Some (room, sent) \<and> mset sent = reported it \<and>
    pendingBoundaries (fs_Close it) = [] \<and> openIters (fs_Close it) = 0"
proof -
  obtain room sent where b: "boundaryCh it = Some (room, sent)" using assms(5) by auto
  show ?thesis
    using assms flush_loop_reported [OF assms(4) b]
    by (simp add: fs_Close_def flushAllBoundaries_def has_blocks_def closeCurrentIter_def Let_def reported_def b)
qed

text \<open>Ids of the blocks of one file.\<close>

lemma fs_number_append: "fs_number i (xs @ ys) = fs_number i xs @ fs_number (i + of_nat (length xs)) ys"
  by (induction xs arbitrary: i) (simp_all add: algebra_simps)

lemma fs_number_ids: "b \<in> set (fs_number i xs) \<Longrightarrow> \<exists>k x. k < length xs \<and> cbReqID b = i + of_nat k \<and> x \<in> set xs \<and> cbFilePath b = fePath (fst x)"
proof (induction xs arbitrary: i)
  case (Cons x xs)
  then consider "b = fs_block i x" | "b \<in> set (fs_number (i + 1) xs)" by auto
  then show ?case
  proof cases
    case 1
    then show ?thesis by (intro exI [of _ 0] exI [of _ x]) (simp add: fs_block_def)
  next
    case 2
    then obtain k y where "k < length xs" "cbReqID b = i + 1 + of_nat k" "y \<in> set xs" "cbFilePath b = fePath (fst y)"
      using Cons.IH by blast
    then show ?thesis by (intro exI [of _ "Suc k"] exI [of _ y]) (simp add: algebra_simps)
  qed
qed simp

lemma unat_add_small: "unat (i :: u64) + n < 2 ^ 64 \<Longrightarrow> unat (i + of_nat n) = unat i + n"
  by (simp add: unat_word_ariths unat_of_nat)

lemma expected_paths: "fb \<in> set (expected bl i es) \<Longrightarrow> fbPath fb \<in> fePath ` set es"
  by (induction bl i es rule: expected.induct) (auto split: if_splits)

lemma length_tagged [simp]: "length (tagged bl e) = length (bl e)"
  by (simp add: tagged_def)

lemma expected_last:
  assumes "unat i + length (concat (map (tagged bl) es)) < 2 ^ 64" "distinct (map fePath es)"
    and "fb \<in> set (expected bl i es)" "b \<in> set (fs_number i (concat (map (tagged bl) es)))" "cbFilePath b = fbPath fb"
  shows "cbReqID b \<le> fbLastReqID fb"
  using assms
proof (induction es arbitrary: i)
  case (Cons e es)
  let ?n = "length (bl e)"
  let ?j = "i + of_nat ?n"
  have bnd: "unat i + ?n < 2 ^ 64" using Cons.prems(1) by (simp add: tagged_def)
  have j: "unat ?j = unat i + ?n" using unat_add_small [OF bnd] .
  have "fs_number i (concat (map (tagged bl) (e # es))) = fs_number i (tagged bl e) @ fs_number ?j (concat (map (tagged bl) es))"
    by (simp add: fs_number_append tagged_def)
  then consider (first) "b \<in> set (fs_number i (tagged bl e))" | (later) "b \<in> set (fs_number ?j (concat (map (tagged bl) es)))"
    using Cons.prems(4) by auto
  then show ?case
  proof cases
    case first
    then obtain k where k: "k < ?n" "cbReqID b = i + of_nat k" "cbFilePath b = fePath e"
      using fs_number_ids [OF first] by (auto simp: tagged_def)
    have "fb \<notin> set (expected bl ?j es)"
      using Cons.prems(2,5) k(3) expected_paths [of fb bl ?j es] by auto
    then have "fbLastReqID fb = ?j - 1" using Cons.prems(3) k(1) by (auto split: if_splits)
    moreover have "unat (i + of_nat k) = unat i + k" using bnd k(1) by (intro unat_add_small) simp
    moreover have "unat (?j - 1) = unat i + ?n - 1" using j k(1) by (subst unat_minus_one) auto
    ultimately show ?thesis using k by (simp add: word_le_nat_alt)
  next
    case later
    then obtain x where "x \<in> set (concat (map (tagged bl) es))" "cbFilePath b = fePath (fst x)" using fs_number_ids by blast
    then have "fbPath fb \<in> fePath ` set es" using Cons.prems(5) by (auto simp: tagged_def)
    then have "fbPath fb \<noteq> fePath e" using Cons.prems(2) by auto
    then have "fb \<in> set (expected bl ?j es)" using Cons.prems(3) by (auto split: if_splits)
    then show ?thesis using Cons.IH [of ?j] later Cons.prems j by simp
  qed
qed simp

subsection \<open>Correctness\<close>

definition fs_iterator :: "(path \<Rightarrow> fileDiffIterator option) \<Rightarrow> changedFileEntry list \<Rightarrow> bool list \<Rightarrow> int \<Rightarrow> CephFSBlockIterator" where
  "fs_iterator ni es room thr =
     NewCephFSBlockIterator ni [] [WithFileChan es, WithContext [], WithBoundaryChan room, WithSmallFileThreshold thr]"

definition all_blocks :: "(path \<Rightarrow> fileDiffIterator option) \<Rightarrow> changedFileEntry list \<Rightarrow> int \<Rightarrow> (changedFileEntry \<times> changedBlock) list" where
  "all_blocks ni es thr = concat (map (tagged (entry_blocks True thr ni)) es)"


lemma fs_iterator_start:
  "itReqID (fs_iterator ni es room thr) = 0" "entries_left (fs_iterator ni es room thr) = es"
  "blocks_of (fs_iterator ni es room thr) = entry_blocks True thr ni" "cur_left (fs_iterator ni es room thr) = []"
  "reported (fs_iterator ni es room thr) = {#}" "ctxOuts (fs_iterator ni es room thr) = Some []"
  "curFile (fs_iterator ni es room thr) = ''''"
  by (simp_all add: fs_iterator_def NewCephFSBlockIterator_def WithFileChan_def WithContext_def WithBoundaryChan_def
      WithSmallFileThreshold_def entries_left_def blocks_of_def cur_left_def reported_def)

lemma fs_iterator_todo: "todo (fs_iterator ni es room thr) = all_blocks ni es thr"
  by (simp add: todo_def fs_iterator_start all_blocks_def)

lemma fs_iterator_inv:
  "length (all_blocks ni es thr) < 2 ^ 64 \<Longrightarrow> \<forall>e\<in>set es. fePath e \<noteq> '''' \<Longrightarrow> iter_inv (fs_iterator ni es room thr)"
  unfolding iter_inv_def fs_iterator_todo fs_iterator_start
  by (simp add: fs_iterator_def NewCephFSBlockIterator_def WithFileChan_def WithContext_def WithBoundaryChan_def WithSmallFileThreshold_def)

lemma split_max_bound: "b \<in> set (split_max bs) \<Longrightarrow> dLen b \<le> maxBlockLen"
  using splitLargeBlocks_total [OF maxBlockLen_pos, of bs] by (auto simp: split_max_def)

lemma reply_blocks_bound: "b \<in> set (reply_blocks rs) \<Longrightarrow> dLen b \<le> maxBlockLen"
  by (induction rs rule: reply_blocks.induct) (auto dest: split_max_bound)

lemma entry_blocks_bound: "b \<in> set (entry_blocks chan thr ni e) \<Longrightarrow> dLen b \<le> maxBlockLen"
  by (auto simp: entry_blocks_def dest: split_max_bound reply_blocks_bound split: if_splits option.splits)

text \<open>
  C16: the iterator yields the blocks of the files one after the other, as the reference lists
  them, numbered from zero; it ends, and no block is longer than 16 MiB.
\<close>

theorem fs_blocks_reference:
  "fst (fs_run (fs_iterator ni es room thr)) = fs_number 0 (all_blocks ni es thr) \<and>
   list_all (\<lambda>x. dLen (snd x) \<le> maxBlockLen) (all_blocks ni es thr) \<and>
   (\<exists>n cs it. \<forall>k. feeder fs_Next (n + k) (fs_iterator ni es room thr) = (cs, True, it))"
proof -
  obtain n cs it where "\<forall>m \<ge> n. feeder fs_Next m (fs_iterator ni es room thr) = (cs, True, it)" using fs.feeder_completes by blast
  then have "\<exists>n cs it. \<forall>k. feeder fs_Next (n + k) (fs_iterator ni es room thr) = (cs, True, it)" by (metis le_add1)
  then show ?thesis
  using fs_run_todo [of "fs_iterator ni es room thr"]
  by (auto simp: fs_iterator_start fs_iterator_todo list_all_iff all_blocks_def tagged_def dest: entry_blocks_bound)
qed

lemma fs_iterator_boundaries:
  assumes "length (all_blocks ni es thr) < 2 ^ 64" "\<forall>e\<in>set es. fePath e \<noteq> []" "fs_run (fs_iterator ni es room thr) = (bs, it)"
  shows "\<exists>room' sent. boundaryCh (fs_Close it) = Some (room', sent) \<and> mset sent = mset (expected (entry_blocks True thr ni) 0 es) \<and>
    pendingBoundaries (fs_Close it) = [] \<and> openIters (fs_Close it) = 0"
proof -
  note fin = fs_run_reported [OF fs_iterator_inv [OF assms(1,2)] assms(3)]
  have "owed (fs_iterator ni es room thr) = expected (entry_blocks True thr ni) 0 es" by (simp add: owed_def fs_iterator_start)
  then show ?thesis using fs_Close_reported [of it] fin by (auto simp: fs_iterator_start)
qed

text \<open>
  C17: the commit stage learns of every file exactly once.  Whenever the boundary channel has room or
  not, after \<^verbatim>\<open>Close\<close> the boundaries sent are those of the files that had blocks, each with the id
  of its last block: no block of that file has a higher id.  No diff iterator stays open.
\<close>

theorem fs_boundaries:
  assumes "length (all_blocks ni es thr) < 2 ^ 64" "\<forall>e\<in>set es. fePath e \<noteq> ''''" "distinct (map fePath es)"
  shows "case fs_run (fs_iterator ni es room thr) of (bs, it) \<Rightarrow>
    \<exists>room' sent. boundaryCh (fs_Close it) = Some (room', sent) \<and> pendingBoundaries (fs_Close it) = [] \<and> openIters (fs_Close it) = 0 \<and>
      mset sent = mset (expected (entry_blocks True thr ni) 0 es) \<and>
      (\<forall>fb\<in>set sent. \<forall>b\<in>set bs. cbFilePath b = fbPath fb \<longrightarrow> cbReqID b \<le> fbLastReqID fb)"
proof -
  let ?it = "fs_iterator ni es room thr"
  obtain bs it where r: "fs_run ?it = (bs, it)" by force
  have bs: "bs = fs_number 0 (all_blocks ni es thr)"
    using fs_run_todo [of ?it] r by (simp add: fs_iterator_start fs_iterator_todo)
  obtain room' sent where sent: "boundaryCh (fs_Close it) = Some (room', sent)" "mset sent = mset (expected (entry_blocks True thr ni) 0 es)"
    "pendingBoundaries (fs_Close it) = []" "openIters (fs_Close it) = 0"
    using fs_iterator_boundaries [OF assms(1,2) r] by blast
  have "cbReqID b \<le> fbLastReqID fb" if "fb \<in> set sent" "b \<in> set bs" "cbFilePath b = fbPath fb" for fb b
    using expected_last [of 0 "entry_blocks True thr ni" es fb b] assms that bs mset_eq_setD [OF sent(2)]
    by (simp add: all_blocks_def)
  then show ?thesis using r sent by auto
qed

definition sample_diff :: "path \<Rightarrow> fileDiffIterator option" where
  "sample_diff p = (if p = ''/big'' then Some [Blocks [\<lparr>dOffset = 0, dLen = 4096\<rparr>], ReadFailed] else None)"

theorem fs_boundaries_witness:
  "case fs_run (fs_iterator sample_diff [\<lparr>fePath = ''/big'', feSize = 100\<rparr>, \<lparr>fePath = ''/empty'', feSize = 0\<rparr>] [False] 0) of (bs, it) \<Rightarrow>
    \<exists>room' sent. boundaryCh (fs_Close it) = Some (room', sent) \<and> pendingBoundaries (fs_Close it) = [] \<and> openIters (fs_Close it) = 0 \<and>
      mset sent = mset (expected (entry_blocks True 0 sample_diff) 0 [\<lparr>fePath = ''/big'', feSize = 100\<rparr>, \<lparr>fePath = ''/empty'', feSize = 0\<rparr>]) \<and>
      (\<forall>fb\<in>set sent. \<forall>b\<in>set bs. cbFilePath b = fbPath fb \<longrightarrow> cbReqID b \<le> fbLastReqID fb)"
  by (rule fs_boundaries)
     (simp_all add: all_blocks_def tagged_def entry_blocks_def sample_diff_def split_max_def splitLargeBlocks_def maxBlockLen_def)

text \<open>
  A diff that fails is taken for one that ended, and one that cannot be opened for an empty one.
  The iterator yields the same blocks, and so reports the same boundaries, whether the diff of a
  file ended after some replies or failed after them.
\<close>

theorem fs_diff_error_unseen:
  "fst (fs_run (fs_iterator (ni(p := Some (rs @ ReadFailed # rs'))) es room thr)) =
     fst (fs_run (fs_iterator (ni(p := Some rs)) es room thr)) \<and>
   expected (entry_blocks True thr (ni(p := Some (rs @ ReadFailed # rs')))) 0 es = expected (entry_blocks True thr (ni(p := Some rs))) 0 es \<and>
   fst (fs_run (fs_iterator (ni(p := None)) es room thr)) = fst (fs_run (fs_iterator (ni(p := Some [])) es room thr))"
proof -
  have "reply_blocks (rs @ ReadFailed # rs') = reply_blocks rs"
    by (induction rs rule: reply_blocks.induct) simp_all
  then have "entry_blocks True thr (ni(p := Some (rs @ ReadFailed # rs'))) = entry_blocks True thr (ni(p := Some rs))"
    "entry_blocks True thr (ni(p := None)) = entry_blocks True thr (ni(p := Some []))"
    by (simp_all add: fun_eq_iff entry_blocks_def)
  then show ?thesis by (simp add: fs_run_todo fs_iterator_start fs_iterator_todo all_blocks_def)
qed

end
