(* ===== verification/Commit_Drainer.thy ===== *)
theory Commit_Drainer
  imports Fs_Iter Window_Semaphore
begin

section \<open>The commit drainer (internal/worker/cephfs/commit_drainer.go)\<close>

text \<open>
  The drainer receives file boundaries from the iterator and commits a file once all its blocks
  are acknowledged, in batches of at most 1000 files.  It shares the window semaphore with the
  pipeline; the model takes the windows that its successive \<^verbatim>\<open>IsReleased\<close> calls see as a list (the last
  one stays).  Sends, receives and selects on a context take their outcome from a list.

  The drainer relies on one law of the window: what is reported released implies that every smaller id
  is as well, and stays so.  That interface is the locale \<^verbatim>\<open>ack_window\<close>, interpreted on the window
  semaphore.  The lemmas show that only released files are committed, in order, in bounded batches,
  and that a run without failures commits every file.
\<close>

subsection \<open>Definitions\<close>

definition commitBatchSize :: nat where "commitBatchSize = 1000"

record CommitEntry =
  cePath :: path
  ceTotalSize :: u64

definition entry_of :: "fileBoundary \<Rightarrow> CommitEntry" where
  "entry_of fb = \<lparr>cePath = fbPath fb, ceTotalSize = word_of_int (fbTotalSize fb)\<rparr>"

datatype drain_error = CommitSendFailed | CommitRecvFailed | DrainCancelled | DrainStuck

record 'w drainer =
  drMaxWindow :: int
  drCommittedCh :: bool
  curWin :: 'w
  nextWins :: "'w list"
  drOuts :: "bool list"
  batches :: "CommitEntry list list"
  notified :: "path list"
  closedFiles :: "path list"

text \<open>The outcome of the next call, and the window the next \<^verbatim>\<open>IsReleased\<close> call sees.\<close>

definition dr_ok :: "'w drainer \<Rightarrow> bool \<times> 'w drainer" where
  "dr_ok d = (case pop_ok (drOuts d) of (ok, outs) \<Rightarrow> (ok, d\<lparr>drOuts := outs\<rparr>))"

definition look :: "'w drainer \<Rightarrow> 'w drainer" where
  "look d = (case nextWins d of [] \<Rightarrow> d | w # ws \<Rightarrow> d\<lparr>curWin := w, nextWins := ws\<rparr>)"

definition sendCommitBatch :: "'w drainer \<Rightarrow> CommitEntry list \<Rightarrow> 'w drainer \<times> drain_error option" where
  "sendCommitBatch d batch =
     (case dr_ok d of
        (False, d1) \<Rightarrow> (d1, Some CommitSendFailed)
      | (True, d1) \<Rightarrow>
          (case dr_ok (d1\<lparr>batches := batches d1 @ [batch]\<rparr>) of
             (False, d2) \<Rightarrow> (d2, Some CommitRecvFailed)
           | (True, d2) \<Rightarrow> (d2, None)))"

fun notify_loop :: "'w drainer \<Rightarrow> path list \<Rightarrow> 'w drainer \<times> drain_error option" where
  "notify_loop d [] = (d, None)"
| "notify_loop d (p # ps) =
     (case dr_ok d of
        (True, d1) \<Rightarrow> notify_loop (d1\<lparr>notified := notified d1 @ [p]\<rparr>) ps
      | (False, d1) \<Rightarrow> (d1, Some DrainCancelled))"

definition notifyCommitted :: "'w drainer \<Rightarrow> path list \<Rightarrow> 'w drainer \<times> drain_error option" where
  "notifyCommitted d ps = (if \<not> drCommittedCh d then (d, None) else notify_loop d ps)"

text \<open>Sending a batch and announcing its files, as both loops and both tails do.\<close>

definition commit_batch :: "'w drainer \<Rightarrow> CommitEntry list \<Rightarrow> path list \<Rightarrow> 'w drainer \<times> drain_error option" where
  "commit_batch d batch committed =
     (case sendCommitBatch d batch of
        (d1, Some e) \<Rightarrow> (d1, Some e)
      | (d1, None) \<Rightarrow> notifyCommitted d1 committed)"

definition commit_rest :: "'w drainer \<Rightarrow> CommitEntry list \<Rightarrow> path list \<Rightarrow> 'w drainer \<times> drain_error option" where
  "commit_rest d batch committed = (if batch = [] then (d, None) else commit_batch d batch committed)"

definition close_file :: "'w drainer \<Rightarrow> path \<Rightarrow> 'w drainer" where
  "close_file d p = d\<lparr>closedFiles := closedFiles d @ [p]\<rparr>"

definition too_near :: "'w drainer \<Rightarrow> u64 \<Rightarrow> fileBoundary \<Rightarrow> bool" where
  "too_near d cur fb \<longleftrightarrow> cur < fbLastReqID fb + word_of_int (drMaxWindow d) + 2"

fun qualified_loop ::
  "('w \<Rightarrow> u64 \<Rightarrow> bool) \<Rightarrow> u64 \<Rightarrow> 'w drainer \<Rightarrow> fileBoundary list \<Rightarrow> CommitEntry list \<Rightarrow> path list \<Rightarrow>
    'w drainer \<times> fileBoundary list \<times> drain_error option" where
  "qualified_loop rel cur d [] batch committed = (case commit_rest d batch committed of (d1, r) \<Rightarrow> (d1, [], r))"
| "qualified_loop rel cur d (fb # fbs) batch committed =
     (if too_near d cur fb then (case commit_rest d batch committed of (d1, r) \<Rightarrow> (d1, fb # fbs, r))
      else let d1 = look d in
        if \<not> rel (curWin d1) (fbLastReqID fb) then (case commit_rest d1 batch committed of (d2, r) \<Rightarrow> (d2, fb # fbs, r))
        else let d2 = close_file d1 (fbPath fb); batch' = batch @ [entry_of fb]; committed' = committed @ [fbPath fb] in
          if commitBatchSize \<le> length batch'
          then (case commit_batch d2 batch' committed' of
                  (d3, Some e) \<Rightarrow> (d3, fbs, Some e)
                | (d3, None) \<Rightarrow> qualified_loop rel cur d3 fbs [] [])
          else qualified_loop rel cur d2 fbs batch' committed')"

definition drainQualified ::
  "('w \<Rightarrow> u64 \<Rightarrow> bool) \<Rightarrow> 'w drainer \<Rightarrow> fileBoundary list \<Rightarrow> u64 \<Rightarrow> 'w drainer \<times> fileBoundary list \<times> drain_error option" where
  "drainQualified rel d pending cur = qualified_loop rel cur d pending [] []"

text \<open>
  Waiting for the acknowledgements of a file: look at the window, and if they are not there wait for the
  next release or for the cancellation.  If no window is left and the context is not cancelled, the
  drainer waits for ever.
\<close>

function wait_released :: "('w \<Rightarrow> u64 \<Rightarrow> bool) \<Rightarrow> u64 \<Rightarrow> 'w drainer \<Rightarrow> 'w drainer \<times> drain_error option" where
  "wait_released rel i d =
     (if rel (curWin (look d)) i then (look d, None)
      else case dr_ok (look d) of
        (False, d1) \<Rightarrow> (d1, Some DrainCancelled)
      | (True, d1) \<Rightarrow> if nextWins d = [] then (d1, Some DrainStuck) else wait_released rel i d1)"
  by pat_completeness auto
termination
  by (relation "measure (\<lambda>(rel, i, d). length (nextWins d))")
     (auto simp: dr_ok_def look_def split: prod.splits list.splits)

declare wait_released.simps [simp del]

fun flush_pending ::
  "('w \<Rightarrow> u64 \<Rightarrow> bool) \<Rightarrow> 'w drainer \<Rightarrow> fileBoundary list \<Rightarrow> CommitEntry list \<Rightarrow> path list \<Rightarrow> 'w drainer \<times> drain_error option" where
  "flush_pending rel d [] batch committed = commit_rest d batch committed"
| "flush_pending rel d (fb # fbs) batch committed =
     (case wait_released rel (fbLastReqID fb) d of
        (d1, Some e) \<Rightarrow> (d1, Some e)
      | (d1, None) \<Rightarrow>
          let d2 = close_file d1 (fbPath fb); batch' = batch @ [entry_of fb]; committed' = committed @ [fbPath fb] in
          if commitBatchSize \<le> length batch'
          then (case commit_batch d2 batch' committed' of
                  (d3, Some e) \<Rightarrow> (d3, Some e)
                | (d3, None) \<Rightarrow> flush_pending rel d3 fbs [] [])
          else flush_pending rel d2 fbs batch' committed')"

definition flushAll :: "('w \<Rightarrow> u64 \<Rightarrow> bool) \<Rightarrow> 'w drainer \<Rightarrow> fileBoundary list \<Rightarrow> 'w drainer \<times> drain_error option" where
  "flushAll rel d pending = (if pending = [] then (d, None) else flush_pending rel d pending [] [])"

text \<open>The select of \<^verbatim>\<open>Run\<close>: a boundary, the closed channel, or the cancellation.\<close>

datatype drain_event = Boundary fileBoundary | BoundaryClosed | DrainDone

fun drain_Run ::
  "('w \<Rightarrow> u64 \<Rightarrow> bool) \<Rightarrow> 'w drainer \<Rightarrow> fileBoundary list \<Rightarrow> drain_event list \<Rightarrow> 'w drainer \<times> drain_error option" where
  "drain_Run rel d pending [] = (d, Some DrainStuck)"
| "drain_Run rel d pending (BoundaryClosed # evs) = flushAll rel d pending"
| "drain_Run rel d pending (DrainDone # evs) = (d, Some DrainCancelled)"
| "drain_Run rel d pending (Boundary fb # evs) =
     (case drainQualified rel d (pending @ [fb]) (fbLastReqID fb) of
        (d1, pending1, Some e) \<Rightarrow> (d1, Some e)
      | (d1, pending1, None) \<Rightarrow> drain_Run rel d1 pending1 evs)"

definition commitDrainer_Run ::
  "int \<Rightarrow> WindowSemaphore \<Rightarrow> WindowSemaphore list \<Rightarrow> bool list \<Rightarrow> drain_event list \<Rightarrow> WindowSemaphore drainer \<times> drain_error option" where
  "commitDrainer_Run mw w ws outs evs =
     drain_Run IsReleased
       \<lparr>drMaxWindow = mw, drCommittedCh = True, curWin = w, nextWins = ws, drOuts = outs, batches = [], notified = [], closedFiles = []\<rparr>
       [] evs"


subsection \<open>The invariant\<close>

text \<open>
  The boundaries that have arrived are those committed, then those in the current batch, then those
  pending.  A file qualifies if one of the windows the drainer may see reports its last id.
\<close>

definition qualifies :: "('w \<Rightarrow> u64 \<Rightarrow> bool) \<Rightarrow> 'w set \<Rightarrow> fileBoundary \<Rightarrow> bool" where
  "qualifies rel W fb \<longleftrightarrow> (\<exists>w\<in>W. rel w (fbLastReqID fb))"

definition drain_base :: "('w \<Rightarrow> u64 \<Rightarrow> bool) \<Rightarrow> 'w set \<Rightarrow> fileBoundary list \<Rightarrow> 'w drainer \<Rightarrow> bool" where
  "drain_base rel W dn d \<longleftrightarrow> concat (batches d) = map entry_of dn \<and> (\<forall>fb\<in>set dn. qualifies rel W fb) \<and>
     (\<forall>b\<in>set (batches d). b \<noteq> [] \<and> length b \<le> commitBatchSize) \<and> set (curWin d # nextWins d) \<subseteq> W"

definition drain_at ::
  "('w \<Rightarrow> u64 \<Rightarrow> bool) \<Rightarrow> 'w set \<Rightarrow> fileBoundary list \<Rightarrow> 'w drainer \<Rightarrow> fileBoundary list \<Rightarrow> fileBoundary list \<Rightarrow> fileBoundary list \<Rightarrow> bool" where
  "drain_at rel W arr d dn bt pending \<longleftrightarrow> drain_base rel W dn d \<and> arr = dn @ bt @ pending \<and> (\<forall>fb\<in>set bt. qualifies rel W fb) \<and>
     closedFiles d = map fbPath (dn @ bt) \<and> drCommittedCh d \<and> notified d = map fbPath dn"

text \<open>What holds when the drainer returns: with an error, or with nothing left to do.\<close>

definition drain_post :: "('w \<Rightarrow> u64 \<Rightarrow> bool) \<Rightarrow> 'w set \<Rightarrow> fileBoundary list \<Rightarrow> 'w drainer \<Rightarrow> bool" where
  "drain_post rel W arr d \<longleftrightarrow> (\<exists>dn rest k. arr = dn @ rest \<and> drain_base rel W dn d \<and> notified d = take k (map fbPath dn))"

lemma drain_postI: "arr = dn @ rest \<Longrightarrow> drain_base rel W dn d \<Longrightarrow> notified d = take k (map fbPath dn) \<Longrightarrow> drain_post rel W arr d"
  by (auto simp: drain_post_def)

lemma drain_at_post: "drain_at rel W arr d dn bt pending \<Longrightarrow> drain_post rel W arr d"
  unfolding drain_at_def drain_post_def
  by (rule exI [of _ dn], rule exI [of _ "bt @ pending"], rule exI [of _ "length dn"]) simp

lemma drain_post_more: "drain_post rel W arr d \<Longrightarrow> drain_post rel W (arr @ xs) d"
  unfolding drain_post_def by (metis append.assoc)

lemma dr_ok_fields:
  "dr_ok d = (ok, d1) \<Longrightarrow> batches d1 = batches d \<and> notified d1 = notified d \<and> closedFiles d1 = closedFiles d \<and> curWin d1 = curWin d \<and>
     nextWins d1 = nextWins d \<and> drCommittedCh d1 = drCommittedCh d \<and> drMaxWindow d1 = drMaxWindow d \<and> (drOuts d = [] \<longrightarrow> ok \<and> drOuts d1 = [])"
  by (auto simp: dr_ok_def split: prod.splits)

lemma drain_base_cong:
  "batches d1 = batches d \<Longrightarrow> curWin d1 = curWin d \<Longrightarrow> nextWins d1 = nextWins d \<Longrightarrow> drain_base rel W dn d1 = drain_base rel W dn d"
  by (simp add: drain_base_def)

lemma notify_loop_spec:
  "notify_loop d ps = (d1, r) \<Longrightarrow>
     (\<exists>k. notified d1 = notified d @ take k ps \<and> (r = None \<longrightarrow> notified d1 = notified d @ ps)) \<and> batches d1 = batches d \<and>
     closedFiles d1 = closedFiles d \<and> curWin d1 = curWin d \<and> nextWins d1 = nextWins d \<and> drCommittedCh d1 = drCommittedCh d \<and>
     (drOuts d = [] \<longrightarrow> r = None \<and> drOuts d1 = [])"
proof (induction ps arbitrary: d)
  case (Cons p ps)
  obtain ok d2 where o: "dr_ok d = (ok, d2)" by force
  note f = dr_ok_fields [OF o]
  show ?case
  proof (cases ok)
    case True
    then have "notify_loop (d2\<lparr>notified := notified d2 @ [p]\<rparr>) ps = (d1, r)" using Cons.prems o by simp
    note ih = Cons.IH [OF this]
    then obtain k where "notified d1 = notified d @ p # take k ps" using f by auto
    then have "notified d1 = notified d @ take (Suc k) (p # ps)" by simp
    then show ?thesis using ih f by (auto simp del: take_Suc_Cons)
  qed (use Cons.prems o f in \<open>auto intro: exI [of _ 0]\<close>)
qed (auto)

lemma sendCommitBatch_spec:
  assumes "sendCommitBatch d b = (d1, r)"
  shows "(batches d1 = batches d @ [b] \<or> batches d1 = batches d \<and> r \<noteq> None) \<and> notified d1 = notified d \<and> closedFiles d1 = closedFiles d \<and>
     curWin d1 = curWin d \<and> nextWins d1 = nextWins d \<and> drCommittedCh d1 = drCommittedCh d \<and> (drOuts d = [] \<longrightarrow> r = None \<and> drOuts d1 = [])"
proof -
  obtain o1 d2 where s: "dr_ok d = (o1, d2)" by force
  obtain o2 d3 where v: "dr_ok (d2\<lparr>batches := batches d2 @ [b]\<rparr>) = (o2, d3)" by force
  show ?thesis
    using assms s v dr_ok_fields [OF s] dr_ok_fields [OF v] by (cases o1; cases o2) (auto simp: sendCommitBatch_def)
qed

lemma commit_batch_spec:
  assumes "drain_at rel W arr d dn bt pending" "bt \<noteq> []" "length bt \<le> commitBatchSize"
    and "commit_batch d (map entry_of bt) (map fbPath bt) = (d1, r)"
  shows "if r = None then drain_at rel W arr d1 (dn @ bt) [] pending else drain_post rel W arr d1"
    "curWin d1 = curWin d" "nextWins d1 = nextWins d" "drOuts d = [] \<Longrightarrow> r = None \<and> drOuts d1 = []"
proof -
  have arr: "arr = (dn @ bt) @ pending" using assms(1) by (simp add: drain_at_def)
  obtain d2 r2 where s: "sendCommitBatch d (map entry_of bt) = (d2, r2)" by force
  note sp = sendCommitBatch_spec [OF s]
  have base: "drain_base rel W (dn @ bt) d2" if "batches d2 = batches d @ [map entry_of bt]"
    using assms(1-3) that sp by (auto simp: drain_at_def drain_base_def)
  have keep: "drain_base rel W dn d2" if "batches d2 = batches d" using assms(1) that sp by (simp add: drain_at_def drain_base_def)
  have "(if r = None then drain_at rel W arr d1 (dn @ bt) [] pending else drain_post rel W arr d1) \<and>
      curWin d1 = curWin d \<and> nextWins d1 = nextWins d \<and> (drOuts d = [] \<longrightarrow> r = None \<and> drOuts d1 = [])"
  proof (cases r2)
    case (Some e)
    then have d1: "d1 = d2" "r = Some e" using assms(4) s by (simp_all add: commit_batch_def)
    have n: "notified d2 = take (length dn) (map fbPath dn)" using assms(1) sp by (simp add: drain_at_def)
    from sp have "batches d2 = batches d @ [map entry_of bt] \<or> batches d2 = batches d" by blast
    then have "drain_post rel W arr d2"
    proof
      assume b: "batches d2 = batches d @ [map entry_of bt]"
      have "notified d2 = take (length dn) (map fbPath (dn @ bt))" using n by simp
      then show ?thesis by (rule drain_postI [OF arr base [OF b]])
    next
      assume b: "batches d2 = batches d"
      then show ?thesis by (rule drain_postI [OF arr [unfolded append_assoc] keep n])
    qed
    then show ?thesis using d1 sp Some by simp
  next
    case None
    then have b: "drain_base rel W (dn @ bt) d2" using base sp by auto
    have nc: "notifyCommitted d2 (map fbPath bt) = (d1, r)" using assms(4) s None by (simp add: commit_batch_def)
    have nl: "notify_loop d2 (map fbPath bt) = (d1, r)" using nc sp assms(1) by (simp add: notifyCommitted_def drain_at_def)
    note np = notify_loop_spec [OF nl]
    then have b1: "drain_base rel W (dn @ bt) d1" using b drain_base_cong [of d1 d2] by simp
    obtain k where "notified d1 = map fbPath dn @ take k (map fbPath bt)" using np sp assms(1) by (auto simp: drain_at_def)
    then have "notified d1 = take (length dn + k) (map fbPath (dn @ bt))" by simp
    then have "drain_post rel W arr d1" by (rule drain_postI [OF arr b1])
    then show ?thesis using np sp b1 assms(1) None by (auto simp: drain_at_def)
  qed
  then show "if r = None then drain_at rel W arr d1 (dn @ bt) [] pending else drain_post rel W arr d1"
    "curWin d1 = curWin d" "nextWins d1 = nextWins d" "drOuts d = [] \<Longrightarrow> r = None \<and> drOuts d1 = []" by blast+
qed

lemma commit_rest_spec:
  assumes "drain_at rel W arr d dn bt pending" "length bt \<le> commitBatchSize"
    and "commit_rest d (map entry_of bt) (map fbPath bt) = (d1, r)"
  shows "if r = None then \<exists>dn. drain_at rel W arr d1 dn [] pending else drain_post rel W arr d1"
    "curWin d1 = curWin d" "nextWins d1 = nextWins d" "drOuts d = [] \<Longrightarrow> r = None \<and> drOuts d1 = []"
proof -
  have "(if r = None then \<exists>dn. drain_at rel W arr d1 dn [] pending else drain_post rel W arr d1) \<and>
      curWin d1 = curWin d \<and> nextWins d1 = nextWins d \<and> (drOuts d = [] \<longrightarrow> r = None \<and> drOuts d1 = [])"
  proof (cases "bt = []")
    case True
    then show ?thesis using assms by (auto simp: commit_rest_def)
  next
    case False
    then have "commit_batch d (map entry_of bt) (map fbPath bt) = (d1, r)" using assms(3) by (simp add: commit_rest_def)
    note cb = commit_batch_spec [OF assms(1) False assms(2) this]
    then show ?thesis by (metis (full_types))
  qed
  then show "if r = None then \<exists>dn. drain_at rel W arr d1 dn [] pending else drain_post rel W arr d1"
    "curWin d1 = curWin d" "nextWins d1 = nextWins d" "drOuts d = [] \<Longrightarrow> r = None \<and> drOuts d1 = []" by blast+
qed

lemma drain_at_look: "drain_at rel W arr d dn bt pending \<Longrightarrow> drain_at rel W arr (look d) dn bt pending"
  by (auto simp: drain_at_def drain_base_def look_def split: list.splits)

lemma look_keeps [simp]:
  "drOuts (look d) = drOuts d" "last (curWin (look d) # nextWins (look d)) = last (curWin d # nextWins d)"
  by (simp_all add: look_def split: list.splits)

lemma drain_at_take:
  assumes "drain_at rel W arr d dn bt (fb # pending)" "rel (curWin d) (fbLastReqID fb)"
  shows "drain_at rel W arr (close_file d (fbPath fb)) dn (bt @ [fb]) pending"
  using assms by (auto simp: drain_at_def drain_base_def close_file_def qualifies_def)


text \<open>The loops keep the invariant.\<close>

lemma qualified_loop_spec:
  assumes "drain_at rel W arr d dn bt pending" "length bt < commitBatchSize"
    and "qualified_loop rel cur d pending (map entry_of bt) (map fbPath bt) = (d1, pending1, r)"
  shows "(if r = None then \<exists>dn. drain_at rel W arr d1 dn [] pending1 else drain_post rel W arr d1) \<and>
    last (curWin d1 # nextWins d1) = last (curWin d # nextWins d) \<and> (drOuts d = [] \<longrightarrow> r = None \<and> drOuts d1 = []) \<and>
    set pending1 \<subseteq> set pending"
  using assms
proof (induction pending arbitrary: d dn bt)
  case Nil
  obtain d2 r2 where c: "commit_rest d (map entry_of bt) (map fbPath bt) = (d2, r2)" by force
  then show ?case using commit_rest_spec [OF Nil.prems(1) _ c] Nil.prems(2,3) by auto
next
  case (Cons fb fbs)
  have le: "length bt \<le> commitBatchSize" using Cons.prems(2) by simp
  show ?case
  proof (cases "too_near d cur fb")
    case True
    obtain d2 r2 where c: "commit_rest d (map entry_of bt) (map fbPath bt) = (d2, r2)" by force
    then show ?thesis using True commit_rest_spec [OF Cons.prems(1) le c] Cons.prems(3) by auto
  next
    case near: False
    let ?d1 = "look d"
    note at1 = drain_at_look [OF Cons.prems(1)]
    show ?thesis
    proof (cases "rel (curWin ?d1) (fbLastReqID fb)")
      case False
      obtain d2 r2 where c: "commit_rest ?d1 (map entry_of bt) (map fbPath bt) = (d2, r2)" by force
      then show ?thesis
        using near False commit_rest_spec [OF at1 le c] Cons.prems(3) look_keeps [of d] by (auto simp: Let_def)
    next
      case True
      let ?d2 = "close_file ?d1 (fbPath fb)"
      note at2 = drain_at_take [OF at1 True]
      have k2: "last (curWin ?d2 # nextWins ?d2) = last (curWin d # nextWins d)" "drOuts ?d2 = drOuts d"
        using look_keeps [of d] by (simp_all add: close_file_def)
      have len: "length (bt @ [fb]) \<le> commitBatchSize" using Cons.prems(2) by simp
      show ?thesis
      proof (cases "commitBatchSize \<le> length (bt @ [fb])")
        case full: True
        obtain d3 r3 where c: "commit_batch ?d2 (map entry_of (bt @ [fb])) (map fbPath (bt @ [fb])) = (d3, r3)" by force
        note cb = commit_batch_spec [OF at2 _ len c]
        show ?thesis
        proof (cases r3)
          case None
          then have q: "qualified_loop rel cur d3 fbs (map entry_of []) (map fbPath []) = (d1, pending1, r)"
            using Cons.prems(3) near True full c by (simp add: Let_def)
          have "drain_at rel W arr d3 (dn @ bt @ [fb]) [] fbs" using cb(1) None by simp
          from Cons.IH [OF this _ q] show ?thesis using cb(2-4) k2 by (auto simp: commitBatchSize_def)
        next
          case (Some e)
          then show ?thesis using Cons.prems(3) near True full c cb k2 by (auto simp: Let_def)
        qed
      next
        case False
        then have q: "qualified_loop rel cur ?d2 fbs (map entry_of (bt @ [fb])) (map fbPath (bt @ [fb])) = (d1, pending1, r)"
          using Cons.prems(3) near True by (simp add: Let_def)
        from Cons.IH [OF at2 _ q] show ?thesis using False k2 by auto
      qed
    qed
  qed
qed

lemma wait_released_spec:
  assumes "drain_at rel W arr d dn bt pending" "wait_released rel i d = (d1, r)"
  shows "drain_at rel W arr d1 dn bt pending \<and> (r = None \<longrightarrow> rel (curWin d1) i) \<and>
    last (curWin d1 # nextWins d1) = last (curWin d # nextWins d) \<and>
    (drOuts d = [] \<longrightarrow> rel (last (curWin d # nextWins d)) i \<longrightarrow> r = None \<and> drOuts d1 = [])"
  using assms
proof (induction rel i d rule: wait_released.induct)
  case (1 rel i d)
  note at1 = drain_at_look [OF "1.prems"(1)]
  show ?case
  proof (cases "rel (curWin (look d)) i")
    case True
    then show ?thesis using "1.prems"(2) at1 look_keeps [of d] by (auto simp: wait_released.simps [of rel i d])
  next
    case False
    obtain ok d2 where o: "dr_ok (look d) = (ok, d2)" by force
    note f = dr_ok_fields [OF o]
    have at2: "drain_at rel W arr d2 dn bt pending" using at1 f by (simp add: drain_at_def drain_base_def)
    have k: "last (curWin d2 # nextWins d2) = last (curWin d # nextWins d)" using f look_keeps(2) [of d] by simp
    show ?thesis
    proof (cases "ok \<and> nextWins d \<noteq> []")
      case True
      then have w: "wait_released rel i d2 = (d1, r)" using "1.prems"(2) False o by (simp add: wait_released.simps [of rel i d])
      show ?thesis using "1.IH" [OF False o [symmetric] _ _ at2 w] True f k by simp
    next
      case stop: False
      then have "d1 = d2" "r \<noteq> None" using "1.prems"(2) False o by (auto simp: wait_released.simps [of rel i d] split: bool.splits if_splits)
      moreover have "nextWins d = [] \<Longrightarrow> \<not> rel (last (curWin d # nextWins d)) i" using False by (simp add: look_def)
      ultimately show ?thesis using at2 k f stop by auto
    qed
  qed
qed

lemma flush_pending_spec:
  assumes "drain_at rel W arr d dn bt pending" "length bt < commitBatchSize"
    and "flush_pending rel d pending (map entry_of bt) (map fbPath bt) = (d1, r)"
  shows "(if r = None then \<exists>dn. drain_at rel W arr d1 dn [] [] else drain_post rel W arr d1) \<and>
    (drOuts d = [] \<longrightarrow> (\<forall>fb\<in>set pending. rel (last (curWin d # nextWins d)) (fbLastReqID fb)) \<longrightarrow> r = None)"
  using assms
proof (induction pending arbitrary: d dn bt)
  case Nil
  have "commit_rest d (map entry_of bt) (map fbPath bt) = (d1, r)" using Nil.prems(3) by simp
  then show ?case using commit_rest_spec [OF Nil.prems(1)] Nil.prems(2) by auto
next
  case (Cons fb fbs)
  obtain d2 r2 where w: "wait_released rel (fbLastReqID fb) d = (d2, r2)" by force
  note ws = wait_released_spec [OF Cons.prems(1) w]
  show ?case
  proof (cases r2)
    case (Some e)
    then show ?thesis using Cons.prems(3) w ws drain_at_post by (auto simp: Let_def)
  next
    case None
    let ?d3 = "close_file d2 (fbPath fb)"
    have at3: "drain_at rel W arr ?d3 dn (bt @ [fb]) fbs" using drain_at_take ws None by blast
    have k3: "last (curWin ?d3 # nextWins ?d3) = last (curWin d # nextWins d)" "drOuts ?d3 = drOuts d2" using ws by (simp_all add: close_file_def)
    have len: "length (bt @ [fb]) \<le> commitBatchSize" using Cons.prems(2) by simp
    show ?thesis
    proof (cases "commitBatchSize \<le> length (bt @ [fb])")
      case full: True
      obtain d4 r4 where c: "commit_batch ?d3 (map entry_of (bt @ [fb])) (map fbPath (bt @ [fb])) = (d4, r4)" by force
      note cb = commit_batch_spec [OF at3 _ len c]
      show ?thesis
      proof (cases r4)
        case None
        then have q: "flush_pending rel d4 fbs (map entry_of []) (map fbPath []) = (d1, r)"
          using Cons.prems(3) w \<open>r2 = None\<close> full c by (simp add: Let_def)
        have "drain_at rel W arr d4 (dn @ bt @ [fb]) [] fbs" using cb(1) None by simp
        from Cons.IH [OF this _ q] show ?thesis using cb(2-4) k3 ws by (simp add: commitBatchSize_def)
      next
        case (Some e)
        then show ?thesis using Cons.prems(3) w \<open>r2 = None\<close> full c cb k3 ws by (auto simp: Let_def)
      qed
    next
      case False
      then have q: "flush_pending rel ?d3 fbs (map entry_of (bt @ [fb])) (map fbPath (bt @ [fb])) = (d1, r)"
        using Cons.prems(3) w None by (simp add: Let_def)
      from Cons.IH [OF at3 _ q] show ?thesis using False k3 ws by simp
    qed
  qed
qed


fun boundaries :: "drain_event list \<Rightarrow> fileBoundary list" where
  "boundaries (Boundary fb # evs) = fb # boundaries evs"
| "boundaries _ = []"

lemma boundaries_run [simp]: "boundaries (map Boundary fbs @ [BoundaryClosed]) = fbs"
  by (induction fbs) simp_all

lemma drain_Run_spec:
  assumes "drain_at rel W arr d dn [] pending" "drain_Run rel d pending evs = (d1, r)"
  shows "(if r = None then \<exists>dn. drain_at rel W (arr @ boundaries evs) d1 dn [] [] else drain_post rel W (arr @ boundaries evs) d1) \<and>
    (drOuts d = [] \<longrightarrow> (\<exists>fbs. evs = map Boundary fbs @ [BoundaryClosed]) \<longrightarrow>
      (\<forall>fb\<in>set (pending @ boundaries evs). rel (last (curWin d # nextWins d)) (fbLastReqID fb)) \<longrightarrow> r = None)"
  using assms
proof (induction rel d pending evs arbitrary: arr dn rule: drain_Run.induct)
  case (1 rel d pending)
  then show ?case using drain_at_post by auto
next
  case (2 rel d pending evs)
  show ?case
  proof (cases "pending = []")
    case True
    then show ?thesis using 2 by (auto simp: flushAll_def)
  next
    case False
    then have "flush_pending rel d pending (map entry_of []) (map fbPath []) = (d1, r)" using 2 by (simp add: flushAll_def)
    from flush_pending_spec [OF "2.prems"(1) _ this] show ?thesis by (simp add: commitBatchSize_def)
  qed
next
  case (3 rel d pending evs)
  then show ?case using drain_at_post by (auto simp: Cons_eq_append_conv Cons_eq_map_conv)
next
  case (4 rel d pending fb evs)
  obtain d2 p2 r2 where q: "drainQualified rel d (pending @ [fb]) (fbLastReqID fb) = (d2, p2, r2)" by (metis prod_cases3)
  have at: "drain_at rel W (arr @ [fb]) d dn [] (pending @ [fb])" using "4.prems"(1) by (simp add: drain_at_def)
  have q': "qualified_loop rel (fbLastReqID fb) d (pending @ [fb]) (map entry_of []) (map fbPath []) = (d2, p2, r2)"
    using q by (simp add: drainQualified_def)
  note qs = qualified_loop_spec [OF at _ q', simplified commitBatchSize_def, simplified]
  show ?case
  proof (cases r2)
    case (Some e)
    then show ?thesis using "4.prems"(2) q qs drain_post_more [of rel W "arr @ [fb]" d2 "boundaries evs"] by auto
  next
    case None
    then obtain dn' where at': "drain_at rel W (arr @ [fb]) d2 dn' [] p2" using qs by auto
    have run: "drain_Run rel d2 p2 evs = (d1, r)" using "4.prems"(2) q None by simp
    have sub: "set p2 \<subseteq> set (pending @ [fb])" using qs by simp
    have ev: "(\<exists>fbs. Boundary fb # evs = map Boundary fbs @ [BoundaryClosed]) \<Longrightarrow> \<exists>fbs. evs = map Boundary fbs @ [BoundaryClosed]"
      by (auto simp: Cons_eq_append_conv Cons_eq_map_conv)
    show ?thesis using "4.IH" [OF q [symmetric] refl None at' run] ev sub qs by auto
  qed
qed


lemma drain_Run_done:
  assumes "drain_Run rel d [] evs = (d1, None)" "batches d = []" "notified d = []" "closedFiles d = []" "drCommittedCh d"
  shows "concat (batches d1) = map entry_of (boundaries evs) \<and> notified d1 = map fbPath (boundaries evs)"
proof -
  have "drain_at rel (set (curWin d # nextWins d)) [] d [] [] []" using assms(2-5) by (simp add: drain_at_def drain_base_def)
  from drain_Run_spec [OF this assms(1)] show ?thesis by (auto simp: drain_at_def drain_base_def)
qed


subsection \<open>The interface to the window\<close>

text \<open>
  What the drainer relies on: a released id comes with all smaller ones, and stays released.
\<close>

locale ack_window =
  fixes rel :: "'w \<Rightarrow> u64 \<Rightarrow> bool"
    and later :: "'w \<Rightarrow> 'w \<Rightarrow> bool"
  assumes rel_down: "rel w i \<Longrightarrow> j \<le> i \<Longrightarrow> rel w j"
    and rel_later: "later w w' \<Longrightarrow> rel w i \<Longrightarrow> rel w' i"
begin

lemma qualifies_last:
  assumes "sorted_wrt later ws" "qualifies rel (set ws) fb" "j \<le> fbLastReqID fb"
  shows "rel (last ws) j"
proof -
  obtain w where w: "w \<in> set ws" "rel w (fbLastReqID fb)" using assms(2) by (auto simp: qualifies_def)
  have "w = last ws \<or> later w (last ws)"
    using assms(1) w(1) by (induction ws rule: rev_induct) (auto simp: sorted_wrt_append)
  then show ?thesis using rel_later rel_down [OF w(2) assms(3)] by blast
qed

lemma run_commits:
  assumes "drain_Run rel d [] evs = (d', r)" "batches d = []" "notified d = []" "closedFiles d = []" "drCommittedCh d"
    and "sorted_wrt later (curWin d # nextWins d)"
  shows "\<exists>n. concat (batches d') = map entry_of (take n (boundaries evs)) \<and>
    (\<forall>fb\<in>set (take n (boundaries evs)). \<forall>j \<le> fbLastReqID fb. rel (last (curWin d # nextWins d)) j) \<and>
    (\<forall>b\<in>set (batches d'). b \<noteq> [] \<and> length b \<le> commitBatchSize) \<and>
    (\<exists>k. notified d' = take k (map fbPath (take n (boundaries evs))))"
proof -
  let ?W = "set (curWin d # nextWins d)"
  have "drain_at rel ?W [] d [] [] []" using assms(2-5) by (simp add: drain_at_def drain_base_def)
  from drain_Run_spec [OF this assms(1)] have "drain_post rel ?W (boundaries evs) d'"
    by (auto split: if_splits intro: drain_at_post)
  then obtain dn rest k where dn: "boundaries evs = dn @ rest" "drain_base rel ?W dn d'" "notified d' = take k (map fbPath dn)"
    by (auto simp: drain_post_def)
  moreover have "\<forall>fb\<in>set dn. \<forall>j \<le> fbLastReqID fb. rel (last (curWin d # nextWins d)) j"
    using dn(2) qualifies_last [OF assms(6)] unfolding drain_base_def by blast
  ultimately show ?thesis by (intro exI [of _ "length dn"]) (auto simp: drain_base_def)
qed

end

interpretation win: ack_window IsReleased "\<lambda>w w'. base w \<le> base w'"
  by unfold_locales (auto simp: IsReleased_def)

subsection \<open>Correctness\<close>

text \<open>Windows seen one after the other in a run of the semaphore: what is released stays released.\<close>

definition snapshots :: "nat \<Rightarrow> (WindowSemaphore \<times> nat set \<times> nat set) list \<Rightarrow> bool" where
  "snapshots mw hs \<longleftrightarrow> (\<forall>(w, A, R)\<in>set hs. win_reach mw w A R) \<and> sorted_wrt (\<lambda>(_, _, R) (_, _, R'). R \<subseteq> R') hs"

lemma snapshots_sorted:
  assumes "snapshots mw hs" "0 < mw" "4 * mw < 2 ^ 64"
  shows "sorted_wrt (\<lambda>w w'. base w \<le> base w') (map fst hs)"
proof -
  have step: "base w \<le> base w'" if "win_reach mw w A R" "win_reach mw w' A' R'" "R \<subseteq> R'" for w w' A A' R R'
  proof (rule ccontr)
    assume "\<not> base w \<le> base w'"
    then have "IsReleased w (base w')" by (simp add: IsReleased_def)
    then have "IsReleased w' (base w')"
      using IsReleased_set [OF that(1) assms(2,3)] IsReleased_set [OF that(2) assms(2,3)] that(3) by blast
    then show False by (simp add: IsReleased_def)
  qed
  have mono: "base (fst x) \<le> base (fst y)" if "x \<in> set hs" "y \<in> set hs" "snd (snd x) \<subseteq> snd (snd y)" for x y
    using assms(1) that step [of "fst x" "fst (snd x)" "snd (snd x)" "fst y" "fst (snd y)" "snd (snd y)"]
    by (simp add: snapshots_def case_prod_unfold)
  have "sorted_wrt (\<lambda>x y. snd (snd x) \<subseteq> snd (snd y)) hs" using assms(1) by (simp add: snapshots_def case_prod_unfold)
  then show ?thesis unfolding sorted_wrt_map by (rule sorted_wrt_mono_rel [rotated]) (rule mono)
qed

text \<open>
  C9: a file is committed only when all its blocks are acknowledged.  Whatever fails and whenever
  the drainer looks at the window, the entries it sends are those of the first files, in order, in
  batches of one to 1000; when the last window was seen every id up to the last of each of these files had
  been released; and the files announced for the metadata sync are among them.
\<close>

theorem drainer_commits_released:
  assumes "snapshots mw ((w, A, R) # hs)" "0 < mw" "4 * mw < 2 ^ 64"
  shows "case commitDrainer_Run m w (map fst hs) outs evs of (d, r) \<Rightarrow>
    \<exists>n. concat (batches d) = map entry_of (take n (boundaries evs)) \<and>
      (\<forall>fb\<in>set (take n (boundaries evs)). {..unat (fbLastReqID fb)} \<subseteq> snd (snd (last ((w, A, R) # hs)))) \<and>
      (\<forall>b\<in>set (batches d). b \<noteq> [] \<and> length b \<le> commitBatchSize) \<and>
      (\<exists>k. notified d = take k (map fbPath (take n (boundaries evs))))"
proof -
  obtain d r where run: "commitDrainer_Run m w (map fst hs) outs evs = (d, r)" by force
  let ?l = "last ((w, A, R) # hs)"
  have srt: "sorted_wrt (\<lambda>w w'. base w \<le> base w') (w # map fst hs)" using snapshots_sorted [OF assms] by simp
  have "?l \<in> set ((w, A, R) # hs)" by (rule last_in_set) simp
  then have reach: "win_reach mw (fst ?l) (fst (snd ?l)) (snd (snd ?l))"
    using assms(1) unfolding snapshots_def by (metis (mono_tags, lifting) case_prod_unfold)
  have lst: "last (w # map fst hs) = fst ?l" by (simp add: last_map)
  have rel: "{..unat i} \<subseteq> snd (snd ?l)" if "\<forall>j \<le> i. IsReleased (last (w # map fst hs)) j" for i
    using IsReleased_set [OF reach assms(2,3), of i] that lst by simp
  let ?d = "\<lparr>drMaxWindow = m, drCommittedCh = True, curWin = w, nextWins = map fst hs, drOuts = outs, batches = [], notified = [], closedFiles = []\<rparr>"
  obtain n where n: "concat (batches d) = map entry_of (take n (boundaries evs))"
    "\<forall>fb\<in>set (take n (boundaries evs)). \<forall>j \<le> fbLastReqID fb. IsReleased (last (curWin ?d # nextWins ?d)) j"
    "\<forall>b\<in>set (batches d). b \<noteq> [] \<and> length b \<le> commitBatchSize" "\<exists>k. notified d = take k (map fbPath (take n (boundaries evs)))"
    using win.run_commits [OF run [unfolded commitDrainer_Run_def]] srt unfolding drainer.select_convs by blast
  have "\<forall>fb\<in>set (take n (boundaries evs)). {..unat (fbLastReqID fb)} \<subseteq> snd (snd ?l)"
    using n(2) unfolding drainer.select_convs by (intro ballI rel) (erule (1) bspec)
  then show ?thesis unfolding run prod.case using n(1,3,4) by blast
qed

definition sample_boundary :: fileBoundary where
  "sample_boundary = \<lparr>fbPath = ''/a'', fbLastReqID = 0, fbTotalSize = 9\<rparr>"

theorem drainer_commits_released_witness:
  "case commitDrainer_Run 1 (NewWindowSemaphore 1) (map fst [(sample_window, {0, 1, 2 :: nat}, {0 :: nat})]) [] [Boundary sample_boundary, BoundaryClosed] of (d, r) \<Rightarrow>
    \<exists>n. concat (batches d) = map entry_of (take n (boundaries [Boundary sample_boundary, BoundaryClosed])) \<and>
      (\<forall>fb\<in>set (take n (boundaries [Boundary sample_boundary, BoundaryClosed])). {..unat (fbLastReqID fb)} \<subseteq>
        snd (snd (last ((NewWindowSemaphore 1, {}, {}) # [(sample_window, {0, 1, 2 :: nat}, {0 :: nat})])))) \<and>
      (\<forall>b\<in>set (batches d). b \<noteq> [] \<and> length b \<le> commitBatchSize) \<and>
      (\<exists>k. notified d = take k (map fbPath (take n (boundaries [Boundary sample_boundary, BoundaryClosed]))))"
  by (rule drainer_commits_released [where mw = 1])
     (use sample_window_reach win_reach.new [of 1] in \<open>simp_all add: snapshots_def\<close>)

text \<open>
  C24: without failures the drainer commits every file: when the channel is closed after the boundaries
  and the window finally reports their last ids, the run returns without an error, every file is in
  exactly one batch, is announced once and its handle is closed once.
\<close>

theorem drainer_complete:
  assumes "\<forall>fb\<in>set fbs. IsReleased (last (w # ws)) (fbLastReqID fb)"
  shows "case commitDrainer_Run m w ws [] (map Boundary fbs @ [BoundaryClosed]) of (d, r) \<Rightarrow>
    r = None \<and> concat (batches d) = map entry_of fbs \<and> notified d = map fbPath fbs \<and> closedFiles d = map fbPath fbs"
proof -
  obtain d r where run: "commitDrainer_Run m w ws [] (map Boundary fbs @ [BoundaryClosed]) = (d, r)" by force
  let ?d = "\<lparr>drMaxWindow = m, drCommittedCh = True, curWin = w, nextWins = ws, drOuts = [], batches = [], notified = [], closedFiles = []\<rparr>"
  have at: "drain_at IsReleased (set (w # ws)) [] ?d [] [] []" by (simp add: drain_at_def drain_base_def)
  note spec = drain_Run_spec [OF at run [unfolded commitDrainer_Run_def]]
  then have "r = None" using assms by auto
  then obtain dn where "drain_at IsReleased (set (w # ws)) fbs d dn [] []" using spec by auto
  then show ?thesis using run \<open>r = None\<close> by (simp add: drain_at_def drain_base_def)
qed

theorem drainer_complete_witness:
  "case commitDrainer_Run 1 (NewWindowSemaphore 1) [sample_window] [] (map Boundary [sample_boundary] @ [BoundaryClosed]) of (d, r) \<Rightarrow>
    r = None \<and> concat (batches d) = map entry_of [sample_boundary] \<and> notified d = map fbPath [sample_boundary] \<and>
    closedFiles d = map fbPath [sample_boundary]"
  by (rule drainer_complete) (use IsReleased_set [OF sample_window_reach, of 0] in \<open>simp add: sample_boundary_def\<close>)

end
