(* ===== verification/File_Cache.thy ===== *)
theory File_Cache
  imports Paths Block_IO
begin

section \<open>The file cache and the CephFS reader (internal/worker/cephfs/cephfs_reader.go)\<close>

text \<open>
  A cache of open files with reference counts, sharded by a hash of the path, and its client on the
  source side, the reader of the pipeline.  The operating system is a record: directory entries
  name inodes, handles refer to inodes, and the outcomes of the calls that may fail are a list.

  The lemmas show that the shards implement one map from paths to counts; that a file is open
  exactly while its count is positive, on every error path; and, through the interface that clients
  of the cache use, that the reader holds one reference per file it has read and not closed.
\<close>

subsection \<open>The operating system\<close>

record os_state =
  osDir :: "path \<rightharpoonup> nat"
  osInode :: "nat \<Rightarrow> os_file"
  osOpen :: "nat \<rightharpoonup> nat"
  osNextInode :: nat
  osNextHandle :: nat
  osOuts :: "bool list"
  osPlans :: "path \<Rightarrow> nat option list"

definition os_ok :: "os_state \<Rightarrow> bool \<times> os_state" where
  "os_ok os = (case pop_ok (osOuts os) of (ok, outs) \<Rightarrow> (ok, os\<lparr>osOuts := outs\<rparr>))"

text \<open>
  Opening creates a missing file only with \<^verbatim>\<open>O_CREATE\<close>; \<^verbatim>\<open>osPlans\<close> are the faults of the writes to it.
\<close>

definition os_open :: "bool \<Rightarrow> os_state \<Rightarrow> path \<Rightarrow> os_state \<times> nat option" where
  "os_open create os p =
     (case os_ok os of
        (False, os1) \<Rightarrow> (os1, None)
      | (True, os1) \<Rightarrow>
          (case osDir os1 p of
             Some i \<Rightarrow> (os1\<lparr>osOpen := (osOpen os1)(osNextHandle os1 \<mapsto> i), osNextHandle := Suc (osNextHandle os1)\<rparr>, Some (osNextHandle os1))
           | None \<Rightarrow>
               if \<not> create then (os1, None)
               else let i = osNextInode os1 in
                 (os1\<lparr>osDir := (osDir os1)(p \<mapsto> i), osNextInode := Suc i,
                      osInode := (osInode os1)(i := \<lparr>content = [], fixedSize = False, plan = osPlans os1 p\<rparr>),
                      osOpen := (osOpen os1)(osNextHandle os1 \<mapsto> i), osNextHandle := Suc (osNextHandle os1)\<rparr>,
                  Some (osNextHandle os1))))"

definition os_close :: "os_state \<Rightarrow> nat \<Rightarrow> os_state \<times> bool" where
  "os_close os h = (case os_ok os of (ok, os1) \<Rightarrow> (os1\<lparr>osOpen := (osOpen os1)(h := None)\<rparr>, ok))"

definition handle_file :: "os_state \<Rightarrow> nat \<Rightarrow> os_file option" where
  "handle_file os h = map_option (osInode os) (osOpen os h)"

definition os_truncate :: "os_state \<Rightarrow> nat \<Rightarrow> nat \<Rightarrow> os_state \<times> bool" where
  "os_truncate os h n =
     (case os_ok os of
        (False, os1) \<Rightarrow> (os1, False)
      | (True, os1) \<Rightarrow>
          (case osOpen os1 h of
             None \<Rightarrow> (os1, False)
           | Some i \<Rightarrow>
               let f = osInode os1 i; c = content f in
               (os1\<lparr>osInode := (osInode os1)(i := f\<lparr>content := take n c @ replicate (n - length c) 0\<rparr>)\<rparr>, True)))"

subsection \<open>The cache\<close>

record fileEntry =
  entFile :: nat
  refCount :: int

definition numCacheShards :: nat where "numCacheShards = 16"

record FileCache =
  baseDir :: path
  fcCreate :: bool
  shards :: "(path \<rightharpoonup> fileEntry) list"

text \<open>FNV-1a, 32 bits.\<close>

definition fnv32a :: "string \<Rightarrow> 32 word" where
  "fnv32a key = foldl (\<lambda>h c. (xor h (of_char c)) * 16777619) 2166136261 key"

definition shard :: "path \<Rightarrow> nat" where
  "shard key = unat (fnv32a key) mod numCacheShards"

definition NewFileCache :: "path \<Rightarrow> bool \<Rightarrow> FileCache" where
  "NewFileCache dir create = \<lparr>baseDir = dir, fcCreate = create, shards = replicate numCacheShards Map.empty\<rparr>"

definition NewReadCache :: "path \<Rightarrow> FileCache" where
  "NewReadCache dir = NewFileCache dir False"

definition NewWriteCache :: "path \<Rightarrow> FileCache" where
  "NewWriteCache dir = NewFileCache dir True"

definition entry :: "FileCache \<Rightarrow> path \<Rightarrow> fileEntry option" where
  "entry fc p = (shards fc ! shard p) p"

definition set_entry :: "FileCache \<Rightarrow> path \<Rightarrow> fileEntry option \<Rightarrow> FileCache" where
  "set_entry fc p e = fc\<lparr>shards := (shards fc)[shard p := (shards fc ! shard p)(p := e)]\<rparr>"

datatype cache_error = InvalidPath | MkdirFailed | OpenFileFailed | StatFailed | TruncateFailed | CloseFileFailed | SyncFileFailed

definition mkdir_all :: "FileCache \<Rightarrow> os_state \<Rightarrow> bool \<times> os_state" where
  "mkdir_all fc os = (if fcCreate fc then os_ok os else (True, os))"

text \<open>Growing a file to its size on the first open; a failure closes the handle.\<close>

definition grow_file :: "os_state \<Rightarrow> nat \<Rightarrow> int \<Rightarrow> os_state \<times> cache_error option" where
  "grow_file os h totalSize =
     (if totalSize \<le> 0 then (os, None)
      else case os_ok os of
        (False, os1) \<Rightarrow> (fst (os_close os1 h), Some StatFailed)
      | (True, os1) \<Rightarrow>
          (case handle_file os1 h of
             None \<Rightarrow> (fst (os_close os1 h), Some StatFailed)
           | Some f \<Rightarrow>
               if int (length (content f)) < totalSize
               then (case os_truncate os1 h (nat totalSize) of
                       (os2, True) \<Rightarrow> (os2, None)
                     | (os2, False) \<Rightarrow> (fst (os_close os2 h), Some TruncateFailed))
               else (os1, None)))"

definition Acquire :: "FileCache \<Rightarrow> os_state \<Rightarrow> path \<Rightarrow> int \<Rightarrow> FileCache \<times> os_state \<times> (cache_error + nat)" where
  "Acquire fc os relPath totalSize =
     (if contains (Clean relPath) ''..'' then (fc, os, Inl InvalidPath)
      else case entry fc relPath of
        Some e \<Rightarrow> (set_entry fc relPath (Some (e\<lparr>refCount := refCount e + 1\<rparr>)), os, Inr (entFile e))
      | None \<Rightarrow>
          (case mkdir_all fc os of
             (False, os1) \<Rightarrow> (fc, os1, Inl MkdirFailed)
           | (True, os1) \<Rightarrow>
               (case os_open (fcCreate fc) os1 (path_Join [baseDir fc, relPath]) of
                  (os2, None) \<Rightarrow> (fc, os2, Inl OpenFileFailed)
                | (os2, Some h) \<Rightarrow>
                    (case grow_file os2 h totalSize of
                       (os3, Some e) \<Rightarrow> (fc, os3, Inl e)
                     | (os3, None) \<Rightarrow> (set_entry fc relPath (Some \<lparr>entFile = h, refCount = 1\<rparr>), os3, Inr h)))))"

definition Release :: "FileCache \<Rightarrow> os_state \<Rightarrow> path \<Rightarrow> FileCache \<times> os_state \<times> cache_error option" where
  "Release fc os relPath =
     (case entry fc relPath of
        None \<Rightarrow> (fc, os, None)
      | Some e \<Rightarrow>
          if refCount e - 1 \<le> 0
          then (case os_close os (entFile e) of
                  (os1, ok) \<Rightarrow> (set_entry fc relPath None, os1, if ok then None else Some CloseFileFailed))
          else (set_entry fc relPath (Some (e\<lparr>refCount := refCount e - 1\<rparr>)), os, None))"

definition SyncAndRelease :: "FileCache \<Rightarrow> os_state \<Rightarrow> path \<Rightarrow> FileCache \<times> os_state \<times> cache_error option" where
  "SyncAndRelease fc os relPath =
     (case entry fc relPath of
        None \<Rightarrow> (fc, os, None)
      | Some e \<Rightarrow>
          let fc1 = set_entry fc relPath (Some (e\<lparr>refCount := refCount e + 1\<rparr>)) in
          case os_ok os of (synced, os1) \<Rightarrow>
          case Release fc1 os1 relPath of (fc2, os2, _) \<Rightarrow>
          case Release fc2 os2 relPath of (fc3, os3, relErr) \<Rightarrow>
          (fc3, os3, if synced then relErr else Some SyncFileFailed))"

text \<open>\<^verbatim>\<open>Close\<close> visits the entries of every shard in the order that \<^verbatim>\<open>range\<close> picks, an argument here.\<close>

fun close_entries :: "(path \<rightharpoonup> fileEntry) \<Rightarrow> path list \<Rightarrow> os_state \<Rightarrow> bool \<Rightarrow> (path \<rightharpoonup> fileEntry) \<times> os_state \<times> bool" where
  "close_entries m [] os err = (m, os, err)"
| "close_entries m (k # ks) os err =
     (case m k of
        None \<Rightarrow> close_entries m ks os err
      | Some e \<Rightarrow> (case os_close os (entFile e) of (os1, ok) \<Rightarrow> close_entries (m(k := None)) ks os1 (err \<or> \<not> ok)))"

fun close_shards :: "((path \<rightharpoonup> fileEntry) \<Rightarrow> path list) \<Rightarrow> (path \<rightharpoonup> fileEntry) list \<Rightarrow> os_state \<Rightarrow> bool \<Rightarrow>
    (path \<rightharpoonup> fileEntry) list \<times> os_state \<times> bool" where
  "close_shards order [] os err = ([], os, err)"
| "close_shards order (m # ms) os err =
     (case close_entries m (order m) os err of (m1, os1, err1) \<Rightarrow>
      case close_shards order ms os1 err1 of (ms1, os2, err2) \<Rightarrow> (m1 # ms1, os2, err2))"

definition cache_Close :: "((path \<rightharpoonup> fileEntry) \<Rightarrow> path list) \<Rightarrow> FileCache \<Rightarrow> os_state \<Rightarrow> FileCache \<times> os_state \<times> cache_error option" where
  "cache_Close order fc os =
     (case close_shards order (shards fc) os False of
        (ms, os1, err) \<Rightarrow> (fc\<lparr>shards := ms\<rparr>, os1, if err then Some CloseFileFailed else None))"

subsection \<open>The shards are one map\<close>

definition shards_ok :: "FileCache \<Rightarrow> bool" where
  "shards_ok fc \<longleftrightarrow> length (shards fc) = numCacheShards \<and>
     (\<forall>i p. i < numCacheShards \<longrightarrow> (shards fc ! i) p \<noteq> None \<longrightarrow> shard p = i)"

lemma shard_bound [simp]: "shard p < numCacheShards"
  by (simp add: shard_def numCacheShards_def)

lemma entry_set [simp]:
  "length (shards fc) = numCacheShards \<Longrightarrow> entry (set_entry fc p e) q = (if q = p then e else entry fc q)"
  by (simp add: entry_def set_entry_def nth_list_update)

lemma set_entry_fields [simp]: "baseDir (set_entry fc p e) = baseDir fc" "fcCreate (set_entry fc p e) = fcCreate fc"
  "length (shards (set_entry fc p e)) = length (shards fc)"
  by (simp_all add: set_entry_def)

lemma shards_ok_set: "shards_ok fc \<Longrightarrow> shards_ok (set_entry fc p e)"
  by (auto simp: shards_ok_def set_entry_def nth_list_update split: if_splits)

text \<open>
  The count of a path, and the invariant: every entry is counted, its handle is open, no two paths share
  one, and every open handle belongs to an entry.
\<close>

definition refs :: "FileCache \<Rightarrow> path \<Rightarrow> int" where
  "refs fc p = (case entry fc p of None \<Rightarrow> 0 | Some e \<Rightarrow> refCount e)"

definition cache_inv :: "FileCache \<Rightarrow> os_state \<Rightarrow> bool" where
  "cache_inv fc os \<longleftrightarrow> shards_ok fc \<and>
     (\<forall>p e. entry fc p = Some e \<longrightarrow> 1 \<le> refCount e \<and> osOpen os (entFile e) \<noteq> None) \<and>
     (\<forall>p q e f. entry fc p = Some e \<longrightarrow> entry fc q = Some f \<longrightarrow> entFile e = entFile f \<longrightarrow> p = q) \<and>
     (\<forall>h. osOpen os h \<noteq> None \<longrightarrow> h < osNextHandle os \<and> (\<exists>p e. entry fc p = Some e \<and> entFile e = h))"


lemma os_ok_fields:
  "os_ok os = (ok, os1) \<Longrightarrow> osDir os1 = osDir os \<and> osInode os1 = osInode os \<and> osOpen os1 = osOpen os \<and> osNextInode os1 = osNextInode os \<and>
     osNextHandle os1 = osNextHandle os \<and> osPlans os1 = osPlans os"
  by (auto simp: os_ok_def split: prod.splits)

lemma os_close_fields:
  "os_close os h = (os1, ok) \<Longrightarrow> osOpen os1 = (osOpen os)(h := None) \<and> osNextHandle os1 = osNextHandle os \<and> osInode os1 = osInode os \<and> osDir os1 = osDir os"
  using os_ok_fields by (auto simp: os_close_def split: prod.splits)

lemma os_open_fields:
  "os_open c os p = (os1, r) \<Longrightarrow>
     (case r of
        None \<Rightarrow> osOpen os1 = osOpen os \<and> osNextHandle os1 = osNextHandle os
      | Some h \<Rightarrow> h = osNextHandle os \<and> (\<exists>i. osOpen os1 = (osOpen os)(h \<mapsto> i)) \<and> osNextHandle os1 = Suc (osNextHandle os))"
proof -
  assume a: "os_open c os p = (os1, r)"
  obtain ok os2 where o: "os_ok os = (ok, os2)" by force
  then show ?thesis
    using a os_ok_fields [OF o] by (cases ok; cases "osDir os2 p"; cases c) (auto simp: os_open_def Let_def)
qed

lemma os_truncate_fields: "os_truncate os h n = (os1, ok) \<Longrightarrow> osOpen os1 = osOpen os \<and> osNextHandle os1 = osNextHandle os"
proof -
  assume a: "os_truncate os h n = (os1, ok)"
  obtain ok' os2 where o: "os_ok os = (ok', os2)" by force
  then show ?thesis using a os_ok_fields [OF o] by (cases ok'; cases "osOpen os2 h") (auto simp: os_truncate_def Let_def)
qed

lemma grow_file_fields:
  "grow_file os h n = (os1, r) \<Longrightarrow>
     osOpen os1 = (if r = None then osOpen os else (osOpen os)(h := None)) \<and> osNextHandle os1 = osNextHandle os"
proof -
  assume g: "grow_file os h n = (os1, r)"
  obtain ok os2 where o: "os_ok os = (ok, os2)" by force
  obtain os3 ok3 where t: "os_truncate os2 h (nat n) = (os3, ok3)" by force
  have c: "osOpen (fst (os_close x h)) = (osOpen x)(h := None)" "osNextHandle (fst (os_close x h)) = osNextHandle x" for x
    using os_close_fields [of x h "fst (os_close x h)" "snd (os_close x h)"] by simp_all
  show ?thesis
    using g o t c os_ok_fields [OF o] os_truncate_fields [OF t]
    by (auto simp: grow_file_def split: if_splits bool.splits option.splits)
qed

lemma inv_pos: "cache_inv fc os \<Longrightarrow> entry fc p = Some e \<Longrightarrow> 1 \<le> refCount e"
  by (simp add: cache_inv_def)

lemma inv_open: "cache_inv fc os \<Longrightarrow> entry fc p = Some e \<Longrightarrow> osOpen os (entFile e) \<noteq> None \<and> entFile e < osNextHandle os"
  unfolding cache_inv_def by metis

lemma inv_count:
  "cache_inv fc os \<Longrightarrow> entry fc p = Some e \<Longrightarrow> 1 \<le> n \<Longrightarrow> cache_inv (set_entry fc p (Some (e\<lparr>refCount := n\<rparr>))) os"
proof -
  assume inv: "cache_inv fc os" and e: "entry fc p = Some e" and n: "1 \<le> n"
  have len: "length (shards fc) = numCacheShards" using inv by (simp add: cache_inv_def shards_ok_def)
  show ?thesis
    unfolding cache_inv_def
  proof (intro conjI allI impI)
    show "shards_ok (set_entry fc p (Some (e\<lparr>refCount := n\<rparr>)))" using inv shards_ok_set by (simp add: cache_inv_def)
    show "1 \<le> refCount f" "osOpen os (entFile f) \<noteq> None" if "entry (set_entry fc p (Some (e\<lparr>refCount := n\<rparr>))) q = Some f" for q f
      using that inv e n len unfolding cache_inv_def by (auto split: if_splits)
    show "q = q'" if "entry (set_entry fc p (Some (e\<lparr>refCount := n\<rparr>))) q = Some f"
      "entry (set_entry fc p (Some (e\<lparr>refCount := n\<rparr>))) q' = Some f'" "entFile f = entFile f'" for q q' f f'
      using that inv e len unfolding cache_inv_def by (auto split: if_splits)
    fix h assume h: "osOpen os h \<noteq> None"
    then show "h < osNextHandle os" using inv by (simp add: cache_inv_def)
    obtain q f where "entry fc q = Some f" "entFile f = h" using inv h by (auto simp: cache_inv_def)
    then show "\<exists>q f. entry (set_entry fc p (Some (e\<lparr>refCount := n\<rparr>))) q = Some f \<and> entFile f = h" using e len by (cases "q = p") auto
  qed
qed

lemma inv_new:
  assumes "cache_inv fc os" "entry fc p = None" "osOpen os1 = (osOpen os)(osNextHandle os \<mapsto> i)" "osNextHandle os1 = Suc (osNextHandle os)"
  shows "cache_inv (set_entry fc p (Some \<lparr>entFile = osNextHandle os, refCount = 1\<rparr>)) os1"
proof -
  have len: "length (shards fc) = numCacheShards" using assms(1) by (simp add: cache_inv_def shards_ok_def)
  have fresh: "entFile f \<noteq> osNextHandle os" if "entry fc q = Some f" for q f using assms(1) that unfolding cache_inv_def by (metis less_irrefl)
  show ?thesis
    unfolding cache_inv_def
  proof (intro conjI allI impI)
    show "shards_ok (set_entry fc p (Some \<lparr>entFile = osNextHandle os, refCount = 1\<rparr>))" using assms(1) shards_ok_set by (simp add: cache_inv_def)
    show "1 \<le> refCount f" "osOpen os1 (entFile f) \<noteq> None"
      if "entry (set_entry fc p (Some \<lparr>entFile = osNextHandle os, refCount = 1\<rparr>)) q = Some f" for q f
      using that assms len unfolding cache_inv_def by (auto split: if_splits)
    show "q = q'" if "entry (set_entry fc p (Some \<lparr>entFile = osNextHandle os, refCount = 1\<rparr>)) q = Some f"
      "entry (set_entry fc p (Some \<lparr>entFile = osNextHandle os, refCount = 1\<rparr>)) q' = Some f'" "entFile f = entFile f'" for q q' f f'
      using that assms(1) fresh len unfolding cache_inv_def by (auto split: if_splits) metis
    fix h assume h: "osOpen os1 h \<noteq> None"
    then show "h < osNextHandle os1" using assms(1,3,4) by (auto simp: cache_inv_def less_Suc_eq split: if_splits)
    show "\<exists>q f. entry (set_entry fc p (Some \<lparr>entFile = osNextHandle os, refCount = 1\<rparr>)) q = Some f \<and> entFile f = h"
    proof (cases "h = osNextHandle os")
      case False
      then obtain q f where "entry fc q = Some f" "entFile f = h" using assms(1,3) h by (auto simp: cache_inv_def)
      then show ?thesis using assms(2) len by (cases "q = p") auto
    qed (use len in auto)
  qed
qed

lemma inv_drop:
  assumes "cache_inv fc os" "entry fc p = Some e" "osOpen os1 = (osOpen os)(entFile e := None)" "osNextHandle os1 = osNextHandle os"
  shows "cache_inv (set_entry fc p None) os1"
proof -
  have len: "length (shards fc) = numCacheShards" using assms(1) by (simp add: cache_inv_def shards_ok_def)
  have other: "entFile f \<noteq> entFile e" if "entry fc q = Some f" "q \<noteq> p" for q f using assms(1,2) that unfolding cache_inv_def by metis
  show ?thesis
    unfolding cache_inv_def
  proof (intro conjI allI impI)
    show "shards_ok (set_entry fc p None)" using assms(1) shards_ok_set by (simp add: cache_inv_def)
    show "1 \<le> refCount f" "osOpen os1 (entFile f) \<noteq> None" if "entry (set_entry fc p None) q = Some f" for q f
      using that assms len other unfolding cache_inv_def by (auto split: if_splits)
    show "q = q'" if "entry (set_entry fc p None) q = Some f" "entry (set_entry fc p None) q' = Some f'" "entFile f = entFile f'" for q q' f f'
      using that assms(1) len unfolding cache_inv_def by (auto split: if_splits)
    fix h assume h: "osOpen os1 h \<noteq> None"
    then have h': "osOpen os h \<noteq> None" "h \<noteq> entFile e" using assms(3) by (auto split: if_splits)
    then show "h < osNextHandle os1" using assms(1,4) by (simp add: cache_inv_def)
    obtain q f where "entry fc q = Some f" "entFile f = h" using assms(1) h' by (auto simp: cache_inv_def)
    then show "\<exists>q f. entry (set_entry fc p None) q = Some f \<and> entFile f = h" using assms(2) h' len by (cases "q = p") auto
  qed
qed

lemma inv_same: "cache_inv fc os \<Longrightarrow> osOpen os1 = osOpen os \<Longrightarrow> osNextHandle os1 = osNextHandle os \<Longrightarrow> cache_inv fc os1"
  by (simp add: cache_inv_def)

text \<open>Every operation keeps the invariant and counts.\<close>

lemma refs_set: "length (shards fc) = numCacheShards \<Longrightarrow>
    refs (set_entry fc p e) = (refs fc)(p := (case e of None \<Rightarrow> 0 | Some f \<Rightarrow> refCount f))"
  by (auto simp: refs_def fun_eq_iff)

lemma Acquire_spec:
  assumes "cache_inv fc os" "Acquire fc os p n = (fc1, os1, r)"
  shows "cache_inv fc1 os1 \<and> refs fc1 = (case r of Inl e \<Rightarrow> refs fc | Inr h \<Rightarrow> (refs fc)(p := refs fc p + 1))"
proof -
  have len: "length (shards fc) = numCacheShards" using assms(1) by (simp add: cache_inv_def shards_ok_def)
  show ?thesis
  proof (cases "contains (Clean p) ''..''")
    case True
    then show ?thesis using assms by (auto simp: Acquire_def)
  next
    case ok: False
    show ?thesis
    proof (cases "entry fc p")
      case (Some e)
      have "1 \<le> refCount e + 1" using inv_pos [OF assms(1) Some] by simp
      then show ?thesis
        using assms ok Some inv_count [OF assms(1) Some, of "refCount e + 1"] len
        by (auto simp: Acquire_def refs_set) (simp add: refs_def)
    next
      case None
      obtain mk os2 where m: "mkdir_all fc os = (mk, os2)" by force
      have m': "osOpen os2 = osOpen os" "osNextHandle os2 = osNextHandle os" using m os_ok_fields by (auto simp: mkdir_all_def split: if_splits)
      obtain os3 r3 where op: "os_open (fcCreate fc) os2 (path_Join [baseDir fc, p]) = (os3, r3)" by force
      show ?thesis
      proof (cases "mk \<and> r3 \<noteq> None")
        case False
        then show ?thesis using assms ok None m m' op os_open_fields [OF op] inv_same [OF assms(1)]
          by (cases mk; cases r3) (auto simp: Acquire_def)
      next
        case True
        then obtain h where h: "r3 = Some h" by auto
        obtain i where i: "h = osNextHandle os" "osOpen os3 = (osOpen os)(h \<mapsto> i)" "osNextHandle os3 = Suc (osNextHandle os)"
          using os_open_fields [OF op] h m' by auto
        obtain os4 r4 where g: "grow_file os3 h n = (os4, r4)" by force
        note gf = grow_file_fields [OF g]
        show ?thesis
        proof (cases r4)
          case None
          then have "osOpen os4 = (osOpen os)(osNextHandle os \<mapsto> i)" "osNextHandle os4 = Suc (osNextHandle os)" using gf i by auto
          from inv_new [OF assms(1) \<open>entry fc p = None\<close> this] show ?thesis
            using assms(2) ok \<open>entry fc p = None\<close> m True op h g None i(1) len by (auto simp: Acquire_def refs_set) (simp add: refs_def)
        next
          case (Some e)
          have "osOpen os (osNextHandle os) = None" using assms(1) by (auto simp: cache_inv_def)
          then have "osOpen os4 = osOpen os" "osNextHandle os4 = Suc (osNextHandle os)" using gf i Some by auto
          then have "cache_inv fc os4" using assms(1) by (auto simp: cache_inv_def less_Suc_eq)
          then show ?thesis using assms(2) ok None m True op h g Some by (auto simp: Acquire_def)
        qed
      qed
    qed
  qed
qed

lemma Release_spec:
  assumes "cache_inv fc os" "Release fc os p = (fc1, os1, r)"
  shows "cache_inv fc1 os1 \<and> refs fc1 = (refs fc)(p := max 0 (refs fc p - 1))"
proof -
  have len: "length (shards fc) = numCacheShards" using assms(1) by (simp add: cache_inv_def shards_ok_def)
  show ?thesis
  proof (cases "entry fc p")
    case None
    then show ?thesis using assms by (auto simp: Release_def refs_def)
  next
    case (Some e)
    show ?thesis
    proof (cases "refCount e - 1 \<le> 0")
      case True
      obtain os2 ok where c: "os_close os (entFile e) = (os2, ok)" by force
      note f = os_close_fields [OF c]
      have "cache_inv (set_entry fc p None) os2" by (rule inv_drop [OF assms(1) Some]) (use f in auto)
      then show ?thesis using assms(2) Some True c len by (auto simp: Release_def refs_set) (simp add: refs_def)
    next
      case False
      then show ?thesis
        using assms Some inv_count [OF assms(1) Some, of "refCount e - 1"] len
        by (auto simp: Release_def refs_set) (simp add: refs_def)
    qed
  qed
qed

lemma refs_nonneg: "cache_inv fc os \<Longrightarrow> 0 \<le> refs fc p"
  by (cases "entry fc p") (auto simp: refs_def dest: inv_pos)

lemma refs_pos: "cache_inv fc os \<Longrightarrow> 0 < refs fc p \<longleftrightarrow> entry fc p \<noteq> None"
  by (cases "entry fc p") (auto simp: refs_def dest: inv_pos)

lemma SyncAndRelease_spec:
  assumes "cache_inv fc os" "SyncAndRelease fc os p = (fc1, os1, r)"
  shows "cache_inv fc1 os1 \<and> refs fc1 = (refs fc)(p := max 0 (refs fc p - 1))"
proof (cases "entry fc p")
  case None
  then show ?thesis using assms by (auto simp: SyncAndRelease_def refs_def)
next
  case (Some e)
  have len: "length (shards fc) = numCacheShards" using assms(1) by (simp add: cache_inv_def shards_ok_def)
  note pos = inv_pos [OF assms(1) Some]
  let ?fc = "set_entry fc p (Some (e\<lparr>refCount := refCount e + 1\<rparr>))"
  obtain ok os2 where o: "os_ok os = (ok, os2)" by force
  have i1: "cache_inv ?fc os2"
    by (rule inv_same [OF inv_count [OF assms(1) Some]]) (use pos os_ok_fields [OF o] in auto)
  obtain fc3 os3 r3 where r1: "Release ?fc os2 p = (fc3, os3, r3)" by (metis prod_cases3)
  note i2 = Release_spec [OF i1 r1]
  obtain fc4 os4 r4 where r2: "Release fc3 os3 p = (fc4, os4, r4)" by (metis prod_cases3)
  note i3 = Release_spec [OF conjunct1 [OF i2] r2]
  have "refs ?fc = (refs fc)(p := refs fc p + 1)" "refs fc p = refCount e" using Some len by (auto simp: refs_set refs_def)
  then have "refs fc4 = (refs fc)(p := max 0 (refs fc p - 1))" using i2 i3 pos by (auto simp: fun_eq_iff)
  moreover have "fc1 = fc4" "os1 = os4" using assms(2) Some o r1 r2 by (auto simp: SyncAndRelease_def)
  ultimately show ?thesis using i3 by simp
qed


subsection \<open>Closing the cache\<close>

lemma close_entries_spec:
  "close_entries m ks os err = (m1, os1, err1) \<Longrightarrow>
     m1 = m |` (- set ks) \<and> osOpen os1 = (osOpen os) |` (- (entFile ` {e. \<exists>k\<in>set ks. m k = Some e})) \<and> osNextHandle os1 = osNextHandle os"
proof (induction m ks os err rule: close_entries.induct)
  case (2 m k ks os err)
  show ?case
  proof (cases "m k")
    case None
    then have "close_entries m ks os err = (m1, os1, err1)" using "2.prems" by simp
    note ih = "2.IH"(1) [OF None this]
    then show ?thesis using None by (auto simp: restrict_map_def fun_eq_iff)
  next
    case (Some e)
    obtain os2 ok where c: "os_close os (entFile e) = (os2, ok)" by force
    note f = os_close_fields [OF c]
    have "close_entries (m(k := None)) ks os2 (err \<or> \<not> ok) = (m1, os1, err1)" using "2.prems" Some c by simp
    note ih = "2.IH"(2) [OF Some c [symmetric] this]
    have "m1 = m |` (- set (k # ks))" using ih by (auto simp: restrict_map_def fun_eq_iff)
    moreover have "osOpen os1 = (osOpen os) |` (- (entFile ` {e. \<exists>k\<in>set (k # ks). m k = Some e}))"
    proof -
      let ?E = "{e. \<exists>k'\<in>set ks. (m(k := None)) k' = Some e}"
      have "{e. \<exists>k\<in>set (k # ks). m k = Some e} = insert e ?E" using Some by (auto split: if_splits) (metis option.inject)
      then show ?thesis using ih f by (simp add: restrict_map_def fun_eq_iff)
    qed
    ultimately show ?thesis using ih f by simp
  qed
qed (simp add: restrict_map_def)

lemma close_shards_spec:
  "close_shards order ms os err = (ms1, os1, err1) \<Longrightarrow> \<forall>m\<in>set ms. dom m \<subseteq> set (order m) \<Longrightarrow>
     ms1 = replicate (length ms) Map.empty \<and> osOpen os1 = (osOpen os) |` (- (entFile ` {e. \<exists>m\<in>set ms. e \<in> ran m})) \<and>
     osNextHandle os1 = osNextHandle os"
proof (induction order ms os err arbitrary: ms1 rule: close_shards.induct)
  case (2 order m ms os err)
  obtain m1 os2 err2 where c: "close_entries m (order m) os err = (m1, os2, err2)" by (metis prod_cases3)
  obtain ms2 os3 err3 where s: "close_shards order ms os2 err2 = (ms2, os3, err3)" by (metis prod_cases3)
  note cs = close_entries_spec [OF c]
  have ih: "ms2 = replicate (length ms) Map.empty \<and> osOpen os3 = (osOpen os2) |` (- (entFile ` {e. \<exists>m\<in>set ms. e \<in> ran m})) \<and>
     osNextHandle os3 = osNextHandle os2"
    using "2.IH" [OF c [symmetric] refl] s "2.prems" c by auto
  have "m1 = Map.empty" using cs "2.prems"(2) by (auto simp: restrict_map_def fun_eq_iff)
  moreover have "{e. \<exists>k\<in>set (order m). m k = Some e} = ran m" using "2.prems"(2) by (auto simp: ran_def dom_def)
  ultimately show ?case using "2.prems"(1) c s cs ih by (auto simp: restrict_map_def fun_eq_iff)
qed (simp add: restrict_map_def)

lemma cache_Close_spec:
  assumes "cache_inv fc os" "\<forall>m\<in>set (shards fc). dom m \<subseteq> set (order m)" "cache_Close order fc os = (fc1, os1, r)"
  shows "entry fc1 p = None" "osOpen os1 = Map.empty"
proof -
  obtain ms os2 err where c: "close_shards order (shards fc) os False = (ms, os2, err)" by (metis prod_cases3)
  note cs = close_shards_spec [OF c assms(2)]
  have len: "length (shards fc) = numCacheShards" using assms(1) by (simp add: cache_inv_def shards_ok_def)
  show "entry fc1 p = None" using assms(3) c cs len by (auto simp: cache_Close_def entry_def)
  have "osOpen os2 h = None" for h
  proof (cases "osOpen os h")
    case (Some i)
    then obtain p e where "entry fc p = Some e" "entFile e = h" using assms(1) by (auto simp: cache_inv_def)
    then have "\<exists>m\<in>set (shards fc). e \<in> ran m" using len by (auto simp: entry_def ran_def intro!: bexI [of _ "shards fc ! shard p"])
    then show ?thesis using cs \<open>entFile e = h\<close> by (auto simp: restrict_map_def)
  qed (use cs in \<open>simp add: restrict_map_def\<close>)
  then show "osOpen os1 = Map.empty" using assms(3) c by (auto simp: cache_Close_def fun_eq_iff)
qed

subsection \<open>The interface of the cache, and the reader\<close>

text \<open>What a client relies on: an acquisition that succeeds adds one reference, a release removes one.\<close>

locale handle_cache =
  fixes inv :: "'s \<Rightarrow> bool"
    and acq :: "'s \<Rightarrow> path \<Rightarrow> 's \<times> ('e + 'h)"
    and rel :: "'s \<Rightarrow> path \<Rightarrow> 's"
    and count :: "'s \<Rightarrow> path \<Rightarrow> int"
  assumes acq_inv: "inv s \<Longrightarrow> acq s p = (s', r) \<Longrightarrow> inv s'"
    and acq_count: "inv s \<Longrightarrow> acq s p = (s', r) \<Longrightarrow>
      count s' = (case r of Inl e \<Rightarrow> count s | Inr h \<Rightarrow> (count s)(p := count s p + 1))"
    and rel_inv: "inv s \<Longrightarrow> inv (rel s p)"
    and rel_count: "inv s \<Longrightarrow> count (rel s p) = (count s)(p := max 0 (count s p - 1))"

text \<open>
  The reader keeps one reference per file: it acquires the file for every read and gives the reference
  back if it already had one.
\<close>

definition reader_open :: "('s \<Rightarrow> path \<Rightarrow> 's \<times> ('e + 'h)) \<Rightarrow> ('s \<Rightarrow> path \<Rightarrow> 's) \<Rightarrow> 's \<times> path set \<Rightarrow> path \<Rightarrow> ('s \<times> path set) \<times> ('e + 'h)" where
  "reader_open acq rel r p =
     (case acq (fst r) p of
        (s, Inl e) \<Rightarrow> ((s, snd r), Inl e)
      | (s, Inr h) \<Rightarrow> (if p \<in> snd r then ((rel s p, snd r), Inr h) else ((s, insert p (snd r)), Inr h)))"

definition reader_CloseFile :: "('s \<Rightarrow> path \<Rightarrow> 's) \<Rightarrow> 's \<times> path set \<Rightarrow> path \<Rightarrow> 's \<times> path set" where
  "reader_CloseFile rel r p = (rel (fst r) p, snd r - {p})"

context handle_cache
begin

definition holds_one :: "'s \<times> path set \<Rightarrow> bool" where
  "holds_one r \<longleftrightarrow> inv (fst r) \<and> (\<forall>p. count (fst r) p = (if p \<in> snd r then 1 else 0))"

lemma open_holds_one:
  assumes "holds_one r" "reader_open acq rel r p = (r', x)"
  shows "holds_one r'"
proof -
  obtain s y where a: "acq (fst r) p = (s, y)" by force
  have i: "inv (fst r)" "inv s" using assms(1) a acq_inv by (auto simp: holds_one_def)
  note c = acq_count [OF i(1) a] rel_count [OF i(2), of p] rel_inv [OF i(2), of p]
  show ?thesis using assms a i c by (auto simp: holds_one_def reader_open_def split: sum.splits if_splits)
qed

lemma close_holds_one: "holds_one r \<Longrightarrow> holds_one (reader_CloseFile rel r p)"
  using rel_count [of "fst r" p] rel_inv [of "fst r" p] by (auto simp: holds_one_def reader_CloseFile_def)

end


definition cache_acq :: "FileCache \<times> os_state \<Rightarrow> path \<Rightarrow> (FileCache \<times> os_state) \<times> (cache_error + nat)" where
  "cache_acq s p = (case Acquire (fst s) (snd s) p 0 of (fc, os, r) \<Rightarrow> ((fc, os), r))"

definition cache_rel :: "FileCache \<times> os_state \<Rightarrow> path \<Rightarrow> FileCache \<times> os_state" where
  "cache_rel s p = (case Release (fst s) (snd s) p of (fc, os, _) \<Rightarrow> (fc, os))"

interpretation fcache: handle_cache "\<lambda>s. cache_inv (fst s) (snd s)" cache_acq cache_rel "\<lambda>s. refs (fst s)"
proof
  fix s p s' and r :: "cache_error + nat"
  assume inv: "cache_inv (fst s) (snd s)"
  obtain fc os x where a: "Acquire (fst s) (snd s) p 0 = (fc, os, x)" by (metis prod_cases3)
  obtain fc' os' y where b: "Release (fst s) (snd s) p = (fc', os', y)" by (metis prod_cases3)
  show "cache_inv (fst s') (snd s')" if "cache_acq s p = (s', r)" using that a Acquire_spec [OF inv a] by (auto simp: cache_acq_def)
  show "refs (fst s') = (case r of Inl e \<Rightarrow> refs (fst s) | Inr h \<Rightarrow> (refs (fst s))(p := refs (fst s) p + 1))" if "cache_acq s p = (s', r)"
    using that a Acquire_spec [OF inv a] by (auto simp: cache_acq_def)
  show "cache_inv (fst (cache_rel s p)) (snd (cache_rel s p))" using b Release_spec [OF inv b] by (simp add: cache_rel_def)
  show "refs (fst (cache_rel s p)) = (refs (fst s))(p := max 0 (refs (fst s) p - 1))" using b Release_spec [OF inv b] by (simp add: cache_rel_def)
qed

subsection \<open>Handles and names\<close>

text \<open>The handle of an entry refers to the file its path names.\<close>

definition names_ok :: "FileCache \<Rightarrow> os_state \<Rightarrow> bool" where
  "names_ok fc os \<longleftrightarrow> (\<forall>p e. entry fc p = Some e \<longrightarrow> osOpen os (entFile e) = osDir os (path_Join [baseDir fc, p])) \<and>
     (\<forall>p i. osDir os p = Some i \<longrightarrow> i < osNextInode os)"

lemma os_open_dir:
  assumes "os_open c os p = (os1, Some h)" "\<forall>p i. osDir os p = Some i \<longrightarrow> i < osNextInode os"
  shows "osOpen os1 h = osDir os1 p \<and> (\<forall>q. osDir os q \<noteq> None \<longrightarrow> osDir os1 q = osDir os q) \<and>
    (\<forall>p i. osDir os1 p = Some i \<longrightarrow> i < osNextInode os1) \<and> osDir os1 p \<noteq> None \<and>
    (\<forall>i. i < osNextInode os \<longrightarrow> osInode os1 i = osInode os i)"
proof -
  obtain ok os2 where o: "os_ok os = (ok, os2)" by force
  then have ok: ok using assms(1) by (cases ok) (auto simp: os_open_def)
  note f = os_ok_fields [OF o]
  show ?thesis
  proof (cases "osDir os2 p")
    case None
    then show ?thesis using assms o f ok by (auto simp: os_open_def Let_def less_Suc_eq split: if_splits)
  next
    case (Some i)
    then show ?thesis using assms o f ok by (auto simp: os_open_def)
  qed
qed

lemma os_open_none: "os_open c os p = (os1, None) \<Longrightarrow> osDir os1 = osDir os \<and> osInode os1 = osInode os \<and> osNextInode os1 = osNextInode os"
proof -
  assume a: "os_open c os p = (os1, None)"
  obtain ok os2 where o: "os_ok os = (ok, os2)" by force
  then show ?thesis using a os_ok_fields [OF o] by (cases ok; cases "osDir os2 p"; cases c) (auto simp: os_open_def Let_def)
qed

lemma os_close_dir: "osDir (fst (os_close os h)) = osDir os \<and> osNextInode (fst (os_close os h)) = osNextInode os"
proof -
  obtain ok os2 where o: "os_ok os = (ok, os2)" by force
  then show ?thesis using os_ok_fields [OF o] by (simp add: os_close_def)
qed

lemma grow_file_dir: "grow_file os h n = (os1, r) \<Longrightarrow> osDir os1 = osDir os \<and> osNextInode os1 = osNextInode os"
proof -
  assume g: "grow_file os h n = (os1, r)"
  obtain ok os2 where o: "os_ok os = (ok, os2)" by force
  obtain ok3 os3 where t: "os_ok os2 = (ok3, os3)" by force
  show ?thesis
    using g o t os_close_dir os_ok_fields [OF o] os_ok_fields [OF t]
    by (auto simp: grow_file_def os_truncate_def Let_def split: if_splits bool.splits option.splits)
qed

lemma Acquire_cases:
  assumes "Acquire fc os p n = (fc1, os1, r)"
  obtains (failed) e where "fc1 = fc" "r = Inl e" "osDir os1 = osDir os" "osOpen os1 = osOpen os" "osInode os1 = osInode os" "osNextInode os1 = osNextInode os"
  | (cached) e where "entry fc p = Some e" "fc1 = set_entry fc p (Some (e\<lparr>refCount := refCount e + 1\<rparr>))" "os1 = os" "r = Inr (entFile e)"
  | (opened) os2 os3 h g where "entry fc p = None" "osDir os2 = osDir os" "osOpen os2 = osOpen os" "osInode os2 = osInode os"
      "osNextInode os2 = osNextInode os" "osNextHandle os2 = osNextHandle os"
      "os_open (fcCreate fc) os2 (path_Join [baseDir fc, p]) = (os3, Some h)" "grow_file os3 h n = (os1, g)"
      "(fc1, r) = (case g of None \<Rightarrow> (set_entry fc p (Some \<lparr>entFile = h, refCount = 1\<rparr>), Inr h) | Some e \<Rightarrow> (fc, Inl e))"
proof -
  obtain mk os2 where m: "mkdir_all fc os = (mk, os2)" by force
  have m': "osDir os2 = osDir os" "osOpen os2 = osOpen os" "osInode os2 = osInode os" "osNextInode os2 = osNextInode os" "osNextHandle os2 = osNextHandle os"
    using m os_ok_fields [of os] by (auto simp: mkdir_all_def split: if_splits)
  obtain os3 r3 where op: "os_open (fcCreate fc) os2 (path_Join [baseDir fc, p]) = (os3, r3)" by force
  consider "contains (Clean p) ''..''" | e where "\<not> contains (Clean p) ''..''" "entry fc p = Some e"
    | "\<not> contains (Clean p) ''..''" "entry fc p = None" by (cases "entry fc p") auto
  then show thesis
  proof cases
    case 1
    then show ?thesis using assms failed by (auto simp: Acquire_def)
  next
    case (2 e)
    then show ?thesis using assms cached [of e] by (auto simp: Acquire_def)
  next
    case 3
    show ?thesis
    proof (cases "mk \<and> r3 \<noteq> None")
      case False
      then show ?thesis
        using assms 3 m m' op failed os_open_none [of "fcCreate fc" os2 _ os3] os_open_fields [OF op] by (cases mk; cases r3) (auto simp: Acquire_def)
    next
      case True
      then obtain h where h: "r3 = Some h" by auto
      obtain os4 g where g: "grow_file os3 h n = (os4, g)" by force
      have "os4 = os1" "(fc1, r) = (case g of None \<Rightarrow> (set_entry fc p (Some \<lparr>entFile = h, refCount = 1\<rparr>), Inr h) | Some e \<Rightarrow> (fc, Inl e))"
        using assms 3 m True op h g by (cases g; auto simp: Acquire_def)+
      then show ?thesis using opened [OF 3(2) m' op [unfolded h]] g by simp
    qed
  qed
qed

lemma Acquire_names:
  assumes "cache_inv fc os" "names_ok fc os" "Acquire fc os p n = (fc1, os1, r)"
  shows "names_ok fc1 os1 \<and> (\<forall>h. r = Inr h \<longrightarrow> (\<exists>e. entry fc1 p = Some e \<and> entFile e = h))"
  using assms(3)
proof (cases rule: Acquire_cases)
  case (failed e)
  then show ?thesis using assms(2) by (simp add: names_ok_def)
next
  case (cached e)
  have len: "length (shards fc) = numCacheShards" using assms(1) by (simp add: cache_inv_def shards_ok_def)
  show ?thesis using cached assms(2) len by (auto simp: names_ok_def split: if_splits)
next
  case (opened os2 os3 h g)
  have len: "length (shards fc) = numCacheShards" using assms(1) by (simp add: cache_inv_def shards_ok_def)
  have nx: "\<forall>p i. osDir os2 p = Some i \<longrightarrow> i < osNextInode os2" using assms(2) opened(2,5) by (simp add: names_ok_def)
  note d = os_open_dir [OF opened(7) nx] and gd = grow_file_dir [OF opened(8)] and gf = grow_file_fields [OF opened(8)]
  have of: "h = osNextHandle os" "\<exists>i. osOpen os3 = (osOpen os)(h \<mapsto> i)" using os_open_fields [OF opened(7)] opened(3,6) by auto
  have old: "osOpen os1 (entFile e) = osDir os1 (path_Join [baseDir fc, q])" if e: "entry fc q = Some e" for q e
  proof -
    have ne: "entFile e \<noteq> h" "osOpen os (entFile e) \<noteq> None" using inv_open [OF assms(1) e] of(1) by auto
    then have "osOpen os1 (entFile e) = osOpen os (entFile e)" using gf of(2) by (auto split: if_splits)
    moreover have eq: "osOpen os (entFile e) = osDir os (path_Join [baseDir fc, q])" using assms(2) e by (simp add: names_ok_def)
    ultimately show ?thesis using d gd opened(2) ne(2) by metis
  qed
  show ?thesis
  proof (cases g)
    case None
    then have r: "fc1 = set_entry fc p (Some \<lparr>entFile = h, refCount = 1\<rparr>)" "r = Inr h" using opened(9) by auto
    have "osOpen os1 h = osDir os1 (path_Join [baseDir fc, p])" using d gd gf None by simp
    then show ?thesis using r old d gd len by (auto simp: names_ok_def split: if_splits)
  next
    case (Some e)
    then show ?thesis using opened(9) old d gd by (auto simp: names_ok_def)
  qed
qed

lemma Release_names:
  assumes "cache_inv fc os" "names_ok fc os" "Release fc os p = (fc1, os1, r)"
  shows "names_ok fc1 os1"
proof -
  have len: "length (shards fc) = numCacheShards" using assms(1) by (simp add: cache_inv_def shards_ok_def)
  show ?thesis
  proof (cases "entry fc p")
    case None
    then show ?thesis using assms by (auto simp: Release_def)
  next
    case (Some e)
    have other: "entFile f \<noteq> entFile e" if "entry fc q = Some f" "q \<noteq> p" for q f using assms(1) Some that unfolding cache_inv_def by metis
    obtain os2 ok where c: "os_close os (entFile e) = (os2, ok)" by force
    have d: "osDir os2 = osDir os" "osNextInode os2 = osNextInode os" "osOpen os2 = (osOpen os)(entFile e := None)"
      using os_close_dir [of os "entFile e"] os_close_fields [OF c] c by auto
    show ?thesis using assms(2,3) Some c d other len by (auto simp: Release_def names_ok_def split: if_splits)
  qed
qed


lemma entries_open:
  assumes "cache_inv fc os"
  shows "bij_betw (\<lambda>p. entFile (the (entry fc p))) {p. 0 < refs fc p} (dom (osOpen os))"
  unfolding bij_betw_def
proof
  show "inj_on (\<lambda>p. entFile (the (entry fc p))) {p. 0 < refs fc p}"
    using assms refs_pos [OF assms] unfolding inj_on_def cache_inv_def by (metis (no_types, lifting) mem_Collect_eq option.collapse)
  have "h \<in> (\<lambda>p. entFile (the (entry fc p))) ` {p. 0 < refs fc p}" if h: "osOpen os h \<noteq> None" for h
  proof -
    obtain p e where "entry fc p = Some e" "entFile e = h" using assms h unfolding cache_inv_def by blast
    then show ?thesis using refs_pos [OF assms, of p] by (intro image_eqI [of _ _ p]) auto
  qed
  then show "(\<lambda>p. entFile (the (entry fc p))) ` {p. 0 < refs fc p} = dom (osOpen os)"
    using refs_pos [OF assms] inv_open [OF assms] by fastforce
qed

lemma inv_start: "osOpen os = Map.empty \<Longrightarrow> cache_inv (NewFileCache d c) os"
  by (simp add: cache_inv_def shards_ok_def NewFileCache_def entry_def)

lemma refs_start: "refs (NewFileCache d c) = (\<lambda>_. 0)"
  by (simp add: NewFileCache_def entry_def refs_def fun_eq_iff)

subsection \<open>Correctness\<close>

datatype cache_op = OpAcquire path int | OpRelease path | OpSync path

text \<open>A run of operations on the cache, next to the counts a plain map would have.\<close>

fun cache_run :: "cache_op list \<Rightarrow> (FileCache \<times> os_state) \<times> (path \<Rightarrow> int) \<Rightarrow> (FileCache \<times> os_state) \<times> (path \<Rightarrow> int)" where
  "cache_run [] x = x"
| "cache_run (OpAcquire p n # ops) ((fc, os), c) =
     (case Acquire fc os p n of
        (fc1, os1, Inl e) \<Rightarrow> cache_run ops ((fc1, os1), c)
      | (fc1, os1, Inr h) \<Rightarrow> cache_run ops ((fc1, os1), c(p := c p + 1)))"
| "cache_run (OpRelease p # ops) ((fc, os), c) =
     (case Release fc os p of (fc1, os1, _) \<Rightarrow> cache_run ops ((fc1, os1), c(p := max 0 (c p - 1))))"
| "cache_run (OpSync p # ops) ((fc, os), c) =
     (case SyncAndRelease fc os p of (fc1, os1, _) \<Rightarrow> cache_run ops ((fc1, os1), c(p := max 0 (c p - 1))))"

lemma cache_run_spec:
  "cache_run ops ((fc, os), c) = ((fc', os'), c') \<Longrightarrow> cache_inv fc os \<and> refs fc = c \<Longrightarrow> cache_inv fc' os' \<and> refs fc' = c'"
proof (induction ops arbitrary: fc os c)
  case (Cons op ops)
  show ?case
  proof (cases op)
    case (OpAcquire p n)
    obtain fc1 os1 r where a: "Acquire fc os p n = (fc1, os1, r)" by (metis prod_cases3)
    note sp = Acquire_spec [OF conjunct1 [OF Cons.prems(2)] a]
    show ?thesis
    proof (cases r)
      case (Inl e)
      then have "cache_run ops ((fc1, os1), c) = ((fc', os'), c')" using Cons.prems(1) OpAcquire a by simp
      from Cons.IH [OF this] show ?thesis using sp Inl Cons.prems(2) by simp
    next
      case (Inr h)
      then have "cache_run ops ((fc1, os1), c(p := c p + 1)) = ((fc', os'), c')" using Cons.prems(1) OpAcquire a by simp
      from Cons.IH [OF this] show ?thesis using sp Inr Cons.prems(2) by simp
    qed
  next
    case (OpRelease p)
    obtain fc1 os1 r where a: "Release fc os p = (fc1, os1, r)" by (metis prod_cases3)
    then have "cache_run ops ((fc1, os1), c(p := max 0 (c p - 1))) = ((fc', os'), c')" using Cons.prems(1) OpRelease by simp
    from Cons.IH [OF this] show ?thesis using Release_spec [OF conjunct1 [OF Cons.prems(2)] a] Cons.prems(2) by simp
  next
    case (OpSync p)
    obtain fc1 os1 r where a: "SyncAndRelease fc os p = (fc1, os1, r)" by (metis prod_cases3)
    then have "cache_run ops ((fc1, os1), c(p := max 0 (c p - 1))) = ((fc', os'), c')" using Cons.prems(1) OpSync by simp
    from Cons.IH [OF this] show ?thesis using SyncAndRelease_spec [OF conjunct1 [OF Cons.prems(2)] a] Cons.prems(2) by simp
  qed
qed simp

text \<open>
  C13: the sharded cache is a map of counters.  After any operations, with any calls failing, the
  count of every path is what its successful acquisitions and its releases make it, never negative;
  and the open handles are exactly one per path with a positive count.
\<close>

theorem file_cache_refines:
  "case cache_run ops ((NewFileCache d cr, os\<lparr>osOpen := Map.empty\<rparr>), \<lambda>_. 0) of ((fc, os'), c) \<Rightarrow>
     refs fc = c \<and> (\<forall>p. 0 \<le> c p) \<and> bij_betw (\<lambda>p. entFile (the (entry fc p))) {p. 0 < c p} (dom (osOpen os'))"
proof -
  obtain fc os' c where r: "cache_run ops ((NewFileCache d cr, os\<lparr>osOpen := Map.empty\<rparr>), \<lambda>_. 0) = ((fc, os'), c)" by (metis surj_pair)
  have "cache_inv fc os' \<and> refs fc = c" by (rule cache_run_spec [OF r]) (simp add: inv_start refs_start)
  then show ?thesis using r entries_open [of fc os'] refs_nonneg [of fc os'] by auto
qed

text \<open>The reader: \<^verbatim>\<open>ReadAt\<close> reads up to the length, a read at the end of the file returns fewer bytes.\<close>

datatype read_error = ReadOpenFailed cache_error | PreadFailed

definition os_read :: "os_state \<Rightarrow> nat \<Rightarrow> nat \<Rightarrow> nat \<Rightarrow> os_state \<times> bytes option" where
  "os_read os h off n =
     (case os_ok os of
        (False, os1) \<Rightarrow> (os1, None)
      | (True, os1) \<Rightarrow> (os1, map_option (\<lambda>f. take n (drop off (content f))) (handle_file os1 h)))"

type_synonym reader_state = "(FileCache \<times> os_state) \<times> path set"

definition newCephFSReader :: "path \<Rightarrow> os_state \<Rightarrow> reader_state" where
  "newCephFSReader d os = ((NewReadCache d, os), {})"

definition CephFSReader_ReadAt :: "reader_state \<Rightarrow> path \<Rightarrow> nat \<Rightarrow> nat \<Rightarrow> reader_state \<times> (read_error + bytes)" where
  "CephFSReader_ReadAt r p off n =
     (case reader_open cache_acq cache_rel r p of
        (r1, Inl e) \<Rightarrow> (r1, Inl (ReadOpenFailed e))
      | (r1, Inr h) \<Rightarrow>
          (case os_read (snd (fst r1)) h off n of
             (os, None) \<Rightarrow> (((fst (fst r1), os), snd r1), Inl PreadFailed)
           | (os, Some d) \<Rightarrow> (((fst (fst r1), os), snd r1), Inr d)))"

definition CephFSReader_CloseFile :: "reader_state \<Rightarrow> path \<Rightarrow> reader_state" where
  "CephFSReader_CloseFile r p = reader_CloseFile cache_rel r p"

datatype reader_op = RdRead path nat nat | RdClose path

fun reader_run :: "reader_op list \<Rightarrow> reader_state \<Rightarrow> reader_state" where
  "reader_run [] r = r"
| "reader_run (RdRead p off n # ops) r = reader_run ops (fst (CephFSReader_ReadAt r p off n))"
| "reader_run (RdClose p # ops) r = reader_run ops (CephFSReader_CloseFile r p)"

definition reader_ok :: "reader_state \<Rightarrow> bool" where
  "reader_ok r \<longleftrightarrow> fcache.holds_one r \<and> names_ok (fst (fst r)) (snd (fst r))"

lemma os_read_fields:
  "os_read os h off n = (os1, r) \<Longrightarrow> osOpen os1 = osOpen os \<and> osNextHandle os1 = osNextHandle os \<and> osDir os1 = osDir os \<and> osNextInode os1 = osNextInode os \<and>
     osInode os1 = osInode os \<and> (\<forall>d. r = Some d \<longrightarrow> (\<exists>f. handle_file os h = Some f \<and> d = take n (drop off (content f))))"
proof -
  assume a: "os_read os h off n = (os1, r)"
  obtain ok os2 where o: "os_ok os = (ok, os2)" by force
  then show ?thesis using a os_ok_fields [OF o] by (cases ok) (auto simp: os_read_def handle_file_def)
qed


lemma reader_open_names:
  assumes "cache_inv (fst (fst r)) (snd (fst r))" "names_ok (fst (fst r)) (snd (fst r))" "reader_open cache_acq cache_rel r p = (r1, x)"
    and "\<forall>p. refs (fst (fst r)) p = (if p \<in> snd r then 1 else 0)"
  shows "names_ok (fst (fst r1)) (snd (fst r1)) \<and> (\<forall>h. x = Inr h \<longrightarrow> (\<exists>e. entry (fst (fst r1)) p = Some e \<and> entFile e = h))"
proof -
  obtain fc os y where a: "Acquire (fst (fst r)) (snd (fst r)) p 0 = (fc, os, y)" by (metis prod_cases3)
  note sp = Acquire_spec [OF assms(1) a] and nm = Acquire_names [OF assms(1,2) a]
  obtain fc2 os2 z where b: "Release fc os p = (fc2, os2, z)" by (metis prod_cases3)
  note rn = Release_names [OF conjunct1 [OF sp] conjunct1 [OF nm] b]
  show ?thesis
  proof (cases y)
    case (Inl e)
    then show ?thesis using assms(3) a nm by (auto simp: reader_open_def cache_acq_def)
  next
    case (Inr h)
    obtain e where e: "entry fc p = Some e" "entFile e = h" using nm Inr by auto
    have "entry fc2 p = Some (e\<lparr>refCount := refCount e - 1\<rparr>)" if "p \<in> snd r"
    proof -
      have "refs fc p = 2" using sp Inr assms(4) that by simp
      then have "refCount e = 2" using e by (simp add: refs_def)
      moreover have "length (shards fc) = numCacheShards" using sp by (simp add: cache_inv_def shards_ok_def)
      ultimately show ?thesis using b e by (auto simp: Release_def)
    qed
    then show ?thesis using assms(3) a b nm rn e Inr by (auto simp: reader_open_def cache_acq_def cache_rel_def split: if_splits)
  qed
qed

lemma ReadAt_ok:
  assumes "reader_ok r" "CephFSReader_ReadAt r p off n = (r1, x)"
  shows "reader_ok r1 \<and> (\<forall>d. x = Inr d \<longrightarrow>
    (\<exists>i. osDir (snd (fst r1)) (path_Join [baseDir (fst (fst r1)), p]) = Some i \<and> d = take n (drop off (content (osInode (snd (fst r1)) i)))))"
proof -
  obtain r2 y where o: "reader_open cache_acq cache_rel r p = (r2, y)" by (meson surj_pair)
  have r: "cache_inv (fst (fst r)) (snd (fst r))" "names_ok (fst (fst r)) (snd (fst r))" "fcache.holds_one r"
    "\<forall>p. refs (fst (fst r)) p = (if p \<in> snd r then 1 else 0)"
    using assms(1) by (auto simp: reader_ok_def fcache.holds_one_def)
  note h1 = fcache.open_holds_one [OF r(3) o] and nm = reader_open_names [OF r(1,2) o r(4)]
  show ?thesis
  proof (cases y)
    case (Inl e)
    then show ?thesis using assms(2) o h1 nm by (auto simp: CephFSReader_ReadAt_def reader_ok_def)
  next
    case (Inr h)
    obtain os z where rd: "os_read (snd (fst r2)) h off n = (os, z)" by force
    note f = os_read_fields [OF rd]
    have r1: "r1 = ((fst (fst r2), os), snd r2)" using assms(2) o Inr rd by (auto simp: CephFSReader_ReadAt_def split: option.splits)
    have "cache_inv (fst (fst r2)) os" by (rule inv_same) (use h1 f in \<open>auto simp: fcache.holds_one_def\<close>)
    then have "reader_ok r1"
      using h1 nm f r1 by (auto simp: reader_ok_def fcache.holds_one_def names_ok_def)
    moreover obtain e where e: "entry (fst (fst r2)) p = Some e" "entFile e = h" using nm Inr by auto
    then have "osOpen os h = osDir os (path_Join [baseDir (fst (fst r2)), p])" using nm f by (auto simp: names_ok_def)
    ultimately show ?thesis
      using assms(2) o Inr rd f r1 by (auto simp: CephFSReader_ReadAt_def handle_file_def split: option.splits)
  qed
qed

lemma CloseFile_ok: "reader_ok r \<Longrightarrow> reader_ok (CephFSReader_CloseFile r p)"
proof -
  assume r: "reader_ok r"
  obtain fc os z where b: "Release (fst (fst r)) (snd (fst r)) p = (fc, os, z)" by (metis prod_cases3)
  have "names_ok fc os" using Release_names [OF _ _ b] r by (simp add: reader_ok_def fcache.holds_one_def)
  then show ?thesis
    using fcache.close_holds_one [of r p] r b by (simp add: reader_ok_def CephFSReader_CloseFile_def reader_CloseFile_def cache_rel_def)
qed

lemma reader_run_ok: "reader_ok r \<Longrightarrow> reader_ok (reader_run ops r)"
proof (induction ops arbitrary: r)
  case (Cons op ops)
  show ?case
  proof (cases op)
    case (RdRead p off n)
    then show ?thesis using Cons.IH ReadAt_ok [OF Cons.prems, of p off n] by (metis prod.collapse reader_run.simps(2))
  next
    case (RdClose p)
    then show ?thesis using Cons.IH CloseFile_ok [OF Cons.prems, of p] by simp
  qed
qed simp

text \<open>
  The reader keeps exactly one reference, and one open handle, per file that was read and not
  closed, whatever fails; and what \<^verbatim>\<open>ReadAt\<close> returns without an error are the bytes of the file that the
  path names below the mount point.
\<close>

theorem reader_holds_one:
  assumes "osOpen os = Map.empty" "\<forall>p i. osDir os p = Some i \<longrightarrow> i < osNextInode os"
  shows "case reader_run ops (newCephFSReader d os) of ((fc, os'), A) \<Rightarrow>
    (\<forall>p. refs fc p = (if p \<in> A then 1 else 0)) \<and> bij_betw (\<lambda>p. entFile (the (entry fc p))) A (dom (osOpen os')) \<and>
    (case CephFSReader_ReadAt ((fc, os'), A) p off n of
       (((fc1, os1), A1), Inl e) \<Rightarrow> True
     | (((fc1, os1), A1), Inr bs) \<Rightarrow>
         \<exists>i. osDir os1 (path_Join [baseDir fc1, p]) = Some i \<and> bs = take n (drop off (content (osInode os1 i))))"
proof -
  have "reader_ok (newCephFSReader d os)"
    using assms inv_start [of os d False] refs_start [of d False]
    by (simp add: reader_ok_def newCephFSReader_def fcache.holds_one_def names_ok_def NewReadCache_def) (simp add: NewFileCache_def entry_def)
  then have r: "reader_ok (reader_run ops (newCephFSReader d os))" by (rule reader_run_ok)
  obtain fc os' A where s: "reader_run ops (newCephFSReader d os) = ((fc, os'), A)" by (metis surj_pair)
  have h: "cache_inv fc os'" "\<forall>p. refs fc p = (if p \<in> A then 1 else 0)" using r s by (auto simp: reader_ok_def fcache.holds_one_def)
  then have "{p. 0 < refs fc p} = A" by auto
  then show ?thesis
    using s h entries_open [OF h(1)] ReadAt_ok [OF r [unfolded s], of p off n] by (auto split: prod.splits sum.splits)
qed

definition sample_os :: os_state where
  "sample_os = \<lparr>osDir = [''/data/a'' \<mapsto> 0], osInode = (\<lambda>_. sample_dev), osOpen = Map.empty, osNextInode = 1, osNextHandle = 0,
     osOuts = [], osPlans = (\<lambda>_. [])\<rparr>"

theorem reader_holds_one_witness:
  "case reader_run [RdRead ''a'' 0 4, RdRead ''a'' 4 4, RdClose ''a''] (newCephFSReader ''/data'' sample_os) of ((fc, os'), A) \<Rightarrow>
    (\<forall>p. refs fc p = (if p \<in> A then 1 else 0)) \<and> bij_betw (\<lambda>p. entFile (the (entry fc p))) A (dom (osOpen os')) \<and>
    (case CephFSReader_ReadAt ((fc, os'), A) ''a'' 2 3 of
       (((fc1, os1), A1), Inl e) \<Rightarrow> True
     | (((fc1, os1), A1), Inr bs) \<Rightarrow>
         \<exists>i. osDir os1 (path_Join [baseDir fc1, ''a'']) = Some i \<and> bs = take 3 (drop 2 (content (osInode os1 i))))"
  by (rule reader_holds_one) (auto simp: sample_os_def split: if_splits)

end
