(* ===== verification/Fs_Dest.thy ===== *)
theory Fs_Dest
  imports File_Cache Rbd_Dest
begin

section \<open>The CephFS destination (internal/worker/cephfs/destination.go)\<close>

text \<open>
  The server side of a CephFS transfer: \<^verbatim>\<open>Write\<close> opens the files of the blocks through the cache, writes and
  acknowledges; \<^verbatim>\<open>Commit\<close> syncs and releases files; \<^verbatim>\<open>Delete\<close> removes paths below the mount point.
  As for RBD, a stream is the list of what \<^verbatim>\<open>Recv\<close> returns and failing calls are inputs.

  The lemmas show that an acknowledged block is in the file its path names, and that deletion
  touches nothing outside the requested subtrees.
\<close>

subsection \<open>The Write handler\<close>

datatype fs_error = FsRecv | FsAcquire cache_error | FsZero | FsWrite | FsSend | FsRelease cache_error | FsPath path_error | FsRemove

type_synonym open_files = "(path \<times> nat) list"

text \<open>The handle of a file of the stream, acquired from the cache when its first block arrives.\<close>

definition get_file :: "FileCache \<Rightarrow> os_state \<Rightarrow> open_files \<Rightarrow> ChangedBlock \<Rightarrow> FileCache \<times> os_state \<times> open_files \<times> (cache_error + nat)" where
  "get_file fc os files b =
     (case map_of files (blkFilePath b) of
        Some h \<Rightarrow> (fc, os, files, Inr h)
      | None \<Rightarrow>
          (case Acquire fc os (blkFilePath b) (int (blkTotalSize b)) of
             (fc1, os1, Inl e) \<Rightarrow> (fc1, os1, files, Inl e)
           | (fc1, os1, Inr h) \<Rightarrow> (fc1, os1, (blkFilePath b, h) # files, Inr h)))"

text \<open>Zeroing or writing through a handle; on a closed handle both fail.\<close>

definition put_block :: "os_state \<Rightarrow> nat \<Rightarrow> ChangedBlock \<Rightarrow> os_state \<times> bool" where
  "put_block os h b =
     (case osOpen os h of
        None \<Rightarrow> (os, False)
      | Some i \<Rightarrow>
          (case (if blkIsZero b then cephfs_zeroRange (osInode os i) (blkOffset b) (blkLength b)
                 else WriteAt (osInode os i) (blkOffset b) (blkData b)) of
             (f, ok) \<Rightarrow> (os\<lparr>osInode := (osInode os)(i := f)\<rparr>, ok)))"

definition write_block :: "FileCache \<Rightarrow> os_state \<Rightarrow> open_files \<Rightarrow> ChangedBlock \<Rightarrow> FileCache \<times> os_state \<times> open_files \<times> fs_error option" where
  "write_block fc os files b =
     (case get_file fc os files b of
        (fc1, os1, files1, Inl e) \<Rightarrow> (fc1, os1, files1, Some (FsAcquire e))
      | (fc1, os1, files1, Inr h) \<Rightarrow>
          (case put_block os1 h b of
             (os2, ok) \<Rightarrow> (fc1, os2, files1, if ok then None else Some (if blkIsZero b then FsZero else FsWrite))))"

fun fs_writeBlocks :: "FileCache \<Rightarrow> os_state \<Rightarrow> open_files \<Rightarrow> ChangedBlock list \<Rightarrow> FileCache \<times> os_state \<times> open_files \<times> fs_error option" where
  "fs_writeBlocks fc os files [] = (fc, os, files, None)"
| "fs_writeBlocks fc os files (b # bs) =
     (case write_block fc os files b of
        (fc1, os1, files1, Some e) \<Rightarrow> (fc1, os1, files1, Some e)
      | (fc1, os1, files1, None) \<Rightarrow> fs_writeBlocks fc1 os1 files1 bs)"

text \<open>The loop of the handler; \<^verbatim>\<open>sends\<close> are the outcomes of the sends, \<^verbatim>\<open>acks\<close> what was sent.\<close>

definition fs_send_acks :: "bool list \<Rightarrow> u64 list \<Rightarrow> bool list \<times> bool" where
  "fs_send_acks sends ids = (if ids = [] then (sends, True) else case pop_ok sends of (ok, sends1) \<Rightarrow> (sends1, ok))"

fun fs_write_loop :: "FileCache \<Rightarrow> os_state \<Rightarrow> open_files \<Rightarrow> bool list \<Rightarrow> u64 list \<Rightarrow> write_event list \<Rightarrow>
    FileCache \<times> os_state \<times> open_files \<times> u64 list \<times> fs_error option" where
  "fs_write_loop fc os files sends acks [] = (fc, os, files, acks, Some FsRecv)"
| "fs_write_loop fc os files sends acks (WriteEOF # evs) = (fc, os, files, acks, None)"
| "fs_write_loop fc os files sends acks (WriteErr # evs) = (fc, os, files, acks, Some FsRecv)"
| "fs_write_loop fc os files sends acks (WriteReq bs # evs) =
     (case fs_writeBlocks fc os files bs of
        (fc1, os1, files1, Some e) \<Rightarrow> (fc1, os1, files1, acks, Some e)
      | (fc1, os1, files1, None) \<Rightarrow>
          (case fs_send_acks sends (collectRequestIDs bs) of
             (sends1, False) \<Rightarrow> (fc1, os1, files1, acks, Some FsSend)
           | (sends1, True) \<Rightarrow> fs_write_loop fc1 os1 files1 sends1 (acks @ collectRequestIDs bs) evs))"

text \<open>
  The deferred function syncs and releases every file of the stream, in the order in which \<^verbatim>\<open>range\<close>
  visits the map; the first error counts.
\<close>

fun fs_cleanup :: "path list \<Rightarrow> FileCache \<Rightarrow> os_state \<Rightarrow> fs_error option \<Rightarrow> FileCache \<times> os_state \<times> fs_error option" where
  "fs_cleanup [] fc os err = (fc, os, err)"
| "fs_cleanup (p # ps) fc os err =
     (case SyncAndRelease fc os p of
        (fc1, os1, None) \<Rightarrow> fs_cleanup ps fc1 os1 err
      | (fc1, os1, Some e) \<Rightarrow> fs_cleanup ps fc1 os1 (if err = None then Some (FsRelease e) else err))"

definition fs_Write ::
  "(path list \<Rightarrow> path list) \<Rightarrow> FileCache \<Rightarrow> os_state \<Rightarrow> bool list \<Rightarrow> write_event list \<Rightarrow> FileCache \<times> os_state \<times> u64 list \<times> fs_error option" where
  "fs_Write order fc os sends evs =
     (case fs_write_loop fc os [] sends [] evs of
        (fc1, os1, files, acks, err) \<Rightarrow>
          (case fs_cleanup (order (map fst files)) fc1 os1 err of (fc2, os2, err2) \<Rightarrow> (fc2, os2, acks, err2)))"

subsection \<open>The Commit handler\<close>

fun sync_paths :: "FileCache \<Rightarrow> os_state \<Rightarrow> path list \<Rightarrow> FileCache \<times> os_state \<times> cache_error option" where
  "sync_paths fc os [] = (fc, os, None)"
| "sync_paths fc os (p # ps) =
     (case SyncAndRelease fc os p of
        (fc1, os1, Some e) \<Rightarrow> (fc1, os1, Some e)
      | (fc1, os1, None) \<Rightarrow> sync_paths fc1 os1 ps)"

fun fs_Commit :: "FileCache \<Rightarrow> os_state \<Rightarrow> bool list \<Rightarrow> commit_event list \<Rightarrow> path list list \<Rightarrow>
    FileCache \<times> os_state \<times> path list list \<times> fs_error option" where
  "fs_Commit fc os sends [] rs = (fc, os, rs, Some FsRecv)"
| "fs_Commit fc os sends (CommitEOF # evs) rs = (fc, os, rs, None)"
| "fs_Commit fc os sends (CommitErr # evs) rs = (fc, os, rs, Some FsRecv)"
| "fs_Commit fc os sends (CommitReq ps # evs) rs =
     (case sync_paths fc os ps of
        (fc1, os1, Some e) \<Rightarrow> (fc1, os1, rs, Some (FsRelease e))
      | (fc1, os1, None) \<Rightarrow>
          (case pop_ok sends of
             (False, sends1) \<Rightarrow> (fc1, os1, rs, Some FsSend)
           | (True, sends1) \<Rightarrow> fs_Commit fc1 os1 sends1 evs (rs @ [ps])))"

subsection \<open>The Delete handler\<close>

text \<open>
  \<^verbatim>\<open>os.RemoveAll\<close> removes a path and everything below it; when it fails it may have removed any part of
  that, here the entries a predicate selects.  The removals of one request run concurrently and
  only remove, so their order does not matter; one that finds the context cancelled is skipped and returns
  the context's error.
\<close>

datatype removal = RmDone | RmFailed "path \<Rightarrow> bool" | RmSkipped

definition below :: "path \<Rightarrow> path \<Rightarrow> bool" where
  "below q p \<longleftrightarrow> p = q \<or> take (length q + 1) p = q @ ''/''"

fun RemoveAll :: "(path \<rightharpoonup> nat) \<Rightarrow> path \<Rightarrow> removal \<Rightarrow> (path \<rightharpoonup> nat) \<times> bool" where
  "RemoveAll d q RmDone = (\<lambda>p. if below q p then None else d p, True)"
| "RemoveAll d q (RmFailed part) = (\<lambda>p. if below q p \<and> part p then None else d p, False)"
| "RemoveAll d q RmSkipped = (d, False)"

fun sanitize_all :: "path list \<Rightarrow> path_error + path list" where
  "sanitize_all [] = Inr []"
| "sanitize_all (p # ps) =
     (case sanitizePath p of
        Inl e \<Rightarrow> Inl e
      | Inr q \<Rightarrow> (case sanitize_all ps of Inl e \<Rightarrow> Inl e | Inr qs \<Rightarrow> Inr (q # qs)))"

fun remove_paths :: "(path \<rightharpoonup> nat) \<Rightarrow> path list \<Rightarrow> removal list \<Rightarrow> (path \<rightharpoonup> nat) \<times> removal list \<times> bool" where
  "remove_paths d [] rs = (d, rs, True)"
| "remove_paths d (q # qs) rs =
     (case RemoveAll d q (case rs of [] \<Rightarrow> RmDone | r # _ \<Rightarrow> r) of
        (d1, ok) \<Rightarrow> (case remove_paths d1 qs (tl rs) of (d2, rs2, ok2) \<Rightarrow> (d2, rs2, ok \<and> ok2)))"

text \<open>The result: the directory, the number of answers, and the error.\<close>

fun fs_Delete :: "(path \<rightharpoonup> nat) \<Rightarrow> removal list \<Rightarrow> bool list \<Rightarrow> path list option list \<Rightarrow> nat \<Rightarrow>
    (path \<rightharpoonup> nat) \<times> nat \<times> fs_error option" where
  "fs_Delete d rs sends [] n = (d, n, None)"
| "fs_Delete d rs sends (None # evs) n = (d, n, Some FsRecv)"
| "fs_Delete d rs sends (Some ps # evs) n =
     (case sanitize_all ps of
        Inl e \<Rightarrow> (d, n, Some (FsPath e))
      | Inr qs \<Rightarrow>
          (case remove_paths d qs rs of
             (d1, rs1, False) \<Rightarrow> (d1, n, Some FsRemove)
           | (d1, rs1, True) \<Rightarrow>
               (case pop_ok sends of
                  (False, sends1) \<Rightarrow> (d1, n, Some FsSend)
                | (True, sends1) \<Rightarrow> fs_Delete d1 rs1 sends1 evs (Suc n))))"

subsection \<open>Deletion stays inside what was requested\<close>

lemma RemoveAll_keeps: "RemoveAll d q r = (d1, ok) \<Longrightarrow> d1 p = d p \<or> (below q p \<and> d1 p = None)"
  by (cases r) (auto split: if_splits)

lemma RemoveAll_removes: "RemoveAll d q r = (d1, True) \<Longrightarrow> below q p \<Longrightarrow> d1 p = None"
  by (cases r) auto

lemma remove_paths_keeps:
  "remove_paths d qs rs = (d1, rs1, ok) \<Longrightarrow>
     (\<forall>p. d1 p = d p \<or> (d1 p = None \<and> (\<exists>q\<in>set qs. below q p))) \<and> (ok \<longrightarrow> (\<forall>q\<in>set qs. \<forall>p. below q p \<longrightarrow> d1 p = None))"
proof (induction qs arbitrary: d rs d1 rs1 ok)
  case (Cons q qs)
  obtain d2 ok2 where rm: "RemoveAll d q (case rs of [] \<Rightarrow> RmDone | r # _ \<Rightarrow> r) = (d2, ok2)" by force
  obtain d3 rs3 ok3 where rest: "remove_paths d2 qs (tl rs) = (d3, rs3, ok3)" by (metis prod_cases3)
  have eq: "d1 = d3" "ok = (ok2 \<and> ok3)" using Cons.prems rm rest by auto
  note ih = Cons.IH [OF rest]
  have "d1 p = d p \<or> (d1 p = None \<and> (\<exists>q'\<in>set (q # qs). below q' p))" for p
    using spec [OF conjunct1 [OF ih], of p] RemoveAll_keeps [OF rm, of p] unfolding eq by auto
  moreover have "d1 p = None" if ok "q' \<in> set (q # qs)" "below q' p" for q' p
  proof (cases "q' = q")
    case True
    have "d2 p = None" by (rule RemoveAll_removes) (use rm that eq True in auto)
    then show ?thesis using spec [OF conjunct1 [OF ih], of p] eq by auto
  qed (use ih that eq in auto)
  ultimately show ?case by blast
qed simp

lemma sanitize_all_set: "sanitize_all ps = Inr qs \<Longrightarrow> set qs = {q. \<exists>p\<in>set ps. sanitizePath p = Inr q}"
  by (induction ps arbitrary: qs) (auto split: sum.splits)

definition requested :: "path list option list \<Rightarrow> path set" where
  "requested evs = {q. \<exists>ps\<in>set evs. \<exists>xs p. ps = Some xs \<and> p \<in> set xs \<and> sanitizePath p = Inr q}"

lemma requested_step: "requested (Some ps # evs) = {q. \<exists>p\<in>set ps. sanitizePath p = Inr q} \<union> requested evs"
  by (auto simp: requested_def)

lemma sanitized_below_data:
  assumes "sanitizePath p = Inr q" "below q x"
  shows "x = ''/data'' \<or> take 6 x = ''/data/''"
proof -
  obtain es where q: "q = CHR ''/'' # join_slash (''data'' # es)" using sanitizePath_elems [OF assms(1)] by blast
  have "q = ''/data'' \<or> (\<exists>r. q = ''/data/'' @ r)" using q by (cases es) auto
  moreover have "x = q \<or> (\<exists>r. x = q @ ''/'' @ r)"
    using assms(2) unfolding below_def by (metis append.assoc append_take_drop_id)
  ultimately show ?thesis by auto
qed

lemma fs_Delete_effect:
  "case fs_Delete d rs sends evs n of (d1, m, err) \<Rightarrow>
     (\<forall>p. d1 p = d p \<or> (d1 p = None \<and> (p = ''/data'' \<or> take 6 p = ''/data/'') \<and> (\<exists>q\<in>requested evs. below q p))) \<and>
     (err = None \<longrightarrow> (\<forall>q\<in>requested evs. \<forall>p. below q p \<longrightarrow> d1 p = None))"
proof (induction d rs sends evs n rule: fs_Delete.induct)
  case (3 d rs sends ps evs n)
  show ?case
  proof (cases "sanitize_all ps")
    case (Inr qs)
    have qs: "set qs = {q. \<exists>p\<in>set ps. sanitizePath p = Inr q}"
      by (rule sanitize_all_set [OF Inr])
    obtain d1 rs1 dn where rm: "remove_paths d qs rs = (d1, rs1, dn)" by (metis prod_cases3)
    note keep = remove_paths_keeps [OF rm]
    have data: "p = ''/data'' \<or> take 6 p = ''/data/''" if "q \<in> set qs" "below q p" for q p
      using that qs sanitized_below_data by auto
    have one: "d1 p = d p \<or> (d1 p = None \<and> (p = ''/data'' \<or> take 6 p = ''/data/'') \<and> (\<exists>q\<in>requested (Some ps # evs). below q p))" for p
      using keep data unfolding requested_step qs [symmetric] by blast
    obtain ok sends1 where o: "pop_ok sends = (ok, sends1)" by force
    show ?thesis
    proof (cases "dn \<and> ok")
      case False
      then show ?thesis using Inr rm o one by (cases dn; cases ok) auto
    next
      case True
      obtain d2 m err where r: "fs_Delete d1 rs1 sends1 evs (Suc n) = (d2, m, err)" by (metis prod_cases3)
      note ih = "3.IH" [OF Inr rm [symmetric] refl _ o [symmetric], unfolded r prod.case]
      have "d2 p = d p \<or> (d2 p = None \<and> (p = ''/data'' \<or> take 6 p = ''/data/'') \<and> (\<exists>q\<in>requested (Some ps # evs). below q p))" for p
        using spec [OF conjunct1 [OF ih], of p] True one [of p] unfolding requested_step by auto
      moreover have "\<forall>q\<in>requested (Some ps # evs). \<forall>p. below q p \<longrightarrow> d2 p = None" if "err = None"
        using ih True keep that unfolding requested_step qs [symmetric] by (metis UnE)
      ultimately show ?thesis using Inr rm o True r by simp
    qed
  qed simp
qed (auto simp: requested_def)

lemma sanitize_all_ok: "sanitize_all ps = Inr qs \<Longrightarrow> p \<in> set ps \<Longrightarrow> \<exists>q. sanitizePath p = Inr q"
  by (induction ps arbitrary: qs) (auto split: sum.splits)

lemma fs_Delete_sanitized:
  "fs_Delete d rs sends evs n = (d1, m, None) \<Longrightarrow> Some ps \<in> set evs \<Longrightarrow> p \<in> set ps \<Longrightarrow> \<exists>q. sanitizePath p = Inr q"
proof (induction d rs sends evs n rule: fs_Delete.induct)
  case (3 d rs sends xs evs n)
  obtain qs where qs: "sanitize_all xs = Inr qs" using "3.prems"(1) by (cases "sanitize_all xs") auto
  obtain d2 rs2 dn where rm: "remove_paths d qs rs = (d2, rs2, dn)" by (metis prod_cases3)
  obtain ok sends1 where o: "pop_ok sends = (ok, sends1)" by force
  have r: "dn" "ok" "fs_Delete d2 rs2 sends1 evs (Suc n) = (d1, m, None)" using "3.prems"(1) qs rm o by (cases dn; cases ok; simp)+
  show ?case
  proof (cases "Some ps \<in> set evs")
    case True
    then show ?thesis using "3.IH" [OF qs rm [symmetric] refl _ o [symmetric]] r "3.prems"(3) by simp
  qed (use "3.prems" qs sanitize_all_ok in auto)
qed auto

text \<open>
  C3: deletion removes nothing but what was asked for.  Whatever fails, an entry that disappears is at
  or below one of the requested paths, after the check, and so below the mount point; and when
  the handler returns without an error every requested subtree is gone.
\<close>

theorem fs_Delete_confined:
  "case fs_Delete d rs sends evs n of (d1, m, err) \<Rightarrow>
     (\<forall>p. d1 p = d p \<or> (d1 p = None \<and> (p = ''/data'' \<or> take 6 p = ''/data/'') \<and> (\<exists>q\<in>requested evs. below q p))) \<and>
     (err = None \<longrightarrow> (\<forall>q\<in>requested evs. \<forall>p. below q p \<longrightarrow> d1 p = None))"
  by (rule fs_Delete_effect)

theorem fs_Delete_confined_witness:
  "case fs_Delete [''/data/a/x'' \<mapsto> 1, ''/data/ab'' \<mapsto> 2] [] [] [Some [''a'']] 0 of (d1, m, err) \<Rightarrow>
     err = None \<and> d1 ''/data/a/x'' = None \<and> d1 ''/data/ab'' = Some 2"
proof -
  let ?d = "[''/data/a/x'' \<mapsto> 1::nat, ''/data/ab'' \<mapsto> 2]"
  obtain d1 m err where r: "fs_Delete ?d [] [] [Some [''a'']] 0 = (d1, m, err)" by (metis prod_cases3)
  have q: "sanitizePath ''a'' = Inr ''/data/a''" by code_simp
  have req: "requested [Some [''a'']] = {''/data/a''}" using q by (auto simp: requested_def)
  have b: "below ''/data/a'' ''/data/a/x''" "\<not> below ''/data/a'' ''/data/ab''" by (simp_all add: below_def)
  have "err = None" using r q by simp
  note c = fs_Delete_confined [where d = ?d and rs = "[]" and sends = "[]" and evs = "[Some [''a'']]" and n = 0, unfolded r req prod.case]
  have "d1 ''/data/ab'' = Some 2" using spec [OF conjunct1 [OF c], of "''/data/ab''"] b by simp
  then show ?thesis using c b \<open>err = None\<close> unfolding r by simp
qed

subsection \<open>Files and images\<close>

text \<open>
  The source image of every file of the destination, and two relations: what a state of the cache and the
  file system satisfies, and how states may change.  Every operation of the handlers is such a change, so
  what holds of a single stream also holds when streams and commits interleave.
\<close>

type_synonym images = "path \<Rightarrow> bytes"

definition fbyte :: "os_state \<Rightarrow> path \<Rightarrow> nat \<Rightarrow> byte" where
  "fbyte os q j = (case osDir os q of None \<Rightarrow> 0 | Some i \<Rightarrow> byte_at (content (osInode os i)) j)"

definition links_ok :: "images \<Rightarrow> (path \<rightharpoonup> nat) \<Rightarrow> bool" where
  "links_ok img d \<longleftrightarrow> (\<forall>p q i. d p = Some i \<longrightarrow> d q = Some i \<longrightarrow> img p = img q)"

definition fs_ok :: "images \<Rightarrow> FileCache \<Rightarrow> os_state \<Rightarrow> bool" where
  "fs_ok img fc os \<longleftrightarrow> cache_inv fc os \<and> names_ok fc os \<and> links_ok img (osDir os)"

definition evolves :: "images \<Rightarrow> os_state \<Rightarrow> os_state \<Rightarrow> bool" where
  "evolves img os os1 \<longleftrightarrow>
     (\<forall>q. osDir os q \<noteq> None \<longrightarrow> osDir os1 q = osDir os q) \<and>
     (\<forall>q j. fbyte os1 q j = fbyte os q j \<or> fbyte os1 q j = byte_at (img q) j) \<and>
     osNextHandle os \<le> osNextHandle os1 \<and>
     (\<forall>h i. h < osNextHandle os \<longrightarrow> osOpen os1 h = Some i \<longrightarrow> osOpen os h = Some i)"

definition names_file :: "os_state \<Rightarrow> path \<Rightarrow> nat \<Rightarrow> bool" where
  "names_file os q h \<longleftrightarrow> h < osNextHandle os \<and> (\<forall>i. osOpen os h = Some i \<longrightarrow> osDir os q = Some i)"

definition files_ok :: "path \<Rightarrow> os_state \<Rightarrow> open_files \<Rightarrow> bool" where
  "files_ok root os files \<longleftrightarrow> (\<forall>(p, h)\<in>set files. names_file os (path_Join [root, p]) h)"

definition on_file :: "images \<Rightarrow> path \<Rightarrow> os_state \<Rightarrow> ChangedBlock \<Rightarrow> bool" where
  "on_file img root os b \<longleftrightarrow>
     (\<forall>j\<in>blk_bytes b. fbyte os (path_Join [root, blkFilePath b]) j = byte_at (img (path_Join [root, blkFilePath b])) j)"

definition img_block :: "images \<Rightarrow> path \<Rightarrow> ChangedBlock \<Rightarrow> bool" where
  "img_block img root b \<longleftrightarrow> blk_of (img (path_Join [root, blkFilePath b])) b"

lemma fbyte_cong:
  "osDir os1 q = osDir os q \<Longrightarrow> (\<And>i. byte_at (content (osInode os1 i)) j = byte_at (content (osInode os i)) j) \<Longrightarrow>
     fbyte os1 q j = fbyte os q j"
  by (simp add: fbyte_def split: option.split)

lemma evolves_refl [simp]: "evolves img os os"
  by (simp add: evolves_def)

lemma evolves_trans [trans]: "evolves img os os1 \<Longrightarrow> evolves img os1 os2 \<Longrightarrow> evolves img os os2"
proof -
  assume a: "evolves img os os1" and b: "evolves img os1 os2"
  have "osDir os2 q = osDir os q" if "osDir os q \<noteq> None" for q using a b that unfolding evolves_def by metis
  moreover have "fbyte os2 q j = fbyte os q j \<or> fbyte os2 q j = byte_at (img q) j" for q j
    using a b unfolding evolves_def by metis
  moreover have "osOpen os h = Some i" if "h < osNextHandle os" "osOpen os2 h = Some i" for h i
    using a b that unfolding evolves_def by (meson less_le_trans)
  ultimately show ?thesis using a b unfolding evolves_def by (meson le_trans)
qed

lemma evolves_names_file: "evolves img os os1 \<Longrightarrow> names_file os q h \<Longrightarrow> names_file os1 q h"
  unfolding evolves_def names_file_def by (metis less_le_trans option.distinct(1))

lemma evolves_files_ok: "evolves img os os1 \<Longrightarrow> files_ok root os files \<Longrightarrow> files_ok root os1 files"
  unfolding files_ok_def using evolves_names_file by blast

lemma evolves_on_file: "evolves img os os1 \<Longrightarrow> on_file img root os b \<Longrightarrow> on_file img root os1 b"
  unfolding evolves_def on_file_def by metis

subsection \<open>Every operation is an evolution\<close>

lemma fs_okD: "fs_ok img fc os \<Longrightarrow> cache_inv fc os" "fs_ok img fc os \<Longrightarrow> names_ok fc os"
  by (simp_all add: fs_ok_def)

lemma handle_unused: "cache_inv fc os \<Longrightarrow> osOpen os h = Some i \<Longrightarrow> h < osNextHandle os"
  by (simp add: cache_inv_def)

lemma Release_baseDir: "Release fc os p = (fc1, os1, r) \<Longrightarrow> baseDir fc1 = baseDir fc"
  by (auto simp: Release_def split: option.splits if_splits prod.splits)

lemma Release_os:
  "Release fc os p = (fc1, os1, r) \<Longrightarrow> osDir os1 = osDir os \<and> osInode os1 = osInode os \<and> osNextHandle os1 = osNextHandle os \<and>
     (\<forall>h i. osOpen os1 h = Some i \<longrightarrow> osOpen os h = Some i)"
proof (cases "entry fc p")
  case (Some e)
  assume r: "Release fc os p = (fc1, os1, r)"
  obtain os2 ok where c: "os_close os (entFile e) = (os2, ok)" by force
  then show ?thesis using r Some os_close_fields [OF c] by (auto simp: Release_def split: if_splits)
qed (auto simp: Release_def)

lemma evolves_same:
  "osDir os1 = osDir os \<Longrightarrow> osInode os1 = osInode os \<Longrightarrow> osNextHandle os1 = osNextHandle os \<Longrightarrow>
     (\<And>h i. osOpen os1 h = Some i \<Longrightarrow> osOpen os h = Some i) \<Longrightarrow> evolves img os os1"
proof -
  assume a: "osDir os1 = osDir os" "osInode os1 = osInode os" "osNextHandle os1 = osNextHandle os"
    "\<And>h i. osOpen os1 h = Some i \<Longrightarrow> osOpen os h = Some i"
  then have "fbyte os1 = fbyte os" by (intro ext fbyte_cong) auto
  then show ?thesis using a by (simp add: evolves_def)
qed

lemma Release_evolves:
  assumes "fs_ok img fc os" "Release fc os p = (fc1, os1, r)"
  shows "fs_ok img fc1 os1 \<and> evolves img os os1 \<and> baseDir fc1 = baseDir fc"
proof -
  note o = Release_os [OF assms(2)]
  have "evolves img os os1" by (rule evolves_same) (use o in auto)
  then show ?thesis
    using assms Release_spec [OF fs_okD(1) [OF assms(1)] assms(2)] Release_names [OF fs_okD [OF assms(1)] assms(2)] o Release_baseDir [OF assms(2)]
    by (simp add: fs_ok_def)
qed

lemma fs_ok_count:
  assumes "fs_ok img fc os" "entry fc p = Some e" "1 \<le> n"
  shows "fs_ok img (set_entry fc p (Some (e\<lparr>refCount := n\<rparr>))) os"
proof -
  have len: "length (shards fc) = numCacheShards" using fs_okD(1) [OF assms(1)] by (simp add: cache_inv_def shards_ok_def)
  have "names_ok (set_entry fc p (Some (e\<lparr>refCount := n\<rparr>))) os"
    using assms len by (auto simp: fs_ok_def names_ok_def split: if_splits)
  then show ?thesis using assms inv_count [OF fs_okD(1) [OF assms(1)] assms(2,3)] by (simp add: fs_ok_def)
qed

lemma fs_ok_outcome: "fs_ok img fc os \<Longrightarrow> os_ok os = (ok, os1) \<Longrightarrow> fs_ok img fc os1 \<and> evolves img os os1"
  using os_ok_fields [of os ok os1] inv_same [of fc os os1] evolves_same [of os1 os img] by (simp add: fs_ok_def names_ok_def)

lemma SyncAndRelease_evolves:
  assumes "fs_ok img fc os" "SyncAndRelease fc os p = (fc1, os1, r)"
  shows "fs_ok img fc1 os1 \<and> evolves img os os1 \<and> baseDir fc1 = baseDir fc"
proof (cases "entry fc p")
  case None
  then show ?thesis using assms by (simp add: SyncAndRelease_def)
next
  case (Some e)
  let ?fc = "set_entry fc p (Some (e\<lparr>refCount := refCount e + 1\<rparr>))"
  have "1 \<le> refCount e + 1" using inv_pos [OF fs_okD(1) [OF assms(1)] Some] by simp
  note i0 = fs_ok_count [OF assms(1) Some this]
  obtain ok os2 where o: "os_ok os = (ok, os2)" by force
  note i1 = fs_ok_outcome [OF i0 o]
  obtain fc3 os3 r3 where r1: "Release ?fc os2 p = (fc3, os3, r3)" by (metis prod_cases3)
  note i2 = Release_evolves [OF conjunct1 [OF i1] r1]
  obtain fc4 os4 r4 where r2: "Release fc3 os3 p = (fc4, os4, r4)" by (metis prod_cases3)
  note i3 = Release_evolves [OF conjunct1 [OF i2] r2]
  have "fc1 = fc4" "os1 = os4" using assms(2) Some o r1 r2 by (auto simp: SyncAndRelease_def)
  then show ?thesis using i1 i2 i3 by (auto intro: evolves_trans)
qed

lemma os_truncate_effect:
  assumes "os_truncate os h n = (os1, ok)" "\<forall>f. handle_file os h = Some f \<longrightarrow> length (content f) \<le> n"
  shows "osDir os1 = osDir os \<and> (\<forall>i j. byte_at (content (osInode os1 i)) j = byte_at (content (osInode os i)) j)"
proof -
  obtain ok' os2 where o: "os_ok os = (ok', os2)" by force
  note f = os_ok_fields [OF o]
  have pad: "byte_at (take n c @ replicate (n - length c) 0) j = byte_at c j" if "length c \<le> n" for c :: bytes and j
    using that by (auto simp: byte_at_def nth_append)
  show ?thesis
    using assms o f pad by (cases ok'; cases "osOpen os2 h") (auto simp: os_truncate_def Let_def handle_file_def)
qed

lemma os_close_effect: "osInode (fst (os_close os h)) = osInode os"
proof -
  obtain ok os2 where o: "os_ok os = (ok, os2)" by force
  then show ?thesis using os_ok_fields [OF o] by (simp add: os_close_def)
qed

text \<open>Growing a file changes no byte: it appends zeros.\<close>

lemma grow_file_effect:
  assumes "grow_file os h n = (os1, r)"
  shows "byte_at (content (osInode os1 i)) j = byte_at (content (osInode os i)) j"
proof -
  obtain ok os2 where o: "os_ok os = (ok, os2)" by force
  note f = os_ok_fields [OF o]
  obtain os3 ok3 where t: "os_truncate os2 h (nat n) = (os3, ok3)" by force
  have short: "\<forall>i j. byte_at (content (osInode os3 i)) j = byte_at (content (osInode os i)) j"
    if "handle_file os2 h = Some g" "int (length (content g)) < n" for g
    using os_truncate_effect [OF t] that f by simp
  show ?thesis
    using assms o t short f
    by (auto simp: grow_file_def os_close_effect split: if_splits bool.splits option.splits)
qed

lemma os_open_bytes:
  assumes "os_open c os p = (os1, Some h)" "\<forall>p i. osDir os p = Some i \<longrightarrow> i < osNextInode os"
  shows "fbyte os1 q j = fbyte os q j"
proof -
  obtain ok os2 where o: "os_ok os = (ok, os2)" by force
  then have ok: ok using assms(1) by (cases ok) (auto simp: os_open_def)
  note f = os_ok_fields [OF o]
  have new: "i \<noteq> osNextInode os" if "osDir os x = Some i" for x i using assms(2) that by auto
  show ?thesis
  proof (cases "osDir os2 p")
    case None
    then have c: "osDir os1 = (osDir os)(p \<mapsto> osNextInode os)"
      "osInode os1 = (osInode os)(osNextInode os := \<lparr>content = [], fixedSize = False, plan = osPlans os p\<rparr>)"
      using assms o f ok by (auto simp: os_open_def Let_def split: if_splits)
    show ?thesis using None f new by (auto simp: fbyte_def c byte_at_def split: option.split)
  next
    case (Some i)
    then show ?thesis using assms o f ok by (intro fbyte_cong) (auto simp: os_open_def)
  qed
qed

lemma os_open_links:
  assumes "os_open c os p = (os1, Some h)" "\<forall>p i. osDir os p = Some i \<longrightarrow> i < osNextInode os" "links_ok img (osDir os)"
  shows "links_ok img (osDir os1)"
proof -
  obtain ok os2 where o: "os_ok os = (ok, os2)" by force
  then have ok: ok using assms(1) by (cases ok) (auto simp: os_open_def)
  note f = os_ok_fields [OF o]
  have new: "osDir os x \<noteq> Some (osNextInode os)" for x using assms(2) by (metis less_irrefl)
  have "osDir os1 = osDir os \<or> osDir os1 = (osDir os)(p \<mapsto> osNextInode os)"
    using assms(1) o f ok by (cases "osDir os2 p") (auto simp: os_open_def Let_def split: if_splits)
  moreover have "links_ok img ((osDir os)(p \<mapsto> osNextInode os))"
    unfolding links_ok_def using assms(3) new by (metis links_ok_def map_upd_Some_unfold)
  ultimately show ?thesis using assms(3) by auto
qed

lemma fbyte_grow: "grow_file os h n = (os1, r) \<Longrightarrow> fbyte os1 q j = fbyte os q j"
  using grow_file_effect grow_file_dir by (intro fbyte_cong) auto

lemma Acquire_baseDir: "Acquire fc os p n = (fc1, os1, r) \<Longrightarrow> baseDir fc1 = baseDir fc"
  by (erule Acquire_cases) (auto split: option.splits)

lemma Acquire_next: "Acquire fc os p n = (fc1, os1, r) \<Longrightarrow> osNextHandle os \<le> osNextHandle os1"
proof -
  assume a: "Acquire fc os p n = (fc1, os1, r)"
  obtain mk os2 where m: "mkdir_all fc os = (mk, os2)" by force
  have m': "osNextHandle os2 = osNextHandle os" using m os_ok_fields by (auto simp: mkdir_all_def split: if_splits)
  obtain os3 r3 where op: "os_open (fcCreate fc) os2 (path_Join [baseDir fc, p]) = (os3, r3)" by force
  obtain os4 g where g: "grow_file os3 (the r3) n = (os4, g)" by force
  show ?thesis
    using a m m' op os_open_fields [OF op] g grow_file_fields [OF g]
    by (auto simp: Acquire_def split: if_splits option.splits bool.splits)
qed

lemma Acquire_evolves:
  assumes "fs_ok img fc os" "Acquire fc os p n = (fc1, os1, r)"
  shows "fs_ok img fc1 os1 \<and> evolves img os os1 \<and> baseDir fc1 = baseDir fc \<and>
    (\<forall>h. r = Inr h \<longrightarrow> names_file os1 (path_Join [baseDir fc, p]) h)"
proof -
  note inv = fs_okD [OF assms(1)]
  note sp = Acquire_spec [OF inv(1) assms(2)] and nm = Acquire_names [OF inv assms(2)] and b = Acquire_baseDir [OF assms(2)]
  have handle: "names_file os1 (path_Join [baseDir fc, p]) h" if "r = Inr h" for h
    using nm that sp b handle_unused unfolding names_file_def names_ok_def by (metis inv_open)
  have "links_ok img (osDir os1) \<and> evolves img os os1"
    using assms(2)
  proof (cases rule: Acquire_cases)
    case (failed e)
    have "osNextHandle os \<le> osNextHandle os1" using assms(2) by (rule Acquire_next)
    moreover have "fbyte os1 q j = fbyte os q j" for q j by (rule fbyte_cong) (use failed in auto)
    ultimately have "evolves img os os1" using failed by (simp add: evolves_def)
    then show ?thesis using assms(1) failed by (simp add: fs_ok_def)
  next
    case (cached e)
    then show ?thesis using assms(1) by (simp add: fs_ok_def)
  next
    case (opened os2 os3 h g)
    have nx: "\<forall>p i. osDir os2 p = Some i \<longrightarrow> i < osNextInode os2" using inv(2) opened(2,5) by (simp add: names_ok_def)
    note d = os_open_dir [OF opened(7) nx] and gd = grow_file_dir [OF opened(8)] and gf = grow_file_fields [OF opened(8)]
    have of: "h = osNextHandle os" "\<exists>i. osOpen os3 = (osOpen os)(h \<mapsto> i)" "osNextHandle os3 = Suc (osNextHandle os)"
      using os_open_fields [OF opened(7)] opened(3,6) by auto
    have "links_ok img (osDir os1)"
      using os_open_links [OF opened(7) nx] gd assms(1) opened(2) by (simp add: fs_ok_def)
    moreover have "fbyte os2 q j = fbyte os q j" for q j by (rule fbyte_cong) (use opened(2,4) in auto)
    then have "fbyte os1 q j = fbyte os q j" for q j
      using fbyte_grow [OF opened(8)] os_open_bytes [OF opened(7) nx] by simp
    moreover have "osOpen os i = Some k" if "i < osNextHandle os" "osOpen os1 i = Some k" for i k
      using that gf of by (auto split: if_splits)
    moreover have "osDir os1 q = osDir os q" if "osDir os q \<noteq> None" for q using that d gd opened(2) by metis
    ultimately show ?thesis using gf of(3) by (simp add: evolves_def)
  qed
  then show ?thesis using sp nm b handle by (simp add: fs_ok_def)
qed


context zeroing
begin

lemma write_mixed:
  assumes "(if blkIsZero b then zr f (blkOffset b) (blkLength b) else WriteAt f (blkOffset b) (blkData b)) = (f', r)"
  shows "byte_at (content f') j = byte_at (content f) j \<or> (j \<in> blk_bytes b \<and> byte_at (content f') j = blk_payload b ! (j - blkOffset b))"
    and "r \<Longrightarrow> j \<in> blk_bytes b \<Longrightarrow> byte_at (content f') j = blk_payload b ! (j - blkOffset b)"
proof -
  show "byte_at (content f') j = byte_at (content f) j \<or> (j \<in> blk_bytes b \<and> byte_at (content f') j = blk_payload b ! (j - blkOffset b))"
  proof (cases "blkIsZero b")
    case True
    then have e: "zero_effect f (blkOffset b) (blkLength b) f' r" using assms zr_effect by simp
    show ?thesis
    proof (cases "j \<in> blk_bytes b")
      case j: True
      then have "blk_payload b ! (j - blkOffset b) = 0" using True by (auto simp: blk_payload_def blk_bytes_def)
      moreover have "byte_at (content f') j = 0 \<or> byte_at (content f') j = byte_at (content f) j" using e by (simp add: zero_effect_def)
      ultimately show ?thesis using j by auto
    next
      case False
      then show ?thesis using e True by (auto simp: zero_effect_def blk_bytes_def blk_payload_def)
    qed
  next
    case False
    then show ?thesis using WriteAt_mixed [of f "blkOffset b" "blkData b" f' r j] assms by (auto simp: blk_bytes_def blk_payload_def)
  qed
  assume r: r and j: "j \<in> blk_bytes b"
  show "byte_at (content f') j = blk_payload b ! (j - blkOffset b)"
  proof (cases "blkIsZero b")
    case True
    then show ?thesis using zr_ok [of f "blkOffset b" "blkLength b" f' j] assms r j by (auto simp: blk_bytes_def blk_payload_def)
  next
    case False
    then show ?thesis using WriteAt_ok [of f "blkOffset b" "blkData b" f'] assms r j by (auto simp: blk_bytes_def blk_payload_def)
  qed
qed

end

lemma put_block_evolves:
  assumes "fs_ok img fc os" "names_file os (path_Join [baseDir fc, blkFilePath b]) h" "img_block img (baseDir fc) b"
    and "put_block os h b = (os1, ok)"
  shows "fs_ok img fc os1 \<and> evolves img os os1 \<and> (ok \<longrightarrow> on_file img (baseDir fc) os1 b)"
proof (cases "osOpen os h")
  case None
  then show ?thesis using assms by (simp add: put_block_def)
next
  case (Some i)
  let ?q = "path_Join [baseDir fc, blkFilePath b]"
  obtain f r where w: "(if blkIsZero b then cephfs_zeroRange (osInode os i) (blkOffset b) (blkLength b)
    else WriteAt (osInode os i) (blkOffset b) (blkData b)) = (f, r)" by force
  have os1: "os1 = os\<lparr>osInode := (osInode os)(i := f)\<rparr>" "ok = r" using assms(4) Some w by (auto simp: put_block_def)
  have dir: "osDir os ?q = Some i" using assms(2) Some by (simp add: names_file_def)
  note pay = byte_at_blk_of [OF assms(3) [unfolded img_block_def]]
  note m = cz.write_mixed [OF w]
  have links: "img x = img ?q" if "osDir os x = Some i" for x
    using assms(1) dir that unfolding fs_ok_def links_ok_def by blast
  have bytes: "fbyte os1 x j = fbyte os x j \<or> fbyte os1 x j = byte_at (img x) j" for x j
  proof (cases "osDir os x = Some i")
    case True
    then show ?thesis using m(1) [of j] pay [of j] links [OF True] by (auto simp: fbyte_def os1)
  next
    case False
    then show ?thesis by (auto simp: fbyte_def os1 split: option.split)
  qed
  have "fs_ok img fc os1" using assms(1) inv_same [of fc os os1] by (simp add: fs_ok_def os1 names_ok_def)
  moreover have "evolves img os os1" using bytes by (simp add: evolves_def os1)
  moreover have "on_file img (baseDir fc) os1 b" if ok
    using m(2) that os1 dir pay by (simp add: on_file_def fbyte_def)
  ultimately show ?thesis by blast
qed

text \<open>One block: the states evolve, the handles of the stream stay good, and success puts it on its file.\<close>

lemma write_block_evolves:
  assumes "fs_ok img fc os" "files_ok (baseDir fc) os files" "img_block img (baseDir fc) b"
    and "write_block fc os files b = (fc1, os1, files1, err)"
  shows "fs_ok img fc1 os1 \<and> evolves img os os1 \<and> baseDir fc1 = baseDir fc \<and> files_ok (baseDir fc) os1 files1 \<and>
    (err = None \<longrightarrow> on_file img (baseDir fc) os1 b)"
proof -
  obtain fc2 os2 files2 r where g: "get_file fc os files b = (fc2, os2, files2, r)" by (metis prod_cases4)
  have i: "fs_ok img fc2 os2 \<and> evolves img os os2 \<and> baseDir fc2 = baseDir fc \<and> files_ok (baseDir fc) os2 files2 \<and>
      (\<forall>h. r = Inr h \<longrightarrow> names_file os2 (path_Join [baseDir fc, blkFilePath b]) h)"
  proof (cases "map_of files (blkFilePath b)")
    case (Some h)
    then show ?thesis using assms(1,2) g map_of_SomeD [OF Some] by (auto simp: get_file_def files_ok_def)
  next
    case None
    obtain fc3 os3 r3 where a: "Acquire fc os (blkFilePath b) (int (blkTotalSize b)) = (fc3, os3, r3)" by (metis prod_cases3)
    note e = Acquire_evolves [OF assms(1) a]
    have "files_ok (baseDir fc) os3 files" using evolves_files_ok e assms(2) by blast
    then show ?thesis using e g a None by (cases r3) (auto simp: get_file_def files_ok_def)
  qed
  show ?thesis
  proof (cases r)
    case (Inl e)
    then show ?thesis using i g assms(4) by (auto simp: write_block_def)
  next
    case (Inr h)
    obtain os3 ok where p: "put_block os2 h b = (os3, ok)" by force
    have eq: "fc1 = fc2" "os1 = os3" "files1 = files2" "err = None \<longleftrightarrow> ok" using assms(4) g p Inr by (auto simp: write_block_def split: if_splits)
    have "names_file os2 (path_Join [baseDir fc2, blkFilePath b]) h" "img_block img (baseDir fc2) b" using i Inr assms(3) by auto
    from put_block_evolves [OF conjunct1 [OF i] this p] show ?thesis
      using i eq evolves_files_ok [of img os2 os3 "baseDir fc" files2] evolves_trans [of img os os2 os3] by auto
  qed
qed


lemma fs_writeBlocks_evolves:
  assumes "fs_writeBlocks fc os files bs = (fc1, os1, files1, err)" "fs_ok img fc os" "files_ok (baseDir fc) os files"
    "\<forall>b\<in>set bs. img_block img (baseDir fc) b"
  shows "fs_ok img fc1 os1 \<and> evolves img os os1 \<and> baseDir fc1 = baseDir fc \<and> files_ok (baseDir fc) os1 files1 \<and>
    (err = None \<longrightarrow> (\<forall>b\<in>set bs. on_file img (baseDir fc) os1 b))"
  using assms
proof (induction fc os files bs rule: fs_writeBlocks.induct)
  case (2 fc os files b bs)
  obtain fc2 os2 files2 r where w: "write_block fc os files b = (fc2, os2, files2, r)" by (metis prod_cases4)
  note one = write_block_evolves [OF "2.prems"(2,3) _ w]
  have b: "img_block img (baseDir fc) b" using "2.prems"(4) by simp
  show ?case
  proof (cases r)
    case None
    then have rest: "fs_writeBlocks fc2 os2 files2 bs = (fc1, os1, files1, err)" using "2.prems"(1) w by simp
    note ih = "2.IH" [OF w [symmetric] refl refl None rest]
    have "fs_ok img fc1 os1 \<and> evolves img os2 os1 \<and> baseDir fc1 = baseDir fc \<and> files_ok (baseDir fc) os1 files1 \<and>
      (err = None \<longrightarrow> (\<forall>b\<in>set bs. on_file img (baseDir fc) os1 b))"
      using ih one [OF b] "2.prems"(4) by simp
    then show ?thesis using one [OF b] None evolves_trans [of img os os2 os1] evolves_on_file [of img os2 os1 "baseDir fc" b] by auto
  qed (use one [OF b] w "2.prems"(1) in auto)
qed simp

lemma fs_write_loop_evolves:
  assumes "fs_write_loop fc os files sends acks evs = (fc1, os1, files1, acks1, err)" "fs_ok img fc os" "files_ok (baseDir fc) os files"
    "\<forall>bs\<in>set (requests evs). \<forall>b\<in>set bs. img_block img (baseDir fc) b"
  shows "fs_ok img fc1 os1 \<and> evolves img os os1 \<and> baseDir fc1 = baseDir fc \<and>
    (\<exists>n. acks1 = acks @ map blkRequestId (concat (take n (requests evs))) \<and> (err = None \<longrightarrow> n = length (requests evs)) \<and>
       (\<forall>b\<in>set (concat (take n (requests evs))). on_file img (baseDir fc) os1 b))"
  using assms
proof (induction fc os files sends acks evs rule: fs_write_loop.induct)
  case (4 fc os files sends acks bs evs)
  obtain fc2 os2 files2 r where w: "fs_writeBlocks fc os files bs = (fc2, os2, files2, r)" by (metis prod_cases4)
  have bs: "\<forall>b\<in>set bs. img_block img (baseDir fc) b" using "4.prems"(4) by simp
  note e = fs_writeBlocks_evolves [OF w "4.prems"(2,3) bs]
  obtain sends1 ok where s: "fs_send_acks sends (collectRequestIDs bs) = (sends1, ok)" by force
  show ?case
  proof (cases "r = None \<and> ok")
    case False
    then have "fc1 = fc2 \<and> os1 = os2 \<and> acks1 = acks \<and> err \<noteq> None" using "4.prems"(1) w s by (cases r; cases ok) auto
    then show ?thesis using e by (auto intro: exI [of _ 0])
  next
    case True
    then have rest: "fs_write_loop fc2 os2 files2 sends1 (acks @ collectRequestIDs bs) evs = (fc1, os1, files1, acks1, err)"
      using "4.prems"(1) w s by simp
    have "fs_ok img fc1 os1 \<and> evolves img os2 os1 \<and> baseDir fc1 = baseDir fc2 \<and>
      (\<exists>n. acks1 = (acks @ collectRequestIDs bs) @ map blkRequestId (concat (take n (requests evs))) \<and>
         (err = None \<longrightarrow> n = length (requests evs)) \<and>
         (\<forall>b\<in>set (concat (take n (requests evs))). on_file img (baseDir fc2) os1 b))"
      using "4.IH" [OF w [symmetric] refl refl _ s [symmetric] _ rest] True e "4.prems"(4) by auto
    then obtain n where n: "fs_ok img fc1 os1" "evolves img os2 os1" "baseDir fc1 = baseDir fc"
      "acks1 = acks @ map blkRequestId (concat (take (Suc n) (requests (WriteReq bs # evs))))"
      "err = None \<longrightarrow> Suc n = length (requests (WriteReq bs # evs))"
      "\<forall>b\<in>set (concat (take n (requests evs))). on_file img (baseDir fc) os1 b"
      using e by (auto simp: collectRequestIDs_map)
    have "\<forall>b\<in>set bs. on_file img (baseDir fc) os1 b" using e True n(2) evolves_on_file by blast
    then have "\<forall>b\<in>set (concat (take (Suc n) (requests (WriteReq bs # evs)))). on_file img (baseDir fc) os1 b" using n(6) by auto
    then show ?thesis using n(1,3,4,5) e evolves_trans [OF _ n(2), of os] by blast
  qed
qed (auto intro: exI [of _ 0])

lemma fs_cleanup_evolves:
  "fs_cleanup ps fc os err = (fc1, os1, err1) \<Longrightarrow> fs_ok img fc os \<Longrightarrow>
     fs_ok img fc1 os1 \<and> evolves img os os1 \<and> baseDir fc1 = baseDir fc \<and> (err1 = None \<longrightarrow> err = None)"
proof (induction ps fc os err rule: fs_cleanup.induct)
  case (2 p ps fc os err)
  obtain fc2 os2 r where s: "SyncAndRelease fc os p = (fc2, os2, r)" by (metis prod_cases3)
  note e = SyncAndRelease_evolves [OF "2.prems"(2) s]
  show ?case
  proof (cases r)
    case None
    then have "fs_cleanup ps fc2 os2 err = (fc1, os1, err1)" using "2.prems"(1) s by simp
    from "2.IH"(1) [OF s [symmetric] refl None this] show ?thesis using e evolves_trans [of img os os2 os1] by auto
  next
    case (Some x)
    then have "fs_cleanup ps fc2 os2 (if err = None then Some (FsRelease x) else err) = (fc1, os1, err1)" using "2.prems"(1) s by simp
    from "2.IH"(2) [OF s [symmetric] refl Some this] show ?thesis using e evolves_trans [of img os os2 os1] by (auto split: if_splits)
  qed
qed simp

subsection \<open>Without faults nothing fails\<close>

definition quiet_os :: "os_state \<Rightarrow> bool" where
  "quiet_os os \<longleftrightarrow> osOuts os = [] \<and> (\<forall>p. osPlans os p = []) \<and> (\<forall>i. plan (osInode os i) = [] \<and> \<not> fixedSize (osInode os i))"

lemma quiet_ok [simp]: "quiet_os os \<Longrightarrow> os_ok os = (True, os)"
  by (simp add: quiet_os_def os_ok_def)

lemma quiet_close: "quiet_os os \<Longrightarrow> os_close os h = (os\<lparr>osOpen := (osOpen os)(h := None)\<rparr>, True)"
  by (simp add: os_close_def)

lemma quiet_closed: "quiet_os os \<Longrightarrow> quiet_os (os\<lparr>osOpen := x\<rparr>)"
  by (simp add: quiet_os_def)

lemma quiet_Release: "quiet_os os \<Longrightarrow> Release fc os p = (fc1, os1, r) \<Longrightarrow> r = None \<and> quiet_os os1"
  by (auto simp: Release_def quiet_close quiet_closed split: option.splits if_splits)

lemma quiet_SyncAndRelease: "quiet_os os \<Longrightarrow> SyncAndRelease fc os p = (fc1, os1, r) \<Longrightarrow> r = None \<and> quiet_os os1"
proof (cases "entry fc p")
  case (Some e)
  assume q: "quiet_os os" and s: "SyncAndRelease fc os p = (fc1, os1, r)"
  let ?fc = "set_entry fc p (Some (e\<lparr>refCount := refCount e + 1\<rparr>))"
  obtain fc3 os3 r3 where r1: "Release ?fc os p = (fc3, os3, r3)" by (metis prod_cases3)
  obtain fc4 os4 r4 where r2: "Release fc3 os3 p = (fc4, os4, r4)" by (metis prod_cases3)
  have "quiet_os os3" using quiet_Release [OF q r1] by simp
  from quiet_Release [OF this r2] show ?thesis using s Some q r1 r2 by (auto simp: SyncAndRelease_def)
qed (auto simp: SyncAndRelease_def)

lemma quiet_open:
  assumes "quiet_os os"
  obtains os1 i where "os_open True os p = (os1, Some (osNextHandle os))" "quiet_os os1" "osOpen os1 = (osOpen os)(osNextHandle os \<mapsto> i)"
proof (cases "osDir os p")
  case None
  then show ?thesis using assms that by (auto simp: os_open_def Let_def quiet_os_def)
next
  case (Some i)
  then show ?thesis using assms that by (auto simp: os_open_def quiet_os_def)
qed

lemma quiet_grow:
  assumes "quiet_os os" "osOpen os h = Some i"
  obtains os1 where "grow_file os h n = (os1, None)" "quiet_os os1"
proof -
  have "os_truncate os h m = (os\<lparr>osInode := (osInode os)(i := (osInode os i)\<lparr>content := take m (content (osInode os i)) @
      replicate (m - length (content (osInode os i))) 0\<rparr>)\<rparr>, True)" for m
    using assms by (simp add: os_truncate_def Let_def)
  moreover have "quiet_os (os\<lparr>osInode := (osInode os)(i := (osInode os i)\<lparr>content := c\<rparr>)\<rparr>)" for c
    using assms(1) by (simp add: quiet_os_def)
  ultimately have "\<exists>os1. grow_file os h n = (os1, None) \<and> quiet_os os1" using assms by (simp add: grow_file_def handle_file_def)
  then show ?thesis using that by blast
qed

lemma quiet_Acquire:
  assumes "quiet_os os" "cache_inv fc os" "fcCreate fc" "\<not> contains (Clean p) ''..''" "Acquire fc os p n = (fc1, os1, r)"
  shows "quiet_os os1 \<and> fcCreate fc1 \<and> (\<exists>h. r = Inr h \<and> osOpen os1 h \<noteq> None) \<and> (\<forall>x. osOpen os x \<noteq> None \<longrightarrow> osOpen os1 x \<noteq> None)"
proof (cases "entry fc p")
  case (Some e)
  then show ?thesis using assms inv_open [OF assms(2) Some] by (auto simp: Acquire_def)
next
  case None
  obtain os2 i where o: "os_open True os (path_Join [baseDir fc, p]) = (os2, Some (osNextHandle os))" "quiet_os os2"
    "osOpen os2 = (osOpen os)(osNextHandle os \<mapsto> i)" by (rule quiet_open [OF assms(1)])
  obtain os3 where g: "grow_file os2 (osNextHandle os) n = (os3, None)" "quiet_os os3" by (rule quiet_grow [OF o(2), of "osNextHandle os" i]) (simp add: o(3))
  have "osOpen os3 = (osOpen os)(osNextHandle os \<mapsto> i)" using grow_file_fields [OF g(1)] o(3) by simp
  moreover have "fc1 = set_entry fc p (Some \<lparr>entFile = osNextHandle os, refCount = 1\<rparr>)" "os1 = os3" "r = Inr (osNextHandle os)"
    using assms None o(1) g(1) by (auto simp: Acquire_def mkdir_all_def)
  ultimately show ?thesis using g(2) assms(3) by auto
qed

lemma quiet_put:
  assumes "quiet_os os" "osOpen os h = Some i" "put_block os h b = (os1, ok)"
  shows "ok \<and> quiet_os os1 \<and> osOpen os1 = osOpen os"
proof -
  obtain f r where w: "(if blkIsZero b then cephfs_zeroRange (osInode os i) (blkOffset b) (blkLength b)
    else WriteAt (osInode os i) (blkOffset b) (blkData b)) = (f, r)" by force
  have q: "plan (osInode os i) = []" "\<not> fixedSize (osInode os i)" using assms(1) by (auto simp: quiet_os_def)
  have "r \<and> plan f = [] \<and> \<not> fixedSize f"
  proof (cases "blkIsZero b")
    case True
    then show ?thesis using w q
      by (cases "blkLength b = 0") (auto simp: cephfs_zeroRange_def PunchHole_def WriteZeros_def WriteZeros_loop_done)
  next
    case False
    then show ?thesis using w q by (auto simp: WriteAt_def split: if_splits)
  qed
  then show ?thesis using assms w by (auto simp: put_block_def quiet_os_def split: if_splits)
qed

definition live :: "os_state \<Rightarrow> open_files \<Rightarrow> bool" where
  "live os files \<longleftrightarrow> (\<forall>(p, h)\<in>set files. osOpen os h \<noteq> None)"

lemma quiet_write_block:
  assumes "quiet_os os" "cache_inv fc os" "fcCreate fc" "live os files" "\<not> contains (Clean (blkFilePath b)) ''..''"
    "write_block fc os files b = (fc1, os1, files1, err)"
  shows "err = None \<and> quiet_os os1 \<and> cache_inv fc1 os1 \<and> fcCreate fc1 \<and> live os1 files1"
proof -
  obtain fc2 os2 files2 r where g: "get_file fc os files b = (fc2, os2, files2, r)" by (metis prod_cases4)
  have "quiet_os os2 \<and> cache_inv fc2 os2 \<and> fcCreate fc2 \<and> live os2 files2 \<and> (\<exists>h i. r = Inr h \<and> osOpen os2 h = Some i)"
  proof (cases "map_of files (blkFilePath b)")
    case (Some h)
    then show ?thesis using assms g map_of_SomeD [OF Some] by (auto simp: get_file_def live_def)
  next
    case None
    obtain fc3 os3 r3 where a: "Acquire fc os (blkFilePath b) (int (blkTotalSize b)) = (fc3, os3, r3)" by (metis prod_cases3)
    note q = quiet_Acquire [OF assms(1-3,5) a]
    then obtain h where h: "r3 = Inr h" "osOpen os3 h \<noteq> None" by blast
    have "live os3 files" using q assms(4) unfolding live_def by blast
    then show ?thesis using q h g a None Acquire_spec [OF assms(2) a] by (auto simp: get_file_def live_def)
  qed
  then obtain h i where i: "quiet_os os2" "cache_inv fc2 os2" "fcCreate fc2" "live os2 files2" "r = Inr h" "osOpen os2 h = Some i" by blast
  obtain os3 ok where p: "put_block os2 h b = (os3, ok)" by force
  note q = quiet_put [OF i(1,6) p]
  have "osNextHandle os3 = osNextHandle os2" using p i(6) by (auto simp: put_block_def split: prod.splits)
  then have "cache_inv fc2 os3" using inv_same [OF i(2)] q by simp
  then show ?thesis using assms(6) g i p q by (auto simp: write_block_def live_def)
qed

lemma quiet_writeBlocks:
  assumes "fs_writeBlocks fc os files bs = (fc1, os1, files1, err)" "quiet_os os" "cache_inv fc os" "fcCreate fc" "live os files"
    "\<forall>b\<in>set bs. \<not> contains (Clean (blkFilePath b)) ''..''"
  shows "err = None \<and> quiet_os os1 \<and> cache_inv fc1 os1 \<and> fcCreate fc1 \<and> live os1 files1"
  using assms
proof (induction fc os files bs rule: fs_writeBlocks.induct)
  case (2 fc os files b bs)
  obtain fc2 os2 files2 r where w: "write_block fc os files b = (fc2, os2, files2, r)" by (metis prod_cases4)
  have q: "r = None \<and> quiet_os os2 \<and> cache_inv fc2 os2 \<and> fcCreate fc2 \<and> live os2 files2"
    by (rule quiet_write_block [OF "2.prems"(2-5) _ w]) (use "2.prems"(6) in simp)
  then have rest: "fs_writeBlocks fc2 os2 files2 bs = (fc1, os1, files1, err)" using "2.prems"(1) w by simp
  show ?case using "2.IH" [OF w [symmetric] refl refl _ rest] q "2.prems"(6) by simp
qed simp

lemma quiet_write_loop:
  assumes "quiet_os os" "cache_inv fc os" "fcCreate fc" "live os files"
    "\<forall>bs\<in>set reqs. \<forall>b\<in>set bs. \<not> contains (Clean (blkFilePath b)) ''..''"
    "fs_write_loop fc os files [] acks (map WriteReq reqs @ [WriteEOF]) = (fc1, os1, files1, acks1, err)"
  shows "err = None \<and> quiet_os os1"
  using assms
proof (induction reqs arbitrary: fc os files acks)
  case (Cons bs reqs)
  obtain fc2 os2 files2 r where w: "fs_writeBlocks fc os files bs = (fc2, os2, files2, r)" by (metis prod_cases4)
  have q: "r = None \<and> quiet_os os2 \<and> cache_inv fc2 os2 \<and> fcCreate fc2 \<and> live os2 files2"
    by (rule quiet_writeBlocks [OF w Cons.prems(1-4)]) (use Cons.prems(5) in simp)
  have "fs_send_acks [] (collectRequestIDs bs) = ([], True)" by (simp add: fs_send_acks_def)
  then have rest: "fs_write_loop fc2 os2 files2 [] (acks @ collectRequestIDs bs) (map WriteReq reqs @ [WriteEOF]) = (fc1, os1, files1, acks1, err)"
    using Cons.prems(6) w q by simp
  show ?case by (rule Cons.IH [OF _ _ _ _ _ rest]) (use q Cons.prems(5) in auto)
qed simp

lemma quiet_cleanup: "quiet_os os \<Longrightarrow> fs_cleanup ps fc os None = (fc1, os1, err) \<Longrightarrow> err = None"
proof (induction ps arbitrary: fc os)
  case (Cons p ps)
  obtain fc2 os2 r where s: "SyncAndRelease fc os p = (fc2, os2, r)" by (metis prod_cases3)
  note q = quiet_SyncAndRelease [OF Cons.prems(1) s]
  then have "fs_cleanup ps fc2 os2 None = (fc1, os1, err)" using Cons.prems(2) s by simp
  then show ?case using Cons.IH q by blast
qed simp

lemma fs_Write_quiet:
  assumes "quiet_os os" "cache_inv fc os" "fcCreate fc" "\<forall>bs\<in>set reqs. \<forall>b\<in>set bs. \<not> contains (Clean (blkFilePath b)) ''..''"
    "fs_Write order fc os [] (map WriteReq reqs @ [WriteEOF]) = (fc1, os1, acks, err)"
  shows "err = None"
proof -
  obtain fc2 os2 files acks2 err2 where l: "fs_write_loop fc os [] [] [] (map WriteReq reqs @ [WriteEOF]) = (fc2, os2, files, acks2, err2)"
    by (metis prod_cases5)
  have "live os []" by (simp add: live_def)
  note q = quiet_write_loop [OF assms(1-3) this assms(4) l]
  obtain fc3 os3 err3 where c: "fs_cleanup (order (map fst files)) fc2 os2 None = (fc3, os3, err3)" by (metis prod_cases3)
  then show ?thesis using assms(5) l q quiet_cleanup [OF _ c] by (auto simp: fs_Write_def)
qed

lemma requests_reqs: "requests (map WriteReq reqs @ [WriteEOF]) = reqs"
  by (induction reqs) auto

subsection \<open>Correctness\<close>

definition sample_os :: os_state where
  "sample_os = \<lparr>osDir = Map.empty, osInode = (\<lambda>_. \<lparr>content = [], fixedSize = False, plan = []\<rparr>), osOpen = Map.empty,
     osNextInode = 0, osNextHandle = 0, osOuts = [], osPlans = (\<lambda>_. [])\<rparr>"

lemma fs_ok_start:
  assumes "osOpen os = Map.empty" "\<forall>p i. osDir os p = Some i \<longrightarrow> i < osNextInode os" "links_ok img (osDir os)"
  shows "fs_ok img (NewWriteCache root) os"
  using assms inv_start [OF assms(1), of root True]
  by (simp add: fs_ok_def NewWriteCache_def names_ok_def NewFileCache_def entry_def)

text \<open>
  An acknowledged block is in its file.  For blocks that carry the source image of the file their
  path names, and whatever opens, truncations, writes, sends, syncs and closes fail, the ids acknowledged are
  those of the first requests of the stream (of all of them, if the handler returns no error), and every byte of
  their blocks is as in the source image after the deferred cleanup; no byte of any file is ever anything
  but its old value or its image's.
\<close>

theorem fs_Write_ack_safe:
  assumes "\<forall>bs\<in>set (requests evs). \<forall>b\<in>set bs. img_block img (baseDir fc) b" "fs_ok img fc os"
  shows "case fs_Write order fc os sends evs of (fc1, os1, acks, err) \<Rightarrow>
    fs_ok img fc1 os1 \<and> (\<forall>q j. fbyte os1 q j = fbyte os q j \<or> fbyte os1 q j = byte_at (img q) j) \<and>
    (\<exists>n. acks = map blkRequestId (concat (take n (requests evs))) \<and> (err = None \<longrightarrow> n = length (requests evs)) \<and>
       (\<forall>b\<in>set (concat (take n (requests evs))). on_file img (baseDir fc) os1 b))"
proof -
  obtain fc1 os1 files acks err where l: "fs_write_loop fc os [] sends [] evs = (fc1, os1, files, acks, err)" by (metis prod_cases5)
  obtain fc2 os2 err2 where c: "fs_cleanup (order (map fst files)) fc1 os1 err = (fc2, os2, err2)" by (metis prod_cases3)
  have "files_ok (baseDir fc) os []" by (simp add: files_ok_def)
  note a = fs_write_loop_evolves [OF l assms(2) this assms(1)]
  note b = fs_cleanup_evolves [OF c conjunct1 [OF a]]
  obtain n where n: "acks = map blkRequestId (concat (take n (requests evs)))" "err = None \<longrightarrow> n = length (requests evs)"
    "\<forall>b\<in>set (concat (take n (requests evs))). on_file img (baseDir fc) os1 b" using a by auto
  have "evolves img os os2" using a b evolves_trans by blast
  moreover have "\<forall>b\<in>set (concat (take n (requests evs))). on_file img (baseDir fc) os2 b" using n(3) b evolves_on_file by blast
  ultimately show ?thesis using l c a b n by (auto simp: fs_Write_def evolves_def)
qed

lemma sample_fs:
  "fs_ok (\<lambda>_. sample_image) (NewWriteCache ''/data'') sample_os" "quiet_os sample_os" "fcCreate (NewWriteCache ''/data'')"
  "img_block (\<lambda>_. sample_image) (baseDir (NewWriteCache ''/data'')) sample_block" "baseDir (NewWriteCache ''/data'') = ''/data''"
  "\<not> contains (Clean (blkFilePath sample_block)) ''..''"
proof -
  show "fs_ok (\<lambda>_. sample_image) (NewWriteCache ''/data'') sample_os"
    by (rule fs_ok_start) (simp_all add: sample_os_def links_ok_def)
  show "\<not> contains (Clean (blkFilePath sample_block)) ''..''" unfolding sample_block_def by code_simp
qed (simp_all add: sample_os_def quiet_os_def NewWriteCache_def NewFileCache_def img_block_def sample_block_of)

theorem fs_Write_ack_safe_witness:
  "case fs_Write id (NewWriteCache ''/data'') sample_os [] [WriteReq [sample_block], WriteEOF] of (fc1, os1, acks, err) \<Rightarrow>
     err = None \<and> acks = [0] \<and> on_file (\<lambda>_. sample_image) ''/data'' os1 sample_block"
proof -
  obtain fc1 os1 acks err where r: "fs_Write id (NewWriteCache ''/data'') sample_os [] [WriteReq [sample_block], WriteEOF] = (fc1, os1, acks, err)"
    by (metis prod_cases4)
  have quiet: "err = None"
    by (rule fs_Write_quiet [of _ _ "[[sample_block]]", OF sample_fs(2) fs_okD(1) [OF sample_fs(1)] sample_fs(3)]) (use r sample_fs(6) in simp_all)
  have blk: "\<forall>bs\<in>set (requests [WriteReq [sample_block], WriteEOF]). \<forall>b\<in>set bs. img_block (\<lambda>_. sample_image) (baseDir (NewWriteCache ''/data'')) b"
    using sample_fs(4) by simp
  show ?thesis using fs_Write_ack_safe [OF blk sample_fs(1), of id "[]"] quiet unfolding r sample_fs(5) prod.case by (auto simp: sample_block_def)
qed

text \<open>
  Without faults a stream is written completely.  If no call fails and no path is refused, the handler
  returns no error, all ids are acknowledged and every block is in its file.
\<close>

theorem fs_Write_complete:
  assumes "\<forall>bs\<in>set reqs. \<forall>b\<in>set bs. img_block img (baseDir fc) b \<and> \<not> contains (Clean (blkFilePath b)) ''..''"
    "fs_ok img fc os" "quiet_os os" "fcCreate fc"
  shows "case fs_Write order fc os [] (map WriteReq reqs @ [WriteEOF]) of (fc1, os1, acks, err) \<Rightarrow>
    err = None \<and> acks = map blkRequestId (concat reqs) \<and> (\<forall>b\<in>set (concat reqs). on_file img (baseDir fc) os1 b)"
proof -
  obtain fc1 os1 files acks err where l: "fs_write_loop fc os [] [] [] (map WriteReq reqs @ [WriteEOF]) = (fc1, os1, files, acks, err)"
    by (metis prod_cases5)
  obtain fc2 os2 err2 where c: "fs_cleanup (order (map fst files)) fc1 os1 err = (fc2, os2, err2)" by (metis prod_cases3)
  have w: "fs_Write order fc os [] (map WriteReq reqs @ [WriteEOF]) = (fc2, os2, acks, err2)" using l c by (simp add: fs_Write_def)
  have none: "err2 = None" by (rule fs_Write_quiet [OF assms(3) fs_okD(1) [OF assms(2)] assms(4) _ w]) (use assms(1) in blast)
  have blk: "\<forall>bs\<in>set (requests (map WriteReq reqs @ [WriteEOF])). \<forall>b\<in>set bs. img_block img (baseDir fc) b"
    using assms(1) by (simp add: requests_reqs)
  have "files_ok (baseDir fc) os []" by (simp add: files_ok_def)
  note a = fs_write_loop_evolves [OF l assms(2) this blk]
  note b = fs_cleanup_evolves [OF c conjunct1 [OF a]]
  have "acks = map blkRequestId (concat reqs)" "\<forall>b\<in>set (concat reqs). on_file img (baseDir fc) os1 b"
    using a b none unfolding requests_reqs by auto
  moreover have "\<forall>b\<in>set (concat reqs). on_file img (baseDir fc) os2 b" using calculation(2) b evolves_on_file by blast
  ultimately show ?thesis using w none by simp
qed

theorem fs_Write_complete_witness:
  "case fs_Write id (NewWriteCache ''/data'') sample_os [] (map WriteReq [[sample_block]] @ [WriteEOF]) of (fc1, os1, acks, err) \<Rightarrow>
     err = None \<and> acks = map blkRequestId (concat [[sample_block]]) \<and>
     (\<forall>b\<in>set (concat [[sample_block]]). on_file (\<lambda>_. sample_image) (baseDir (NewWriteCache ''/data'')) os1 b)"
  by (rule fs_Write_complete) (use sample_fs in simp_all)

subsection \<open>Concurrent streams\<close>

text \<open>
  The server runs any number of \<^verbatim>\<open>Write\<close> streams next to \<^verbatim>\<open>Commit\<close> streams over one cache.  Their
  steps interleave: a stream receives a request, writes its next block or fails on it, acknowledges the request
  or fails to; and \<^verbatim>\<open>SyncAndRelease\<close> is called for any path at any time, by a commit or
  by the cleanup of a stream, so that a file may be closed under a stream that still holds its handle.
\<close>

record fs_system =
  sysCache :: FileCache
  sysOs :: os_state
  sysFiles :: "nat \<Rightarrow> open_files"
  sysReq :: "nat \<Rightarrow> ChangedBlock list"
  sysTodo :: "nat \<Rightarrow> ChangedBlock list"
  sysAcked :: "ChangedBlock list"

inductive fs_step :: "images \<Rightarrow> fs_system \<Rightarrow> fs_system \<Rightarrow> bool" for img where
  recv: "\<forall>b\<in>set bs. img_block img (baseDir (sysCache s)) b \<Longrightarrow> sysReq s k = [] \<Longrightarrow>
     fs_step img s (s\<lparr>sysReq := (sysReq s)(k := bs), sysTodo := (sysTodo s)(k := bs)\<rparr>)"
| block: "sysTodo s k = b # bs \<Longrightarrow> write_block (sysCache s) (sysOs s) (sysFiles s k) b = (fc, os, files, None) \<Longrightarrow>
     fs_step img s (s\<lparr>sysCache := fc, sysOs := os, sysFiles := (sysFiles s)(k := files), sysTodo := (sysTodo s)(k := bs)\<rparr>)"
| failed: "sysTodo s k = b # bs \<Longrightarrow> write_block (sysCache s) (sysOs s) (sysFiles s k) b = (fc, os, files, Some e) \<Longrightarrow>
     fs_step img s (s\<lparr>sysCache := fc, sysOs := os, sysFiles := (sysFiles s)(k := files),
       sysTodo := (sysTodo s)(k := []), sysReq := (sysReq s)(k := [])\<rparr>)"
| ack: "sysTodo s k = [] \<Longrightarrow>
     fs_step img s (s\<lparr>sysReq := (sysReq s)(k := []), sysAcked := sysAcked s @ sysReq s k\<rparr>)"
| unsent: "sysTodo s k = [] \<Longrightarrow> fs_step img s (s\<lparr>sysReq := (sysReq s)(k := [])\<rparr>)"
| release: "SyncAndRelease (sysCache s) (sysOs s) p = (fc, os, r) \<Longrightarrow> fs_step img s (s\<lparr>sysCache := fc, sysOs := os\<rparr>)"
| finish: "sysReq s k = [] \<Longrightarrow> fs_step img s (s\<lparr>sysFiles := (sysFiles s)(k := [])\<rparr>)"

definition fs_start :: "path \<Rightarrow> os_state \<Rightarrow> fs_system" where
  "fs_start root os = \<lparr>sysCache = NewWriteCache root, sysOs = os, sysFiles = (\<lambda>_. []), sysReq = (\<lambda>_. []), sysTodo = (\<lambda>_. []), sysAcked = []\<rparr>"

text \<open>The blocks of a request that are no longer to be written are on their files.\<close>

definition stream_ok :: "images \<Rightarrow> path \<Rightarrow> os_state \<Rightarrow> open_files \<Rightarrow> ChangedBlock list \<Rightarrow> ChangedBlock list \<Rightarrow> bool" where
  "stream_ok img root os files req todo \<longleftrightarrow> files_ok root os files \<and> (\<forall>b\<in>set todo. img_block img root b) \<and>
     (\<exists>ds. req = ds @ todo \<and> (\<forall>b\<in>set ds. on_file img root os b))"

definition fs_sys_inv :: "images \<Rightarrow> path \<Rightarrow> os_state \<Rightarrow> fs_system \<Rightarrow> bool" where
  "fs_sys_inv img root os0 s \<longleftrightarrow> baseDir (sysCache s) = root \<and> fs_ok img (sysCache s) (sysOs s) \<and> evolves img os0 (sysOs s) \<and>
     (\<forall>k. stream_ok img root (sysOs s) (sysFiles s k) (sysReq s k) (sysTodo s k)) \<and> (\<forall>b\<in>set (sysAcked s). on_file img root (sysOs s) b)"

lemma stream_ok_evolves: "evolves img os os1 \<Longrightarrow> stream_ok img root os files req todo \<Longrightarrow> stream_ok img root os1 files req todo"
  unfolding stream_ok_def using evolves_files_ok [of img os os1 root files] evolves_on_file [of img os os1 root] by metis

lemma fs_sys_inv_evolves:
  assumes "fs_sys_inv img root os0 s" "fs_ok img fc os" "evolves img (sysOs s) os" "baseDir fc = root"
    "stream_ok img root os files req todo"
  shows "fs_sys_inv img root os0 (s\<lparr>sysCache := fc, sysOs := os, sysFiles := (sysFiles s)(k := files), sysTodo := (sysTodo s)(k := todo),
    sysReq := (sysReq s)(k := req)\<rparr>)"
  using assms stream_ok_evolves [OF assms(3)] evolves_on_file [OF assms(3)] evolves_trans [OF _ assms(3)] by (simp add: fs_sys_inv_def)

lemma fs_step_inv:
  assumes "fs_step img s s'" "fs_sys_inv img root os0 s"
  shows "fs_sys_inv img root os0 s'"
  using assms(1)
proof cases
  case (recv bs k)
  have "stream_ok img root (sysOs s) (sysFiles s k) bs bs"
    using assms(2) recv(2) by (auto simp: fs_sys_inv_def stream_ok_def)
  then show ?thesis using assms(2) recv(1) by (simp add: fs_sys_inv_def)
next
  case (block k b bs fc os files)
  have st: "stream_ok img root (sysOs s) (sysFiles s k) (sysReq s k) (b # bs)" "fs_ok img (sysCache s) (sysOs s)" "baseDir (sysCache s) = root"
    using assms(2) block(2) by (auto simp: fs_sys_inv_def) metis
  note e = write_block_evolves [OF st(2) _ _ block(3)]
  have e': "fs_ok img fc os" "evolves img (sysOs s) os" "baseDir fc = root" "files_ok root os files" "on_file img root os b"
    using e st by (auto simp: stream_ok_def)
  obtain ds where ds: "sysReq s k = ds @ b # bs" "\<forall>b\<in>set ds. on_file img root (sysOs s) b" using st(1) by (auto simp: stream_ok_def)
  have "stream_ok img root os files (sysReq s k) bs"
    using st(1) e'(4,5) ds evolves_on_file [OF e'(2)] by (auto simp: stream_ok_def intro!: exI [of _ "ds @ [b]"])
  from fs_sys_inv_evolves [OF assms(2) e'(1-3) this, of k] show ?thesis using block(1) by simp
next
  case (failed k b bs fc os files e)
  have st: "stream_ok img root (sysOs s) (sysFiles s k) (sysReq s k) (b # bs)" "fs_ok img (sysCache s) (sysOs s)" "baseDir (sysCache s) = root"
    using assms(2) failed(2) by (auto simp: fs_sys_inv_def) metis
  note e = write_block_evolves [OF st(2) _ _ failed(3)]
  have e': "fs_ok img fc os" "evolves img (sysOs s) os" "baseDir fc = root" "files_ok root os files" using e st by (auto simp: stream_ok_def)
  have "stream_ok img root os files [] []" using e'(4) by (simp add: stream_ok_def)
  from fs_sys_inv_evolves [OF assms(2) e'(1-3) this, of k] show ?thesis using failed(1) by simp
next
  case (ack k)
  have st: "stream_ok img root (sysOs s) (sysFiles s k) (sysReq s k) []" using assms(2) ack(2) unfolding fs_sys_inv_def by metis
  then have "stream_ok img root (sysOs s) (sysFiles s k) [] []" "\<forall>b\<in>set (sysReq s k). on_file img root (sysOs s) b" by (auto simp: stream_ok_def)
  then show ?thesis using assms(2) ack by (auto simp: fs_sys_inv_def)
next
  case (unsent k)
  have "stream_ok img root (sysOs s) (sysFiles s k) (sysReq s k) []" using assms(2) unsent(2) unfolding fs_sys_inv_def by metis
  then have "stream_ok img root (sysOs s) (sysFiles s k) [] []" by (auto simp: stream_ok_def)
  then show ?thesis using assms(2) unsent by (auto simp: fs_sys_inv_def)
next
  case (release p fc os r)
  have "fs_ok img (sysCache s) (sysOs s)" "baseDir (sysCache s) = root" using assms(2) by (auto simp: fs_sys_inv_def)
  note e = SyncAndRelease_evolves [OF this(1) release(2)] this(2)
  then have ev: "evolves img (sysOs s) os" by blast
  then show ?thesis
    using assms(2) e release(1) stream_ok_evolves [OF ev] evolves_on_file [OF ev] evolves_trans [OF _ ev] by (simp add: fs_sys_inv_def)
next
  case (finish k)
  have "stream_ok img root (sysOs s) [] (sysReq s k) (sysTodo s k)"
    using assms(2) by (auto simp: fs_sys_inv_def stream_ok_def files_ok_def)
  then show ?thesis using assms(2) finish(1) by (simp add: fs_sys_inv_def)
qed

lemma fs_reach_inv: "(fs_step img)\<^sup>*\<^sup>* s s' \<Longrightarrow> fs_sys_inv img root os0 s \<Longrightarrow> fs_sys_inv img root os0 s'"
  by (induction rule: rtranclp_induct) (auto intro: fs_step_inv)

text \<open>
  C8: acknowledgements are safe under concurrency.  However the steps of any number of \<^verbatim>\<open>Write\<close> streams
  and of commits interleave, and whatever fails, every byte of every block acknowledged so far is as in
  the source image of its file.
\<close>

theorem fs_concurrent_ack_safe:
  assumes "(fs_step img)\<^sup>*\<^sup>* (fs_start root os) s" "osOpen os = Map.empty" "\<forall>p i. osDir os p = Some i \<longrightarrow> i < osNextInode os"
    "links_ok img (osDir os)" "b \<in> set (sysAcked s)" "j \<in> blk_bytes b"
  shows "fbyte (sysOs s) (path_Join [root, blkFilePath b]) j = byte_at (img (path_Join [root, blkFilePath b])) j"
proof -
  have "fs_sys_inv img root os (fs_start root os)"
    using fs_ok_start [OF assms(2-4), of root]
    by (simp add: fs_sys_inv_def fs_start_def stream_ok_def files_ok_def NewWriteCache_def NewFileCache_def)
  from fs_reach_inv [OF assms(1) this] show ?thesis using assms(5,6) by (simp add: fs_sys_inv_def on_file_def)
qed


theorem fs_concurrent_ack_safe_witness:
  "\<exists>s. (fs_step (\<lambda>_. sample_image))\<^sup>*\<^sup>* (fs_start ''/data'' sample_os) s \<and> sample_block \<in> set (sysAcked s) \<and>
     fbyte (sysOs s) (path_Join [''/data'', blkFilePath sample_block]) 2 = byte_at sample_image 2"
proof -
  let ?s0 = "fs_start ''/data'' sample_os"
  let ?s1 = "?s0\<lparr>sysReq := (sysReq ?s0)(0 := [sample_block]), sysTodo := (sysTodo ?s0)(0 := [sample_block])\<rparr>"
  have c: "sysCache ?s0 = NewWriteCache ''/data''" "sysOs ?s0 = sample_os" "sysReq ?s0 0 = []" "sysFiles ?s0 0 = []"
    by (simp_all add: fs_start_def)
  have a: "fs_step (\<lambda>_. sample_image) ?s0 ?s1" by (rule fs_step.recv) (use sample_fs(4) c in auto)
  obtain fc os files err where w: "write_block (NewWriteCache ''/data'') sample_os [] sample_block = (fc, os, files, err)" by (metis prod_cases4)
  have "err = None" using quiet_write_block [OF sample_fs(2) fs_okD(1) [OF sample_fs(1)] sample_fs(3) _ sample_fs(6) w] by (simp add: live_def)
  let ?s2 = "?s1\<lparr>sysCache := fc, sysOs := os, sysFiles := (sysFiles ?s1)(0 := files), sysTodo := (sysTodo ?s1)(0 := [])\<rparr>"
  have b: "fs_step (\<lambda>_. sample_image) ?s1 ?s2" by (rule fs_step.block [of _ _ sample_block]) (use w c \<open>err = None\<close> in auto)
  let ?s3 = "?s2\<lparr>sysReq := (sysReq ?s2)(0 := []), sysAcked := sysAcked ?s2 @ sysReq ?s2 0\<rparr>"
  have "fs_step (\<lambda>_. sample_image) ?s2 ?s3" by (rule fs_step.ack) simp
  then have run: "(fs_step (\<lambda>_. sample_image))\<^sup>*\<^sup>* ?s0 ?s3" using a b by (meson rtranclp.rtrancl_into_rtrancl rtranclp.rtrancl_refl)
  have acked: "sample_block \<in> set (sysAcked ?s3)" by simp
  have "fbyte (sysOs ?s3) (path_Join [''/data'', blkFilePath sample_block]) 2 = byte_at sample_image 2"
    by (rule fs_concurrent_ack_safe [OF run _ _ _ acked]) (simp_all add: sample_os_def links_ok_def blk_bytes_def blk_payload_def sample_block_def)
  then show ?thesis using run acked by blast
qed

end
