(* ===== verification/Conn_Pool.thy ===== *)
theory Conn_Pool
  imports Prelude
begin

section \<open>The connection pool (internal/ceph/connection, internal/ceph/cephconf)\<close>

text \<open>
  Connections to a cluster are shared: the pool counts the users of each and a timer closes those that
  nobody has used for a while.  A connection is a number; \<^verbatim>\<open>live\<close> are those that were dialled and not
  shut down.  \<^verbatim>\<open>Get\<close> gives up the lock while it dials, so its two critical sections are separate
  definitions, and the steps of several goroutines interleave in the relation at the end.

  The lemmas show that the counts are the numbers of users, that a connection in use is never closed, and
  that every live connection is in the pool or still being dialled.
\<close>

subsection \<open>The configuration files (cephconf.go)\<close>

definition cephConfigRoot :: path where "cephConfigRoot = ''/etc/ceph''"
definition CephConfigPath :: path where "CephConfigPath = ''/etc/ceph/ceph.conf''"
definition keyRing :: path where "keyRing = ''/etc/ceph/keyring''"

text \<open>\<^verbatim>\<open>os.Stat\<close> finds the file, misses it, or fails; the outcomes of failing calls are a list.\<close>

type_synonym conf_state = "(path \<rightharpoonup> string) \<times> bool list"

definition conf_call :: "conf_state \<Rightarrow> bool \<times> conf_state" where
  "conf_call s = (case pop_ok (snd s) of (ok, outs) \<Rightarrow> (ok, fst s, outs))"

definition write_if_missing :: "path \<Rightarrow> string \<Rightarrow> conf_state \<Rightarrow> bool \<times> conf_state" where
  "write_if_missing p content s =
     (case conf_call s of
        (False, s1) \<Rightarrow> (False, s1)
      | (True, s1) \<Rightarrow>
          (case fst s1 p of
             Some _ \<Rightarrow> (True, s1)
           | None \<Rightarrow>
               (case conf_call s1 of
                  (False, s2) \<Rightarrow> (False, s2)
                | (True, s2) \<Rightarrow> (True, (fst s2)(p \<mapsto> content), snd s2))))"

definition createKeyRingFile :: "conf_state \<Rightarrow> bool \<times> conf_state" where
  "createKeyRingFile s = write_if_missing keyRing '''' s"

definition WriteCephConfig :: "string \<Rightarrow> conf_state \<Rightarrow> bool \<times> conf_state" where
  "WriteCephConfig cephConfig s =
     (case conf_call s of
        (False, s1) \<Rightarrow> (False, s1)
      | (True, s1) \<Rightarrow>
          (case write_if_missing CephConfigPath cephConfig s1 of
             (False, s2) \<Rightarrow> (False, s2)
           | (True, s2) \<Rightarrow> createKeyRingFile s2))"

lemma write_if_missing_spec:
  assumes "write_if_missing p c s = (ok, s')"
  shows "(\<forall>q x. fst s q = Some x \<longrightarrow> fst s' q = Some x) \<and> (ok \<longrightarrow> fst s' p \<noteq> None) \<and> (\<forall>q. q \<noteq> p \<longrightarrow> fst s' q = fst s q)"
proof -
  obtain ok1 s1 where a: "conf_call s = (ok1, s1)" by (meson surj_pair)
  obtain ok2 s2 where b: "conf_call s1 = (ok2, s2)" by (meson surj_pair)
  have "fst s1 = fst s" "fst s2 = fst s" using a b by (auto simp: conf_call_def split: prod.splits)
  then show ?thesis using assms a b by (auto simp: write_if_missing_def split: bool.splits option.splits)
qed

lemma WriteCephConfig_spec:
  assumes "WriteCephConfig c s = (ok, s')"
  shows "(\<forall>q x. fst s q = Some x \<longrightarrow> fst s' q = Some x) \<and> (ok \<longrightarrow> fst s' CephConfigPath \<noteq> None \<and> fst s' keyRing \<noteq> None)"
proof -
  obtain ok1 s1 where a: "conf_call s = (ok1, s1)" by (meson surj_pair)
  then have f: "fst s1 = fst s" by (auto simp: conf_call_def split: prod.splits)
  obtain ok2 s2 where b: "write_if_missing CephConfigPath c s1 = (ok2, s2)" by (meson surj_pair)
  obtain ok3 s3 where d: "write_if_missing keyRing '''' s2 = (ok3, s3)" by (meson surj_pair)
  note sp = write_if_missing_spec [OF b] write_if_missing_spec [OF d]
  show ?thesis
    using assms a b d f sp by (cases ok1; cases ok2) (auto simp: WriteCephConfig_def createKeyRingFile_def)
qed

subsection \<open>The pool (conn_pool.go)\<close>

record connEntry =
  ceConn :: nat
  lastUsed :: int
  users :: int

record ConnPool =
  interval :: int
  expiry :: int
  conns :: "string \<rightharpoonup> connEntry"
  live :: "nat set"
  nextConn :: nat

datatype conn_error = WriteConfigFailed | KeyfileFailed | NewConnFailed | ParseArgsFailed | ReadConfigFailed | DialFailed | UserIDFailed

definition NewConnPool :: "int \<Rightarrow> int \<Rightarrow> ConnPool" where
  "NewConnPool iv ex = \<lparr>interval = iv, expiry = ex, conns = Map.empty, live = {}, nextConn = 0\<rparr>"

definition ce_get :: "int \<Rightarrow> connEntry \<Rightarrow> connEntry" where
  "ce_get now ce = ce\<lparr>lastUsed := now, users := users ce + 1\<rparr>"

definition ce_put :: "connEntry \<Rightarrow> connEntry" where
  "ce_put ce = ce\<lparr>users := users ce - 1\<rparr>"

definition ce_destroy :: "nat \<Rightarrow> ConnPool \<Rightarrow> ConnPool" where
  "ce_destroy c cp = cp\<lparr>live := live cp - {c}\<rparr>"

definition getConn :: "int \<Rightarrow> string \<Rightarrow> ConnPool \<Rightarrow> ConnPool \<times> nat option" where
  "getConn now unique cp =
     (case conns cp unique of
        None \<Rightarrow> (cp, None)
      | Some ce \<Rightarrow> (cp\<lparr>conns := (conns cp)(unique \<mapsto> ce_get now ce)\<rparr>, Some (ceConn ce)))"

definition generateUniqueKey :: "(path \<rightharpoonup> string) \<Rightarrow> string \<Rightarrow> string \<Rightarrow> path \<Rightarrow> conn_error + string" where
  "generateUniqueKey readFile monitors user keyfile =
     (case readFile keyfile of
        None \<Rightarrow> Inl KeyfileFailed
      | Some key \<Rightarrow> Inr (monitors @ ''|'' @ user @ ''|'' @ key))"

text \<open>Dialling: the four library calls that may fail, and the new connection.\<close>

record dial_env =
  newConnOk :: bool
  parseArgsOk :: bool
  readConfigOk :: bool
  connectOk :: bool

definition dial :: "dial_env \<Rightarrow> ConnPool \<Rightarrow> ConnPool \<times> (conn_error + nat)" where
  "dial de cp =
     (if \<not> newConnOk de then (cp, Inl NewConnFailed)
      else if \<not> parseArgsOk de then (cp, Inl ParseArgsFailed)
      else if \<not> readConfigOk de then (cp, Inl ReadConfigFailed)
      else if \<not> connectOk de then (cp, Inl DialFailed)
      else (cp\<lparr>live := insert (nextConn cp) (live cp), nextConn := Suc (nextConn cp)\<rparr>, Inr (nextConn cp)))"

text \<open>The second critical section of \<^verbatim>\<open>Get\<close>: another goroutine may have stored a connection meanwhile.\<close>

definition Get_store :: "int \<Rightarrow> int \<Rightarrow> string \<Rightarrow> nat \<Rightarrow> ConnPool \<Rightarrow> ConnPool \<times> nat" where
  "Get_store dialled now unique c cp =
     (case getConn now unique cp of
        (cp1, Some old) \<Rightarrow> (ce_destroy c cp1, old)
      | (cp1, None) \<Rightarrow> (cp1\<lparr>conns := (conns cp1)(unique \<mapsto> \<lparr>ceConn = c, lastUsed = dialled, users = 1\<rparr>)\<rparr>, c))"

text \<open>
  \<^verbatim>\<open>others\<close> is what the other goroutines do while the lock is free.
\<close>

definition pool_Get ::
  "bool \<Rightarrow> (path \<rightharpoonup> string) \<Rightarrow> dial_env \<Rightarrow> (ConnPool \<Rightarrow> ConnPool) \<Rightarrow> int \<Rightarrow> int \<Rightarrow> int \<Rightarrow> string \<Rightarrow> string \<Rightarrow> path \<Rightarrow>
    ConnPool \<Rightarrow> ConnPool \<times> (conn_error + nat)" where
  "pool_Get confOk readFile de others t1 t2 t3 monitors user keyfile cp =
     (if \<not> confOk then (cp, Inl WriteConfigFailed)
      else case generateUniqueKey readFile monitors user keyfile of
        Inl e \<Rightarrow> (cp, Inl e)
      | Inr unique \<Rightarrow>
          (case getConn t1 unique cp of
             (cp1, Some c) \<Rightarrow> (cp1, Inr c)
           | (cp1, None) \<Rightarrow>
               (case dial de cp1 of
                  (cp2, Inl e) \<Rightarrow> (cp2, Inl e)
                | (cp2, Inr c) \<Rightarrow> (case Get_store t2 t3 unique c (others cp2) of (cp3, r) \<Rightarrow> (cp3, Inr r)))))"

text \<open>\<^verbatim>\<open>Copy\<close> and \<^verbatim>\<open>Put\<close> look for the entry in the order in which \<^verbatim>\<open>range\<close> visits the map, an argument here.\<close>

fun copy_loop :: "int \<Rightarrow> nat \<Rightarrow> string list \<Rightarrow> (string \<rightharpoonup> connEntry) \<Rightarrow> (string \<rightharpoonup> connEntry) \<times> nat option" where
  "copy_loop now c [] m = (m, None)"
| "copy_loop now c (k # ks) m =
     (case m k of
        None \<Rightarrow> copy_loop now c ks m
      | Some ce \<Rightarrow> if ceConn ce = c then (m(k \<mapsto> ce_get now ce), Some c) else copy_loop now c ks m)"

definition pool_Copy :: "((string \<rightharpoonup> connEntry) \<Rightarrow> string list) \<Rightarrow> int \<Rightarrow> nat \<Rightarrow> ConnPool \<Rightarrow> ConnPool \<times> nat option" where
  "pool_Copy order now c cp = (case copy_loop now c (order (conns cp)) (conns cp) of (m, r) \<Rightarrow> (cp\<lparr>conns := m\<rparr>, r))"

fun put_loop :: "nat \<Rightarrow> string list \<Rightarrow> (string \<rightharpoonup> connEntry) \<Rightarrow> (string \<rightharpoonup> connEntry)" where
  "put_loop c [] m = m"
| "put_loop c (k # ks) m =
     (case m k of
        None \<Rightarrow> put_loop c ks m
      | Some ce \<Rightarrow> if ceConn ce = c then m(k \<mapsto> ce_put ce) else put_loop c ks m)"

definition pool_Put :: "((string \<rightharpoonup> connEntry) \<Rightarrow> string list) \<Rightarrow> nat \<Rightarrow> ConnPool \<Rightarrow> ConnPool" where
  "pool_Put order c cp = cp\<lparr>conns := put_loop c (order (conns cp)) (conns cp)\<rparr>"

definition idle :: "int \<Rightarrow> ConnPool \<Rightarrow> connEntry \<Rightarrow> bool" where
  "idle now cp ce \<longleftrightarrow> users ce = 0 \<and> now - lastUsed ce > expiry cp"

fun gc_loop :: "int \<Rightarrow> string list \<Rightarrow> ConnPool \<Rightarrow> ConnPool" where
  "gc_loop now [] cp = cp"
| "gc_loop now (k # ks) cp =
     (case conns cp k of
        None \<Rightarrow> gc_loop now ks cp
      | Some ce \<Rightarrow>
          if idle now cp ce then gc_loop now ks ((ce_destroy (ceConn ce) cp)\<lparr>conns := (conns cp)(k := None)\<rparr>)
          else gc_loop now ks cp)"

definition pool_gc :: "((string \<rightharpoonup> connEntry) \<Rightarrow> string list) \<Rightarrow> int \<Rightarrow> ConnPool \<Rightarrow> ConnPool" where
  "pool_gc order now cp = gc_loop now (order (conns cp)) cp"

text \<open>\<^verbatim>\<open>Destroy\<close> panics at the first entry that still has users.\<close>

fun destroy_loop :: "string list \<Rightarrow> ConnPool \<Rightarrow> ConnPool option" where
  "destroy_loop [] cp = Some cp"
| "destroy_loop (k # ks) cp =
     (case conns cp k of
        None \<Rightarrow> destroy_loop ks cp
      | Some ce \<Rightarrow>
          if users ce \<noteq> 0 then None
          else destroy_loop ks ((ce_destroy (ceConn ce) cp)\<lparr>conns := (conns cp)(k := None)\<rparr>))"

definition pool_Destroy :: "((string \<rightharpoonup> connEntry) \<Rightarrow> string list) \<Rightarrow> ConnPool \<Rightarrow> ConnPool option" where
  "pool_Destroy order cp = destroy_loop (order (conns cp)) cp"

subsection \<open>Connections of the workers (connection.go)\<close>

type_synonym ClusterConnection = "nat option"

definition trim_right :: "string \<Rightarrow> string" where
  "trim_right s = rev (dropWhile (\<lambda>c. c \<in> {CHR '' '', CHR 0x09, CHR 0x0A, CHR 0x0B, CHR 0x0C, CHR 0x0D}) (rev s))"

definition trim_space :: "string \<Rightarrow> string" where
  "trim_space s = trim_right (dropWhile (\<lambda>c. c \<in> {CHR '' '', CHR 0x09, CHR 0x0A, CHR 0x0B, CHR 0x0C, CHR 0x0D}) s)"

definition cc_Connect ::
  "(path \<rightharpoonup> string) \<Rightarrow> (string \<Rightarrow> string \<Rightarrow> path \<Rightarrow> ConnPool \<Rightarrow> ConnPool \<times> (conn_error + nat)) \<Rightarrow>
    string \<Rightarrow> ClusterConnection \<Rightarrow> ConnPool \<Rightarrow> ClusterConnection \<times> ConnPool \<times> conn_error option" where
  "cc_Connect readFile get monitors cc cp =
     (if cc \<noteq> None then (cc, cp, None)
      else case readFile ''/etc/ceph-csi-secret/userID'' of
        None \<Rightarrow> (cc, cp, Some UserIDFailed)
      | Some ident \<Rightarrow>
          (case get monitors (trim_space ident) ''/etc/ceph-csi-secret/userKey'' cp of
             (cp1, Inl e) \<Rightarrow> (cc, cp1, Some e)
           | (cp1, Inr c) \<Rightarrow> (Some c, cp1, None)))"

definition cc_Destroy :: "((string \<rightharpoonup> connEntry) \<Rightarrow> string list) \<Rightarrow> ClusterConnection \<Rightarrow> ConnPool \<Rightarrow> ConnPool" where
  "cc_Destroy order cc cp = (case cc of None \<Rightarrow> cp | Some c \<Rightarrow> pool_Put order c cp)"


subsection \<open>Keys\<close>

text \<open>
  Connections are shared only between equal credentials.  If neither the monitors nor the user contain the
  separator, two requests have the same key in the pool only if they agree in monitors, user and the contents
  of their key files.
\<close>

theorem unique_key_injective:
  assumes "generateUniqueKey rf m u f = Inr k" "generateUniqueKey rf m' u' f' = Inr k"
    "CHR ''|'' \<notin> set m" "CHR ''|'' \<notin> set m'" "CHR ''|'' \<notin> set u" "CHR ''|'' \<notin> set u'"
  shows "m = m' \<and> u = u' \<and> rf f = rf f'"
proof -
  have part: "takeWhile (\<lambda>x. x \<noteq> CHR ''|'') (a @ CHR ''|'' # b) = a" if "CHR ''|'' \<notin> set a" for a b
    using that by (induction a) auto
  have cut: "a = c \<and> b = d" if "a @ CHR ''|'' # b = c @ CHR ''|'' # d" "CHR ''|'' \<notin> set a" "CHR ''|'' \<notin> set c" for a b c d
    using that part [of a b] part [of c d] by auto
  obtain x x' where x: "rf f = Some x" "rf f' = Some x'" "m @ CHR ''|'' # u @ CHR ''|'' # x = m' @ CHR ''|'' # u' @ CHR ''|'' # x'"
    using assms(1,2) by (auto simp: generateUniqueKey_def split: option.splits)
  then show ?thesis using cut [OF x(3) assms(3,4)] cut [of u x u' x'] assms(5,6) by auto
qed

theorem unique_key_injective_witness:
  "''a'' = ''a'' \<and> ''u'' = ''u'' \<and> [''k'' \<mapsto> ''s'', ''l'' \<mapsto> ''s''] ''k'' = [''k'' \<mapsto> ''s'', ''l'' \<mapsto> ''s''] ''l''"
  by (rule unique_key_injective [of "[''k'' \<mapsto> ''s'', ''l'' \<mapsto> ''s'']" "''a''" "''u''" "''k''" "''a|u|s''"])
     (simp_all add: generateUniqueKey_def)

subsection \<open>The steps of the goroutines\<close>

text \<open>
  A state is the pool, the number of holders of each connection, and the connections that were dialled and
  not yet stored.
\<close>

type_synonym pool_state = "ConnPool \<times> (nat \<Rightarrow> nat) \<times> nat set"

definition covers :: "((string \<rightharpoonup> connEntry) \<Rightarrow> string list) \<Rightarrow> bool" where
  "covers order \<longleftrightarrow> (\<forall>m. finite (dom m) \<longrightarrow> dom m \<subseteq> set (order m))"

inductive pool_step :: "pool_state \<Rightarrow> pool_state \<Rightarrow> bool" where
  hit: "getConn now k cp = (cp1, Some c) \<Longrightarrow> pool_step (cp, H, D) (cp1, H(c := Suc (H c)), D)"
| dialled: "dial de cp = (cp1, Inr c) \<Longrightarrow> pool_step (cp, H, D) (cp1, H, insert c D)"
| stored: "c \<in> D \<Longrightarrow> Get_store t now k c cp = (cp1, r) \<Longrightarrow> pool_step (cp, H, D) (cp1, H(r := Suc (H r)), D - {c})"
| copied: "covers order \<Longrightarrow> 0 < H c \<Longrightarrow> pool_Copy order now c cp = (cp1, Some r) \<Longrightarrow> pool_step (cp, H, D) (cp1, H(r := Suc (H r)), D)"
| returned: "covers order \<Longrightarrow> 0 < H c \<Longrightarrow> pool_step (cp, H, D) (pool_Put order c cp, H(c := H c - 1), D)"
| collected: "pool_step (cp, H, D) (pool_gc order now cp, H, D)"

inductive pool_reach :: "pool_state \<Rightarrow> bool" where
  start: "pool_reach (NewConnPool iv ex, \<lambda>_. 0, {})"
| step: "pool_reach s \<Longrightarrow> pool_step s s' \<Longrightarrow> pool_reach s'"

definition counted :: "(string \<rightharpoonup> connEntry) \<Rightarrow> (nat \<Rightarrow> nat) \<Rightarrow> nat set \<Rightarrow> nat \<Rightarrow> bool" where
  "counted m H D n \<longleftrightarrow> (\<forall>k ce. m k = Some ce \<longrightarrow> users ce = int (H (ceConn ce)) \<and> ceConn ce \<notin> D \<and> ceConn ce < n)"

definition unshared :: "(string \<rightharpoonup> connEntry) \<Rightarrow> bool" where
  "unshared m \<longleftrightarrow> (\<forall>k k' ce ce'. m k = Some ce \<longrightarrow> m k' = Some ce' \<longrightarrow> ceConn ce = ceConn ce' \<longrightarrow> k = k')"

definition pooled :: "(string \<rightharpoonup> connEntry) \<Rightarrow> nat set" where
  "pooled m = {c. \<exists>k ce. m k = Some ce \<and> ceConn ce = c}"

definition pool_inv :: "pool_state \<Rightarrow> bool" where
  "pool_inv s = (case s of (cp, H, D) \<Rightarrow>
     finite (dom (conns cp)) \<and> counted (conns cp) H D (nextConn cp) \<and> unshared (conns cp) \<and>
     {c. 0 < H c} \<subseteq> pooled (conns cp) \<and> D \<subseteq> {..<nextConn cp} \<and> live cp = D \<union> pooled (conns cp))"

lemma pool_invD:
  assumes "pool_inv (cp, H, D)"
  shows "finite (dom (conns cp))" and "counted (conns cp) H D (nextConn cp)" and "unshared (conns cp)"
    and "{c. 0 < H c} \<subseteq> pooled (conns cp)" and "D \<subseteq> {..<nextConn cp}" and "live cp = D \<union> pooled (conns cp)"
  using assms by (simp_all add: pool_inv_def)

lemma countedD: "counted m H D n \<Longrightarrow> m k = Some ce \<Longrightarrow> users ce = int (H (ceConn ce)) \<and> ceConn ce \<notin> D \<and> ceConn ce < n"
  by (simp add: counted_def)

lemma unsharedD: "unshared m \<Longrightarrow> m k = Some ce \<Longrightarrow> m k' = Some ce' \<Longrightarrow> ceConn ce = ceConn ce' \<Longrightarrow> k = k'"
  unfolding unshared_def by blast

lemma unshared_upd:
  "unshared m \<Longrightarrow> (\<And>q e. m q = Some e \<Longrightarrow> q \<noteq> k \<Longrightarrow> ceConn e \<noteq> ceConn ce) \<Longrightarrow> unshared (m(k \<mapsto> ce))"
  unfolding unshared_def by (metis fun_upd_apply option.inject)

lemma pooled_same: "m k = Some ce \<Longrightarrow> ceConn ce' = ceConn ce \<Longrightarrow> pooled (m(k \<mapsto> ce')) = pooled m"
  unfolding pooled_def by (auto simp: fun_upd_def) (metis option.inject)+

lemma pooled_new: "m k = None \<Longrightarrow> pooled (m(k \<mapsto> ce)) = insert (ceConn ce) (pooled m)"
  unfolding pooled_def by (auto simp: fun_upd_def) (metis option.distinct(1))

lemma pooled_remove: "unshared m \<Longrightarrow> m k = Some ce \<Longrightarrow> pooled (m(k := None)) = pooled m - {ceConn ce}"
proof -
  assume u: "unshared m" and k: "m k = Some ce"
  have "pooled (m(k := None)) = {c. \<exists>q e. q \<noteq> k \<and> m q = Some e \<and> ceConn e = c}"
    unfolding pooled_def by (metis fun_upd_apply option.distinct(1))
  also have "\<dots> = pooled m - {ceConn ce}"
  proof -
    have "(\<exists>q. q \<noteq> k \<and> (\<exists>e. m q = Some e \<and> ceConn e = c)) \<longleftrightarrow> (\<exists>q e. m q = Some e \<and> ceConn e = c) \<and> c \<noteq> ceConn ce" for c
      using unsharedD [OF u k] k by (metis option.inject)
    then show ?thesis unfolding pooled_def by auto
  qed
  finally show ?thesis .
qed

text \<open>Changing the count of one entry, as every get and put does.\<close>

lemma pool_inv_count:
  assumes inv: "pool_inv (cp, H, D)" and k: "conns cp k = Some ce"
    and ce': "ceConn ce' = ceConn ce" "users ce' = int n"
  shows "pool_inv (cp\<lparr>conns := (conns cp)(k \<mapsto> ce')\<rparr>, H(ceConn ce := n), D)"
proof -
  note i = pool_invD [OF inv]
  have other: "ceConn e \<noteq> ceConn ce" if "conns cp q = Some e" "q \<noteq> k" for q e using unsharedD [OF i(3)] k that by blast
  have "counted ((conns cp)(k \<mapsto> ce')) (H(ceConn ce := n)) D (nextConn cp)"
    unfolding counted_def using countedD [OF i(2)] k ce' other by (auto split: if_splits)
  moreover have "unshared ((conns cp)(k \<mapsto> ce'))" by (rule unshared_upd [OF i(3)]) (use other ce'(1) in simp)
  moreover have "{c. 0 < (H(ceConn ce := n)) c} \<subseteq> pooled (conns cp)"
    using i(4) k by (auto simp: pooled_def)
  ultimately show ?thesis using i(1,5,6) pooled_same [of "conns cp" k ce ce'] k ce'(1) by (simp add: pool_inv_def)
qed

lemma put_loop_find:
  "k \<in> set ks \<Longrightarrow> m k = Some ce \<Longrightarrow> unshared m \<Longrightarrow> put_loop (ceConn ce) ks m = m(k \<mapsto> ce_put ce)"
proof (induction ks)
  case (Cons q ks)
  show ?case
  proof (cases "m q")
    case (Some e)
    then show ?thesis using Cons unsharedD [of m q e k ce] by (cases "q = k") auto
  qed (use Cons in auto)
qed simp

lemma copy_loop_find:
  "k \<in> set ks \<Longrightarrow> m k = Some ce \<Longrightarrow> unshared m \<Longrightarrow> copy_loop now (ceConn ce) ks m = (m(k \<mapsto> ce_get now ce), Some (ceConn ce))"
proof (induction ks)
  case (Cons q ks)
  show ?case
  proof (cases "m q")
    case (Some e)
    then show ?thesis using Cons unsharedD [of m q e k ce] by (cases "q = k") auto
  qed (use Cons in auto)
qed simp

text \<open>Removing an entry that nobody uses.\<close>

lemma pool_inv_remove:
  assumes inv: "pool_inv (cp, H, D)" and k: "conns cp k = Some ce" and "users ce = 0"
  shows "pool_inv ((ce_destroy (ceConn ce) cp)\<lparr>conns := (conns cp)(k := None)\<rparr>, H, D)"
proof -
  note i = pool_invD [OF inv]
  have H: "H (ceConn ce) = 0" and D: "ceConn ce \<notin> D" using countedD [OF i(2) k] assms(3) by auto
  have "counted ((conns cp)(k := None)) H D (nextConn cp)" using i(2) by (auto simp: counted_def split: if_splits)
  moreover have "unshared ((conns cp)(k := None))"
    unfolding unshared_def using unsharedD [OF i(3)] by (auto split: if_splits)
  ultimately show ?thesis
    using i(1,4,5,6) H D pooled_remove [OF i(3) k] by (auto simp: pool_inv_def ce_destroy_def)
qed

lemma gc_loop_inv: "pool_inv (cp, H, D) \<Longrightarrow> pool_inv (gc_loop now ks cp, H, D)"
proof (induction ks arbitrary: cp)
  case (Cons k ks)
  then show ?case using pool_inv_remove [OF Cons.prems, of k] by (auto simp: idle_def split: option.splits)
qed simp

lemma pool_inv_store:
  assumes inv: "pool_inv (cp, H, D)" and k: "conns cp k = None" and c: "c \<in> D"
  shows "pool_inv (cp\<lparr>conns := (conns cp)(k \<mapsto> \<lparr>ceConn = c, lastUsed = t, users = 1\<rparr>)\<rparr>, H(c := Suc (H c)), D - {c})"
proof -
  note i = pool_invD [OF inv]
  let ?ce = "\<lparr>ceConn = c, lastUsed = t, users = 1\<rparr>"
  have other: "ceConn e \<noteq> c" if "conns cp q = Some e" for q e using countedD [OF i(2)] that c by blast
  then have "c \<notin> pooled (conns cp)" by (auto simp: pooled_def)
  then have H: "H c = 0" using i(4) by auto
  have "counted ((conns cp)(k \<mapsto> ?ce)) (H(c := Suc (H c))) (D - {c}) (nextConn cp)"
    unfolding counted_def using countedD [OF i(2)] i(5) c other H by (auto split: if_splits)
  moreover have "unshared ((conns cp)(k \<mapsto> ?ce))" by (rule unshared_upd [OF i(3)]) (use other in simp)
  ultimately show ?thesis using i(1,4,5,6) c pooled_new [of "conns cp" k ?ce] k by (auto simp: pool_inv_def split: if_splits)
qed

lemma pool_inv_dial: "pool_inv (cp, H, D) \<Longrightarrow> dial de cp = (cp1, Inr c) \<Longrightarrow> pool_inv (cp1, H, insert c D)"
proof -
  assume inv: "pool_inv (cp, H, D)" and d: "dial de cp = (cp1, Inr c)"
  note i = pool_invD [OF inv]
  have cp1: "cp1 = cp\<lparr>live := insert (nextConn cp) (live cp), nextConn := Suc (nextConn cp)\<rparr>" "c = nextConn cp"
    using d by (auto simp: dial_def split: if_splits)
  have "counted (conns cp) H (insert c D) (Suc (nextConn cp))"
    unfolding counted_def using countedD [OF i(2)] cp1(2) by (metis insert_iff less_SucI less_irrefl)
  then show ?thesis using i cp1 by (auto simp: pool_inv_def less_Suc_eq)
qed

lemma pool_inv_hit: "pool_inv (cp, H, D) \<Longrightarrow> getConn now k cp = (cp1, Some c) \<Longrightarrow> pool_inv (cp1, H(c := Suc (H c)), D)"
proof (cases "conns cp k")
  case (Some ce)
  assume inv: "pool_inv (cp, H, D)" and g: "getConn now k cp = (cp1, Some c)"
  show ?thesis
    using pool_inv_count [OF inv Some, of "ce_get now ce" "Suc (H c)"] countedD [OF pool_invD(2) [OF inv] Some] g Some
    by (auto simp: getConn_def ce_get_def)
qed (simp add: getConn_def)

lemma pool_inv_drop: "pool_inv (cp, H, D) \<Longrightarrow> c \<in> D \<Longrightarrow> pool_inv (ce_destroy c cp, H, D - {c})"
  by (auto simp: pool_inv_def ce_destroy_def counted_def pooled_def)

lemma pool_step_inv:
  assumes "pool_step s s'" "pool_inv s"
  shows "pool_inv s'"
  using assms
proof cases
  case (hit now k cp cp1 c H D)
  then show ?thesis using assms(2) pool_inv_hit by simp
next
  case (dialled de cp cp1 c H D)
  then show ?thesis using assms(2) pool_inv_dial by simp
next
  case (stored c D t now k cp cp1 r H)
  show ?thesis
  proof (cases "conns cp k")
    case None
    then show ?thesis using stored assms(2) pool_inv_store [OF _ None, of H D c t] by (auto simp: Get_store_def getConn_def)
  next
    case (Some ce)
    obtain cp2 where g: "getConn now k cp = (cp2, Some (ceConn ce))" using Some by (simp add: getConn_def)
    have "pool_inv (cp2, H(ceConn ce := Suc (H (ceConn ce))), D)" using pool_inv_hit [OF _ g] assms(2) stored(1) by simp
    from pool_inv_drop [OF this stored(3)] show ?thesis using stored g by (auto simp: Get_store_def)
  qed
next
  case (copied order H c now cp cp1 r D)
  have inv: "pool_inv (cp, H, D)" using assms(2) copied(1) by simp
  note i = pool_invD [OF inv]
  obtain k ce where k: "conns cp k = Some ce" "ceConn ce = c" using i(4) copied(4) by (auto simp: pooled_def)
  have "k \<in> set (order (conns cp))" using copied(3) i(1) k unfolding covers_def by (metis domI subsetD)
  then have "copy_loop now c (order (conns cp)) (conns cp) = ((conns cp)(k \<mapsto> ce_get now ce), Some c)"
    using copy_loop_find [of k _ "conns cp" ce now] k i(3) by blast
  then have "cp1 = cp\<lparr>conns := (conns cp)(k \<mapsto> ce_get now ce)\<rparr>" "r = c" using copied(5) by (auto simp: pool_Copy_def)
  then show ?thesis using pool_inv_count [OF inv k(1), of "ce_get now ce" "Suc (H c)"] countedD [OF i(2) k(1)] k copied(2) by (simp add: ce_get_def)
next
  case (returned order H c cp D)
  have inv: "pool_inv (cp, H, D)" using assms(2) returned(1) by simp
  note i = pool_invD [OF inv]
  obtain k ce where k: "conns cp k = Some ce" "ceConn ce = c" using i(4) returned(4) by (auto simp: pooled_def)
  have "k \<in> set (order (conns cp))" using returned(3) i(1) k unfolding covers_def by (metis domI subsetD)
  then have "put_loop c (order (conns cp)) (conns cp) = (conns cp)(k \<mapsto> ce_put ce)"
    using put_loop_find [of k _ "conns cp" ce] k i(3) by blast
  then show ?thesis
    using pool_inv_count [OF inv k(1), of "ce_put ce" "H c - 1"] countedD [OF i(2) k(1)] k returned(2,4) by (simp add: ce_put_def pool_Put_def)
next
  case (collected cp H D order now)
  then show ?thesis using assms(2) gc_loop_inv by (simp add: pool_gc_def)
qed

lemma pool_reach_inv: "pool_reach s \<Longrightarrow> pool_inv s"
proof (induction rule: pool_reach.induct)
  case (start iv ex)
  show ?case by (simp add: pool_inv_def NewConnPool_def counted_def unshared_def pooled_def)
qed (rule pool_step_inv)

text \<open>
  C12: the pool neither closes a connection in use nor leaks one.  However the goroutines' steps interleave,
  each entry counts exactly the holders of its connection, every connection somebody holds is live and in the
  pool under one key, and every live connection is in the pool or has just been dialled.
\<close>

theorem pool_safe:
  assumes "pool_reach (cp, H, D)"
  shows "(\<forall>k ce. conns cp k = Some ce \<longrightarrow> users ce = int (H (ceConn ce))) \<and>
    (\<forall>c. 0 < H c \<longrightarrow> c \<in> live cp \<and> (\<exists>!k. \<exists>ce. conns cp k = Some ce \<and> ceConn ce = c)) \<and>
    live cp = D \<union> pooled (conns cp)"
proof -
  note i = pool_invD [OF pool_reach_inv [OF assms]]
  have "c \<in> live cp \<and> (\<exists>!k. \<exists>ce. conns cp k = Some ce \<and> ceConn ce = c)" if c: "0 < H c" for c
  proof -
    have "c \<in> pooled (conns cp)" using i(4) c by auto
    then obtain k ce where k: "conns cp k = Some ce" "ceConn ce = c" by (auto simp: pooled_def)
    then have "\<exists>!k. \<exists>ce. conns cp k = Some ce \<and> ceConn ce = c" using unsharedD [OF i(3)] by blast
    then show ?thesis using i(6) \<open>c \<in> pooled (conns cp)\<close> by blast
  qed
  then show ?thesis using countedD [OF i(2)] i(6) by blast
qed

definition sample_dial :: dial_env where
  "sample_dial = \<lparr>newConnOk = True, parseArgsOk = True, readConfigOk = True, connectOk = True\<rparr>"

text \<open>A connection is dialled and stored, then found by a second goroutine.\<close>

theorem pool_safe_witness:
  "\<exists>cp H. pool_reach (cp, H, {}) \<and> H 0 = 2 \<and> 0 \<in> live cp \<and> live cp = pooled (conns cp)"
proof -
  let ?p0 = "NewConnPool 15 10"
  let ?p1 = "?p0\<lparr>live := {0}, nextConn := Suc 0\<rparr>"
  let ?p2 = "?p1\<lparr>conns := [''k'' \<mapsto> \<lparr>ceConn = 0, lastUsed = 1, users = 1\<rparr>]\<rparr>"
  let ?p3 = "?p2\<lparr>conns := (conns ?p2)(''k'' \<mapsto> \<lparr>ceConn = 0, lastUsed = 3, users = 2\<rparr>)\<rparr>"
  have "pool_reach (?p1, \<lambda>_. 0, {0})"
    by (rule pool_reach.step [OF pool_reach.start pool_step.dialled [of sample_dial]]) (simp add: dial_def sample_dial_def NewConnPool_def)
  then have "pool_reach (?p2, (\<lambda>_. 0)(0 := Suc 0), {0} - {0})"
    by (rule pool_reach.step [OF _ pool_step.stored [of 0 _ 1 2 "''k''"]]) (simp_all add: Get_store_def getConn_def NewConnPool_def)
  then have two: "pool_reach (?p2, (\<lambda>_. 0)(0 := Suc 0), {})" by simp
  let ?H = "(\<lambda>_ :: nat. 0)(0 := Suc 0)"
  have "getConn 3 ''k'' ?p2 = (?p3, Some 0)" by (simp add: getConn_def ce_get_def)
  from pool_step.hit [OF this, of ?H "{}"] have "pool_step (?p2, ?H, {}) (?p3, ?H(0 := Suc (?H 0)), {})" .
  with two have r: "pool_reach (?p3, ?H(0 := Suc (?H 0)), {})" by (rule pool_reach.step)
  show ?thesis
  proof (intro exI conjI)
    show "pool_reach (?p3, ?H(0 := Suc (?H 0)), {})" by (rule r)
    show "(?H(0 := Suc (?H 0))) 0 = 2" "0 \<in> live ?p3" by simp_all
    show "live ?p3 = pooled (conns ?p3)" using pool_safe [OF r] by (simp only: Un_empty_left)
  qed
qed


text \<open>
  A call of \<^verbatim>\<open>Get\<close> is made of these steps: if the others only made steps while the lock was free,
  the state it leaves is reachable, and the caller is a holder of the connection it returns.
\<close>

lemma pool_Get_reach:
  assumes "pool_reach (cp, H, D)" "pool_Get confOk rf de others t1 t2 t3 m u f cp = (cp', Inr c)"
    and "\<And>cp2 x. dial de cp = (cp2, Inr x) \<Longrightarrow> pool_reach (others cp2, H1, D1) \<and> x \<in> D1"
  shows "\<exists>H2 D2. pool_reach (cp', H2, D2) \<and> 0 < H2 c"
proof -
  obtain k where k: "generateUniqueKey rf m u f = Inr k" using assms(2) by (cases "generateUniqueKey rf m u f") (auto simp: pool_Get_def split: if_splits)
  show ?thesis
  proof (cases "conns cp k")
    case (Some ce)
    then have "getConn t1 k cp = (cp', Some c)" using assms(2) k by (auto simp: pool_Get_def getConn_def split: if_splits)
    from pool_reach.step [OF assms(1) pool_step.hit [OF this]] show ?thesis by (intro exI conjI) auto
  next
    case None
    obtain cp2 r where d: "dial de cp = (cp2, r)" by force
    then obtain x where x: "r = Inr x" using assms(2) k None by (cases r) (auto simp: pool_Get_def getConn_def split: if_splits)
    have o: "pool_reach (others cp2, H1, D1)" "x \<in> D1" using assms(3) d x by auto
    have "Get_store t2 t3 k x (others cp2) = (cp', c)"
      using assms(2) k None d x by (auto simp: pool_Get_def getConn_def split: if_splits prod.splits)
    from pool_reach.step [OF o(1) pool_step.stored [OF o(2) this]] show ?thesis by (intro exI conjI) auto
  qed
qed

end
