(* ===== verification/Fs_Walk.thy ===== *)
theory Fs_Walk
  imports Fs_Differ
begin

section \<open>Finding the changed files (walkAndStreamDirectories, produceEntries, categorizeDir of cephfs/source.go)\<close>

text \<open>
  The producer walks the directories below the mount point, reads the snapshot diff of each, and routes every
  entry to one of three channels: files whose blocks are compared, entries that rsync copies, and
  entries to delete.  The lemmas show that the walk visits every directory once, and that the routing is
  complete and without duplicates: each entry of each diff goes where the rule says, and
  nothing else is sent.
\<close>

subsection \<open>The directory walk\<close>

text \<open>
  The tree below a mount point, children in the order of \<^verbatim>\<open>ReadDir\<close>; the flag of a directory tells whether
  it can be read.  \<^verbatim>\<open>WalkDir\<close> calls the function for a directory before it reads it, and once more with
  the error when reading fails.
\<close>

datatype fs_node = FileNode string | DirNode string bool "fs_node list"

fun node_name :: "fs_node \<Rightarrow> string" where
  "node_name (FileNode n) = n"
| "node_name (DirNode n _ _) = n"

text \<open>\<^verbatim>\<open>filepath.Rel\<close> for two absolute paths: up from the base and down to the target.\<close>

fun strip_common :: "string list \<Rightarrow> string list \<Rightarrow> string list \<times> string list" where
  "strip_common (b # bs) (t # ts) = (if b = t then strip_common bs ts else (b # bs, t # ts))"
| "strip_common bs ts = (bs, ts)"

definition abs_elems :: "path \<Rightarrow> string list" where
  "abs_elems p = filter (\<lambda>e. e \<noteq> '''') (split_slash (Clean p))"

definition path_Rel :: "path \<Rightarrow> path \<Rightarrow> path option" where
  "path_Rel basepath targpath =
     (if Clean targpath = Clean basepath then Some ''.''
      else if rooted (Clean basepath) \<noteq> rooted (Clean targpath) then None
      else case strip_common (abs_elems basepath) (abs_elems targpath) of
        (bs, ts) \<Rightarrow> if bs \<noteq> [] \<and> hd bs = ''..'' then None else Some (join_slash (replicate (length bs) ''..'' @ ts)))"

definition walk_rel :: "path \<Rightarrow> path option" where
  "walk_rel p = map_option (\<lambda>r. if r = ''.'' then ''/'' else ''/'' @ r) (path_Rel DataMountPath p)"

text \<open>The paths sent, and whether the walk went through.\<close>

fun walk :: "path \<Rightarrow> fs_node \<Rightarrow> path list \<times> bool" and walk_all :: "path \<Rightarrow> fs_node list \<Rightarrow> path list \<times> bool" where
  "walk p (FileNode n) = ([], True)"
| "walk p (DirNode n readable cs) =
     (case walk_rel p of
        None \<Rightarrow> ([], False)
      | Some rel \<Rightarrow>
          if \<not> readable then ([rel], False)
          else case walk_all p cs of (ds, ok) \<Rightarrow> (rel # ds, ok))"
| "walk_all p [] = ([], True)"
| "walk_all p (c # cs) =
     (case walk (path_Join [p, node_name c]) c of
        (ds, False) \<Rightarrow> (ds, False)
      | (ds, True) \<Rightarrow> (case walk_all p cs of (ds2, ok) \<Rightarrow> (ds @ ds2, ok)))"

text \<open>The root of the walk; a mount point that cannot be examined ends it at once.\<close>

definition walkAndStreamDirectories :: "fs_node option \<Rightarrow> path list \<times> bool" where
  "walkAndStreamDirectories root = (case root of None \<Rightarrow> ([], False) | Some t \<Rightarrow> walk DataMountPath t)"

subsection \<open>Routing the entries of a diff\<close>

datatype lstat = NotExist | LstatErr | LstatOk int

record walk_state =
  largeCh :: "changedFileEntry list"
  specialCh :: "path list"
  deletedCh :: "path list"
  dirChanged :: bool
  walkCtx :: "bool list"
  openDiffs :: int

datatype walk_error = SnapDiffOpenFailed | SnapDiffReadFailed | LstatFailed | WalkCancelled | WalkDirFailed

text \<open>Sends that lose against the cancellation of the context.\<close>

definition send_large :: "changedFileEntry \<Rightarrow> walk_state \<Rightarrow> walk_state \<times> bool" where
  "send_large e s = (case pop_ok (walkCtx s) of
     (True, ctx) \<Rightarrow> (s\<lparr>walkCtx := ctx, largeCh := largeCh s @ [e]\<rparr>, True) | (False, ctx) \<Rightarrow> (s\<lparr>walkCtx := ctx\<rparr>, False))"

definition send_special :: "path \<Rightarrow> walk_state \<Rightarrow> walk_state \<times> bool" where
  "send_special p s = (case pop_ok (walkCtx s) of
     (True, ctx) \<Rightarrow> (s\<lparr>walkCtx := ctx, specialCh := specialCh s @ [p]\<rparr>, True) | (False, ctx) \<Rightarrow> (s\<lparr>walkCtx := ctx\<rparr>, False))"

definition send_deleted :: "path \<Rightarrow> walk_state \<Rightarrow> walk_state \<times> bool" where
  "send_deleted p s = (case pop_ok (walkCtx s) of
     (True, ctx) \<Rightarrow> (s\<lparr>walkCtx := ctx, deletedCh := deletedCh s @ [p]\<rparr>, True) | (False, ctx) \<Rightarrow> (s\<lparr>walkCtx := ctx\<rparr>, False))"

definition sent :: "walk_state \<times> bool \<Rightarrow> walk_state \<times> walk_error option" where
  "sent r = (fst r, if snd r then None else Some WalkCancelled)"

definition route_special :: "(path \<Rightarrow> lstat) \<Rightarrow> path \<Rightarrow> dtype \<Rightarrow> walk_state \<Rightarrow> walk_state \<times> walk_error option" where
  "route_special ls entryPath ty s =
     (if ls (path_Join [DataMountPath, entryPath]) = NotExist then sent (send_deleted entryPath s)
      else if ty \<noteq> DTypeDir then sent (send_special entryPath s)
      else (s\<lparr>dirChanged := True\<rparr>, None))"

definition route_regular :: "(path \<Rightarrow> lstat) \<Rightarrow> path \<Rightarrow> walk_state \<Rightarrow> walk_state \<times> walk_error option" where
  "route_regular ls entryPath s =
     (case ls (path_Join [DataMountPath, entryPath]) of
        NotExist \<Rightarrow> sent (send_deleted entryPath s)
      | LstatErr \<Rightarrow> (s, Some LstatFailed)
      | LstatOk sz \<Rightarrow>
          if sz = 0 then sent (send_special entryPath s)
          else sent (send_large \<lparr>fePath = entryPath, feSize = sz\<rparr> s))"

fun cat_loop :: "(path \<Rightarrow> lstat) \<Rightarrow> path \<Rightarrow> snap_reply list \<Rightarrow> walk_state \<Rightarrow> walk_state \<times> walk_error option" where
  "cat_loop ls dirPath [] s = (s, None)"
| "cat_loop ls dirPath (SnapReadFailed # rs) s = (s, Some SnapDiffReadFailed)"
| "cat_loop ls dirPath (SnapEntry e # rs) s =
     (let entryPath = path_Join [dirPath, seName e] in
      case (if seType e \<noteq> DTypeReg then route_special ls entryPath (seType e) s else route_regular ls entryPath s) of
        (s1, Some err) \<Rightarrow> (s1, Some err)
      | (s1, None) \<Rightarrow> cat_loop ls dirPath rs s1)"

definition categorizeDir ::
  "(path \<Rightarrow> lstat) \<Rightarrow> (path \<Rightarrow> snap_reply list option) \<Rightarrow> path \<Rightarrow> walk_state \<Rightarrow> walk_state \<times> walk_error option" where
  "categorizeDir ls open_diff dirPath s =
     (case open_diff dirPath of
        None \<Rightarrow> (s, Some SnapDiffOpenFailed)
      | Some rs \<Rightarrow>
          (case cat_loop ls dirPath rs (s\<lparr>openDiffs := openDiffs s + 1\<rparr>) of
             (s1, r) \<Rightarrow> (s1\<lparr>openDiffs := openDiffs s1 - 1\<rparr>, r)))"

fun produce_loop ::
  "(path \<Rightarrow> lstat) \<Rightarrow> (path \<Rightarrow> snap_reply list option) \<Rightarrow> path list \<Rightarrow> walk_state \<Rightarrow> walk_state \<times> walk_error option" where
  "produce_loop ls od [] s = (s, None)"
| "produce_loop ls od (d # ds) s =
     (case pop_ok (walkCtx s) of
        (False, ctx) \<Rightarrow> (s\<lparr>walkCtx := ctx\<rparr>, Some WalkCancelled)
      | (True, ctx) \<Rightarrow>
          (case categorizeDir ls od d (s\<lparr>walkCtx := ctx\<rparr>) of
             (s1, Some e) \<Rightarrow> (s1, Some e)
           | (s1, None) \<Rightarrow> produce_loop ls od ds s1))"

definition produceEntries ::
  "fs_node option \<Rightarrow> (path \<Rightarrow> lstat) \<Rightarrow> (path \<Rightarrow> snap_reply list option) \<Rightarrow> walk_state \<Rightarrow> walk_state \<times> walk_error option" where
  "produceEntries root ls od s =
     (case walkAndStreamDirectories root of (ds, ok) \<Rightarrow>
      case produce_loop ls od ds s of
        (s1, Some e) \<Rightarrow> (s1, Some e)
      | (s1, None) \<Rightarrow> (s1, if ok then None else Some WalkDirFailed))"

text \<open>The channels are made empty and are closed when the producer returns.\<close>

definition empty_walk :: "bool list \<Rightarrow> walk_state" where
  "empty_walk ctx = \<lparr>largeCh = [], specialCh = [], deletedCh = [], dirChanged = False, walkCtx = ctx, openDiffs = 0\<rparr>"

definition streamChangedEntries ::
  "fs_node option \<Rightarrow> (path \<Rightarrow> lstat) \<Rightarrow> (path \<Rightarrow> snap_reply list option) \<Rightarrow> bool list \<Rightarrow> walk_state \<times> walk_error option" where
  "streamChangedEntries root ls od ctx = produceEntries root ls od (empty_walk ctx)"


subsection \<open>The walk visits every directory once\<close>

definition abs_path :: "string list \<Rightarrow> path" where
  "abs_path es = CHR ''/'' # join_slash es"

text \<open>The directories of a tree, as the lists of their names from the root.\<close>

fun tree_dirs :: "string list \<Rightarrow> fs_node \<Rightarrow> string list list" where
  "tree_dirs es (FileNode n) = []"
| "tree_dirs es (DirNode n r cs) = es # concat (map (\<lambda>c. tree_dirs (es @ [node_name c]) c) cs)"

fun tree_ok :: "fs_node \<Rightarrow> bool" where
  "tree_ok (FileNode n) = True"
| "tree_ok (DirNode n r cs) = (r \<and> distinct (map node_name cs) \<and> list_all (\<lambda>c. proper (node_name c) \<and> tree_ok c) cs)"

lemma properD: "proper e \<Longrightarrow> e \<noteq> '''' \<and> e \<noteq> ''.'' \<and> e \<noteq> ''..'' \<and> CHR ''/'' \<notin> set e"
  by (simp add: proper_def)

lemma split_abs: "es \<noteq> [] \<Longrightarrow> \<forall>e\<in>set es. proper e \<Longrightarrow> split_slash (abs_path es) = '''' # es"
  by (simp add: abs_path_def split_join proper_def)

lemma plain_proper: "\<forall>e\<in>set es. proper e \<Longrightarrow> plain_elems es = es \<and> ''..'' \<notin> set es"
  by (auto simp: plain_elems_def proper_def intro!: filter_True)

lemma Clean_abs: "\<forall>e\<in>set es. proper e \<Longrightarrow> Clean (abs_path es) = abs_path es"
proof (cases "es = []")
  case True
  then show ?thesis by (simp add: abs_path_def Clean_def rooted_def)
next
  case False
  assume p: "\<forall>e\<in>set es. proper e"
  have "clean_elems True [] ('''' # es) = es" using clean_elems_plain [of es True "[]"] plain_proper [OF p] by simp
  then show ?thesis using split_abs [OF False p] by (simp add: Clean_def abs_path_def rooted_def)
qed

lemma join_slash_snoc: "es \<noteq> [] \<Longrightarrow> join_slash (es @ [x]) = join_slash es @ ''/'' @ x"
  by (induction es rule: join_slash.induct) auto

lemma Join_abs:
  "es \<noteq> [] \<Longrightarrow> \<forall>e\<in>set (es @ [x]). proper e \<Longrightarrow> path_Join [abs_path es, x] = abs_path (es @ [x])"
proof -
  assume es: "es \<noteq> []" and p: "\<forall>e\<in>set (es @ [x]). proper e"
  have "abs_path es @ ''/'' @ x = abs_path (es @ [x])" using es by (simp add: abs_path_def join_slash_snoc)
  moreover have "abs_path es \<noteq> ''''" "x \<noteq> ''''" using p by (auto simp: abs_path_def proper_def)
  ultimately show ?thesis using Clean_abs [OF p] by (simp add: path_Join_def)
qed

lemma abs_elems_abs: "es \<noteq> [] \<Longrightarrow> \<forall>e\<in>set es. proper e \<Longrightarrow> abs_elems (abs_path es) = es"
  by (auto simp: abs_elems_def Clean_abs split_abs proper_def intro!: filter_True)

lemma join_inj: "xs \<noteq> [] \<Longrightarrow> ys \<noteq> [] \<Longrightarrow> \<forall>e\<in>set xs. proper e \<Longrightarrow> \<forall>e\<in>set ys. proper e \<Longrightarrow> join_slash xs = join_slash ys \<Longrightarrow> xs = ys"
  by (metis properD split_join)

lemma rooted_abs [simp]: "rooted (abs_path es)"
  by (simp add: rooted_def abs_path_def)

lemma DataMountPath_abs: "DataMountPath = abs_path [''data'']" "proper ''data''"
  by (simp_all add: DataMountPath_def abs_path_def proper_def)

lemma rooted_mount [simp]: "rooted DataMountPath"
  by (simp add: DataMountPath_abs(1))

lemma walk_rel_abs:
  assumes "\<forall>e\<in>set es. proper e"
  shows "walk_rel (abs_path (''data'' # es)) = Some (abs_path es)"
proof (cases "es = []")
  case True
  then show ?thesis by (simp add: walk_rel_def path_Rel_def DataMountPath_abs abs_path_def)
next
  case False
  have p: "\<forall>e\<in>set (''data'' # es). proper e" using assms DataMountPath_abs(2) by simp
  have "abs_path (''data'' # es) \<noteq> abs_path [''data'']"
    using False join_inj [of "''data'' # es" "[''data'']"] p by (auto simp: abs_path_def)
  then have "path_Rel DataMountPath (abs_path (''data'' # es)) = Some (join_slash es)"
    using False p Clean_abs [OF p] Clean_abs [of "[''data'']"] abs_elems_abs [OF _ p] abs_elems_abs [of "[''data'']"] DataMountPath_abs
    by (cases es) (simp_all add: path_Rel_def)
  moreover have "join_slash es \<noteq> ''.''"
  proof
    assume "join_slash es = ''.''"
    then have "es = [''.'']" using split_join [OF False] assms by (auto simp: proper_def)
    then show False using assms by (simp add: proper_def)
  qed
  ultimately show ?thesis by (simp add: walk_rel_def abs_path_def)
qed

lemma walk_all_spec:
  assumes "\<And>c es. c \<in> set ts \<Longrightarrow> \<forall>e\<in>set es. proper e \<Longrightarrow> walk (abs_path (''data'' # es)) c = (map abs_path (tree_dirs es c), True)"
    and "\<forall>c\<in>set ts. proper (node_name c)" "\<forall>e\<in>set es. proper e"
  shows "walk_all (abs_path (''data'' # es)) ts = (concat (map (\<lambda>c. map abs_path (tree_dirs (es @ [node_name c]) c)) ts), True)"
  using assms
proof (induction ts)
  case (Cons c ts)
  have "path_Join [abs_path (''data'' # es), node_name c] = abs_path (''data'' # es @ [node_name c])"
    using Join_abs [of "''data'' # es" "node_name c"] Cons.prems DataMountPath_abs(2) by simp
  then show ?case using Cons by simp
qed simp

lemma walk_spec:
  "tree_ok t \<Longrightarrow> \<forall>e\<in>set es. proper e \<Longrightarrow> walk (abs_path (''data'' # es)) t = (map abs_path (tree_dirs es t), True)"
proof (induction t arbitrary: es)
  case (DirNode n r cs)
  have "walk_all (abs_path (''data'' # es)) cs = (concat (map (\<lambda>c. map abs_path (tree_dirs (es @ [node_name c]) c)) cs), True)"
    by (rule walk_all_spec) (use DirNode in \<open>auto simp: list_all_iff\<close>)
  then show ?case using DirNode.prems walk_rel_abs [OF DirNode.prems(2)] by (simp add: map_concat comp_def)
qed simp

lemma tree_dirs_prefix: "ds \<in> set (tree_dirs es t) \<Longrightarrow> \<exists>xs. ds = es @ xs"
proof (induction t arbitrary: es)
  case (DirNode n r cs)
  then show ?case by (cases "ds = es") (auto, metis append.assoc)
qed simp

lemma distinct_concat_map:
  "distinct cs \<Longrightarrow> (\<And>c. c \<in> set cs \<Longrightarrow> distinct (f c)) \<Longrightarrow>
     (\<And>c d. c \<in> set cs \<Longrightarrow> d \<in> set cs \<Longrightarrow> c \<noteq> d \<Longrightarrow> set (f c) \<inter> set (f d) = {}) \<Longrightarrow> distinct (concat (map f cs))"
proof (induction cs)
  case (Cons a cs)
  have "set (f a) \<inter> set (concat (map f cs)) = {}" using Cons.prems(1,3) by fastforce
  then show ?case using Cons by simp
qed simp

lemma tree_dirs_distinct: "tree_ok t \<Longrightarrow> distinct (tree_dirs es t)"
proof (induction t arbitrary: es)
  case (DirNode n r cs)
  let ?f = "\<lambda>c. tree_dirs (es @ [node_name c]) c"
  have nodes: "distinct (map node_name cs)" "\<forall>c\<in>set cs. tree_ok c" using DirNode.prems by (auto simp: list_all_iff)
  have "set (?f c) \<inter> set (?f d) = {}" if "c \<in> set cs" "d \<in> set cs" "c \<noteq> d" for c d
  proof -
    have "node_name c \<noteq> node_name d" using nodes(1) that by (meson distinct_map inj_onD)
    moreover have "ds = es @ node_name c # (drop (Suc (length es)) ds)" if "ds \<in> set (?f c)" for ds c
      using tree_dirs_prefix [OF that] by auto
    ultimately show ?thesis by (metis (no_types, lifting) disjoint_iff list.inject same_append_eq)
  qed
  then have "distinct (concat (map ?f cs))"
    using DirNode.IH nodes by (intro distinct_concat_map) (auto simp: distinct_map)
  moreover have "es \<notin> set (concat (map ?f cs))"
  proof
    assume "es \<in> set (concat (map ?f cs))"
    then obtain c where "c \<in> set cs" "es \<in> set (?f c)" by auto
    then obtain xs where "es = (es @ [node_name c]) @ xs" using tree_dirs_prefix by blast
    then show False by simp
  qed
  ultimately show ?case by simp
qed simp

lemma abs_path_inj: "\<forall>e\<in>set xs. proper e \<Longrightarrow> \<forall>e\<in>set ys. proper e \<Longrightarrow> abs_path xs = abs_path ys \<Longrightarrow> xs = ys"
proof -
  assume p: "\<forall>e\<in>set xs. proper e" "\<forall>e\<in>set ys. proper e" and eq: "abs_path xs = abs_path ys"
  have ne: "join_slash zs \<noteq> []" if "\<forall>e\<in>set zs. proper e" "zs \<noteq> []" for zs
    using that by (cases zs rule: join_slash.cases) (auto simp: proper_def)
  show ?thesis
  proof (cases "xs = [] \<or> ys = []")
    case True
    then show ?thesis using eq ne p by (auto simp: abs_path_def) (metis join_slash.simps(1))+
  next
    case False
    then show ?thesis using join_inj p eq by (simp add: abs_path_def)
  qed
qed

lemma tree_dirs_proper: "tree_ok t \<Longrightarrow> \<forall>e\<in>set es. proper e \<Longrightarrow> ds \<in> set (tree_dirs es t) \<Longrightarrow> \<forall>e\<in>set ds. proper e"
proof (induction t arbitrary: es)
  case (DirNode n r cs)
  show ?case
  proof (cases "ds = es")
    case False
    then obtain c where c: "c \<in> set cs" "ds \<in> set (tree_dirs (es @ [node_name c]) c)" using DirNode.prems(3) by auto
    show ?thesis by (rule DirNode.IH [OF c(1) _ _ c(2)]) (use DirNode.prems c(1) in \<open>auto simp: list_all_iff\<close>)
  qed (use DirNode.prems in simp)
qed simp

text \<open>
  The walk sends every directory of the tree exactly once, the root as \<^verbatim>\<open>/\<close> and the others as
  absolute paths relative to the mount point, and reports no error.
\<close>

theorem walk_complete:
  assumes "tree_ok t"
  shows "walkAndStreamDirectories (Some t) = (map abs_path (tree_dirs [] t), True) \<and> distinct (fst (walkAndStreamDirectories (Some t)))"
proof -
  have w: "walkAndStreamDirectories (Some t) = (map abs_path (tree_dirs [] t), True)"
    using walk_spec [OF assms, of "[]"] by (simp add: walkAndStreamDirectories_def DataMountPath_abs)
  have "inj_on abs_path (set (tree_dirs [] t))"
    using tree_dirs_proper [OF assms, of "[]"] abs_path_inj by (intro inj_onI) auto
  then show ?thesis using w tree_dirs_distinct [OF assms] by (simp add: distinct_map)
qed

definition sample_tree :: fs_node where
  "sample_tree = DirNode ''data'' True [DirNode ''a'' True [DirNode ''b'' True [], FileNode ''x''], FileNode ''y'']"

lemma sample_tree_ok: "tree_ok sample_tree"
  by (simp add: sample_tree_def proper_def)

theorem walk_complete_witness: "walkAndStreamDirectories (Some sample_tree) = ([''/'', ''/a'', ''/a/b''], True)"
  using walk_complete [OF sample_tree_ok] by (simp add: sample_tree_def abs_path_def)


subsection \<open>The routing is complete\<close>

datatype route = ToLarge changedFileEntry | ToSpecial path | ToDeleted path | ToDir | Refused

text \<open>The rule: where an entry of a directory's diff belongs.\<close>

definition route_of :: "(path \<Rightarrow> lstat) \<Rightarrow> path \<Rightarrow> snap_entry \<Rightarrow> route" where
  "route_of ls d e =
     (let p = path_Join [d, seName e] in
      case ls (path_Join [DataMountPath, p]) of
        NotExist \<Rightarrow> ToDeleted p
      | LstatErr \<Rightarrow> (case seType e of DTypeReg \<Rightarrow> Refused | DTypeDir \<Rightarrow> ToDir | DTypeOther \<Rightarrow> ToSpecial p)
      | LstatOk n \<Rightarrow>
          (case seType e of
             DTypeReg \<Rightarrow> if n = 0 then ToSpecial p else ToLarge \<lparr>fePath = p, feSize = n\<rparr>
           | DTypeDir \<Rightarrow> ToDir
           | DTypeOther \<Rightarrow> ToSpecial p))"

fun entries_of :: "snap_reply list \<Rightarrow> snap_entry list" where
  "entries_of (SnapEntry e # rs) = e # entries_of rs"
| "entries_of _ = []"

definition dir_routes :: "(path \<Rightarrow> lstat) \<Rightarrow> (path \<Rightarrow> snap_reply list option) \<Rightarrow> path \<Rightarrow> route list" where
  "dir_routes ls od d = (case od d of None \<Rightarrow> [] | Some rs \<Rightarrow> map (route_of ls d) (entries_of rs))"

definition all_routes :: "(path \<Rightarrow> lstat) \<Rightarrow> (path \<Rightarrow> snap_reply list option) \<Rightarrow> path list \<Rightarrow> route list" where
  "all_routes ls od ds = concat (map (dir_routes ls od) ds)"

definition larges :: "route list \<Rightarrow> changedFileEntry list" where
  "larges rts = List.map_filter (\<lambda>r. case r of ToLarge e \<Rightarrow> Some e | _ \<Rightarrow> None) rts"

definition specials :: "route list \<Rightarrow> path list" where
  "specials rts = List.map_filter (\<lambda>r. case r of ToSpecial p \<Rightarrow> Some p | _ \<Rightarrow> None) rts"

definition deletions :: "route list \<Rightarrow> path list" where
  "deletions rts = List.map_filter (\<lambda>r. case r of ToDeleted p \<Rightarrow> Some p | _ \<Rightarrow> None) rts"

lemmas route_lists = larges_def specials_def deletions_def List.map_filter_simps

lemma route_lists_append:
  "larges (a @ b) = larges a @ larges b" "specials (a @ b) = specials a @ specials b" "deletions (a @ b) = deletions a @ deletions b"
  by (simp_all add: route_lists List.map_filter_def)

text \<open>A state after more routes have been followed.\<close>

definition followed :: "walk_state \<Rightarrow> route list \<Rightarrow> walk_state \<Rightarrow> bool" where
  "followed s rts s1 \<longleftrightarrow> largeCh s1 = largeCh s @ larges rts \<and> specialCh s1 = specialCh s @ specials rts \<and>
     deletedCh s1 = deletedCh s @ deletions rts \<and> (dirChanged s1 \<longleftrightarrow> dirChanged s \<or> ToDir \<in> set rts) \<and> openDiffs s1 = openDiffs s"

lemma followed_refl: "followed s [] s"
  by (simp add: followed_def route_lists)

lemma followed_ctx: "followed s [] (s\<lparr>walkCtx := c\<rparr>)"
  by (simp add: followed_def route_lists)

lemma followed_trans: "followed s a s1 \<Longrightarrow> followed s1 b s2 \<Longrightarrow> followed s (a @ b) s2"
  by (auto simp: followed_def route_lists_append)

text \<open>A producer that returns without an error has followed all its routes, one that fails a prefix of them.\<close>

definition follows :: "walk_state \<Rightarrow> route list \<Rightarrow> walk_state \<times> walk_error option \<Rightarrow> bool" where
  "follows s rts r = (case r of
     (s1, None) \<Rightarrow> followed s rts s1 \<and> Refused \<notin> set rts
   | (s1, Some e) \<Rightarrow> \<exists>n. followed s (take n rts) s1 \<and> Refused \<notin> set (take n rts))"

lemma follows_stop: "followed s [] s1 \<Longrightarrow> follows s rts (s1, Some e)"
  by (auto simp: follows_def intro!: exI [of _ 0])

lemma follows_step:
  assumes "followed s a s1" "Refused \<notin> set a" "follows s1 b r"
  shows "follows s (a @ b) r"
proof (cases "snd r")
  case None
  then show ?thesis using assms followed_trans by (cases r) (auto simp: follows_def)
next
  case (Some e)
  then obtain s2 n where r: "r = (s2, Some e)" "followed s1 (take n b) s2" "Refused \<notin> set (take n b)"
    using assms(3) by (cases r) (auto simp: follows_def)
  have "take (length a + n) (a @ b) = a @ take n b" by simp
  then show ?thesis using r followed_trans [OF assms(1) r(2)] assms(2) by (auto simp: follows_def intro!: exI [of _ "length a + n"])
qed

lemma route_follows:
  "follows s [route_of ls d e]
     (if seType e \<noteq> DTypeReg then route_special ls (path_Join [d, seName e]) (seType e) s else route_regular ls (path_Join [d, seName e]) s)"
  by (cases "seType e"; cases "ls (path_Join [DataMountPath, path_Join [d, seName e]])"; cases "pop_ok (walkCtx s)"; cases "fst (pop_ok (walkCtx s))")
     (auto simp: follows_def route_of_def route_special_def route_regular_def sent_def send_large_def send_special_def send_deleted_def
        followed_def route_lists Let_def intro!: exI [of _ 0])

lemma cat_loop_follows: "follows s (map (route_of ls d) (entries_of rs)) (cat_loop ls d rs s)"
proof (induction ls d rs s rule: cat_loop.induct)
  case (1 ls d s)
  show ?case by (simp add: follows_def followed_refl)
next
  case (2 ls d rs s)
  show ?case by (simp add: follows_stop followed_refl)
next
  case (3 ls d e rs s)
  let ?r = "if seType e \<noteq> DTypeReg then route_special ls (path_Join [d, seName e]) (seType e) s else route_regular ls (path_Join [d, seName e]) s"
  note one = route_follows [of s ls d e]
  obtain s1 x where r: "?r = (s1, x)" by force
  show ?case
  proof (cases x)
    case None
    have "followed s [route_of ls d e] s1" "Refused \<notin> set [route_of ls d e]" using one unfolding r None follows_def by auto
    moreover have "follows s1 (map (route_of ls d) (entries_of rs)) (cat_loop ls d rs s1)"
      using "3.IH" [OF refl _ None, of s1] r None by simp
    ultimately have "follows s ([route_of ls d e] @ map (route_of ls d) (entries_of rs)) (cat_loop ls d rs s1)" by (rule follows_step)
    then show ?thesis using r None by (simp add: Let_def)
  next
    case (Some err)
    then obtain n where n: "followed s (take n [route_of ls d e]) s1" "Refused \<notin> set (take n [route_of ls d e])"
      using one unfolding r follows_def by auto
    have "take n [route_of ls d e] = take (min n 1) (route_of ls d e # map (route_of ls d) (entries_of rs))" by (cases n) auto
    then have "follows s (route_of ls d e # map (route_of ls d) (entries_of rs)) (s1, Some err)"
      unfolding follows_def prod.case option.case using n by metis
    then show ?thesis using r Some by (simp add: Let_def)
  qed
qed

lemma categorizeDir_follows: "follows s (dir_routes ls od d) (categorizeDir ls od d s)"
proof (cases "od d")
  case (Some rs)
  obtain s1 r where c: "cat_loop ls d rs (s\<lparr>openDiffs := openDiffs s + 1\<rparr>) = (s1, r)" by force
  have "follows s x (s1\<lparr>openDiffs := openDiffs s1 - 1\<rparr>, r)" if "follows (s\<lparr>openDiffs := openDiffs s + 1\<rparr>) x (s1, r)" for x
    using that by (cases r) (auto simp: follows_def followed_def)
  then show ?thesis using cat_loop_follows [of "s\<lparr>openDiffs := openDiffs s + 1\<rparr>" ls d rs] c Some
    by (simp add: categorizeDir_def dir_routes_def)
qed (simp add: categorizeDir_def follows_stop followed_refl)

lemma follows_more: "follows s a (s1, Some e) \<Longrightarrow> follows s (a @ b) (s1, Some e)"
proof -
  assume "follows s a (s1, Some e)"
  then obtain n where "followed s (take n a) s1" "Refused \<notin> set (take n a)" by (auto simp: follows_def)
  moreover have "take n a = take (min n (length a)) (a @ b)" by (cases "n \<le> length a") (simp_all add: min_def)
  ultimately show ?thesis unfolding follows_def prod.case option.case by metis
qed

lemma produce_loop_follows: "follows s (all_routes ls od ds) (produce_loop ls od ds s)"
proof (induction ds arbitrary: s)
  case Nil
  show ?case by (simp add: follows_def followed_refl all_routes_def)
next
  case (Cons d ds)
  obtain ok ctx where p: "pop_ok (walkCtx s) = (ok, ctx)" by force
  show ?case
  proof (cases ok)
    case False
    then show ?thesis using p by (simp add: follows_stop followed_ctx)
  next
    case True
    let ?s = "s\<lparr>walkCtx := ctx\<rparr>"
    obtain s1 r where c: "categorizeDir ls od d ?s = (s1, r)" by force
    have dir: "follows s (dir_routes ls od d) (s1, r)"
      using follows_step [of s "[]" ?s "dir_routes ls od d" "(s1, r)"] followed_ctx categorizeDir_follows [of ?s ls od d] c by simp
    have all: "all_routes ls od (d # ds) = dir_routes ls od d @ all_routes ls od ds" by (simp add: all_routes_def)
    show ?thesis
    proof (cases r)
      case None
      then have "followed s (dir_routes ls od d) s1" "Refused \<notin> set (dir_routes ls od d)" using dir by (auto simp: follows_def)
      from follows_step [OF this Cons.IH] show ?thesis using p True c None all by simp
    next
      case (Some e)
      then show ?thesis using p True c dir follows_more all by simp
    qed
  qed
qed

lemma produce_loop_opened: "produce_loop ls od ds s = (s1, None) \<Longrightarrow> d \<in> set ds \<Longrightarrow> \<exists>es. od d = Some (map SnapEntry es)"
proof (induction ds arbitrary: s)
  case (Cons x ds)
  obtain ok ctx where p: "pop_ok (walkCtx s) = (ok, ctx)" by force
  obtain s2 r where c: "categorizeDir ls od x (s\<lparr>walkCtx := ctx\<rparr>) = (s2, r)" by force
  have r: "ok" "r = None" "produce_loop ls od ds s2 = (s1, None)" using Cons.prems(1) p c by (cases ok; cases r; auto)+
  have whole: "\<exists>es. rs = map SnapEntry es" if "cat_loop ls x rs t = (t', None)" for rs t t'
    using that
  proof (induction ls x rs t rule: cat_loop.induct)
    case (3 ls d e rs t)
    obtain t1 y where y: "(if seType e \<noteq> DTypeReg then route_special ls (path_Join [d, seName e]) (seType e) t
        else route_regular ls (path_Join [d, seName e]) t) = (t1, y)" by force
    then have "y = None" using "3.prems" by (cases y) (auto simp: Let_def)
    then have "\<exists>es. rs = map SnapEntry es" using "3.IH" [OF refl y [symmetric] \<open>y = None\<close>] "3.prems" y by (simp add: Let_def)
    then obtain es where "rs = map SnapEntry es" by blast
    then have "SnapEntry e # rs = map SnapEntry (e # es)" by simp
    then show ?case by (rule exI)
  qed simp_all
  show ?case
  proof (cases "d = x")
    case True
    then show ?thesis using c r(2) whole by (auto simp: categorizeDir_def split: option.splits prod.splits)
  qed (use Cons r(3) in auto)
qed simp

lemma stream_follows:
  assumes "tree_ok t" "streamChangedEntries (Some t) ls od ctx = (s, r)"
  shows "follows (empty_walk ctx) (all_routes ls od (map abs_path (tree_dirs [] t))) (s, r)"
    "r = None \<Longrightarrow> \<forall>d\<in>set (tree_dirs [] t). \<exists>es. od (abs_path d) = Some (map SnapEntry es)"
proof -
  have w: "walkAndStreamDirectories (Some t) = (map abs_path (tree_dirs [] t), True)"
    using walk_spec [OF assms(1), of "[]"] by (simp add: walkAndStreamDirectories_def DataMountPath_abs)
  have p: "produce_loop ls od (map abs_path (tree_dirs [] t)) (empty_walk ctx) = (s, r)"
    using assms(2) w by (auto simp: streamChangedEntries_def produceEntries_def split: prod.splits option.splits)
  show "follows (empty_walk ctx) (all_routes ls od (map abs_path (tree_dirs [] t))) (s, r)"
    using produce_loop_follows [of "empty_walk ctx" ls od "map abs_path (tree_dirs [] t)"] p by simp
  show "r = None \<Longrightarrow> \<forall>d\<in>set (tree_dirs [] t). \<exists>es. od (abs_path d) = Some (map SnapEntry es)"
    using produce_loop_opened p by fastforce
qed

lemma stream_complete:
  assumes "tree_ok t" "streamChangedEntries (Some t) ls od ctx = (s, None)"
  shows "let rts = all_routes ls od (map abs_path (tree_dirs [] t)) in
    largeCh s = larges rts \<and> specialCh s = specials rts \<and> deletedCh s = deletions rts \<and> (dirChanged s \<longleftrightarrow> ToDir \<in> set rts) \<and> Refused \<notin> set rts"
  using stream_follows(1) [OF assms] by (simp add: follows_def followed_def empty_walk_def Let_def)

text \<open>
  The producer loses nothing and invents nothing.  If it returns no error, every directory of the tree was
  diffed to its end and the channels hold exactly the entries that the rule sends there, in order; if it fails,
  they hold those of a prefix.  No diff stays open.
\<close>

theorem producer_routes:
  assumes "tree_ok t"
  shows "case streamChangedEntries (Some t) ls od ctx of (s, r) \<Rightarrow>
    openDiffs s = 0 \<and>
    (\<exists>n. let rts = take n (all_routes ls od (map abs_path (tree_dirs [] t))) in
       largeCh s = larges rts \<and> specialCh s = specials rts \<and> deletedCh s = deletions rts \<and> (dirChanged s \<longleftrightarrow> ToDir \<in> set rts)) \<and>
    (r = None \<longrightarrow>
       (let rts = all_routes ls od (map abs_path (tree_dirs [] t)) in
        largeCh s = larges rts \<and> specialCh s = specials rts \<and> deletedCh s = deletions rts \<and> (dirChanged s \<longleftrightarrow> ToDir \<in> set rts) \<and>
        Refused \<notin> set rts) \<and>
       (\<forall>d\<in>set (tree_dirs [] t). \<exists>es. od (abs_path d) = Some (map SnapEntry es)))"
proof -
  obtain s r where st: "streamChangedEntries (Some t) ls od ctx = (s, r)" by force
  show ?thesis
    using st stream_follows [OF assms st] by (cases r) (auto simp: follows_def followed_def empty_walk_def Let_def
        intro: exI [of _ "length (all_routes ls od (map abs_path (tree_dirs [] t)))"])
qed


definition sample_diffs :: "path \<Rightarrow> snap_reply list option" where
  "sample_diffs d = Some (if d = ''/a'' then [SnapEntry \<lparr>seName = ''x'', seType = DTypeReg\<rparr>, SnapEntry \<lparr>seName = ''z'', seType = DTypeReg\<rparr>] else [])"

definition sample_lstat :: "path \<Rightarrow> lstat" where
  "sample_lstat p = (if p = ''/data/a/x'' then LstatOk 7 else NotExist)"

theorem producer_routes_witness:
  "case streamChangedEntries (Some sample_tree) sample_lstat sample_diffs [] of (s, r) \<Rightarrow>
     r = None \<and> openDiffs s = 0 \<and> largeCh s = [\<lparr>fePath = ''/a/x'', feSize = 7\<rparr>] \<and> deletedCh s = [''/a/z'']"
proof -
  obtain s r where st: "streamChangedEntries (Some sample_tree) sample_lstat sample_diffs [] = (s, r)" by force
  have dirs: "map abs_path (tree_dirs [] sample_tree) = [''/'', ''/a'', ''/a/b'']" by (simp add: sample_tree_def abs_path_def)
  have paths: "path_Join [''/a'', ''x''] = ''/a/x''" "path_Join [''/a'', ''z''] = ''/a/z''"
    "path_Join [DataMountPath, ''/a/x''] = ''/data/a/x''" "path_Join [DataMountPath, ''/a/z''] = ''/data/a/z''" by code_simp+
  have rts: "all_routes sample_lstat sample_diffs [''/'', ''/a'', ''/a/b''] = [ToLarge \<lparr>fePath = ''/a/x'', feSize = 7\<rparr>, ToDeleted ''/a/z'']"
    by (simp add: all_routes_def dir_routes_def sample_diffs_def route_of_def paths sample_lstat_def Let_def)
  have "walkAndStreamDirectories (Some sample_tree) = ([''/'', ''/a'', ''/a/b''], True)"
    using walk_spec [OF sample_tree_ok, of "[]"] dirs by (simp add: walkAndStreamDirectories_def DataMountPath_abs)
  then have "r = None"
    using st by (auto simp: streamChangedEntries_def produceEntries_def empty_walk_def categorizeDir_def sample_diffs_def
        route_regular_def paths sample_lstat_def sent_def send_large_def send_deleted_def Let_def)
  then show ?thesis using producer_routes [OF sample_tree_ok, of sample_lstat sample_diffs "[]"] unfolding st dirs rts
    by (simp add: route_lists)
qed

end
