(* ===== verification/Fs_Batch.thy ===== *)
theory Fs_Batch
  imports Prelude
begin

section \<open>Batches for rsync and for deletions (the consumers of cephfs/source.go)\<close>

text \<open>
  Paths arrive on a channel and are handed on in batches: to rsync by several workers that share a channel,
  to the destination's \<^verbatim>\<open>Delete\<close> stream by one consumer.  A channel is the list of the paths received and
  how receiving ended.  The loop is the same for both, so its lemmas are proved once for any way to send a
  batch that satisfies a small contract; both ways are shown to satisfy it.
\<close>

definition deleteBatchSize :: nat where "deleteBatchSize = 10000"
definition smallBatchSize :: nat where "smallBatchSize = 500"
definition rsyncWorkers :: nat where "rsyncWorkers = 4"

subsection \<open>The loop\<close>

datatype chan_end = ChClosed | ChCancelled

fun batch_loop ::
  "nat \<Rightarrow> ('s \<Rightarrow> path list \<Rightarrow> 's \<times> 'e option) \<Rightarrow> ('s \<Rightarrow> path list \<Rightarrow> 's \<times> 'e option) \<Rightarrow> 'e \<Rightarrow> 's \<Rightarrow> path list \<Rightarrow> path list \<Rightarrow> chan_end \<Rightarrow> 's \<times> 'e option" where
  "batch_loop n send flush cancelled s batch [] ChClosed = flush s batch"
| "batch_loop n send flush cancelled s batch [] ChCancelled = (s, Some cancelled)"
| "batch_loop n send flush cancelled s batch (p # ps) en =
     (if n \<le> length (batch @ [p])
      then (case send s (batch @ [p]) of
              (s1, Some e) \<Rightarrow> (s1, Some e)
            | (s1, None) \<Rightarrow> batch_loop n send flush cancelled s1 [] ps en)
      else batch_loop n send flush cancelled s (batch @ [p]) ps en)"

text \<open>
  The contract of a way to send: while nothing goes wrong unnoticed, a batch that was sent without an error is
  the next in the log of what was sent, and one that failed is there or not.
\<close>

locale batch_sender =
  fixes good :: "'s \<Rightarrow> bool"
    and send :: "'s \<Rightarrow> path list \<Rightarrow> 's \<times> 'e option"
    and flush :: "'s \<Rightarrow> path list \<Rightarrow> 's \<times> 'e option"
    and log :: "'s \<Rightarrow> path list list"
    and plain :: "path \<Rightarrow> bool"
  assumes flush_send: "flush s b = (if b = [] then (s, None) else send s b)"
    and send_ok: "good s \<Longrightarrow> b \<noteq> [] \<Longrightarrow> list_all plain b \<Longrightarrow> send s b = (s1, None) \<Longrightarrow> good s1 \<and> log s1 = log s @ [b]"
    and send_fail: "good s \<Longrightarrow> b \<noteq> [] \<Longrightarrow> list_all plain b \<Longrightarrow> send s b = (s1, Some e) \<Longrightarrow> good s1 \<and> (log s1 = log s \<or> log s1 = log s @ [b])"
begin

lemma batch_loop_spec:
  assumes "batch_loop n send flush c s batch ps en = (s1, r)" "good s" "length batch < n" "list_all plain (batch @ ps)"
  shows "good s1 \<and> (\<exists>bs k. log s1 = log s @ bs \<and> concat bs = take k (batch @ ps) \<and>
    (\<forall>b\<in>set bs. b \<noteq> [] \<and> length b \<le> n) \<and> (r = None \<longrightarrow> en = ChClosed \<and> concat bs = batch @ ps))"
  using assms
proof (induction ps arbitrary: s batch)
  case Nil
  show ?case
  proof (cases "en = ChCancelled")
    case True
    then show ?thesis using Nil by (auto intro!: exI [of _ "[]"] exI [of _ 0])
  next
  case False
  then have closed: "en = ChClosed" by (cases en) auto
  show ?thesis
  proof (cases "batch = []")
    case True
    then show ?thesis using Nil closed flush_send by (auto intro!: exI [of _ "[]"])
  next
    case False
    then have s: "send s batch = (s1, r)" using Nil closed flush_send by simp
    show ?thesis
    proof (cases r)
      case None
      then show ?thesis using send_ok [OF Nil(2) False] Nil(4) s Nil(3) closed False by (auto intro!: exI [of _ "[batch]"] exI [of _ "length batch"])
    next
      case (Some e)
      then have "good s1" "log s1 = log s \<or> log s1 = log s @ [batch]" using send_fail [OF Nil(2) False] Nil(4) s by auto
      then show ?thesis
      proof (elim disjE)
        assume "log s1 = log s @ [batch]"
        then show ?thesis using \<open>good s1\<close> Nil(3) closed False Some by (auto intro!: exI [of _ "[batch]"] exI [of _ "length batch"])
      qed (use \<open>good s1\<close> Some in \<open>auto intro!: exI [of _ "[]"] exI [of _ 0]\<close>)
    qed
  qed
  qed
next
  case (Cons p ps)
  show ?case
  proof (cases "n \<le> length (batch @ [p])")
    case False
    then have "batch_loop n send flush c s (batch @ [p]) ps en = (s1, r)" using Cons.prems by simp
    from Cons.IH [OF this] show ?thesis using Cons.prems False by simp
  next
    case True
    then have len: "length (batch @ [p]) = n" using Cons.prems by simp
    obtain s2 x where s: "send s (batch @ [p]) = (s2, x)" by force
    show ?thesis
    proof (cases x)
      case (Some e)
      then have r: "s1 = s2" "r = Some e" using Cons.prems True s by auto
      have "good s2" "log s2 = log s \<or> log s2 = log s @ [batch @ [p]]" using send_fail [of s "batch @ [p]"] s Some Cons.prems by auto
      then show ?thesis
      proof (elim disjE)
        assume "log s2 = log s @ [batch @ [p]]"
        then show ?thesis using \<open>good s2\<close> r len by (auto intro!: exI [of _ "[batch @ [p]]"] exI [of _ "Suc (length batch)"])
      qed (use \<open>good s2\<close> r in \<open>auto intro!: exI [of _ "[]"] exI [of _ 0]\<close>)
    next
      case None
      then have g: "good s2" "log s2 = log s @ [batch @ [p]]" using send_ok [of s "batch @ [p]"] s Cons.prems by auto
      have "batch_loop n send flush c s2 [] ps en = (s1, r)" using Cons.prems True s None by simp
      note ih = Cons.IH [OF this g(1)]
      have "0 < n" "list_all plain ps" using len Cons.prems(4) by auto
      have "good s1 \<and> (\<exists>bs k. log s1 = log s2 @ bs \<and> concat bs = take k ps \<and>
        (\<forall>b\<in>set bs. b \<noteq> [] \<and> length b \<le> n) \<and> (r = None \<longrightarrow> en = ChClosed \<and> concat bs = ps))"
        using ih \<open>0 < n\<close> \<open>list_all plain ps\<close> by simp
      then obtain bs k where b: "good s1" "log s1 = log s2 @ bs" "concat bs = take k ps"
        "\<forall>b\<in>set bs. b \<noteq> [] \<and> length b \<le> n" "r = None \<longrightarrow> en = ChClosed \<and> concat bs = ps" by blast
      have "log s1 = log s @ (batch @ [p]) # bs" using b g by simp
      moreover have "concat ((batch @ [p]) # bs) = take (Suc (length batch) + k) (batch @ p # ps)" using b by simp
      ultimately show ?thesis using b len by (auto intro!: exI [of _ "(batch @ [p]) # bs"] exI [of _ "Suc (length batch) + k"])
    qed
  qed
qed

end


subsection \<open>Batches for rsync\<close>

text \<open>
  \<^verbatim>\<open>rsyncBatch\<close> writes the paths to a temporary file, one per line, ignoring the errors of the writes;
  \<^verbatim>\<open>rsyncFromList\<close> skips a list that is empty or cannot be examined, without an error.  \<^verbatim>\<open>listOuts\<close> are the
  outcomes of the writes and of \<^verbatim>\<open>Stat\<close>, \<^verbatim>\<open>rsOuts\<close> those of the other calls; \<^verbatim>\<open>rsRuns\<close> are the
  successful runs of rsync: whether contents are included, and the paths rsync reads from the list.
\<close>

record rsync_state =
  listOuts :: "bool list"
  rsOuts :: "bool list"
  rsRuns :: "(bool \<times> path list) list"

datatype rsync_error = TempFileFailed | TempCloseFailed | RsyncRunFailed | RsyncCancelled

definition newline :: char where "newline = CHR 0x0A"

fun print_list :: "bool list \<Rightarrow> path list \<Rightarrow> bool list \<times> string" where
  "print_list outs [] = (outs, '''')"
| "print_list outs (p # ps) =
     (case pop_ok outs of (ok, outs1) \<Rightarrow>
      case print_list outs1 ps of (outs2, rest) \<Rightarrow> (outs2, (if ok then p @ [newline] else '''') @ rest))"

text \<open>The names rsync takes from a list: its lines.\<close>

fun read_list :: "string \<Rightarrow> path list" where
  "read_list [] = []"
| "read_list (c # cs) =
     (if c = newline then '''' # read_list cs
      else case read_list cs of [] \<Rightarrow> [[c]] | l # ls \<Rightarrow> (c # l) # ls)"

definition rs_call :: "rsync_state \<Rightarrow> bool \<times> rsync_state" where
  "rs_call s = (case pop_ok (rsOuts s) of (ok, outs) \<Rightarrow> (ok, s\<lparr>rsOuts := outs\<rparr>))"

definition rsyncFromList :: "rsync_state \<Rightarrow> string \<Rightarrow> bool \<Rightarrow> rsync_state \<times> rsync_error option" where
  "rsyncFromList s listFile includeContent =
     (case pop_ok (listOuts s) of (statOk, outs) \<Rightarrow>
      let s1 = s\<lparr>listOuts := outs\<rparr> in
      if \<not> statOk \<or> length listFile = 0 then (s1, None)
      else case rs_call s1 of
        (False, s2) \<Rightarrow> (s2, Some RsyncRunFailed)
      | (True, s2) \<Rightarrow> (s2\<lparr>rsRuns := rsRuns s2 @ [(includeContent, read_list listFile)]\<rparr>, None))"

definition rsyncBatch :: "bool \<Rightarrow> rsync_state \<Rightarrow> path list \<Rightarrow> rsync_state \<times> rsync_error option" where
  "rsyncBatch includeContent s paths =
     (case rs_call s of
        (False, s1) \<Rightarrow> (s1, Some TempFileFailed)
      | (True, s1) \<Rightarrow>
          (case print_list (listOuts s1) paths of (outs, listFile) \<Rightarrow>
           case rs_call (s1\<lparr>listOuts := outs\<rparr>) of
             (False, s2) \<Rightarrow> (s2, Some TempCloseFailed)
           | (True, s2) \<Rightarrow> rsyncFromList s2 listFile includeContent))"

definition flushBatch :: "bool \<Rightarrow> rsync_state \<Rightarrow> path list \<Rightarrow> rsync_state \<times> rsync_error option" where
  "flushBatch includeContent s batch = (if length batch = 0 then (s, None) else rsyncBatch includeContent s batch)"

definition rsyncWorkerLoop :: "bool \<Rightarrow> rsync_state \<Rightarrow> path list \<Rightarrow> chan_end \<Rightarrow> rsync_state \<times> rsync_error option" where
  "rsyncWorkerLoop includeContent s ps en = batch_loop smallBatchSize (rsyncBatch includeContent) (flushBatch includeContent) RsyncCancelled s [] ps en"

text \<open>
  The workers take the paths from one channel: \<^verbatim>\<open>who\<close> tells which worker gets each, \<^verbatim>\<open>ends\<close> how each
  worker's receiving ends.
\<close>

fun share :: "nat \<Rightarrow> nat list \<Rightarrow> path list \<Rightarrow> path list" where
  "share i (w # who) (p # ps) = (if w mod rsyncWorkers = i then p # share i who ps else share i who ps)"
| "share i [] (p # ps) = (if i = 0 then p # ps else [])"
| "share i who [] = []"

definition runParallelRsyncWorkers ::
  "bool \<Rightarrow> (nat \<Rightarrow> rsync_state) \<Rightarrow> nat list \<Rightarrow> (nat \<Rightarrow> chan_end) \<Rightarrow> path list \<Rightarrow> (rsync_state \<times> rsync_error option) list" where
  "runParallelRsyncWorkers includeContent st who ends ps =
     map (\<lambda>i. rsyncWorkerLoop includeContent (st i) (share i who ps) (ends i)) [0..<rsyncWorkers]"

definition consumeSpecialFiles ::
  "(nat \<Rightarrow> rsync_state) \<Rightarrow> nat list \<Rightarrow> (nat \<Rightarrow> chan_end) \<Rightarrow> path list \<Rightarrow> (rsync_state \<times> rsync_error option) list" where
  "consumeSpecialFiles st who ends ps = runParallelRsyncWorkers True st who ends ps"

definition consumeMetaRsync ::
  "(nat \<Rightarrow> rsync_state) \<Rightarrow> nat list \<Rightarrow> (nat \<Rightarrow> chan_end) \<Rightarrow> path list \<Rightarrow> (rsync_state \<times> rsync_error option) list" where
  "consumeMetaRsync st who ends ps = runParallelRsyncWorkers False st who ends ps"

text \<open>\<^verbatim>\<open>g.Wait\<close>: the error of a worker that failed, if any did.\<close>

definition wait_all :: "('s \<times> 'e option) list \<Rightarrow> 'e option" where
  "wait_all rs = (case List.map_filter snd rs of [] \<Rightarrow> None | e # _ \<Rightarrow> Some e)"

subsection \<open>Batches for deletions\<close>

record delete_state =
  delOuts :: "bool list"
  delReqs :: "path list list"

datatype delete_error = DeleteOpenFailed | DeleteSendFailed | DeleteRecvFailed | DeleteCancelled

definition del_call :: "delete_state \<Rightarrow> bool \<times> delete_state" where
  "del_call s = (case pop_ok (delOuts s) of (ok, outs) \<Rightarrow> (ok, s\<lparr>delOuts := outs\<rparr>))"

definition sendDeleteBatch :: "delete_state \<Rightarrow> path list \<Rightarrow> delete_state \<times> delete_error option" where
  "sendDeleteBatch s paths =
     (case del_call s of
        (False, s1) \<Rightarrow> (s1, Some DeleteSendFailed)
      | (True, s1) \<Rightarrow>
          (case del_call (s1\<lparr>delReqs := delReqs s1 @ [paths]\<rparr>) of
             (False, s2) \<Rightarrow> (s2, Some DeleteRecvFailed)
           | (True, s2) \<Rightarrow> (s2, None)))"

definition flushDeletes :: "delete_state \<Rightarrow> path list \<Rightarrow> delete_state \<times> delete_error option" where
  "flushDeletes s batch = (if length batch = 0 then (s, None) else sendDeleteBatch s batch)"

definition consumeDeletes :: "delete_state \<Rightarrow> path list \<Rightarrow> chan_end \<Rightarrow> delete_state \<times> delete_error option" where
  "consumeDeletes s ps en =
     (case del_call s of
        (False, s1) \<Rightarrow> (s1, Some DeleteOpenFailed)
      | (True, s1) \<Rightarrow> batch_loop deleteBatchSize sendDeleteBatch flushDeletes DeleteCancelled s1 [] ps en)"


subsection \<open>Both satisfy the contract\<close>

interpretation deletes: batch_sender "\<lambda>_. True" sendDeleteBatch flushDeletes delReqs "\<lambda>_. True"
proof
  fix s s1 :: delete_state and b :: "path list" and e
  obtain ok1 s2 where a: "del_call s = (ok1, s2)" by force
  obtain ok2 s3 where c: "del_call (s2\<lparr>delReqs := delReqs s2 @ [b]\<rparr>) = (ok2, s3)" by force
  have f: "delReqs s2 = delReqs s" "delReqs s3 = delReqs s @ [b]" using a c by (auto simp: del_call_def split: prod.splits)
  show "True \<and> delReqs s1 = delReqs s @ [b]" if "sendDeleteBatch s b = (s1, None)"
    using that a c f by (cases ok1; cases ok2) (auto simp: sendDeleteBatch_def)
  show "True \<and> (delReqs s1 = delReqs s \<or> delReqs s1 = delReqs s @ [b])" if "sendDeleteBatch s b = (s1, Some e)"
    using that a c f by (cases ok1; cases ok2) (auto simp: sendDeleteBatch_def)
qed (auto simp: flushDeletes_def)

lemma read_list_line: "newline \<notin> set p \<Longrightarrow> read_list (p @ newline # rest) = p # read_list rest"
  by (induction p) auto

lemma print_list_quiet: "print_list [] ps = ([], concat (map (\<lambda>p. p @ [newline]) ps))"
  by (induction ps) auto

lemma list_roundtrip: "list_all (\<lambda>p. newline \<notin> set p) ps \<Longrightarrow> read_list (snd (print_list [] ps)) = ps"
  unfolding print_list_quiet by (induction ps) (auto simp: read_list_line)

definition runs_with :: "bool \<Rightarrow> rsync_state \<Rightarrow> path list list" where
  "runs_with ic s = map snd (filter (\<lambda>r. fst r = ic) (rsRuns s))"

lemma rs_call_fields: "rs_call s = (ok, s1) \<Longrightarrow> listOuts s1 = listOuts s \<and> rsRuns s1 = rsRuns s"
  by (auto simp: rs_call_def split: prod.splits)

lemma rsyncBatch_quiet:
  assumes "listOuts s = []" "ps \<noteq> []" "list_all (\<lambda>p. newline \<notin> set p) ps" "rsyncBatch ic s ps = (s1, r)"
  shows "listOuts s1 = [] \<and> rsRuns s1 = rsRuns s @ (if r = None then [(ic, ps)] else [])"
proof -
  obtain ok1 s2 where a: "rs_call s = (ok1, s2)" by force
  obtain ok2 s3 where b: "rs_call (s2\<lparr>listOuts := []\<rparr>) = (ok2, s3)" by force
  obtain ok3 s4 where c: "rs_call (s3\<lparr>listOuts := []\<rparr>) = (ok3, s4)" by force
  note f = rs_call_fields [OF a] rs_call_fields [OF b] rs_call_fields [OF c]
  have s3: "s3\<lparr>listOuts := []\<rparr> = s3" using f(2) by simp
  have len: "snd (print_list [] ps) \<noteq> ''''" using assms(2) unfolding print_list_quiet by (cases ps) auto
  show ?thesis
    using assms(1,4) a b c f list_roundtrip [OF assms(3)] len s3 print_list_quiet [of ps]
    by (cases ok1; cases ok2; cases ok3) (auto simp: rsyncBatch_def rsyncFromList_def Let_def)
qed

interpretation rsyncs: batch_sender "\<lambda>s. listOuts s = []" "rsyncBatch ic" "flushBatch ic" "runs_with ic" "\<lambda>p. newline \<notin> set p" for ic
proof
  fix s s1 :: rsync_state and b :: "path list" and e
  assume s: "listOuts s = []" "b \<noteq> []" "list_all (\<lambda>p. newline \<notin> set p) b"
  show "listOuts s1 = [] \<and> runs_with ic s1 = runs_with ic s @ [b]" if "rsyncBatch ic s b = (s1, None)"
    using rsyncBatch_quiet [OF s that] by (simp add: runs_with_def)
  show "listOuts s1 = [] \<and> (runs_with ic s1 = runs_with ic s \<or> runs_with ic s1 = runs_with ic s @ [b])" if "rsyncBatch ic s b = (s1, Some e)"
    using rsyncBatch_quiet [OF s that] by (simp add: runs_with_def)
qed (auto simp: flushBatch_def)

subsection \<open>Correctness\<close>

lemma consumeDeletes_spec:
  assumes "consumeDeletes s ps en = (s1, r)" "delReqs s = []"
  shows "(\<exists>k. concat (delReqs s1) = take k ps) \<and> (\<forall>b\<in>set (delReqs s1). b \<noteq> [] \<and> length b \<le> deleteBatchSize) \<and>
    (r = None \<longrightarrow> en = ChClosed \<and> concat (delReqs s1) = ps)"
proof -
  obtain ok s2 where a: "del_call s = (ok, s2)" by force
  have f: "delReqs s2 = []" using a assms(2) by (auto simp: del_call_def split: prod.splits)
  show ?thesis
  proof (cases ok)
    case False
    then show ?thesis using assms(1) a f by (auto simp: consumeDeletes_def)
  next
    case True
    then have "batch_loop deleteBatchSize sendDeleteBatch flushDeletes DeleteCancelled s2 [] ps en = (s1, r)"
      using assms(1) a by (simp add: consumeDeletes_def)
    from deletes.batch_loop_spec [OF this] show ?thesis using f by (auto simp: deleteBatchSize_def list_all_iff)
  qed
qed

text \<open>
  Every deletion is requested.  The requests sent are the received paths in their order, cut into
  non-empty batches of at most 10000; if the consumer returns no error, all paths were sent and each request
  was answered, and otherwise a prefix was sent.
\<close>

theorem consumeDeletes_complete:
  "case consumeDeletes \<lparr>delOuts = outs, delReqs = []\<rparr> ps en of (s, r) \<Rightarrow>
     (\<exists>k. concat (delReqs s) = take k ps) \<and> list_all (\<lambda>b. b \<noteq> [] \<and> length b \<le> 10000) (delReqs s) \<and>
     (if r = None then en = ChClosed \<and> concat (delReqs s) = ps else True)"
  using consumeDeletes_spec [of "\<lparr>delOuts = outs, delReqs = []\<rparr>" ps en]
  by (cases "consumeDeletes \<lparr>delOuts = outs, delReqs = []\<rparr> ps en") (simp add: list_all_iff deleteBatchSize_def)

lemma rsyncWorkerLoop_spec:
  assumes "rsyncWorkerLoop ic s ps en = (s1, None)" "listOuts s = []" "list_all (\<lambda>p. newline \<notin> set p) ps"
  shows "\<exists>bs. runs_with ic s1 = runs_with ic s @ bs \<and> concat bs = ps \<and> (\<forall>b\<in>set bs. b \<noteq> [] \<and> length b \<le> smallBatchSize)"
  using rsyncs.batch_loop_spec [OF assms(1) [unfolded rsyncWorkerLoop_def]] assms(2,3) by (auto simp: smallBatchSize_def)

lemma share_mset: "(\<Sum>i = 0..<rsyncWorkers. mset (share i who ps)) = mset ps"
proof (induction "0 :: nat" who ps rule: share.induct)
  case (1 w who p ps)
  have "(\<Sum>i = 0..<rsyncWorkers. mset (share i (w # who) (p # ps))) =
      (\<Sum>i = 0..<rsyncWorkers. (if w mod rsyncWorkers = i then {#p#} else {#}) + mset (share i who ps))"
    by (intro sum.cong) auto
  also have "\<dots> = (\<Sum>i = 0..<rsyncWorkers. if w mod rsyncWorkers = i then {#p#} else {#}) + mset ps"
    using 1 by (auto simp: sum.distrib)
  also have "(\<Sum>i = 0..<rsyncWorkers. if w mod rsyncWorkers = i then {#p#} else {#}) = {#p#}"
    by (simp add: rsyncWorkers_def)
  finally show ?case by simp
next
  case (2 p ps)
  have "(\<Sum>i = 0..<rsyncWorkers. mset (share i [] (p # ps))) = (\<Sum>i = 0..<rsyncWorkers. if i = 0 then mset (p # ps) else {#})"
    by (intro sum.cong) auto
  then show ?case by (simp add: rsyncWorkers_def)
qed simp

lemma share_plain: "list_all P ps \<Longrightarrow> list_all P (share i who ps)"
  by (induction i who ps rule: share.induct) auto

lemma wait_all_None: "wait_all rs = None \<longleftrightarrow> (\<forall>r\<in>set rs. snd r = None)"
  by (induction rs) (auto simp: wait_all_def List.map_filter_simps split: option.splits list.splits)

lemma workers_complete:
  assumes "wait_all (runParallelRsyncWorkers ic st who ends ps) = None"
    "\<forall>i. listOuts (st i) = [] \<and> rsRuns (st i) = []" "list_all (\<lambda>p. newline \<notin> set p) ps"
  shows "(\<Sum>r \<leftarrow> runParallelRsyncWorkers ic st who ends ps. mset (concat (runs_with ic (fst r)))) = mset ps \<and>
    (\<forall>r\<in>set (runParallelRsyncWorkers ic st who ends ps). \<forall>b\<in>set (runs_with ic (fst r)). b \<noteq> [] \<and> length b \<le> 500)"
proof -
  have one: "concat (runs_with ic (fst (rsyncWorkerLoop ic (st i) (share i who ps) (ends i)))) = share i who ps \<and>
      (\<forall>b\<in>set (runs_with ic (fst (rsyncWorkerLoop ic (st i) (share i who ps) (ends i)))). b \<noteq> [] \<and> length b \<le> 500)" if "i < rsyncWorkers" for i
  proof -
    obtain s r where w: "rsyncWorkerLoop ic (st i) (share i who ps) (ends i) = (s, r)" by force
    have "r = None" using assms(1) that w unfolding wait_all_None runParallelRsyncWorkers_def by force
    from rsyncWorkerLoop_spec [OF w [unfolded this] _ share_plain [OF assms(3)]] show ?thesis
      using assms(2) w by (auto simp: runs_with_def smallBatchSize_def)
  qed
  have "(\<Sum>r \<leftarrow> runParallelRsyncWorkers ic st who ends ps. mset (concat (runs_with ic (fst r)))) =
      (\<Sum>i = 0..<rsyncWorkers. mset (concat (runs_with ic (fst (rsyncWorkerLoop ic (st i) (share i who ps) (ends i))))))"
    by (simp add: runParallelRsyncWorkers_def comp_def interv_sum_list_conv_sum_set_nat)
  also have "\<dots> = (\<Sum>i = 0..<rsyncWorkers. mset (share i who ps))" using one by (intro sum.cong) auto
  finally have "(\<Sum>r \<leftarrow> runParallelRsyncWorkers ic st who ends ps. mset (concat (runs_with ic (fst r)))) = mset ps"
    using share_mset by simp
  then show ?thesis using one by (auto simp: runParallelRsyncWorkers_def)
qed

text \<open>
  The workers together hand every path to rsync exactly once.  Whichever worker receives which path, if
  none of them fails (and the lists could be written, and no name contains a line break), the paths of
  their successful runs are those received, in non-empty batches of at most 500.
\<close>

theorem rsync_workers_complete:
  assumes "wait_all (runParallelRsyncWorkers ic st who ends ps) = None"
    "\<forall>i. listOuts (st i) = [] \<and> rsRuns (st i) = []" "list_all (\<lambda>p. newline \<notin> set p) ps"
  shows "(\<Sum>r \<leftarrow> runParallelRsyncWorkers ic st who ends ps. mset (concat (runs_with ic (fst r)))) = mset ps \<and>
    (\<forall>r\<in>set (runParallelRsyncWorkers ic st who ends ps). \<forall>b\<in>set (runs_with ic (fst r)). b \<noteq> [] \<and> length b \<le> 500)"
  using workers_complete [OF assms] .

definition sample_rsync :: rsync_state where
  "sample_rsync = \<lparr>listOuts = [], rsOuts = [], rsRuns = []\<rparr>"

theorem rsync_workers_complete_witness:
  "wait_all (runParallelRsyncWorkers True (\<lambda>_. sample_rsync) [0, 1] (\<lambda>_. ChClosed) [''/a'', ''/b'']) = None \<and>
   (\<Sum>r \<leftarrow> runParallelRsyncWorkers True (\<lambda>_. sample_rsync) [0, 1] (\<lambda>_. ChClosed) [''/a'', ''/b'']. mset (concat (runs_with True (fst r)))) =
     {#''/a'', ''/b''#}"
proof -
  have "wait_all (runParallelRsyncWorkers True (\<lambda>_. sample_rsync) [0, 1] (\<lambda>_. ChClosed) [''/a'', ''/b'']) = None" by code_simp
  moreover have "list_all (\<lambda>p. newline \<notin> set p) [''/a'', ''/b'']" by (simp add: newline_def)
  ultimately show ?thesis using rsync_workers_complete [of True "\<lambda>_. sample_rsync"] by (simp add: sample_rsync_def)
qed

text \<open>
  A list that could not be written goes unnoticed.  The errors of writing the paths are ignored and an
  empty list is skipped: if no path can be written, the batch is reported as synced although rsync did not run.
\<close>

theorem rsync_list_error_unseen:
  "let s = \<lparr>listOuts = replicate (length ps) False @ outs, rsOuts = [], rsRuns = runs\<rparr> in
   snd (rsyncBatch ic s ps) = None \<and> rsRuns (fst (rsyncBatch ic s ps)) = runs"
proof -
  have "print_list (replicate (length ps) False @ outs) ps = (outs, '''')" by (induction ps) auto
  then show ?thesis by (auto simp: rsyncBatch_def rsyncFromList_def rs_call_def Let_def split: prod.splits)
qed

end
