(* ===== verification/Fs_Source.thy ===== *)
theory Fs_Source
  imports Volid Csi_Config Pipeline_Config Commit_Drainer Fs_Walk Fs_Batch
begin

section \<open>The CephFS source worker (Sync of internal/worker/cephfs/source.go)\<close>

text \<open>
  \<^verbatim>\<open>Sync\<close> exchanges certificates, connects, and then either copies everything with rsync or transfers the
  difference of two snapshots: a producer, the block pipeline with its commit drainer, two groups of rsync
  workers and the delete consumer run in one error group, and a last rsync pass brings the directories
  up to date.  The stages are composed by what they pass on: each consumer receives what its
  producer sent, or a prefix of it when the context is cancelled.  What runs outside (rsync, find, gRPC) is
  outcomes in records; what is acquired and released is logged.

  The lemmas show that a run without an error has handled every entry of every diff, which entries are left
  out all the same, how often rsync is tried, and that no connection or mount is leaked.
\<close>

subsection \<open>Plain rsync, with retries\<close>

definition maxRetries :: nat where "maxRetries = 5"
definition initialDelay :: nat where "initialDelay = 2"
definition backoffFactor :: nat where "backoffFactor = 2"

text \<open>How a command ended: an exit code (-1 for a signal), or it could not be run.\<close>

datatype run_result = RanOk | Exited int | NotRun

record attempt =
  atFind :: "string option"
  atWrite :: bool
  atStat :: bool
  atFirst :: run_result
  atSecond :: run_result

datatype rsync_act = FilesPass string | DeletePass | Slept nat

definition exit_code :: "run_result \<Rightarrow> int" where
  "exit_code r = (case r of RanOk \<Rightarrow> 0 | Exited c \<Rightarrow> c | NotRun \<Rightarrow> 1)"

text \<open>The return code, and whether there is an error as well; the caller only logs the latter.\<close>

definition createFileListAndSync :: "attempt \<Rightarrow> rsync_act list \<times> int \<times> bool" where
  "createFileListAndSync a =
     (case atFind a of
        None \<Rightarrow> ([], 1, True)
      | Some output \<Rightarrow>
          if \<not> atWrite a then ([], 1, True)
          else if \<not> atStat a then ([], 1, True)
          else if length output = 0 then ([], 0, False)
          else ([FilesPass output], exit_code (atFirst a), atFirst a = NotRun))"

definition syncForDeletion :: "attempt \<Rightarrow> rsync_act list \<times> int" where
  "syncForDeletion a = ([DeletePass], exit_code (atSecond a))"

definition rsync_attempt :: "attempt \<Rightarrow> rsync_act list \<times> int" where
  "rsync_attempt a =
     (case createFileListAndSync a of (l1, rcA, _) \<Rightarrow>
      case syncForDeletion a of (l2, rcB) \<Rightarrow>
        (l1 @ (if rcA = 0 then [Slept 1] else []) @ l2, rcA * 100 + rcB))"

function rsync_loop :: "(nat \<Rightarrow> attempt) \<Rightarrow> nat \<Rightarrow> nat \<Rightarrow> int \<Rightarrow> rsync_act list \<times> int" where
  "rsync_loop env retry delay rc =
     (if rc \<noteq> 0 \<and> retry < maxRetries
      then case rsync_attempt (env retry) of (l, rc1) \<Rightarrow>
        if rc1 \<noteq> 0 \<and> Suc retry < maxRetries
        then (case rsync_loop env (Suc retry) (delay * backoffFactor) rc1 of (l', r) \<Rightarrow> (l @ [Slept delay] @ l', r))
        else (case rsync_loop env (Suc retry) delay rc1 of (l', r) \<Rightarrow> (l @ l', r))
      else ([], rc))"
  by pat_completeness auto
termination
  by (relation "measure (\<lambda>(env, retry, delay, rc). maxRetries - retry)") auto

declare rsync_loop.simps [simp del]

definition fs_rsync :: "(nat \<Rightarrow> attempt) \<Rightarrow> rsync_act list \<times> int option" where
  "fs_rsync env = (case rsync_loop env 0 initialDelay 1 of (l, rc) \<Rightarrow> (l, if rc \<noteq> 0 then Some rc else None))"

subsection \<open>The last pass over the directories\<close>

record convergence_env =
  cvFind :: "string option"
  cvRsync :: bool

datatype convergence_error = FindDirectoriesFailed | DirectoryRsyncFailed

definition rsyncConvergence :: "convergence_env \<Rightarrow> string option \<times> convergence_error option" where
  "rsyncConvergence e =
     (case cvFind e of
        None \<Rightarrow> (None, Some FindDirectoriesFailed)
      | Some findOutput \<Rightarrow> (Some findOutput, if cvRsync e then None else Some DirectoryRsyncFailed))"

subsection \<open>The block pipeline of the changed files\<close>

record block_env =
  beRoom :: "bool list"
  beCtx :: "bool list"
  beCommitOpens :: bool
  bePipelineOk :: bool
  bePulls :: nat
  beWindows :: "WindowSemaphore list"
  beDrainOuts :: "bool list"
  beDrainCut :: "nat option"

record block_result =
  brBlocks :: "ChangeBlock list"
  brCommits :: "CommitEntry list list"
  brCommitted :: "path list"
  brOpenIters :: int

datatype block_error = CommitStreamFailed | PipelineFailed | DrainFailed drain_error

definition fs_config :: Config where
  "fs_config = SetDefaults zero_config"

definition blockIterator :: "(path \<Rightarrow> fileDiffIterator option) \<Rightarrow> block_env \<Rightarrow> changedFileEntry list \<Rightarrow> CephFSBlockIterator" where
  "blockIterator ni e es =
     NewCephFSBlockIterator ni []
       [WithFileChan es, WithContext (beCtx e), WithBoundaryChan (beRoom e), WithSmallFileThreshold (DataBatchMaxBytes fs_config)]"

text \<open>
  The pipeline takes blocks until the iterator ends or, when it fails, at some point before (\<^verbatim>\<open>bePulls\<close>);
  then the iterator is closed and the boundary channel after it.
\<close>

definition pull_blocks :: "block_env \<Rightarrow> CephFSBlockIterator \<Rightarrow> ChangeBlock list \<times> CephFSBlockIterator" where
  "pull_blocks e it =
     (if bePipelineOk e then fs_run it
      else case feeder fs_Next (bePulls e) it of (_, _, it1) \<Rightarrow> ([], SetFailed it1))"

definition sent_boundaries :: "CephFSBlockIterator \<Rightarrow> fileBoundary list" where
  "sent_boundaries it = (case boundaryCh it of None \<Rightarrow> [] | Some (room, fbs) \<Rightarrow> fbs)"

text \<open>What the drainer's select sees: all boundaries and the closed channel, or the cancellation after some.\<close>

definition drain_events :: "nat option \<Rightarrow> fileBoundary list \<Rightarrow> drain_event list" where
  "drain_events stop fbs =
     (case stop of None \<Rightarrow> map Boundary fbs @ [BoundaryClosed] | Some k \<Rightarrow> map Boundary (take k fbs) @ [DrainDone])"

definition runSnapdiffBlockPipeline ::
  "(path \<Rightarrow> fileDiffIterator option) \<Rightarrow> block_env \<Rightarrow> changedFileEntry list \<Rightarrow> block_result \<times> block_error option" where
  "runSnapdiffBlockPipeline ni e es =
     (if es = [] then (\<lparr>brBlocks = [], brCommits = [], brCommitted = [], brOpenIters = 0\<rparr>, None)
      else
        let it = blockIterator ni e es in
        if \<not> beCommitOpens e
        then (\<lparr>brBlocks = [], brCommits = [], brCommitted = [], brOpenIters = openIters (fs_Close it)\<rparr>, Some CommitStreamFailed)
        else
          case pull_blocks e it of (bs, it1) \<Rightarrow>
          let it2 = fs_Close it1 in
          case commitDrainer_Run (MaxWindow fs_config) (NewWindowSemaphore (nat (MaxWindow fs_config))) (beWindows e) (beDrainOuts e)
                 (drain_events (beDrainCut e) (sent_boundaries it2)) of (d, dErr) \<Rightarrow>
            (\<lparr>brBlocks = bs, brCommits = batches d, brCommitted = notified d, brOpenIters = openIters it2\<rparr>,
             if \<not> bePipelineOk e then Some PipelineFailed else map_option DrainFailed dErr))"

subsection \<open>The stages together\<close>

text \<open>
  A consumer receives all that was sent, and then sees the closed channel, or only a prefix, and then the
  cancellation.
\<close>

definition received :: "nat option \<Rightarrow> 'a list \<Rightarrow> 'a list" where
  "received stop xs = (case stop of None \<Rightarrow> xs | Some k \<Rightarrow> take k xs)"

definition end_of :: "nat option \<Rightarrow> chan_end" where
  "end_of stop = (case stop of None \<Rightarrow> ChClosed | Some _ \<Rightarrow> ChCancelled)"

record workers_env =
  wkStates :: "nat \<Rightarrow> rsync_state"
  wkWho :: "nat list"
  wkEnds :: "nat \<Rightarrow> chan_end"
  wkCut :: "nat option"

definition worker_ends :: "workers_env \<Rightarrow> nat \<Rightarrow> chan_end" where
  "worker_ends w i = (if wkCut w = None then wkEnds w i else ChCancelled)"

record stateless_env =
  seRoot :: "fs_node option"
  seLstat :: "path \<Rightarrow> lstat"
  seWalkCtx :: "bool list"
  seBlock :: block_env
  seMeta :: workers_env
  seSpecial :: workers_env
  seDelOuts :: "bool list"
  seDelCut :: "nat option"
  seConvergence :: convergence_env

record stateless_result =
  srBlock :: block_result
  srMeta :: "(rsync_state \<times> rsync_error option) list"
  srSpecial :: "(rsync_state \<times> rsync_error option) list"
  srDeletes :: delete_state
  srDirs :: "string option"
  srOpenDiffs :: int

datatype stateless_error =
  ProduceError walk_error | BlockError block_error | MetaError rsync_error | SpecialError rsync_error |
  DeleteError delete_error | ConvergenceError convergence_error

definition first_error :: "'e option list \<Rightarrow> 'e option" where
  "first_error es = (case List.map_filter id es of [] \<Rightarrow> None | e # _ \<Rightarrow> Some e)"

definition runStatelessSync :: "fs_cluster \<Rightarrow> SnapshotDiffer \<Rightarrow> stateless_env \<Rightarrow> stateless_result \<times> stateless_error option" where
  "runStatelessSync cl sd e =
     (case streamChangedEntries (seRoot e) (seLstat e) (NewSnapDiffIterator cl sd) (seWalkCtx e) of (ws, pErr) \<Rightarrow>
      case runSnapdiffBlockPipeline (NewBlockDiffIterator cl sd) (seBlock e) (largeCh ws) of (br, bErr) \<Rightarrow>
      let meta = consumeMetaRsync (wkStates (seMeta e)) (wkWho (seMeta e)) (worker_ends (seMeta e))
                   (received (wkCut (seMeta e)) (brCommitted br));
          special = consumeSpecialFiles (wkStates (seSpecial e)) (wkWho (seSpecial e)) (worker_ends (seSpecial e))
                   (received (wkCut (seSpecial e)) (specialCh ws)) in
      case consumeDeletes \<lparr>delOuts = seDelOuts e, delReqs = []\<rparr> (received (seDelCut e) (deletedCh ws)) (end_of (seDelCut e)) of (ds, dErr) \<Rightarrow>
      let res = \<lparr>srBlock = br, srMeta = meta, srSpecial = special, srDeletes = ds, srDirs = None, srOpenDiffs = openDiffs ws\<rparr> in
      case first_error [map_option ProduceError pErr, map_option BlockError bErr, map_option MetaError (wait_all meta),
             map_option SpecialError (wait_all special), map_option DeleteError dErr] of
        Some err \<Rightarrow> (res, Some err)
      | None \<Rightarrow>
          if dirChanged ws
          then (case rsyncConvergence (seConvergence e) of (dirs, cErr) \<Rightarrow> (res\<lparr>srDirs := dirs\<rparr>, map_option ConvergenceError cErr))
          else (res, None))"


subsection \<open>Sync\<close>

record fs_sync_env =
  fseCertGenerated :: bool
  fseCertsExchanged :: bool
  fseTlsConfigured :: bool
  fseDirectConnected :: bool
  fseBaseSnapshot :: string
  fseTargetSnapshot :: string
  fseVolumeHandle :: string
  fseReadFile :: readFile
  fseUnmarshal :: unmarshal
  fseAttempts :: "nat \<Rightarrow> attempt"
  fseStateless :: stateless_env
  fseDone :: bool

datatype fs_sync_error =
  FsCertFailed | FsExchangeFailed | FsTLSFailed | FsDirectFailed | FsRsyncFailed int | FsHandlePanic | FsBadHandle volid_error |
  FsCsiError csi_error | FsDifferError differ_error | FsStatelessError stateless_error | FsDoneFailed

text \<open>What a successful \<^verbatim>\<open>Sync\<close> did before it signalled that it is done.\<close>

datatype fs_outcome = SyncedByRsync "rsync_act list" | SyncedByDiff SnapshotDiffer stateless_result

type_synonym 'a fsrc = "(fs_op, fs_sync_error, 'a) logged"

definition SignalDone :: "bool \<Rightarrow> unit fsrc" where
  "SignalDone ok = check ok FsDoneFailed"

definition runRsyncFallback :: "fs_sync_env \<Rightarrow> fs_outcome fsrc" where
  "runRsyncFallback env =
     (case fs_rsync (fseAttempts env) of
        (l, Some rc) \<Rightarrow> fail (FsRsyncFailed rc)
      | (l, None) \<Rightarrow> andThen (SignalDone (fseDone env)) (\<lambda>_. ret (SyncedByRsync l)))"

definition fs_decompose :: "string \<Rightarrow> CSIIdentifier fsrc" where
  "fs_decompose h =
     (case DecomposeCSIID \<lparr>LocationID = 0, encodingVersion = 0, CSIIdentifier.ClusterID = '''', ObjectUUID = ''''\<rparr> h of
        Panicked \<Rightarrow> fail FsHandlePanic
      | Returned ci None \<Rightarrow> ret ci
      | Returned ci (Some e) \<Rightarrow> fail (FsBadHandle e))"

definition diff_and_signal :: "fs_cluster \<Rightarrow> fs_sync_env \<Rightarrow> SnapshotDiffer \<Rightarrow> fs_outcome fsrc" where
  "diff_and_signal cl env sd =
     (case runStatelessSync cl sd (fseStateless env) of
        (res, Some e) \<Rightarrow> fail (FsStatelessError e)
      | (res, None) \<Rightarrow> andThen (SignalDone (fseDone env)) (\<lambda>_. ret (SyncedByDiff sd res)))"

definition runSnapdiffSync :: "fs_cluster \<Rightarrow> fs_sync_env \<Rightarrow> fs_outcome fsrc" where
  "runSnapdiffSync cl env =
     andThen (fs_decompose (fseBaseSnapshot env)) (\<lambda>b.
     andThen (fs_decompose (fseTargetSnapshot env)) (\<lambda>t.
     andThen (fs_decompose (fseVolumeHandle env)) (\<lambda>v.
     andThen (from_sum FsCsiError (CephFSSubvolumeGroup (fseReadFile env) (fseUnmarshal env) CsiConfigFile (CSIIdentifier.ClusterID v))) (\<lambda>g.
     andThen (from_sum FsCsiError (Mons (fseReadFile env) (fseUnmarshal env) CsiConfigFile (CSIIdentifier.ClusterID v))) (\<lambda>mons.
     andThen (wrap_error FsDifferError
                (New cl mons (sint (LocationID v)) g (''csi-vol-'' @ ObjectUUID v) (''csi-snap-'' @ ObjectUUID b) (''csi-snap-'' @ ObjectUUID t))) (\<lambda>sd.
     deferred (diff_and_signal cl env sd) differ_Destroy))))))"

definition fs_Sync :: "fs_cluster \<Rightarrow> fs_sync_env \<Rightarrow> fs_outcome fsrc" where
  "fs_Sync cl env =
     andThen (check (fseCertGenerated env) FsCertFailed) (\<lambda>_.
     andThen (check (fseCertsExchanged env) FsExchangeFailed) (\<lambda>_.
     andThen (check (fseTlsConfigured env) FsTLSFailed) (\<lambda>_.
     andThen (if fseDirectConnected env then act DataConnected else fail FsDirectFailed) (\<lambda>_.
     deferred
       (if fseBaseSnapshot env = '''' \<or> fseTargetSnapshot env = '''' \<or> fseVolumeHandle env = ''''
        then runRsyncFallback env else runSnapdiffSync cl env)
       [DataClosed]))))"

subsection \<open>No connection and no mount is leaked\<close>

lemma nets_fs_decompose: "fs_nets (fs_decompose h) (\<lambda>_. 0) (\<lambda>_ _. 0)"
  by (auto simp: fs_decompose_def nets_fail nets_ret split: decomposed.splits option.splits)

lemma nets_SignalDone: "fs_nets (SignalDone b) (\<lambda>_. 0) (\<lambda>_ _. 0)"
  by (simp add: SignalDone_def nets_check)

lemma nets_runRsyncFallback: "fs_nets (runRsyncFallback env) (\<lambda>_. 0) (\<lambda>_ _. 0)"
  by (auto simp: runRsyncFallback_def intro: nets_fail nets_step [OF nets_SignalDone] nets_ret split: prod.splits option.splits)

lemma nets_diff_and_signal: "fs_nets (diff_and_signal cl env sd) (\<lambda>_. 0) (\<lambda>_ _. 0)"
  by (auto simp: diff_and_signal_def intro: nets_fail nets_step [OF nets_SignalDone] nets_ret split: prod.splits option.splits)

lemma nets_runSnapdiffSync: "fs_nets (runSnapdiffSync cl env) (\<lambda>_. 0) (\<lambda>_ _. 0)"
proof -
  have gone: "fs_net [FsConnected, MountCreated, Mounted] r + fs_net differ_Destroy r = 0" for r by (simp add: differ_Destroy_def)
  have neg: "- fs_net [FsConnected, MountCreated, Mounted] r = fs_net differ_Destroy r" for r using gone [of r] by simp
  have last: "fs_nets (deferred (diff_and_signal cl env sd) differ_Destroy) (fs_net differ_Destroy)
      (\<lambda>_ r. 0 - fs_net [FsConnected, MountCreated, Mounted] r)" for sd
    by (rule nets_deferred) (use nets_diff_and_signal neg in simp)
  show ?thesis unfolding runSnapdiffSync_def
    by (intro nets_step [OF nets_fs_decompose] nets_step [OF nets_from_sum]
        nets_acquire [OF nets_wrap_error [OF nets_New] gone] last)
qed

text \<open>
  Whatever fails, \<^verbatim>\<open>Sync\<close> closes the data connection it opened, unmounts and releases the mount it made and
  gives the cluster connection back, each exactly once.
\<close>

theorem fs_Sync_no_leak: "fs_net (fst (fs_Sync cl env)) r = 0"
proof -
  have conn: "fs_nets (if fseDirectConnected env then act DataConnected else fail FsDirectFailed) (\<lambda>_. 0) (\<lambda>_. fs_net [DataConnected])"
    by (auto simp: log_nets_def logged_defs fun_eq_iff)
  have gone: "fs_net [DataConnected] r + fs_net [DataClosed] r = 0" for r by simp
  have neg: "- fs_net [DataConnected] r = fs_net [DataClosed] r" for r using gone [of r] by simp
  have inner: "fs_nets (if fseBaseSnapshot env = '''' \<or> fseTargetSnapshot env = '''' \<or> fseVolumeHandle env = ''''
        then runRsyncFallback env else runSnapdiffSync cl env) (\<lambda>_. 0) (\<lambda>_ _. 0)"
    by (simp add: nets_runRsyncFallback nets_runSnapdiffSync)
  have last: "fs_nets (deferred (if fseBaseSnapshot env = '''' \<or> fseTargetSnapshot env = '''' \<or> fseVolumeHandle env = ''''
        then runRsyncFallback env else runSnapdiffSync cl env) [DataClosed]) (fs_net [DataClosed]) (\<lambda>_ r. 0 - fs_net [DataConnected] r)"
    by (rule nets_deferred) (use inner neg in simp)
  have "fs_nets (fs_Sync cl env) (\<lambda>_. 0) (\<lambda>_ _. 0)"
    unfolding fs_Sync_def by (intro nets_step [OF nets_check] nets_acquire [OF conn gone] last)
  then show ?thesis by (simp add: nets_zero)
qed


subsection \<open>A run without an error has handled everything\<close>

lemma drain_Run_cancelled: "drain_Run rel d pending (map Boundary fbs @ [DrainDone]) = (d1, r) \<Longrightarrow> r \<noteq> None"
  by (induction fbs arbitrary: d pending) (auto split: prod.splits option.splits)

lemma boundaries_drain_events [simp]: "boundaries (map Boundary fbs @ [BoundaryClosed]) = fbs"
  by (induction fbs) auto

lemma entry_of_expected:
  "map entry_of (expected bl i es) = map (\<lambda>e. \<lparr>cePath = fePath e, ceTotalSize = word_of_int (feSize e)\<rparr>) (filter (\<lambda>e. bl e \<noteq> []) es)"
  by (induction es arbitrary: i) (auto simp: entry_of_def)

lemma path_of_expected: "map fbPath (expected bl i es) = map fePath (filter (\<lambda>e. bl e \<noteq> []) es)"
  by (induction es arbitrary: i) auto

lemma blockIterator_live: "beCtx e = [] \<Longrightarrow> blockIterator ni e es = fs_iterator ni es (beRoom e) (DataBatchMaxBytes fs_config)"
  by (simp add: blockIterator_def fs_iterator_def)

text \<open>The files whose contents are transferred: those with at least one block.\<close>

definition with_blocks :: "(path \<Rightarrow> fileDiffIterator option) \<Rightarrow> changedFileEntry list \<Rightarrow> changedFileEntry list" where
  "with_blocks ni es = filter (\<lambda>e. entry_blocks True (DataBatchMaxBytes fs_config) ni e \<noteq> []) es"

lemma block_pipeline_complete:
  assumes "runSnapdiffBlockPipeline ni e es = (br, None)" "beCtx e = []" "\<forall>x\<in>set es. fePath x \<noteq> ''''"
    and "length (all_blocks ni es (DataBatchMaxBytes fs_config)) < 2 ^ 64"
  shows "brBlocks br = fs_number 0 (all_blocks ni es (DataBatchMaxBytes fs_config)) \<and> brOpenIters br = 0 \<and>
    mset (concat (brCommits br)) = mset (map (\<lambda>x. \<lparr>cePath = fePath x, ceTotalSize = word_of_int (feSize x)\<rparr>) (with_blocks ni es)) \<and>
    mset (brCommitted br) = mset (map fePath (with_blocks ni es))"
proof (cases "es = []")
  case True
  then show ?thesis using assms(1) by (auto simp: runSnapdiffBlockPipeline_def with_blocks_def all_blocks_def)
next
  case False
  let ?thr = "DataBatchMaxBytes fs_config"
  let ?it = "fs_iterator ni es (beRoom e) ?thr"
  obtain bs it1 where run: "fs_run ?it = (bs, it1)" by force
  obtain d r where dr: "commitDrainer_Run (MaxWindow fs_config) (NewWindowSemaphore (nat (MaxWindow fs_config))) (beWindows e) (beDrainOuts e)
      (drain_events (beDrainCut e) (sent_boundaries (fs_Close it1))) = (d, r)" by force
  have ok: "beCommitOpens e" "bePipelineOk e"
    using assms(1) False by (auto simp: runSnapdiffBlockPipeline_def Let_def split: if_splits prod.splits)
  have res: "r = None" "br = \<lparr>brBlocks = bs, brCommits = batches d, brCommitted = notified d, brOpenIters = openIters (fs_Close it1)\<rparr>"
    using assms(1) False ok run dr by (auto simp: runSnapdiffBlockPipeline_def Let_def pull_blocks_def blockIterator_live [OF assms(2)])
  have "beDrainCut e = None"
    using dr drain_Run_cancelled unfolding res(1) commitDrainer_Run_def drain_events_def by (cases "beDrainCut e") force+
  then have "concat (batches d) = map entry_of (sent_boundaries (fs_Close it1)) \<and> notified d = map fbPath (sent_boundaries (fs_Close it1))"
    using drain_Run_done [OF dr [unfolded res(1) commitDrainer_Run_def]] by (simp add: drain_events_def)
  moreover obtain room' fbs where "boundaryCh (fs_Close it1) = Some (room', fbs)" "mset fbs = mset (expected (entry_blocks True ?thr ni) 0 es)" "openIters (fs_Close it1) = 0"
    using fs_iterator_boundaries [OF assms(4,3) run] by blast
  moreover have "bs = fs_number 0 (all_blocks ni es ?thr)"
    using fs_run_todo [of ?it] run by (simp add: fs_iterator_start fs_iterator_todo)
  ultimately show ?thesis
    by (simp add: res(2) sent_boundaries_def with_blocks_def flip: entry_of_expected [of _ 0] path_of_expected [of _ 0])
qed

text \<open>What the workers of one consumer handed to rsync.\<close>

definition synced :: "bool \<Rightarrow> (rsync_state \<times> rsync_error option) list \<Rightarrow> path multiset" where
  "synced ic rs = (\<Sum>r \<leftarrow> rs. mset (concat (runs_with ic (fst r))))"

definition fresh_lists :: "workers_env \<Rightarrow> bool" where
  "fresh_lists w \<longleftrightarrow> (\<forall>i. listOuts (wkStates w i) = [] \<and> rsRuns (wkStates w i) = [])"

lemma workers_received:
  assumes "wait_all (runParallelRsyncWorkers ic (wkStates w) (wkWho w) (worker_ends w) (received (wkCut w) ps)) = None"
    and "fresh_lists w" "list_all (\<lambda>p. newline \<notin> set p) ps"
  shows "synced ic (runParallelRsyncWorkers ic (wkStates w) (wkWho w) (worker_ends w) (received (wkCut w) ps)) = mset ps"
proof -
  have plain: "list_all (\<lambda>p. newline \<notin> set p) (received (wkCut w) ps)"
    using assms(3) by (auto simp: received_def list_all_iff dest: in_set_takeD split: option.splits)
  obtain s r where w: "rsyncWorkerLoop ic (wkStates w 0) (share 0 (wkWho w) (received (wkCut w) ps)) (worker_ends w 0) = (s, r)" by force
  have "r = None" using assms(1) w unfolding wait_all_None runParallelRsyncWorkers_def by (force simp: rsyncWorkers_def)
  then have "worker_ends w 0 = ChClosed"
    using rsyncs.batch_loop_spec [OF w [unfolded rsyncWorkerLoop_def]] assms(2) share_plain [OF plain] by (auto simp: fresh_lists_def smallBatchSize_def)
  then have "wkCut w = None" by (auto simp: worker_ends_def split: if_splits)
  then show ?thesis
    using workers_complete [OF assms(1) _ plain] assms(2) by (simp add: synced_def fresh_lists_def received_def)
qed


lemma larges_routed:
  assumes "x \<in> set (larges (all_routes ls od (map abs_path ds)))"
  obtains d s where "d \<in> set ds" "ToLarge x = route_of ls (abs_path d) s"
proof -
  have "ToLarge x \<in> set (all_routes ls od (map abs_path ds))"
    using assms by (auto simp: larges_def List.map_filter_def split: route.splits)
  then obtain d es where x: "d \<in> set ds" "ToLarge x \<in> route_of ls (abs_path d) ` es"
    by (auto simp: all_routes_def dir_routes_def split: option.splits)
  then show thesis using that by blast
qed

lemma larges_path_ne: "x \<in> set (larges (all_routes ls od (map abs_path ds))) \<Longrightarrow> fePath x \<noteq> []"
proof (erule larges_routed)
  fix d s assume "ToLarge x = route_of ls (abs_path d) s"
  then have "fePath x = path_Join [abs_path d, seName s]"
    by (auto simp: route_of_def Let_def split: lstat.splits dtype.splits if_splits)
  then show ?thesis by (simp add: path_Join_def abs_path_def Clean_ne Let_def)
qed

lemma larges_not_empty: "x \<in> set (larges (all_routes ls od (map abs_path ds))) \<Longrightarrow> feSize x \<noteq> 0"
  by (erule larges_routed) (auto simp: route_of_def Let_def split: lstat.splits dtype.splits if_splits)

lemma first_error_None: "first_error es = None \<longleftrightarrow> (\<forall>e\<in>set es. e = None)"
  by (induction es) (auto simp: first_error_def List.map_filter_simps split: list.splits option.splits)

text \<open>The entries of all diffs of a tree, each with the way it is to be handled.\<close>

definition sync_routes :: "fs_cluster \<Rightarrow> SnapshotDiffer \<Rightarrow> stateless_env \<Rightarrow> fs_node \<Rightarrow> route list" where
  "sync_routes cl sd e t = all_routes (seLstat e) (NewSnapDiffIterator cl sd) (map abs_path (tree_dirs [] t))"

text \<open>The stages of a run without an error.\<close>

definition meta_workers :: "stateless_env \<Rightarrow> path list \<Rightarrow> (rsync_state \<times> rsync_error option) list" where
  "meta_workers e ps = consumeMetaRsync (wkStates (seMeta e)) (wkWho (seMeta e)) (worker_ends (seMeta e)) (received (wkCut (seMeta e)) ps)"

definition special_workers :: "stateless_env \<Rightarrow> path list \<Rightarrow> (rsync_state \<times> rsync_error option) list" where
  "special_workers e ps =
     consumeSpecialFiles (wkStates (seSpecial e)) (wkWho (seSpecial e)) (worker_ends (seSpecial e)) (received (wkCut (seSpecial e)) ps)"

lemma stateless_stages:
  assumes "runStatelessSync cl sd e = (res, None)"
  shows "\<exists>ws br ds dirs. streamChangedEntries (seRoot e) (seLstat e) (NewSnapDiffIterator cl sd) (seWalkCtx e) = (ws, None) \<and>
    runSnapdiffBlockPipeline (NewBlockDiffIterator cl sd) (seBlock e) (largeCh ws) = (br, None) \<and>
    wait_all (meta_workers e (brCommitted br)) = None \<and> wait_all (special_workers e (specialCh ws)) = None \<and>
    consumeDeletes \<lparr>delOuts = seDelOuts e, delReqs = []\<rparr> (received (seDelCut e) (deletedCh ws)) (end_of (seDelCut e)) = (ds, None) \<and>
    res = \<lparr>srBlock = br, srMeta = meta_workers e (brCommitted br), srSpecial = special_workers e (specialCh ws), srDeletes = ds,
      srDirs = dirs, srOpenDiffs = openDiffs ws\<rparr> \<and> (dirs \<noteq> None \<longleftrightarrow> dirChanged ws)"
proof -
  obtain ws pErr where st: "streamChangedEntries (seRoot e) (seLstat e) (NewSnapDiffIterator cl sd) (seWalkCtx e) = (ws, pErr)" by force
  obtain br bErr where bp: "runSnapdiffBlockPipeline (NewBlockDiffIterator cl sd) (seBlock e) (largeCh ws) = (br, bErr)" by force
  obtain ds dErr where dl: "consumeDeletes \<lparr>delOuts = seDelOuts e, delReqs = []\<rparr> (received (seDelCut e) (deletedCh ws)) (end_of (seDelCut e)) = (ds, dErr)" by force
  let ?meta = "meta_workers e (brCommitted br)" and ?special = "special_workers e (specialCh ws)"
  let ?errs = "[map_option ProduceError pErr, map_option BlockError bErr, map_option MetaError (wait_all ?meta),
      map_option SpecialError (wait_all ?special), map_option DeleteError dErr]"
  let ?res = "\<lparr>srBlock = br, srMeta = ?meta, srSpecial = ?special, srDeletes = ds, srDirs = None, srOpenDiffs = openDiffs ws\<rparr>"
  have run: "(case first_error ?errs of Some err \<Rightarrow> (?res, Some err)
      | None \<Rightarrow> if dirChanged ws
          then (case rsyncConvergence (seConvergence e) of (dirs, cErr) \<Rightarrow> (?res\<lparr>srDirs := dirs\<rparr>, map_option ConvergenceError cErr))
          else (?res, None)) = (res, None)"
    using assms by (simp only: runStatelessSync_def st bp dl prod.case Let_def meta_workers_def special_workers_def)
  then have fe: "first_error ?errs = None" by (cases "first_error ?errs") (simp_all only: option.case prod.inject option.distinct simp_thms)
  then have none: "pErr = None \<and> bErr = None \<and> wait_all ?meta = None \<and> wait_all ?special = None \<and> dErr = None"
    unfolding first_error_None by simp
  obtain dirs cErr where cv: "rsyncConvergence (seConvergence e) = (dirs, cErr)" by force
  have "res = ?res\<lparr>srDirs := if dirChanged ws then dirs else None\<rparr> \<and> (dirChanged ws \<longrightarrow> cErr = None)"
    using run unfolding fe cv by (cases "dirChanged ws") auto
  moreover have "dirs \<noteq> None" if "cErr = None" using cv [symmetric] that by (cases "cvFind (seConvergence e)") (simp_all add: rsyncConvergence_def)
  ultimately show ?thesis using st bp dl none
    by (intro exI [of _ ws] exI [of _ br] exI [of _ ds] exI [of _ "if dirChanged ws then dirs else None"]) simp
qed

lemma stateless_deletes:
  assumes "runStatelessSync cl sd e = (res, None)" "seRoot e = Some t" "tree_ok t"
  shows "concat (delReqs (srDeletes res)) = deletions (sync_routes cl sd e t)"
proof -
  obtain ws ds where st: "streamChangedEntries (Some t) (seLstat e) (NewSnapDiffIterator cl sd) (seWalkCtx e) = (ws, None)"
    and dl: "consumeDeletes \<lparr>delOuts = seDelOuts e, delReqs = []\<rparr> (received (seDelCut e) (deletedCh ws)) (end_of (seDelCut e)) = (ds, None)"
    and res: "srDeletes res = ds"
    using stateless_stages [OF assms(1)] assms(2) by auto
  have "deletedCh ws = deletions (sync_routes cl sd e t)"
    using stream_complete [OF assms(3) st] by (simp add: Let_def sync_routes_def)
  then show ?thesis using consumeDeletes_spec [OF dl] res by (cases "seDelCut e") (simp_all add: end_of_def received_def)
qed

lemma stateless_handled:
  assumes "runStatelessSync cl sd e = (res, None)" "seRoot e = Some t" "tree_ok t" "beCtx (seBlock e) = []"
    and "fresh_lists (seMeta e)" "fresh_lists (seSpecial e)"
    and "list_all (\<lambda>p. newline \<notin> set p) (specials (sync_routes cl sd e t) @ map fePath (larges (sync_routes cl sd e t)))"
    and "length (all_blocks (NewBlockDiffIterator cl sd) (larges (sync_routes cl sd e t)) (DataBatchMaxBytes fs_config)) < 2 ^ 64"
  shows "let rts = sync_routes cl sd e t; fs = with_blocks (NewBlockDiffIterator cl sd) (larges rts) in
    concat (delReqs (srDeletes res)) = deletions rts \<and>
    synced True (srSpecial res) = mset (specials rts) \<and>
    brBlocks (srBlock res) = fs_number 0 (all_blocks (NewBlockDiffIterator cl sd) (larges rts) (DataBatchMaxBytes fs_config)) \<and>
    mset (concat (brCommits (srBlock res))) = mset (map (\<lambda>x. \<lparr>cePath = fePath x, ceTotalSize = word_of_int (feSize x)\<rparr>) fs) \<and>
    synced False (srMeta res) = mset (map fePath fs) \<and>
    (srDirs res \<noteq> None \<longleftrightarrow> ToDir \<in> set rts) \<and> srOpenDiffs res = 0 \<and> brOpenIters (srBlock res) = 0"
proof -
  let ?rts = "sync_routes cl sd e t" and ?ni = "NewBlockDiffIterator cl sd"
  obtain ws br ds dirs where st: "streamChangedEntries (seRoot e) (seLstat e) (NewSnapDiffIterator cl sd) (seWalkCtx e) = (ws, None)"
    and bp: "runSnapdiffBlockPipeline ?ni (seBlock e) (largeCh ws) = (br, None)"
    and wt: "wait_all (meta_workers e (brCommitted br)) = None" "wait_all (special_workers e (specialCh ws)) = None"
    and dl: "consumeDeletes \<lparr>delOuts = seDelOuts e, delReqs = []\<rparr> (received (seDelCut e) (deletedCh ws)) (end_of (seDelCut e)) = (ds, None)"
    and res: "res = \<lparr>srBlock = br, srMeta = meta_workers e (brCommitted br), srSpecial = special_workers e (specialCh ws), srDeletes = ds,
      srDirs = dirs, srOpenDiffs = openDiffs ws\<rparr>" "dirs \<noteq> None \<longleftrightarrow> dirChanged ws"
    using stateless_stages [OF assms(1)] by blast
  note st = st [unfolded assms(2)]
  have ws: "largeCh ws = larges ?rts" "specialCh ws = specials ?rts" "deletedCh ws = deletions ?rts" "dirChanged ws \<longleftrightarrow> ToDir \<in> set ?rts"
    using stream_complete [OF assms(3) st] by (simp_all add: Let_def sync_routes_def)
  have opn: "openDiffs ws = 0" using stream_follows(1) [OF assms(3) st] by (simp add: follows_def followed_def empty_walk_def)
  have del: "concat (delReqs ds) = deletions ?rts" using stateless_deletes [OF assms(1-3)] res by simp
  have spec: "synced True (special_workers e (specialCh ws)) = mset (specials ?rts)"
    using workers_received [of True "seSpecial e" "specialCh ws"] wt(2) assms(6,7) ws(2) by (simp add: special_workers_def consumeSpecialFiles_def)
  have ne: "\<forall>x\<in>set (larges ?rts). fePath x \<noteq> []" using larges_path_ne unfolding sync_routes_def by blast
  note blocks = block_pipeline_complete [OF bp [unfolded ws(1)] assms(4) ne assms(8)]
  have "set (brCommitted br) \<subseteq> set (map fePath (larges ?rts))"
    using mset_eq_setD [OF conjunct2 [OF conjunct2 [OF conjunct2 [OF blocks]]]] by (auto simp: with_blocks_def)
  then have "synced False (meta_workers e (brCommitted br)) = mset (brCommitted br)"
    using workers_received [of False "seMeta e" "brCommitted br"] wt(1) assms(5,7)
    by (auto simp: meta_workers_def consumeMetaRsync_def list_all_iff)
  then show ?thesis using res ws(4) opn del spec blocks by (simp add: Let_def)
qed

text \<open>
  What the iterator takes for the blocks of a file: up to 16 MiB the whole file without asking for a diff, above that what the diff delivers before it ends or fails, which is nothing
  if it cannot be opened.
\<close>

lemma fs_small_limit: "DataBatchMaxBytes fs_config = 16 * 1024 * 1024"
  by (simp add: fs_config_def zero_config_def)

lemma small_file_whole:
  assumes "0 < feSize x" "feSize x \<le> 16 * 1024 * 1024"
  shows "entry_blocks True (DataBatchMaxBytes fs_config) ni x = [\<lparr>dOffset = 0, dLen = word_of_int (feSize x)\<rparr>]"
proof -
  have "feSize x mod 2 ^ 64 = feSize x" using assms by (intro mod_pos_pos_trivial) simp_all
  then have "\<not> dLen \<lparr>dOffset = 0, dLen = word_of_int (feSize x)\<rparr> > maxBlockLen"
    using assms by (simp add: maxBlockLen_def word_less_def uint_word_of_int)
  then show ?thesis using assms by (simp add: entry_blocks_def fs_small_limit split_max_def splitLargeBlocks_def)
qed

lemma passed_over:
  assumes "x \<in> set es" "x \<notin> set (with_blocks ni es)"
  shows "\<not> (0 < feSize x \<and> feSize x \<le> 16 * 1024 * 1024)" "feSize x = 0 \<or> (case ni (fePath x) of None \<Rightarrow> True | Some rs \<Rightarrow> reply_blocks rs = [])"
proof -
  have e: "entry_blocks True (DataBatchMaxBytes fs_config) ni x = []" using assms by (simp add: with_blocks_def)
  then show s: "\<not> (0 < feSize x \<and> feSize x \<le> 16 * 1024 * 1024)" using small_file_whole [of x ni] by auto
  show "feSize x = 0 \<or> (case ni (fePath x) of None \<Rightarrow> True | Some rs \<Rightarrow> reply_blocks rs = [])"
    using e s by (auto simp: entry_blocks_def fs_small_limit split: if_splits option.splits)
qed


definition sample_cluster :: fs_cluster where
  "sample_cluster = \<lparr>fsConnect = \<lambda>_. True, fsAdminOk = True, fsVolumes = Some [(''fs'', 1)], fsSubVolumePath = \<lambda>_ _ _. Some ''/vols/g/v/uuid'',
     fsCreateMount = True, fsMountWithRoot = \<lambda>_. True,
     fsOpenSnapDiff = \<lambda>_ p _ _. Some (if p = ''uuid/a'' then [SnapEntry \<lparr>seName = ''x'', seType = DTypeReg\<rparr>, SnapEntry \<lparr>seName = ''z'', seType = DTypeReg\<rparr>] else []),
     fsBlockDiffInit = \<lambda>_ _ _ _. None\<rparr>"

definition sample_differ :: SnapshotDiffer where
  "sample_differ = \<lparr>rootPath = ''/'', relPath = ''uuid'', baseSnapName = ''s1'', targetSnapName = ''s2''\<rparr>"

definition sample_workers :: workers_env where
  "sample_workers = \<lparr>wkStates = \<lambda>_. sample_rsync, wkWho = [], wkEnds = \<lambda>_. ChClosed, wkCut = None\<rparr>"

definition sample_stateless :: stateless_env where
  "sample_stateless = \<lparr>seRoot = Some sample_tree, seLstat = sample_lstat, seWalkCtx = [],
     seBlock = \<lparr>beRoom = [], beCtx = [], beCommitOpens = True, bePipelineOk = True, bePulls = 0, beWindows = [sample_window], beDrainOuts = [], beDrainCut = None\<rparr>,
     seMeta = sample_workers, seSpecial = sample_workers, seDelOuts = [], seDelCut = None, seConvergence = \<lparr>cvFind = None, cvRsync = True\<rparr>\<rparr>"

abbreviation sample_file :: changedFileEntry where "sample_file \<equiv> \<lparr>fePath = ''/a/x'', feSize = 7\<rparr>"

abbreviation sample_fb :: fileBoundary where "sample_fb \<equiv> \<lparr>fbPath = ''/a/x'', fbLastReqID = 0, fbTotalSize = 7\<rparr>"

lemma sample_stream:
  "streamChangedEntries (seRoot sample_stateless) (seLstat sample_stateless) (NewSnapDiffIterator sample_cluster sample_differ) (seWalkCtx sample_stateless) =
     (\<lparr>largeCh = [sample_file], specialCh = [], deletedCh = [''/a/z''], dirChanged = False, walkCtx = [], openDiffs = 0\<rparr>, None)"
  by code_simp

lemma sample_blocks: "entry_blocks True (DataBatchMaxBytes fs_config) ni sample_file = [\<lparr>dOffset = 0, dLen = 7\<rparr>]"
  by (simp add: entry_blocks_def split_max_def splitLargeBlocks_def maxBlockLen_def fs_config_def zero_config_def)

lemma sample_all_blocks: "length (all_blocks ni [sample_file] (DataBatchMaxBytes fs_config)) < 2 ^ 64"
  by (simp add: all_blocks_def tagged_def sample_blocks)

lemma sample_pull:
  assumes "pull_blocks (seBlock sample_stateless) (blockIterator ni (seBlock sample_stateless) [sample_file]) = (bs, it)"
  shows "sent_boundaries (fs_Close it) = [sample_fb]"
proof -
  have "fs_run (fs_iterator ni [sample_file] (beRoom (seBlock sample_stateless)) (DataBatchMaxBytes fs_config)) = (bs, it)"
    using assms by (simp add: pull_blocks_def blockIterator_live sample_stateless_def)
  from fs_iterator_boundaries [OF sample_all_blocks _ this] show ?thesis by (auto simp: sent_boundaries_def sample_blocks)
qed

lemma sample_drain:
  assumes "commitDrainer_Run n w [sample_window] [] (map Boundary [sample_fb] @ [BoundaryClosed]) = (d, r)"
  shows "r = None \<and> notified d = [''/a/x'']"
proof -
  let ?d = "\<lparr>drMaxWindow = n, drCommittedCh = True, curWin = w, nextWins = [sample_window], drOuts = [], batches = [], notified = [], closedFiles = []\<rparr>"
  let ?evs = "map Boundary [sample_fb] @ [BoundaryClosed]"
  have run: "drain_Run IsReleased ?d [] ?evs = (d, r)" using assms by (simp only: commitDrainer_Run_def)
  have at: "drain_at IsReleased (set [w, sample_window]) [] ?d [] [] []" by (simp add: drain_at_def drain_base_def)
  have "\<exists>fbs. ?evs = map Boundary fbs @ [BoundaryClosed]" by blast
  then have r: "r = None" using drain_Run_spec [OF at run] by (simp add: IsReleased_def sample_window_eval)
  then show ?thesis using drain_Run_done [OF run [unfolded r]] by simp
qed

lemma sample_pipeline: "\<exists>br. runSnapdiffBlockPipeline ni (seBlock sample_stateless) [sample_file] = (br, None) \<and> brCommitted br = [''/a/x'']"
proof -
  let ?e = "seBlock sample_stateless"
  have e: "beCommitOpens ?e" "bePipelineOk ?e" "beWindows ?e = [sample_window]" "beDrainOuts ?e = []" "beDrainCut ?e = None"
    by (simp_all add: sample_stateless_def)
  obtain bs it where p: "pull_blocks ?e (blockIterator ni ?e [sample_file]) = (bs, it)" by force
  have b: "sent_boundaries (fs_Close it) = [sample_fb]" by (rule sample_pull [OF p])
  obtain d r where d: "commitDrainer_Run (MaxWindow fs_config) (NewWindowSemaphore (nat (MaxWindow fs_config))) [sample_window] []
      (map Boundary [sample_fb] @ [BoundaryClosed]) = (d, r)" by force
  note s = sample_drain [OF d]
  show ?thesis
    using s d by (simp add: runSnapdiffBlockPipeline_def p b e drain_events_def Let_def)
qed

lemma sample_stateless_run: "\<exists>res. runStatelessSync sample_cluster sample_differ sample_stateless = (res, None)"
proof -
  let ?e = sample_stateless
  obtain br where br: "runSnapdiffBlockPipeline (NewBlockDiffIterator sample_cluster sample_differ) (seBlock ?e) [sample_file] = (br, None)"
    "brCommitted br = [''/a/x'']" using sample_pipeline by blast
  have m: "wait_all (consumeMetaRsync (wkStates (seMeta ?e)) (wkWho (seMeta ?e)) (worker_ends (seMeta ?e)) (received (wkCut (seMeta ?e)) [''/a/x''])) = None"
    by code_simp
  have s: "wait_all (consumeSpecialFiles (wkStates (seSpecial ?e)) (wkWho (seSpecial ?e)) (worker_ends (seSpecial ?e)) (received (wkCut (seSpecial ?e)) [])) = None"
    by code_simp
  have d: "\<exists>ds. consumeDeletes \<lparr>delOuts = seDelOuts ?e, delReqs = []\<rparr> (received (seDelCut ?e) [''/a/z'']) (end_of (seDelCut ?e)) = (ds, None)"
    by (simp add: sample_stateless_def consumeDeletes_def del_call_def received_def end_of_def deleteBatchSize_def flushDeletes_def sendDeleteBatch_def)
  then obtain ds where ds: "consumeDeletes \<lparr>delOuts = seDelOuts ?e, delReqs = []\<rparr> (received (seDelCut ?e) [''/a/z'']) (end_of (seDelCut ?e)) = (ds, None)" by blast
  show ?thesis
    by (simp add: runStatelessSync_def sample_stream br m s ds Let_def first_error_def List.map_filter_simps)
qed



text \<open>
  C39: a change without changed blocks is lost.  A file above the small-file limit whose diff has no blocks (its
  mode, owner, attributes or times changed, or it was cut short at a hole) is neither committed nor given to
  rsync, and yet the synchronisation succeeds.
\<close>

theorem blockless_change_lost:
  assumes "runStatelessSync cl sd e = (res, None)" "seRoot e = Some t" "tree_ok t" "beCtx (seBlock e) = []"
    and "fresh_lists (seMeta e)" "fresh_lists (seSpecial e)"
    and "list_all (\<lambda>p. newline \<notin> set p) (specials (sync_routes cl sd e t) @ map fePath (larges (sync_routes cl sd e t)))"
    and "length (all_blocks (NewBlockDiffIterator cl sd) (larges (sync_routes cl sd e t)) (DataBatchMaxBytes fs_config)) < 2 ^ 64"
    and "distinct (map fePath (larges (sync_routes cl sd e t)) @ specials (sync_routes cl sd e t))"
    and "x \<in> set (larges (sync_routes cl sd e t))" "16 * 1024 * 1024 < feSize x" "NewBlockDiffIterator cl sd (fePath x) = Some []"
  shows "fePath x \<notin># synced False (srMeta res) \<and> fePath x \<notin># synced True (srSpecial res) \<and>
    fePath x \<notin> cePath ` set (concat (brCommits (srBlock res)))"
proof -
  let ?rts = "sync_routes cl sd e t" and ?ni = "NewBlockDiffIterator cl sd"
  note handled = stateless_handled [OF assms(1-8), unfolded Let_def]
  have "entry_blocks True (DataBatchMaxBytes fs_config) ?ni x = []"
    using assms(11,12) by (simp add: entry_blocks_def fs_config_def zero_config_def)
  then have "x \<notin> set (with_blocks ?ni (larges ?rts))" by (simp add: with_blocks_def)
  moreover have "inj_on fePath (set (larges ?rts))" using assms(9) by (simp add: distinct_map)
  ultimately have no: "fePath x \<notin> fePath ` set (with_blocks ?ni (larges ?rts))"
    using assms(10) by (auto simp: with_blocks_def dest: inj_onD)
  have "set (concat (brCommits (srBlock res))) = set (map (\<lambda>x. \<lparr>cePath = fePath x, ceTotalSize = word_of_int (feSize x)\<rparr>) (with_blocks ?ni (larges ?rts)))"
    using handled mset_eq_setD by blast
  then have "cePath ` set (concat (brCommits (srBlock res))) = fePath ` set (with_blocks ?ni (larges ?rts))"
    by (simp add: image_comp comp_def)
  moreover have "fePath x \<notin> set (specials ?rts)" using assms(9,10) by auto
  ultimately show ?thesis using handled no by simp
qed

definition big_lstat :: "path \<Rightarrow> lstat" where
  "big_lstat p = (if p = ''/data/a/x'' then LstatOk 33554432 else NotExist)"

abbreviation big_file :: changedFileEntry where "big_file \<equiv> \<lparr>fePath = ''/a/x'', feSize = 33554432\<rparr>"

definition big_cluster :: fs_cluster where
  "big_cluster = sample_cluster\<lparr>fsBlockDiffInit := \<lambda>_ _ _ _. Some []\<rparr>"

definition big_stateless :: stateless_env where
  "big_stateless = sample_stateless\<lparr>seLstat := big_lstat\<rparr>"

lemma big_ni: "NewBlockDiffIterator big_cluster sample_differ p = Some []"
  by (simp add: NewBlockDiffIterator_def big_cluster_def)

lemma big_stream:
  "streamChangedEntries (seRoot big_stateless) (seLstat big_stateless) (NewSnapDiffIterator big_cluster sample_differ) (seWalkCtx big_stateless) =
     (\<lparr>largeCh = [big_file], specialCh = [], deletedCh = [''/a/z''], dirChanged = False, walkCtx = [], openDiffs = 0\<rparr>, None)"
  by code_simp

lemma big_blocks: "entry_blocks True (DataBatchMaxBytes fs_config) (NewBlockDiffIterator big_cluster sample_differ) big_file = []"
  by (simp add: entry_blocks_def fs_config_def zero_config_def big_ni)

lemma big_all_blocks: "length (all_blocks (NewBlockDiffIterator big_cluster sample_differ) [big_file] (DataBatchMaxBytes fs_config)) < 2 ^ 64"
  by (simp add: all_blocks_def tagged_def big_blocks)

lemma big_pipeline: "\<exists>br. runSnapdiffBlockPipeline (NewBlockDiffIterator big_cluster sample_differ) (seBlock big_stateless) [big_file] = (br, None) \<and> brCommitted br = []"
proof -
  let ?e = "seBlock big_stateless" and ?ni = "NewBlockDiffIterator big_cluster sample_differ"
  have e: "beCommitOpens ?e" "bePipelineOk ?e" "beDrainCut ?e = None" "beCtx ?e = []"
    by (simp_all add: big_stateless_def sample_stateless_def)
  obtain bs it where p: "pull_blocks ?e (blockIterator ?ni ?e [big_file]) = (bs, it)" by force
  then have "fs_run (fs_iterator ?ni [big_file] (beRoom ?e) (DataBatchMaxBytes fs_config)) = (bs, it)"
    using e by (simp add: pull_blocks_def blockIterator_live)
  from fs_iterator_boundaries [OF big_all_blocks _ this] have "sent_boundaries (fs_Close it) = []" by (auto simp: sent_boundaries_def big_blocks)
  then show ?thesis using e p by (simp add: runSnapdiffBlockPipeline_def drain_events_def commitDrainer_Run_def flushAll_def Let_def)
qed

lemma big_stateless_run: "\<exists>res. runStatelessSync big_cluster sample_differ big_stateless = (res, None)"
proof -
  let ?e = big_stateless
  obtain br where br: "runSnapdiffBlockPipeline (NewBlockDiffIterator big_cluster sample_differ) (seBlock ?e) [big_file] = (br, None)"
    "brCommitted br = []" using big_pipeline by blast
  have m: "wait_all (consumeMetaRsync (wkStates (seMeta ?e)) (wkWho (seMeta ?e)) (worker_ends (seMeta ?e)) (received (wkCut (seMeta ?e)) [])) = None"
    by code_simp
  have s: "wait_all (consumeSpecialFiles (wkStates (seSpecial ?e)) (wkWho (seSpecial ?e)) (worker_ends (seSpecial ?e)) (received (wkCut (seSpecial ?e)) [])) = None"
    by code_simp
  obtain ds where ds: "consumeDeletes \<lparr>delOuts = seDelOuts ?e, delReqs = []\<rparr> (received (seDelCut ?e) [''/a/z'']) (end_of (seDelCut ?e)) = (ds, None)"
    by (simp add: big_stateless_def sample_stateless_def consumeDeletes_def del_call_def received_def end_of_def deleteBatchSize_def flushDeletes_def sendDeleteBatch_def)
  show ?thesis
    by (simp add: runStatelessSync_def big_stream br m s ds Let_def first_error_def List.map_filter_simps)
qed

theorem blockless_change_lost_witness:
  "\<exists>res. runStatelessSync big_cluster sample_differ big_stateless = (res, None) \<and> ''/a/x'' \<notin># synced False (srMeta res) \<and>
     ''/a/x'' \<notin># synced True (srSpecial res) \<and> ''/a/x'' \<notin> cePath ` set (concat (brCommits (srBlock res)))"
proof -
  obtain res where run: "runStatelessSync big_cluster sample_differ big_stateless = (res, None)" using big_stateless_run by blast
  have rts: "sync_routes big_cluster sample_differ big_stateless sample_tree = [ToLarge big_file, ToDeleted ''/a/z'']" by code_simp
  have lists: "larges [ToLarge big_file, ToDeleted ''/a/z''] = [big_file]" "specials [ToLarge big_file, ToDeleted ''/a/z''] = []"
    by (simp_all add: route_lists)
  have env: "seRoot big_stateless = Some sample_tree" "beCtx (seBlock big_stateless) = []" "fresh_lists (seMeta big_stateless)"
    "fresh_lists (seSpecial big_stateless)"
    by (simp_all add: big_stateless_def sample_stateless_def fresh_lists_def sample_workers_def sample_rsync_def)
  have "fePath big_file \<notin># synced False (srMeta res) \<and> fePath big_file \<notin># synced True (srSpecial res) \<and>
      fePath big_file \<notin> cePath ` set (concat (brCommits (srBlock res)))"
    by (rule blockless_change_lost [OF run env(1) sample_tree_ok env(2-4)])
       (use big_all_blocks in \<open>simp_all add: rts lists big_ni newline_def\<close>)
  then show ?thesis using run by auto
qed


subsection \<open>Retries\<close>

definition attempt_code :: "(nat \<Rightarrow> attempt) \<Rightarrow> nat \<Rightarrow> int" where
  "attempt_code env i = snd (rsync_attempt (env i))"

definition count_attempts :: "rsync_act list \<Rightarrow> nat" where
  "count_attempts l = length (filter (\<lambda>a. a = DeletePass) l)"

definition backoffs :: "rsync_act list \<Rightarrow> nat list" where
  "backoffs l = List.map_filter (\<lambda>a. case a of Slept n \<Rightarrow> if 1 < n then Some n else None | _ \<Rightarrow> None) l"

lemma attempt_log:
  "rsync_attempt a = (l, c) \<Longrightarrow> count_attempts l = 1 \<and> backoffs l = []"
  by (auto simp: rsync_attempt_def createFileListAndSync_def syncForDeletion_def count_attempts_def backoffs_def List.map_filter_simps
      split: option.splits if_splits)

lemma log_append: "count_attempts (l @ l') = count_attempts l + count_attempts l'" "backoffs (l @ l') = backoffs l @ backoffs l'"
  by (simp_all add: count_attempts_def backoffs_def List.map_filter_def)

text \<open>From an attempt on: how many more are made, with which waits, and the code that is left.\<close>

lemma rsync_loop_spec:
  assumes "rsync_loop env retry delay rc = (l, r)" "rc \<noteq> 0" "retry < maxRetries" "1 < delay"
  shows "\<exists>n. 0 < n \<and> retry + n \<le> maxRetries \<and> count_attempts l = n \<and> backoffs l = map (\<lambda>i. delay * 2 ^ i) [0..<n - 1] \<and>
    (\<forall>i < n - 1. attempt_code env (retry + i) \<noteq> 0) \<and> r = attempt_code env (retry + n - 1) \<and> (r \<noteq> 0 \<longrightarrow> retry + n = maxRetries)"
  using assms
proof (induction env retry delay rc arbitrary: l r rule: rsync_loop.induct)
  case (1 env retry delay rc)
  obtain l1 c where a: "rsync_attempt (env retry) = (l1, c)" by force
  have c: "attempt_code env retry = c" using a by (simp add: attempt_code_def)
  note al = attempt_log [OF a]
  show ?case
  proof (cases "c \<noteq> 0 \<and> Suc retry < maxRetries")
    case True
    obtain l2 r2 where n: "rsync_loop env (Suc retry) (delay * backoffFactor) c = (l2, r2)" by force
    have l: "l = l1 @ [Slept delay] @ l2" "r = r2" using "1.prems" a n True by (auto simp: rsync_loop.simps [of env retry])
    have "1 < delay * backoffFactor" using "1.prems"(4) by (simp add: backoffFactor_def)
    from "1.IH"(1) [OF _ a [symmetric] True n] this obtain n where ih: "0 < n" "Suc retry + n \<le> maxRetries" "count_attempts l2 = n"
      "backoffs l2 = map (\<lambda>i. delay * backoffFactor * 2 ^ i) [0..<n - 1]"
      "\<forall>i < n - 1. attempt_code env (Suc retry + i) \<noteq> 0" "r2 = attempt_code env (Suc retry + n - 1)" "r2 \<noteq> 0 \<longrightarrow> Suc retry + n = maxRetries"
      using "1.prems" True by blast
    have nz: "\<forall>i < n. attempt_code env (retry + i) \<noteq> 0"
    proof (intro allI impI)
      fix i assume "i < n"
      then show "attempt_code env (retry + i) \<noteq> 0" using ih(5) True c by (cases i) auto
    qed
    have "map (\<lambda>i. delay * 2 ^ i) [0..<n] = delay # map (\<lambda>i. delay * backoffFactor * 2 ^ i) [0..<n - 1]"
      using ih(1) by (cases n) (simp_all add: upt_conv_Cons map_Suc_upt [symmetric] comp_def backoffFactor_def del: upt_Suc)
    moreover have "backoffs (Slept delay # l2) = delay # backoffs l2" "count_attempts (Slept delay # l2) = count_attempts l2"
      using "1.prems"(4) by (simp_all add: backoffs_def count_attempts_def List.map_filter_simps del: One_nat_def)
    ultimately show ?thesis using l al ih nz by (intro exI [of _ "Suc n"]) (simp add: log_append)
  next
    case False
    have "rsync_loop env (Suc retry) delay c = ([], c)" using False "1.prems"(3) by (auto simp: rsync_loop.simps [of env "Suc retry"])
    then have "l = l1" "r = c" using "1.prems" a False by (auto simp: rsync_loop.simps [of env retry])
    then show ?thesis using al c False "1.prems"(3) by (intro exI [of _ 1]) auto
  qed
qed

text \<open>Both passes end with code 0 (the first one also if there is nothing to copy).\<close>

definition both_passes_ok :: "attempt \<Rightarrow> bool" where
  "both_passes_ok a \<longleftrightarrow> fst (snd (createFileListAndSync a)) = 0 \<and> atSecond a \<in> {RanOk, Exited 0}"

lemma attempt_code_0:
  assumes "0 \<le> exit_code (atFirst (env i))" "0 \<le> exit_code (atSecond (env i))"
  shows "attempt_code env i = 0 \<longleftrightarrow> both_passes_ok (env i)"
  using assms by (auto simp: both_passes_ok_def attempt_code_def rsync_attempt_def createFileListAndSync_def syncForDeletion_def exit_code_def
      split: prod.splits option.splits if_splits run_result.splits)

text \<open>
  Plain rsync is tried until one attempt succeeds, at most five times, with waits of 2, 4, 8 and 16 seconds
  in between; it reports success exactly if in one of the five attempts both passes would succeed, and otherwise the
  code of the last attempt.
\<close>

theorem rsync_retries:
  assumes "\<forall>i. 0 \<le> exit_code (atFirst (env i)) \<and> 0 \<le> exit_code (atSecond (env i))"
  shows "case fs_rsync env of (l, r) \<Rightarrow> \<exists>n. count_attempts l = n \<and> 1 \<le> n \<and> n \<le> 5 \<and> backoffs l = map (\<lambda>i. 2 ^ Suc i) [0..<n - 1] \<and>
    (r = None \<longleftrightarrow> (\<exists>i < 5. both_passes_ok (env i))) \<and>
    (r = None \<longrightarrow> both_passes_ok (env (n - 1))) \<and>
    (r \<noteq> None \<longrightarrow> n = 5 \<and> r = Some (attempt_code env 4))"
proof -
  obtain l c where run: "rsync_loop env 0 initialDelay 1 = (l, c)" by force
  obtain n where n: "0 < n" "n \<le> 5" "count_attempts l = n" "backoffs l = map (\<lambda>i. initialDelay * 2 ^ i) [0..<n - 1]"
    "\<forall>i < n - 1. attempt_code env i \<noteq> 0" "c = attempt_code env (n - 1)" "c \<noteq> 0 \<longrightarrow> n = 5"
    using rsync_loop_spec [OF run] unfolding initialDelay_def maxRetries_def add_0 by (metis one_less_numeral_iff semiring_norm(76) zero_less_numeral zero_neq_one)
  have ok: "attempt_code env i = 0 \<longleftrightarrow> both_passes_ok (env i)" for i
    using attempt_code_0 assms by blast
  have "c = 0 \<longleftrightarrow> (\<exists>i < 5. attempt_code env i = 0)"
  proof
    assume "c = 0"
    then show "\<exists>i < 5. attempt_code env i = 0" using n(1,2,6) by (intro exI [of _ "n - 1"]) simp
  next
    assume "\<exists>i < 5. attempt_code env i = 0"
    then obtain i where i: "i < 5" "attempt_code env i = 0" by blast
    show "c = 0"
    proof (rule ccontr)
      assume "c \<noteq> 0"
      then have five: "n = 5" using n(7) by simp
      have "i < n - 1" using n(6) i \<open>c \<noteq> 0\<close> unfolding five by (cases "i = 4") simp_all
      then show False using n(5) i(2) by blast
    qed
  qed
  then have "c = 0 \<longleftrightarrow> (\<exists>i < 5. both_passes_ok (env i))" by (simp only: ok)
  moreover have "both_passes_ok (env (n - 1))" if "c = 0"
    by (rule iffD1 [OF ok]) (use n(6) that in simp)
  moreover have "n = 5 \<and> Some c = Some (attempt_code env 4)" if "c \<noteq> 0"
  proof -
    have five: "n = 5" using n(7) that by simp
    show ?thesis using n(6) unfolding five by simp
  qed
  moreover have "backoffs l = map (\<lambda>i. 2 ^ Suc i) [0..<n - 1]" using n(4) by (simp add: initialDelay_def)
  moreover have "1 \<le> n" using n(1) by simp
  ultimately show ?thesis unfolding fs_rsync_def run prod.case using n(2,3) by (intro exI [of _ n]) simp
qed

definition flaky :: "nat \<Rightarrow> attempt" where
  "flaky i = \<lparr>atFind = Some ''/a'', atWrite = True, atStat = True, atFirst = if i = 0 then Exited 23 else RanOk, atSecond = RanOk\<rparr>"

theorem rsync_retries_witness: "case fs_rsync flaky of (l, r) \<Rightarrow> r = None \<and> 1 \<le> count_attempts l \<and> count_attempts l \<le> 5"
proof -
  have codes: "\<forall>i. 0 \<le> exit_code (atFirst (flaky i)) \<and> 0 \<le> exit_code (atSecond (flaky i))" by (simp add: flaky_def exit_code_def)
  have "\<exists>i < 5. both_passes_ok (flaky i)"
    by (intro exI [of _ 1]) (simp add: both_passes_ok_def flaky_def createFileListAndSync_def exit_code_def)
  then show ?thesis using rsync_retries [OF codes] by (auto split: prod.splits)
qed

subsection \<open>What a successful Sync did\<close>

text \<open>
  C18: \<^verbatim>\<open>Sync\<close> succeeds only after the work is done and the destination was told so.  If a snapshot or volume
  handle is missing, rsync copied everything; otherwise the stateless synchronisation of the two snapshots named by the
  handles returned no error.
\<close>

theorem fs_Sync_success:
  assumes "snd (fs_Sync cl env) = Inr out"
  shows "fseDone env \<and>
    (if fseBaseSnapshot env = '''' \<or> fseTargetSnapshot env = '''' \<or> fseVolumeHandle env = ''''
     then \<exists>l. out = SyncedByRsync l \<and> fs_rsync (fseAttempts env) = (l, None)
     else \<exists>b t v sd res. snd (fs_decompose (fseBaseSnapshot env)) = Inr b \<and> snd (fs_decompose (fseTargetSnapshot env)) = Inr t \<and>
       snd (fs_decompose (fseVolumeHandle env)) = Inr v \<and> out = SyncedByDiff sd res \<and>
       baseSnapName sd = ''csi-snap-'' @ ObjectUUID b \<and> targetSnapName sd = ''csi-snap-'' @ ObjectUUID t \<and>
       runStatelessSync cl sd (fseStateless env) = (res, None))"
proof -
  let ?fallback = "fseBaseSnapshot env = [] \<or> fseTargetSnapshot env = [] \<or> fseVolumeHandle env = []"
  have run: "snd (if ?fallback then runRsyncFallback env else runSnapdiffSync cl env) = Inr out"
    using assms unfolding fs_Sync_def by (auto dest!: andThen_Inr)
  show ?thesis
  proof (cases ?fallback)
    case True
    then show ?thesis using run by (auto simp: runRsyncFallback_def SignalDone_def dest!: andThen_Inr split: prod.splits option.splits)
  next
    case False
    then obtain b t v g mons sd where d: "snd (fs_decompose (fseBaseSnapshot env)) = Inr b" "snd (fs_decompose (fseTargetSnapshot env)) = Inr t"
      "snd (fs_decompose (fseVolumeHandle env)) = Inr v"
      "snd (New cl mons (sint (LocationID v)) g (''csi-vol-'' @ ObjectUUID v) (''csi-snap-'' @ ObjectUUID b) (''csi-snap-'' @ ObjectUUID t)) = Inr sd"
      "snd (diff_and_signal cl env sd) = Inr out"
      using run unfolding runSnapdiffSync_def by (auto dest!: andThen_Inr)
    have "baseSnapName sd = ''csi-snap-'' @ ObjectUUID b \<and> targetSnapName sd = ''csi-snap-'' @ ObjectUUID t"
      using d(4) unfolding New_def by (auto dest!: andThen_Inr)
    moreover have "fseDone env \<and> (\<exists>res. out = SyncedByDiff sd res \<and> runStatelessSync cl sd (fseStateless env) = (res, None))"
      using d(5) by (auto simp: diff_and_signal_def SignalDone_def dest!: andThen_Inr split: prod.splits option.splits)
    ultimately show ?thesis using d(1-3) False by auto
  qed
qed

definition sample_fs_env :: fs_sync_env where
  "sample_fs_env = \<lparr>fseCertGenerated = True, fseCertsExchanged = True, fseTlsConfigured = True, fseDirectConnected = True,
     fseBaseSnapshot = '''', fseTargetSnapshot = '''', fseVolumeHandle = ''h'', fseReadFile = \<lambda>_. None, fseUnmarshal = \<lambda>_. None,
     fseAttempts = flaky, fseStateless = sample_stateless, fseDone = True\<rparr>"

theorem fs_Sync_success_witness:
  "\<exists>l. snd (fs_Sync sample_cluster sample_fs_env) = Inr (SyncedByRsync l) \<and> fs_rsync flaky = (l, None)"
proof -
  obtain l r where f: "fs_rsync flaky = (l, r)" by force
  have "snd (fs_rsync flaky) = None" by code_simp
  then have r: "fs_rsync flaky = (l, None)" using f by simp
  have out: "snd (fs_Sync sample_cluster sample_fs_env) = Inr (SyncedByRsync l)"
    by (simp add: fs_Sync_def sample_fs_env_def runRsyncFallback_def r SignalDone_def logged_defs)
  then show ?thesis using fs_Sync_success [OF out] by (auto simp: sample_fs_env_def)
qed

end
