(* ===== verification/Mover_Base.thy ===== *)
theory Mover_Base
  imports Prelude
begin

section \<open>Movers and the objects they reconcile (internal/mover/ceph/mover.go)\<close>

text \<open>
  The state of a mover with the names it derives once (\<^verbatim>\<open>initCached\<close>), the Kubernetes objects it handles, and
  the interfaces it uses.  The API server and the helper functions of VolSync are not part of the
  program: the client is a record of its calls over an abstract state of the cluster, the helpers are records of
  functions, and what the code relies on are the predicates \<^verbatim>\<open>client_ok\<close> and \<^verbatim>\<open>utils_ok\<close>.
\<close>

subsection \<open>Movers\<close>

datatype MoverType = MoverCephFS | MoverRBD

definition mover_type_name :: "MoverType \<Rightarrow> string" where
  "mover_type_name t = (case t of MoverCephFS \<Rightarrow> ''cephfs'' | MoverRBD \<Rightarrow> ''rbd'')"

definition cephVolsyncPrefix :: string where "cephVolsyncPrefix = ''ceph-volsync-''"
definition containerNameRBD :: string where "containerNameRBD = ''rbd-mover''"
definition containerNameCephFS :: string where "containerNameCephFS = ''cephfs-mover''"

definition TLSPort :: int where "TLSPort = 8000"
definition DirectTLSPort :: int where "DirectTLSPort = 8081"
definition RsyncStunnelPort :: int where "RsyncStunnelPort = 8873"

type_synonym labels = "string \<rightharpoonup> string"

record Mover =
  mvOwner :: string
  mvOwnerUID :: string
  mvNamespace :: string
  mvDirect :: bool
  mvContainerImage :: string
  mvMoverType :: MoverType
  mvKey :: "string option"
  mvAddress :: "string option"
  mvPort :: "int option"
  mvIsSource :: bool
  mvPaused :: bool
  mvMainPVCName :: "string option"
  mvPrivileged :: bool
  mvCleanupTempPVC :: bool
  mvOptions :: "string \<rightharpoonup> string"
  mvCsiConfigName :: string
  mvCsiConfigNamespace :: string
  mvDirection :: string
  mvNamePrefix :: string
  mvContainerName :: string
  mvServiceSelector :: labels
  mvSnapStatusLabelKey :: string
  mvDestPVCIsProvided :: bool
  mvDestPVCName :: string

definition initCached :: "Mover \<Rightarrow> Mover" where
  "initCached m0 =
     (let m1 = m0\<lparr>mvDirection := if mvIsSource m0 then ''src'' else ''dst''\<rparr>;
          m2 = (if mvMoverType m1 = MoverRBD
                then m1\<lparr>mvNamePrefix := cephVolsyncPrefix @ ''rbd-'', mvContainerName := containerNameRBD\<rparr>
                else m1\<lparr>mvNamePrefix := cephVolsyncPrefix @ ''cephfs-'', mvContainerName := containerNameCephFS\<rparr>);
          m3 = m2\<lparr>mvServiceSelector :=
                 [''app.kubernetes.io/name'' \<mapsto> mvDirection m2 @ ''-'' @ mvOwner m2,
                  ''app.kubernetes.io/component'' \<mapsto> mvContainerName m2,
                  ''app.kubernetes.io/part-of'' \<mapsto> ''ceph-volsync-plugin'']\<rparr>;
          m4 = m3\<lparr>mvSnapStatusLabelKey := ''ceph.volsync.plugin'' @ ''/snapshot-status-'' @ mvOwner m3\<rparr>
      in case mvMainPVCName m4 of
           None \<Rightarrow> m4\<lparr>mvDestPVCIsProvided := False, mvDestPVCName := cephVolsyncPrefix @ mvOwner m4 @ ''-'' @ mvDirection m4\<rparr>
         | Some n \<Rightarrow> m4\<lparr>mvDestPVCIsProvided := True, mvDestPVCName := n\<rparr>)"

definition cephMoverName :: string where "cephMoverName = ''ceph''"

definition mover_Name :: "Mover \<Rightarrow> string" where "mover_Name m = cephMoverName"

subsection \<open>Objects\<close>

text \<open>
  An owner reference is the identifier of the owning resource; a creation time of zero marks an object that the
  cluster has not created yet.
\<close>

record snap_status =
  ssReadyToUse :: "bool option"
  ssContentName :: "string option"

record VolumeSnapshot =
  vsName :: string
  vsLabels :: labels
  vsCreated :: int
  vsOwnerRef :: "string option"
  vsSourcePVC :: "string option"
  vsClassName :: "string option"
  vsStatus :: "snap_status option"

record SnapshotContent =
  scName :: string
  scAnnotations :: "labels option"
  scHandle :: "string option"

datatype VolumeMode = Filesystem | Block

datatype AccessMode = ReadOnlyMany | ReadWriteOnce | ReadWriteMany | ReadWriteOncePod

record PVCSpec =
  psAccessModes :: "AccessMode list"
  psResources :: nat
  psStorageClassName :: "string option"
  psVolumeMode :: "VolumeMode option"
  psDataSource :: "(string \<times> string) option"
  psVolumeName :: string

record PVC =
  pvcName :: string
  pvcCreated :: int
  pvcLabels :: labels
  pvcOwnerRef :: "string option"
  pvcSpec :: PVCSpec
  pvcBound :: bool

record PersistentVolume =
  pvBound :: bool
  pvCSIHandle :: "string option"

datatype mover_error =
  ClientError | SetRefError | NoBoundContent | SnapshotNotReady | ContentHasNoHandle | PVNotBound | PVNotCSI | NoCurrentSnapshot |
  BadKeySecret | RandError | NoCSIConfig | NoConfigJson | NoSecretRef | NoCephSecret | NoStorageClass | NoClusterID |
  AffinityError | VolumeEnvError | SAError | VolSyncError | NilDereference

subsection \<open>The client and the helpers of VolSync\<close>

text \<open>
  \<^verbatim>\<open>None\<close> is an error of a call.  The mutate functions of \<^verbatim>\<open>CreateOrUpdate\<close> get the object as it is in the
  cluster, or a new one that was never created, and fail or return the object to store.
\<close>

type_synonym ('s, 'o) upsert = "string \<Rightarrow> ('o \<Rightarrow> 'o option) \<Rightarrow> 's \<Rightarrow> ('s \<times> 'o) option"

record 's client =
  cListSnapshots :: "string \<Rightarrow> string \<Rightarrow> 's \<Rightarrow> VolumeSnapshot list option"
  cGetSnapshot :: "string \<Rightarrow> 's \<Rightarrow> VolumeSnapshot option"
  cUpdateSnapshot :: "VolumeSnapshot \<Rightarrow> 's \<Rightarrow> 's option"
  cUpsertSnapshot :: "('s, VolumeSnapshot) upsert"
  cGetContent :: "string \<Rightarrow> 's \<Rightarrow> SnapshotContent option"
  cUpdateContent :: "SnapshotContent \<Rightarrow> 's \<Rightarrow> 's option"
  cGetPVC :: "string \<Rightarrow> 's \<Rightarrow> PVC option"
  cUpsertPVC :: "('s, PVC) upsert"
  cGetPV :: "string \<Rightarrow> 's \<Rightarrow> PersistentVolume option"

record utils =
  uAddLabel :: "string \<Rightarrow> string \<Rightarrow> labels \<Rightarrow> bool \<times> labels"
  uRemoveLabel :: "string \<Rightarrow> labels \<Rightarrow> bool \<times> labels"
  uMarkForCleanup :: "string \<Rightarrow> labels \<Rightarrow> bool \<times> labels"
  uSetOwnedByVolSync :: "labels \<Rightarrow> bool \<times> labels"
  uSetControllerReference :: "string \<Rightarrow> string option \<Rightarrow> string option option"
  uCleanupKey :: string

text \<open>What the helpers do: each says whether it changed the labels.\<close>

definition utils_ok :: "utils \<Rightarrow> bool" where
  "utils_ok u \<longleftrightarrow> (\<forall>k v l. uAddLabel u k v l = (l k \<noteq> Some v, l(k \<mapsto> v))) \<and>
     (\<forall>k l. uRemoveLabel u k l = (l k \<noteq> None, l(k := None))) \<and>
     (\<forall>uid l. uMarkForCleanup u uid l = (l (uCleanupKey u) \<noteq> Some uid, l(uCleanupKey u \<mapsto> uid)))"

text \<open>What the code relies on when it lists and updates snapshots; \<^verbatim>\<open>view\<close> are the snapshots of a state in the order they are listed.\<close>

definition client_ok :: "('s \<Rightarrow> VolumeSnapshot list) \<Rightarrow> 's client \<Rightarrow> bool" where
  "client_ok view cl \<longleftrightarrow>
     (\<forall>k v s xs. cListSnapshots cl k v s = Some xs \<longrightarrow> xs = filter (\<lambda>x. vsLabels x k = Some v) (view s)) \<and>
     (\<forall>x s s'. cUpdateSnapshot cl x s = Some s' \<longrightarrow> view s' = map (\<lambda>y. if vsName y = vsName x then x else y) (view s))"

subsection \<open>Steps of a reconciliation\<close>

text \<open>
  A step changes the state and fails, asks to be called again later (\<^verbatim>\<open>None\<close>: the code's nil result), or returns
  what the next step needs.
\<close>

type_synonym ('w, 'a) step = "'w \<Rightarrow> 'w \<times> (mover_error + 'a option)"

definition next_step :: "('w, 'a) step \<Rightarrow> ('a \<Rightarrow> ('w, 'b) step) \<Rightarrow> ('w, 'b) step" where
  "next_step m k w = (case m w of
     (w1, Inl e) \<Rightarrow> (w1, Inl e)
   | (w1, Inr None) \<Rightarrow> (w1, Inr None)
   | (w1, Inr (Some x)) \<Rightarrow> k x w1)"

definition pure_step :: "'a \<Rightarrow> ('w, 'a) step" where
  "pure_step x w = (w, Inr (Some x))"

definition bind_sum :: "'e + 'a \<Rightarrow> ('a \<Rightarrow> 'e + 'b) \<Rightarrow> 'e + 'b" where
  "bind_sum r k = (case r of Inl e \<Rightarrow> Inl e | Inr x \<Rightarrow> k x)"

lemma next_step_Some:
  "next_step m k w = (w2, Inr (Some y)) \<longleftrightarrow> (\<exists>w1 x. m w = (w1, Inr (Some x)) \<and> k x w1 = (w2, Inr (Some y)))"
  by (auto simp: next_step_def split: prod.splits sum.splits option.splits)

lemma pure_step_Some [simp]: "pure_step x w = (w2, Inr (Some y)) \<longleftrightarrow> w2 = w \<and> y = x"
  by (auto simp: pure_step_def)

lemma bind_sum_Inr [simp]: "bind_sum r k = Inr y \<longleftrightarrow> (\<exists>x. r = Inr x \<and> k x = Inr y)"
  by (auto simp: bind_sum_def split: sum.splits)

lemma bind_sum_Inl: "bind_sum r k = Inl e \<longleftrightarrow> r = Inl e \<or> (\<exists>x. r = Inr x \<and> k x = Inl e)"
  by (auto simp: bind_sum_def split: sum.splits)

subsection \<open>Derived names\<close>

lemma initCached_fixed [simp]:
  "mvOwner (initCached m) = mvOwner m" "mvIsSource (initCached m) = mvIsSource m"
  "mvMoverType (initCached m) = mvMoverType m" "mvMainPVCName (initCached m) = mvMainPVCName m"
  "mvAddress (initCached m) = mvAddress m" "mvKey (initCached m) = mvKey m"
  "mvOptions (initCached m) = mvOptions m" "mvDirect (initCached m) = mvDirect m"
  "mvPaused (initCached m) = mvPaused m"
  by (cases "mvMainPVCName m"; simp add: initCached_def Let_def)+

lemma initCached_destPVC:
  "mvDestPVCIsProvided (initCached m) \<longleftrightarrow> mvMainPVCName m \<noteq> None"
  "mvMainPVCName m = Some n \<Longrightarrow> mvDestPVCName (initCached m) = n"
  by (cases "mvMainPVCName m"; simp add: initCached_def Let_def)+

lemma initCached_direction: "mvDirection (initCached m) = (if mvIsSource m then ''src'' else ''dst'')"
  by (cases "mvMainPVCName m"; simp add: initCached_def Let_def)

text \<open>
  The label that tracks the snapshots of a replication names only the owner: a source and a destination of the
  same name in one namespace use the same label.
\<close>

lemma snapStatusLabelKey_owner: "mvSnapStatusLabelKey (initCached m) = ''ceph.volsync.plugin/snapshot-status-'' @ mvOwner m"
  by (cases "mvMainPVCName m"; simp add: initCached_def Let_def)

end
