(* ===== verification/Mover_Snapshots.thy ===== *)
theory Mover_Snapshots
  imports Mover_Base
begin

section \<open>The snapshots of a replication (internal/mover/ceph/snapshot_method.go)\<close>

text \<open>
  A source that replicates snapshots keeps one labelled \<^verbatim>\<open>current\<close> while it is transferred; afterwards it becomes
  \<^verbatim>\<open>previous\<close>, the base of the next incremental transfer, and older ones are marked for deletion.  The lemmas
  say what the rotation does to every snapshot, how many remain, which snapshot an incremental transfer
  starts from, and what the volumes made from a snapshot look like.
\<close>

subsection \<open>Definitions\<close>

definition snapshotStatusCurrent :: string where "snapshotStatusCurrent = ''current''"
definition snapshotStatusPrevious :: string where "snapshotStatusPrevious = ''previous''"
definition annotationAllowVolumeModeChange :: string where
  "annotationAllowVolumeModeChange = ''snapshot.storage.kubernetes.io/allow-volume-mode-change''"
definition annotationAllowVolumeModeChangeValue :: string where "annotationAllowVolumeModeChangeValue = ''true''"
definition optVolumeSnapshotClassName :: string where "optVolumeSnapshotClassName = ''volumeSnapshotClassName''"
definition optVolumeName :: string where "optVolumeName = ''volumeName''"
definition optBaseSnapshotName :: string where "optBaseSnapshotName = ''baseSnapshotName''"
definition optTargetSnapshotName :: string where "optTargetSnapshotName = ''targetSnapshotName''"
definition EnvVolumeHandle :: string where "EnvVolumeHandle = ''VOLUME_HANDLE''"
definition EnvBaseSnapshotHandle :: string where "EnvBaseSnapshotHandle = ''BASE_SNAPSHOT_HANDLE''"
definition EnvTargetSnapshotHandle :: string where "EnvTargetSnapshotHandle = ''TARGET_SNAPSHOT_HANDLE''"

lemma status_distinct: "snapshotStatusCurrent \<noteq> snapshotStatusPrevious"
  by (simp add: snapshotStatusCurrent_def snapshotStatusPrevious_def)

definition option_value :: "Mover \<Rightarrow> string \<Rightarrow> string" where
  "option_value m k = (case mvOptions m k of None \<Rightarrow> '''' | Some v \<Rightarrow> v)"

definition pvcIsFilesystemMode :: "PVC \<Rightarrow> bool" where
  "pvcIsFilesystemMode p \<longleftrightarrow> psVolumeMode (pvcSpec p) = None \<or> psVolumeMode (pvcSpec p) = Some Filesystem"

definition isSnapshotReady :: "VolumeSnapshot \<Rightarrow> bool" where
  "isSnapshotReady v \<longleftrightarrow> (case vsStatus v of None \<Rightarrow> False | Some st \<Rightarrow> ssReadyToUse st = Some True)"

definition listSnapshotsWithStatus :: "'s client \<Rightarrow> Mover \<Rightarrow> string \<Rightarrow> 's \<Rightarrow> VolumeSnapshot list option" where
  "listSnapshotsWithStatus cl m status s = cListSnapshots cl (mvSnapStatusLabelKey m) status s"

definition findCurrentSnapshot :: "'s client \<Rightarrow> Mover \<Rightarrow> 's \<Rightarrow> VolumeSnapshot option option" where
  "findCurrentSnapshot cl m s =
     (case listSnapshotsWithStatus cl m snapshotStatusCurrent s of
        None \<Rightarrow> None
      | Some [] \<Rightarrow> Some None
      | Some (v # _) \<Rightarrow> Some (Some v))"

definition setSnapshotStatus :: "'s client \<Rightarrow> utils \<Rightarrow> Mover \<Rightarrow> VolumeSnapshot option \<Rightarrow> string \<Rightarrow> 's \<Rightarrow> 's \<times> mover_error option" where
  "setSnapshotStatus cl u m snap status s =
     (case snap of
        None \<Rightarrow> (s, None)
      | Some v \<Rightarrow>
          (case uAddLabel u (mvSnapStatusLabelKey m) status (vsLabels v) of
             (False, _) \<Rightarrow> (s, None)
           | (True, l) \<Rightarrow> (case cUpdateSnapshot cl (v\<lparr>vsLabels := l\<rparr>) s of None \<Rightarrow> (s, Some ClientError) | Some s1 \<Rightarrow> (s1, None))))"

text \<open>The result is a ready snapshot, \<^verbatim>\<open>None\<close> when one has to wait, or an error.\<close>

definition snapshot_mutate :: "utils \<Rightarrow> Mover \<Rightarrow> string \<Rightarrow> VolumeSnapshot \<Rightarrow> VolumeSnapshot option" where
  "snapshot_mutate u m src v =
     (case uSetControllerReference u (mvOwnerUID m) (vsOwnerRef v) of
        None \<Rightarrow> None
      | Some r \<Rightarrow>
          let v1 = v\<lparr>vsOwnerRef := r,
                     vsLabels := snd (uAddLabel u (mvSnapStatusLabelKey m) snapshotStatusCurrent (snd (uSetOwnedByVolSync u (vsLabels v))))\<rparr> in
          Some (if vsCreated v1 = 0
                then v1\<lparr>vsSourcePVC := Some src, vsClassName := Some (option_value m optVolumeSnapshotClassName)\<rparr>
                else v1))"

definition ensureSnapshotWithStatusLabel ::
  "'s client \<Rightarrow> utils \<Rightarrow> Mover \<Rightarrow> PVC \<Rightarrow> string \<Rightarrow> ('s, VolumeSnapshot) step" where
  "ensureSnapshotWithStatusLabel cl u m src nm s =
     (case cUpsertSnapshot cl nm (snapshot_mutate u m (pvcName src)) s of
        None \<Rightarrow> (s, Inl ClientError)
      | Some (s1, v) \<Rightarrow> (s1, Inr (if isSnapshotReady v then Some v else None)))"

definition pvc_mutate :: "utils \<Rightarrow> Mover \<Rightarrow> VolumeSnapshot \<Rightarrow> PVC \<Rightarrow> PVC \<Rightarrow> PVC option" where
  "pvc_mutate u m snap src p =
     (case uSetControllerReference u (mvOwnerUID m) (pvcOwnerRef p) of
        None \<Rightarrow> None
      | Some r \<Rightarrow>
          let p1 = p\<lparr>pvcOwnerRef := r,
                     pvcLabels := snd (uMarkForCleanup u (mvOwnerUID m) (snd (uSetOwnedByVolSync u (pvcLabels p))))\<rparr> in
          Some (if pvcCreated p1 = 0
                then p1\<lparr>pvcSpec := (pvcSpec p1)\<lparr>psAccessModes := [ReadOnlyMany], psResources := psResources (pvcSpec src),
                         psStorageClassName := psStorageClassName (pvcSpec src),
                         psVolumeMode := if mvMoverType m = MoverRBD then Some Block else psVolumeMode (pvcSpec src),
                         psDataSource := Some (''VolumeSnapshot'', vsName snap)\<rparr>\<rparr>
                else p1))"

definition createPVCFromSnapshot ::
  "'s client \<Rightarrow> utils \<Rightarrow> Mover \<Rightarrow> VolumeSnapshot \<Rightarrow> PVC \<Rightarrow> ('s, PVC) step" where
  "createPVCFromSnapshot cl u m snap src s =
     (case cUpsertPVC cl (vsName snap) (pvc_mutate u m snap src) s of
        None \<Rightarrow> (s, Inl ClientError)
      | Some (s1, p) \<Rightarrow> (s1, Inr (if pvcBound p then Some p else None)))"

definition ensureAllowVolumeModeChangeAnnotation :: "'s client \<Rightarrow> VolumeSnapshot \<Rightarrow> 's \<Rightarrow> 's \<times> mover_error option" where
  "ensureAllowVolumeModeChangeAnnotation cl snap s =
     (case vsStatus snap of
        None \<Rightarrow> (s, Some NoBoundContent)
      | Some st \<Rightarrow>
          (case ssContentName st of
             None \<Rightarrow> (s, Some NoBoundContent)
           | Some n \<Rightarrow>
               (case cGetContent cl n s of
                  None \<Rightarrow> (s, Some ClientError)
                | Some c \<Rightarrow>
                    let ann = (case scAnnotations c of None \<Rightarrow> Map.empty | Some a \<Rightarrow> a) in
                    if ann annotationAllowVolumeModeChange = Some annotationAllowVolumeModeChangeValue then (s, None)
                    else case cUpdateContent cl
                           (c\<lparr>scAnnotations := Some (ann(annotationAllowVolumeModeChange \<mapsto> annotationAllowVolumeModeChangeValue))\<rparr>) s of
                      None \<Rightarrow> (s, Some ClientError)
                    | Some s1 \<Rightarrow> (s1, None))))"

text \<open>The name of a new snapshot; \<^verbatim>\<open>mover.VolSyncPrefix\<close> and the decimal of the current time are arguments.\<close>

definition snapshot_name :: "string \<Rightarrow> string \<Rightarrow> Mover \<Rightarrow> string" where
  "snapshot_name prefix suffix m = prefix @ mvOwner m @ ''-'' @ mvDirection m @ ''-'' @ suffix"

definition current_or_new ::
  "'s client \<Rightarrow> utils \<Rightarrow> string \<Rightarrow> string \<Rightarrow> Mover \<Rightarrow> PVC \<Rightarrow> ('s, VolumeSnapshot) step" where
  "current_or_new cl u prefix suffix m src s =
     (case findCurrentSnapshot cl m s of
        None \<Rightarrow> (s, Inl ClientError)
      | Some (Some v) \<Rightarrow> (s, Inr (if isSnapshotReady v then Some v else None))
      | Some None \<Rightarrow> ensureSnapshotWithStatusLabel cl u m src (snapshot_name prefix suffix m) s)"

definition ensurePVCFromSrcWithStatusLabels ::
  "'s client \<Rightarrow> utils \<Rightarrow> string \<Rightarrow> string \<Rightarrow> Mover \<Rightarrow> PVC \<Rightarrow> ('s, PVC) step" where
  "ensurePVCFromSrcWithStatusLabels cl u prefix suffix m src s =
     next_step (current_or_new cl u prefix suffix m src)
       (\<lambda>snap s1. case (if mvMoverType m = MoverRBD \<and> pvcIsFilesystemMode src
                         then ensureAllowVolumeModeChangeAnnotation cl snap s1 else (s1, None)) of
           (s2, Some e) \<Rightarrow> (s2, Inl e)
         | (s2, None) \<Rightarrow> createPVCFromSnapshot cl u m snap src s2) s"

text \<open>
  The code dereferences \<^verbatim>\<open>mainPVCName\<close>.  Snapshots are made and read by the functions above, none of which raises
  the copy-trigger error that \<^verbatim>\<open>ensureSourcePVC\<close> looks for, so that branch never runs.
\<close>

definition ensureSourcePVC :: "'s client \<Rightarrow> utils \<Rightarrow> string \<Rightarrow> string \<Rightarrow> Mover \<Rightarrow> ('s, PVC) step" where
  "ensureSourcePVC cl u prefix suffix m s =
     (case mvMainPVCName m of
        None \<Rightarrow> (s, Inl NilDereference)
      | Some n \<Rightarrow>
          (case cGetPVC cl n s of
             None \<Rightarrow> (s, Inl ClientError)
           | Some srcPVC \<Rightarrow>
               if mvDirect m then (s, Inr (Some srcPVC))
               else ensurePVCFromSrcWithStatusLabels cl u prefix suffix m srcPVC s))"

subsection \<open>Handles for the worker\<close>

definition getVolumeHandle :: "'s client \<Rightarrow> string \<Rightarrow> 's \<Rightarrow> mover_error + string" where
  "getVolumeHandle cl volumeName s =
     (case cGetPV cl volumeName s of
        None \<Rightarrow> Inl ClientError
      | Some pv \<Rightarrow>
          if \<not> pvBound pv then Inl PVNotBound
          else case pvCSIHandle pv of None \<Rightarrow> Inl PVNotCSI | Some h \<Rightarrow> Inr h)"

definition getSnapshotHandle :: "'s client \<Rightarrow> string \<Rightarrow> 's \<Rightarrow> mover_error + string" where
  "getSnapshotHandle cl snapshotName s =
     (case cGetSnapshot cl snapshotName s of
        None \<Rightarrow> Inl ClientError
      | Some v \<Rightarrow>
          if \<not> isSnapshotReady v then Inl SnapshotNotReady
          else case vsStatus v of
            None \<Rightarrow> Inl NoBoundContent
          | Some st \<Rightarrow>
              (case ssContentName st of
                 None \<Rightarrow> Inl NoBoundContent
               | Some n \<Rightarrow>
                   (case cGetContent cl n s of
                      None \<Rightarrow> Inl ClientError
                    | Some c \<Rightarrow> (case scHandle c of None \<Rightarrow> Inl ContentHasNoHandle | Some h \<Rightarrow> Inr h))))"

definition volume_env :: "'s client \<Rightarrow> string \<Rightarrow> 's \<Rightarrow> mover_error + (string \<times> string) list" where
  "volume_env cl vol s = bind_sum (getVolumeHandle cl vol s) (\<lambda>h. Inr [(EnvVolumeHandle, h)])"

definition direct_env :: "'s client \<Rightarrow> Mover \<Rightarrow> PVC \<Rightarrow> 's \<Rightarrow> mover_error + (string \<times> string) list" where
  "direct_env cl m dataPVC s =
     (let volumeName = option_value m optVolumeName; b = option_value m optBaseSnapshotName; t = option_value m optTargetSnapshotName in
      if volumeName = '''' \<or> b = '''' \<or> t = '''' then volume_env cl (psVolumeName (pvcSpec dataPVC)) s
      else case cGetPVC cl volumeName s of
        None \<Rightarrow> Inl ClientError
      | Some pvc \<Rightarrow>
          bind_sum (getVolumeHandle cl (psVolumeName (pvcSpec pvc)) s) (\<lambda>vh.
          bind_sum (getSnapshotHandle cl b s) (\<lambda>bh.
          bind_sum (getSnapshotHandle cl t s) (\<lambda>th.
          Inr [(EnvVolumeHandle, vh), (EnvBaseSnapshotHandle, bh), (EnvTargetSnapshotHandle, th)]))))"

definition snapshot_env :: "'s client \<Rightarrow> Mover \<Rightarrow> PVC \<Rightarrow> 's \<Rightarrow> mover_error + (string \<times> string) list" where
  "snapshot_env cl m srcPVC s =
     (case listSnapshotsWithStatus cl m snapshotStatusPrevious s of
        None \<Rightarrow> Inl ClientError
      | Some [] \<Rightarrow> volume_env cl (psVolumeName (pvcSpec srcPVC)) s
      | Some (previousSnap # _) \<Rightarrow>
          bind_sum (getSnapshotHandle cl (vsName previousSnap) s) (\<lambda>bh.
          case findCurrentSnapshot cl m s of
            None \<Rightarrow> Inl ClientError
          | Some None \<Rightarrow> Inl NoCurrentSnapshot
          | Some (Some target) \<Rightarrow>
              bind_sum (getSnapshotHandle cl (vsName target) s) (\<lambda>th.
              bind_sum (getVolumeHandle cl (psVolumeName (pvcSpec srcPVC)) s) (\<lambda>vh.
              Inr [(EnvVolumeHandle, vh), (EnvBaseSnapshotHandle, bh), (EnvTargetSnapshotHandle, th)]))))"

text \<open>The code dereferences \<^verbatim>\<open>mainPVCName\<close>; the outer option is the panic when it is nil (a destination without a given volume).\<close>

definition getVolumeEnvVars :: "'s client \<Rightarrow> Mover \<Rightarrow> PVC \<Rightarrow> 's \<Rightarrow> (mover_error + (string \<times> string) list) option" where
  "getVolumeEnvVars cl m dataPVC s =
     (case mvMainPVCName m of
        None \<Rightarrow> None
      | Some n \<Rightarrow> Some
          (case cGetPVC cl n s of
             None \<Rightarrow> Inl ClientError
           | Some srcPVC \<Rightarrow>
               if \<not> mvIsSource m then volume_env cl (psVolumeName (pvcSpec dataPVC)) s
               else if mvDirect m then direct_env cl m dataPVC s
               else snapshot_env cl m srcPVC s))"

subsection \<open>Rotation\<close>

fun latest_loop :: "VolumeSnapshot list \<Rightarrow> nat \<Rightarrow> nat \<Rightarrow> int \<Rightarrow> nat" where
  "latest_loop [] i best t = best"
| "latest_loop (v # vs) i best t = (if vsCreated v > t then latest_loop vs (Suc i) i (vsCreated v) else latest_loop vs (Suc i) best t)"

definition latest_index :: "VolumeSnapshot list \<Rightarrow> nat" where
  "latest_index vs = (case vs of [] \<Rightarrow> 0 | v # rest \<Rightarrow> latest_loop rest 1 0 (vsCreated v))"

text \<open>The second operand of \<^verbatim>\<open>||\<close> is evaluated only if the first is false.\<close>

definition retire :: "utils \<Rightarrow> Mover \<Rightarrow> VolumeSnapshot \<Rightarrow> bool \<times> VolumeSnapshot" where
  "retire u m v =
     (case uMarkForCleanup u (mvOwnerUID m) (vsLabels v) of
        (True, l) \<Rightarrow> (True, v\<lparr>vsLabels := l\<rparr>)
      | (False, l) \<Rightarrow> (case uRemoveLabel u (mvSnapStatusLabelKey m) l of (up, l1) \<Rightarrow> (up, v\<lparr>vsLabels := l1\<rparr>)))"

fun retire_loop :: "'s client \<Rightarrow> utils \<Rightarrow> Mover \<Rightarrow> nat \<Rightarrow> nat \<Rightarrow> VolumeSnapshot list \<Rightarrow> 's \<Rightarrow> 's \<times> mover_error option" where
  "retire_loop cl u m keep i [] s = (s, None)"
| "retire_loop cl u m keep i (v # vs) s =
     (if i = keep then retire_loop cl u m keep (Suc i) vs s
      else case retire u m v of
        (False, _) \<Rightarrow> retire_loop cl u m keep (Suc i) vs s
      | (True, v1) \<Rightarrow>
          (case cUpdateSnapshot cl v1 s of
             None \<Rightarrow> (s, Some ClientError)
           | Some s1 \<Rightarrow> retire_loop cl u m keep (Suc i) vs s1))"

definition transitionSnapshotStatuses :: "'s client \<Rightarrow> utils \<Rightarrow> Mover \<Rightarrow> 's \<Rightarrow> 's \<times> mover_error option" where
  "transitionSnapshotStatuses cl u m s =
     (case listSnapshotsWithStatus cl m snapshotStatusPrevious s of
        None \<Rightarrow> (s, Some ClientError)
      | Some prev \<Rightarrow>
          (case (if 1 < length prev then retire_loop cl u m (latest_index prev) 0 prev s else (s, None)) of
             (s1, Some e) \<Rightarrow> (s1, Some e)
           | (s1, None) \<Rightarrow>
               (case findCurrentSnapshot cl m s1 of
                  None \<Rightarrow> (s1, Some ClientError)
                | Some None \<Rightarrow> (s1, None)
                | Some (Some cur) \<Rightarrow> setSnapshotStatus cl u m (Some cur) snapshotStatusPrevious s1)))"

subsection \<open>The helpers and the client\<close>

lemma utils_okD:
  assumes "utils_ok u"
  shows "uAddLabel u k v l = (l k \<noteq> Some v, l(k \<mapsto> v))" "uRemoveLabel u k l = (l k \<noteq> None, l(k := None))"
    "uMarkForCleanup u uid l = (l (uCleanupKey u) \<noteq> Some uid, l(uCleanupKey u \<mapsto> uid))"
  using assms by (simp_all add: utils_ok_def)

lemma client_okD:
  assumes "client_ok view cl"
  shows "cListSnapshots cl k v s = Some xs \<Longrightarrow> xs = filter (\<lambda>x. vsLabels x k = Some v) (view s)"
    "cUpdateSnapshot cl x s = Some s' \<Longrightarrow> view s' = map (\<lambda>y. if vsName y = vsName x then x else y) (view s)"
  by (erule assms [unfolded client_ok_def, THEN conjunct1, rule_format])
    (erule assms [unfolded client_ok_def, THEN conjunct2, rule_format])

abbreviation status_of :: "Mover \<Rightarrow> VolumeSnapshot \<Rightarrow> string option" where
  "status_of m x \<equiv> vsLabels x (mvSnapStatusLabelKey m)"

subsection \<open>The most recent snapshot\<close>

lemma latest_loop_spec:
  assumes "best < length pre" "t = vsCreated (pre ! best)" "\<forall>x \<in> set pre. vsCreated x \<le> t"
    and "r = latest_loop vs (length pre) best t"
  shows "r < length (pre @ vs) \<and> (\<forall>x \<in> set (pre @ vs). vsCreated x \<le> vsCreated ((pre @ vs) ! r))"
  using assms
proof (induction vs arbitrary: pre best t)
  case Nil
  then show ?case by simp
next
  case (Cons v vs)
  show ?case
  proof (cases "vsCreated v > t")
    case True
    have "\<forall>x \<in> set (pre @ [v]). vsCreated x \<le> vsCreated v" using Cons.prems(3) True by auto
    moreover have "r = latest_loop vs (length (pre @ [v])) (length pre) (vsCreated v)" using Cons.prems(4) True by simp
    ultimately show ?thesis using Cons.IH [of "length pre" "pre @ [v]" "vsCreated v"] by simp
  next
    case False
    have "\<forall>x \<in> set (pre @ [v]). vsCreated x \<le> t" using Cons.prems(3) False by auto
    moreover have "r = latest_loop vs (length (pre @ [v])) best t" using Cons.prems(4) False by simp
    ultimately show ?thesis using Cons.IH [of best "pre @ [v]" t] Cons.prems(1,2) by (simp add: nth_append)
  qed
qed

lemma latest_index_spec:
  assumes "vs \<noteq> []"
  shows "latest_index vs < length vs" "x \<in> set vs \<Longrightarrow> vsCreated x \<le> vsCreated (vs ! latest_index vs)"
proof -
  obtain v rest where vs: "vs = v # rest" using assms by (cases vs) auto
  have r: "latest_index vs = latest_loop rest (length [v]) 0 (vsCreated v)" by (simp add: latest_index_def vs)
  show "latest_index vs < length vs" "x \<in> set vs \<Longrightarrow> vsCreated x \<le> vsCreated (vs ! latest_index vs)"
    using latest_loop_spec [OF _ _ _ r] by (auto simp: vs)
qed

subsection \<open>Rotation\<close>

lemma retire_name [simp]: "vsName (snd (retire u m x)) = vsName x"
  by (auto simp: retire_def split: prod.splits bool.splits)

lemma retire_same: "utils_ok u \<Longrightarrow> \<not> fst (retire u m x) \<Longrightarrow> snd (retire u m x) = x"
  by (cases "vsLabels x (uCleanupKey u) = Some (mvOwnerUID m)"; cases "status_of m x")
    (simp_all add: retire_def utils_okD fun_upd_idem)

lemma retire_marks: "utils_ok u \<Longrightarrow> mvSnapStatusLabelKey m \<noteq> uCleanupKey u \<Longrightarrow>
    vsLabels (snd (retire u m x)) (uCleanupKey u) = Some (mvOwnerUID m)"
  by (cases "vsLabels x (uCleanupKey u) = Some (mvOwnerUID m)") (simp_all add: retire_def utils_okD)

text \<open>The loop without the entry it skips.\<close>

fun retire_all :: "'s client \<Rightarrow> utils \<Rightarrow> Mover \<Rightarrow> VolumeSnapshot list \<Rightarrow> 's \<Rightarrow> 's \<times> mover_error option" where
  "retire_all cl u m [] s = (s, None)"
| "retire_all cl u m (v # vs) s =
     (if fst (retire u m v)
      then (case cUpdateSnapshot cl (snd (retire u m v)) s of None \<Rightarrow> (s, Some ClientError) | Some s1 \<Rightarrow> retire_all cl u m vs s1)
      else retire_all cl u m vs s)"

lemma retire_loop_past: "keep < i \<Longrightarrow> retire_loop cl u m keep i vs s = retire_all cl u m vs s"
  by (induction vs arbitrary: i s) (auto split: prod.splits bool.splits option.splits)

lemma retire_loop_all: "keep < length vs \<Longrightarrow>
    retire_loop cl u m (i + keep) i vs s = retire_all cl u m (take keep vs @ drop (Suc keep) vs) s"
proof (induction vs arbitrary: i s keep)
  case Nil
  then show ?case by simp
next
  case (Cons v vs)
  show ?case
  proof (cases keep)
    case 0
    then show ?thesis by (simp add: retire_loop_past)
  next
    case (Suc n)
    then show ?thesis using Cons.IH [of n "Suc i"] Cons.prems by (auto split: prod.splits bool.splits option.splits)
  qed
qed

lemma retire_all_view:
  assumes u: "utils_ok u" and cl: "client_ok view cl" and "distinct (map vsName (view s))"
    and "set vs \<subseteq> set (view s)" "distinct (map vsName vs)" "retire_all cl u m vs s = (s', None)"
  shows "view s' = map (\<lambda>x. if vsName x \<in> vsName ` set vs then snd (retire u m x) else x) (view s)"
  using assms(3-6)
proof (induction vs arbitrary: s)
  case Nil
  then show ?case by simp
next
  case (Cons v vs)
  have same: "y = v" if "y \<in> set (view s)" "vsName y = vsName v" for y
    using that Cons.prems(1,2) by (auto simp: distinct_map inj_on_def)
  show ?case
  proof (cases "fst (retire u m v)")
    case False
    have "view s' = map (\<lambda>x. if vsName x \<in> vsName ` set vs then snd (retire u m x) else x) (view s)"
      using Cons.IH [of s] Cons.prems False by simp
    moreover have "snd (retire u m x) = x" if "x \<in> set (view s)" "vsName x = vsName v" for x
      using same [OF that] retire_same [OF u False] by simp
    ultimately show ?thesis by (auto simp: map_eq_conv)
  next
    case True
    then obtain s1 where s1: "cUpdateSnapshot cl (snd (retire u m v)) s = Some s1" "retire_all cl u m vs s1 = (s', None)"
      using Cons.prems(4) by (auto split: option.splits)
    define f where "f = (\<lambda>y. if vsName y = vsName v then snd (retire u m v) else y)"
    have v1: "view s1 = map f (view s)" using client_okD(2) [OF cl s1(1)] by (simp add: f_def)
    have nm: "vsName (f y) = vsName y" for y by (simp add: f_def)
    have kept: "f y = y" if "y \<in> set vs" for y
    proof -
      have "vsName y \<in> vsName ` set vs" using that by simp
      then show ?thesis using Cons.prems(3) by (auto simp: f_def)
    qed
    have "set vs \<subseteq> f ` set (view s)" using Cons.prems(2) kept by force
    moreover have "distinct (map vsName (view s1))" using Cons.prems(1) by (simp add: v1 comp_def nm)
    ultimately have "view s' = map (\<lambda>x. if vsName x \<in> vsName ` set vs then snd (retire u m x) else x) (map f (view s))"
      using Cons.IH [of s1] Cons.prems(3) s1(2) v1 by simp
    moreover have "(if vsName (f x) \<in> vsName ` set vs then snd (retire u m (f x)) else f x) =
        (if vsName x \<in> vsName ` set (v # vs) then snd (retire u m x) else x)" if "x \<in> set (view s)" for x
      using Cons.prems(3) same [OF that] by (auto simp: f_def)
    ultimately show ?thesis by simp
  qed
qed

text \<open>
  What the rotation should do: of the previous snapshots all but the most recent are retired, and the first current
  snapshot becomes a previous one.
\<close>

definition retired_names :: "Mover \<Rightarrow> VolumeSnapshot list \<Rightarrow> string set" where
  "retired_names m xs =
     (let prev = filter (\<lambda>x. status_of m x = Some snapshotStatusPrevious) xs in
      vsName ` set prev - {vsName (prev ! latest_index prev)})"

definition current_name :: "Mover \<Rightarrow> VolumeSnapshot list \<Rightarrow> string option" where
  "current_name m xs = map_option vsName (find (\<lambda>x. status_of m x = Some snapshotStatusCurrent) xs)"

definition rotated :: "utils \<Rightarrow> Mover \<Rightarrow> VolumeSnapshot list \<Rightarrow> VolumeSnapshot list" where
  "rotated u m xs = map (\<lambda>x. if vsName x \<in> retired_names m xs then snd (retire u m x)
      else if Some (vsName x) = current_name m xs then x\<lparr>vsLabels := (vsLabels x)(mvSnapStatusLabelKey m \<mapsto> snapshotStatusPrevious)\<rparr>
      else x) xs"

lemma remove_nth_set:
  assumes "distinct (map f vs)" "i < length vs"
  shows "f ` set (take i vs @ drop (Suc i) vs) = f ` set vs - {f (vs ! i)}"
    "set (take i vs @ drop (Suc i) vs) \<subseteq> set vs" "distinct (map f (take i vs @ drop (Suc i) vs))"
proof -
  have vs: "vs = take i vs @ vs ! i # drop (Suc i) vs" using assms(2) by (rule id_take_nth_drop)
  have d: "distinct (map f (take i vs @ vs ! i # drop (Suc i) vs))" using assms(1) vs by simp
  have "f ` set vs = insert (f (vs ! i)) (f ` set (take i vs @ drop (Suc i) vs))" by (subst vs) auto
  moreover have "f (vs ! i) \<notin> f ` set (take i vs @ drop (Suc i) vs)" using d by (auto simp: image_Un)
  ultimately show "f ` set (take i vs @ drop (Suc i) vs) = f ` set vs - {f (vs ! i)}" by auto
  show "distinct (map f (take i vs @ drop (Suc i) vs))" using d by auto
  show "set (take i vs @ drop (Suc i) vs) \<subseteq> set vs" by (auto dest: in_set_takeD in_set_dropD)
qed

lemma retire_previous:
  assumes u: "utils_ok u" and cl: "client_ok view cl" and d: "distinct (map vsName (view s))"
    and prev: "listSnapshotsWithStatus cl m snapshotStatusPrevious s = Some prev"
    and run: "(if 1 < length prev then retire_loop cl u m (latest_index prev) 0 prev s else (s, None)) = (s1, None)"
  shows "view s1 = map (\<lambda>x. if vsName x \<in> retired_names m (view s) then snd (retire u m x) else x) (view s)"
proof -
  have p: "prev = filter (\<lambda>x. status_of m x = Some snapshotStatusPrevious) (view s)"
    using client_okD(1) [OF cl] prev by (simp add: listSnapshotsWithStatus_def)
  have names: "retired_names m (view s) = vsName ` set prev - {vsName (prev ! latest_index prev)}"
    by (simp add: retired_names_def Let_def p)
  show ?thesis
  proof (cases "1 < length prev")
    case False
    then have "retired_names m (view s) = {}" unfolding names
      by (cases prev; cases "tl prev") (auto simp: latest_index_def)
    then show ?thesis using run False by simp
  next
    case True
    define zs where "zs = take (latest_index prev) prev @ drop (Suc (latest_index prev)) prev"
    have i: "latest_index prev < length prev" using True by (intro latest_index_spec) auto
    have dp: "distinct (map vsName prev)" using d by (simp add: p distinct_map_filter)
    note zs = remove_nth_set [OF dp i, folded zs_def]
    have "retire_all cl u m zs s = (s1, None)" using run True retire_loop_all [OF i, of cl u m 0 s] by (simp add: zs_def)
    moreover have "set zs \<subseteq> set (view s)" using zs(2) by (auto simp: p)
    ultimately show ?thesis using retire_all_view [OF u cl d _ zs(3)] by (simp add: zs(1) names)
  qed
qed

lemma find_map_same: "(\<And>x. x \<in> set xs \<Longrightarrow> P (f x) = P x) \<Longrightarrow> find P (map f xs) = map_option f (find P xs)"
  by (induction xs) auto

lemma filter_find: "find P xs = (case filter P xs of [] \<Rightarrow> None | y # _ \<Rightarrow> Some y)"
  by (induction xs) auto

lemma findCurrentSnapshot_find:
  assumes "client_ok view cl" "findCurrentSnapshot cl m s = Some r"
  shows "r = find (\<lambda>x. status_of m x = Some snapshotStatusCurrent) (view s)"
  using assms(2) client_okD(1) [OF assms(1)]
  by (auto simp: findCurrentSnapshot_def listSnapshotsWithStatus_def filter_find split: option.splits list.splits)

lemma find_in: "find P xs = Some x \<Longrightarrow> x \<in> set xs \<and> P x"
  by (induction xs) (auto split: if_splits)

lemma rotation_core:
  assumes u: "utils_ok u" and cl: "client_ok view cl" and d: "distinct (map vsName (view s))"
    and key: "mvSnapStatusLabelKey m \<noteq> uCleanupKey u" and run: "transitionSnapshotStatuses cl u m s = (s', None)"
  shows "view s' = rotated u m (view s)"
proof -
  let ?k = "mvSnapStatusLabelKey m"
  obtain prev s1 where prev: "listSnapshotsWithStatus cl m snapshotStatusPrevious s = Some prev"
    and s1: "(if 1 < length prev then retire_loop cl u m (latest_index prev) 0 prev s else (s, None)) = (s1, None)"
    using run by (auto simp: transitionSnapshotStatuses_def split: option.splits prod.splits)
  define f where "f = (\<lambda>x. if vsName x \<in> retired_names m (view s) then snd (retire u m x) else x)"
  have v1: "view s1 = map f (view s)" using retire_previous [OF u cl d prev s1] by (simp add: f_def)
  have prevs: "status_of m x = Some snapshotStatusPrevious" if "x \<in> set (view s)" "vsName x \<in> retired_names m (view s)" for x
  proof -
    note x = that
    obtain y where "y \<in> set (view s)" "status_of m y = Some snapshotStatusPrevious" "vsName y = vsName x"
      using x(2) by (auto simp: retired_names_def Let_def)
    then show ?thesis using d x(1) by (metis distinct_map inj_onD)
  qed
  have cur: "status_of m (f x) = Some snapshotStatusCurrent \<longleftrightarrow> status_of m x = Some snapshotStatusCurrent" if "x \<in> set (view s)" for x
  proof (cases "vsName x \<in> retired_names m (view s)")
    case False
    then show ?thesis by (simp add: f_def)
  next
    case True
    have "status_of m (snd (retire u m x)) \<in> {None, Some snapshotStatusPrevious}"
      using prevs [OF that True] key by (cases "vsLabels x (uCleanupKey u) = Some (mvOwnerUID m)") (simp_all add: retire_def utils_okD [OF u])
    then show ?thesis using True prevs [OF that True] status_distinct by (auto simp: f_def)
  qed
  have nm: "vsName (f x) = vsName x" for x by (simp add: f_def)
  have d1: "distinct (map vsName (view s1))" using d by (simp add: v1 comp_def nm)
  obtain r where fr: "findCurrentSnapshot cl m s1 = Some r"
    using run prev s1 by (auto simp: transitionSnapshotStatuses_def split: option.splits)
  have fnd: "r = find (\<lambda>x. status_of m x = Some snapshotStatusCurrent) (view s1)" by (rule findCurrentSnapshot_find [OF cl fr])
  have "find (\<lambda>x. status_of m x = Some snapshotStatusCurrent) (map f (view s)) =
      map_option f (find (\<lambda>x. status_of m x = Some snapshotStatusCurrent) (view s))"
    using cur by (intro find_map_same) simp
  then have r: "map_option vsName r = current_name m (view s)"
    using fnd unfolding v1 by (simp add: current_name_def option.map_comp comp_def nm)
  show ?thesis
  proof (cases r)
    case None
    then have "s' = s1" using run prev s1 fr by (simp add: transitionSnapshotStatuses_def)
    then show ?thesis using r None by (simp add: v1 rotated_def f_def)
  next
    case (Some c)
    have c: "c \<in> set (view s1)" "status_of m c = Some snapshotStatusCurrent" using find_in [OF fnd [symmetric, unfolded Some]] by simp_all
    have eq: "y = c" if "y \<in> set (view s1)" "vsName y = vsName c" for y using d1 c(1) that by (metis distinct_map inj_onD)
    let ?p = "\<lambda>x. x\<lparr>vsLabels := (vsLabels x)(?k \<mapsto> snapshotStatusPrevious)\<rparr>"
    have "setSnapshotStatus cl u m (Some c) snapshotStatusPrevious s1 = (s', None)"
      using run prev s1 fr Some by (simp add: transitionSnapshotStatuses_def)
    then have "cUpdateSnapshot cl (?p c) s1 = Some s'"
      using c(2) status_distinct by (auto simp: setSnapshotStatus_def utils_okD [OF u] split: option.splits)
    then have "view s' = map (\<lambda>y. if vsName y = vsName (?p c) then ?p c else y) (view s1)"
      by (rule client_okD(2) [OF cl])
    then have "view s' = map (\<lambda>y. if vsName y = vsName c then ?p c else y) (view s1)" by simp
    also have "\<dots> = map (\<lambda>y. if vsName y = vsName c then ?p y else y) (view s1)" using eq by (auto simp: map_eq_conv)
    finally have v2: "view s' = map (\<lambda>y. if vsName y = vsName c then ?p y else y) (view s1)" .
    have "vsName c \<notin> retired_names m (view s)"
    proof
      assume "vsName c \<in> retired_names m (view s)"
      moreover obtain x where "x \<in> set (view s)" "c = f x" using c(1) by (auto simp: v1)
      ultimately show False using prevs [of x] cur [of x] c(2) status_distinct by (auto simp: nm)
    qed
    moreover have "current_name m (view s) = Some (vsName c)" using r Some by simp
    ultimately show ?thesis by (auto simp: v2 v1 rotated_def f_def nm)
  qed
qed

subsection \<open>A concrete cluster\<close>

text \<open>Snapshots kept in a list, the helpers as VolSync documents them: an instance of the interfaces for the witnesses.\<close>

definition list_client :: "VolumeSnapshot list client" where
  "list_client = \<lparr>cListSnapshots = (\<lambda>k v s. Some (filter (\<lambda>x. vsLabels x k = Some v) s)),
     cGetSnapshot = (\<lambda>n s. find (\<lambda>x. vsName x = n) s),
     cUpdateSnapshot = (\<lambda>x s. Some (map (\<lambda>y. if vsName y = vsName x then x else y) s)),
     cUpsertSnapshot = (\<lambda>_ _ _. None), cGetContent = (\<lambda>n _. Some \<lparr>scName = n, scAnnotations = None, scHandle = Some (''handle-'' @ n)\<rparr>),
     cUpdateContent = (\<lambda>_ _. None),
     cGetPVC = (\<lambda>n _. Some \<lparr>pvcName = n, pvcCreated = 1, pvcLabels = Map.empty, pvcOwnerRef = None,
        pvcSpec = \<lparr>psAccessModes = [ReadWriteOnce], psResources = 1, psStorageClassName = None, psVolumeMode = None,
          psDataSource = None, psVolumeName = ''pv-'' @ n\<rparr>, pvcBound = True\<rparr>),
     cUpsertPVC = (\<lambda>_ _ _. None), cGetPV = (\<lambda>n _. Some \<lparr>pvBound = True, pvCSIHandle = Some (''handle-'' @ n)\<rparr>)\<rparr>"

definition label_utils :: utils where
  "label_utils = \<lparr>uAddLabel = (\<lambda>k v l. (l k \<noteq> Some v, l(k \<mapsto> v))), uRemoveLabel = (\<lambda>k l. (l k \<noteq> None, l(k := None))),
     uMarkForCleanup = (\<lambda>uid l. (l ''volsync.backube/cleanup'' \<noteq> Some uid, l(''volsync.backube/cleanup'' \<mapsto> uid))),
     uSetOwnedByVolSync = (\<lambda>l. (l ''app.kubernetes.io/created-by'' \<noteq> Some ''volsync'', l(''app.kubernetes.io/created-by'' \<mapsto> ''volsync''))),
     uSetControllerReference = (\<lambda>uid r. if r = None \<or> r = Some uid then Some (Some uid) else None),
     uCleanupKey = ''volsync.backube/cleanup''\<rparr>"

definition sample_mover :: Mover where
  "sample_mover = initCached \<lparr>mvOwner = ''rs'', mvOwnerUID = ''uid'', mvNamespace = ''ns'', mvDirect = False, mvContainerImage = ''img'',
     mvMoverType = MoverCephFS, mvKey = None, mvAddress = Some ''addr'', mvPort = None, mvIsSource = True, mvPaused = False,
     mvMainPVCName = Some ''data'', mvPrivileged = True, mvCleanupTempPVC = False, mvOptions = [''address'' \<mapsto> ''addr''],
     mvCsiConfigName = ''ceph-csi-config'', mvCsiConfigNamespace = ''rook-ceph'', mvDirection = [], mvNamePrefix = [],
     mvContainerName = [], mvServiceSelector = Map.empty, mvSnapStatusLabelKey = [], mvDestPVCIsProvided = False, mvDestPVCName = []\<rparr>"

definition sample_snap :: "string \<Rightarrow> int \<Rightarrow> string \<Rightarrow> VolumeSnapshot" where
  "sample_snap n t status = \<lparr>vsName = n, vsLabels = [mvSnapStatusLabelKey sample_mover \<mapsto> status], vsCreated = t, vsOwnerRef = Some ''uid'',
     vsSourcePVC = Some ''data'', vsClassName = Some '''', vsStatus = Some \<lparr>ssReadyToUse = Some True, ssContentName = Some n\<rparr>\<rparr>"

lemma list_client_ok: "client_ok id list_client"
  by (simp add: client_ok_def list_client_def)

lemma label_utils_ok: "utils_ok label_utils"
  by (simp add: utils_ok_def label_utils_def)

lemma sample_mover_simps [simp]:
  "mvSnapStatusLabelKey sample_mover = ''ceph.volsync.plugin/snapshot-status-rs''" "mvIsSource sample_mover" "\<not> mvDirect sample_mover"
  "mvMainPVCName sample_mover = Some ''data''" "mvOwnerUID sample_mover = ''uid''"
  by (simp_all add: sample_mover_def snapStatusLabelKey_owner) (simp add: initCached_def Let_def)

lemma sample_keys: "mvSnapStatusLabelKey sample_mover \<noteq> uCleanupKey label_utils"
  by (simp add: label_utils_def)

lemma sample_snap_simps [simp]: "vsName (sample_snap n t st) = n" "vsLabels (sample_snap n t st) = [mvSnapStatusLabelKey sample_mover \<mapsto> st]"
  "vsCreated (sample_snap n t st) = t" "vsStatus (sample_snap n t st) = Some \<lparr>ssReadyToUse = Some True, ssContentName = Some n\<rparr>"
  by (simp_all add: sample_snap_def)

subsection \<open>What the rotation leaves\<close>

text \<open>
  A rotation that returns without an error changes exactly the labels it should: every previous snapshot but the most recently
  created one is retired, the current snapshot becomes a previous one, and all the others stay as they are.
\<close>

theorem transition_rotates:
  assumes "utils_ok u" "client_ok view cl" "distinct (map vsName (view s))" "mvSnapStatusLabelKey m \<noteq> uCleanupKey u"
    and "transitionSnapshotStatuses cl u m s = (s', None)"
  shows "view s' = rotated u m (view s)"
  using rotation_core [OF assms] .

lemma rotated_previous:
  assumes u: "utils_ok u" and key: "mvSnapStatusLabelKey m \<noteq> uCleanupKey u"
    and x: "x \<in> set (rotated u m xs)" "status_of m x = Some snapshotStatusPrevious" "vsLabels x (uCleanupKey u) \<noteq> Some (mvOwnerUID m)"
  shows "(\<exists>y \<in> set xs. x = y \<and> status_of m y = Some snapshotStatusPrevious \<and> vsName y \<notin> retired_names m xs) \<or>
    Some (vsName x) = current_name m xs"
proof -
  obtain y where y: "y \<in> set xs" and xy: "x = (if vsName y \<in> retired_names m xs then snd (retire u m y)
      else if Some (vsName y) = current_name m xs then y\<lparr>vsLabels := (vsLabels y)(mvSnapStatusLabelKey m \<mapsto> snapshotStatusPrevious)\<rparr>
      else y)" using x(1) by (auto simp: rotated_def)
  have "vsName y \<notin> retired_names m xs" using x(3) xy retire_marks [OF u key] by auto
  then show ?thesis using xy y x(2) by (auto split: if_splits)
qed

lemma rotated_current:
  assumes d: "distinct (map vsName xs)" and c: "find (\<lambda>x. status_of m x = Some snapshotStatusCurrent) xs = Some c"
  shows "c\<lparr>vsLabels := (vsLabels c)(mvSnapStatusLabelKey m \<mapsto> snapshotStatusPrevious)\<rparr> \<in> set (rotated u m xs)"
proof -
  have in_c: "c \<in> set xs" "status_of m c = Some snapshotStatusCurrent" using find_in [OF c] by simp_all
  have "vsName c \<notin> retired_names m xs"
  proof
    assume "vsName c \<in> retired_names m xs"
    then obtain y where "y \<in> set xs" "status_of m y = Some snapshotStatusPrevious" "vsName y = vsName c"
      by (auto simp: retired_names_def Let_def)
    then show False using d in_c status_distinct by (metis distinct_map inj_onD option.inject)
  qed
  moreover have "current_name m xs = Some (vsName c)" by (simp add: current_name_def c)
  ultimately show ?thesis using in_c(1) by (force simp: rotated_def)
qed

lemma rotated_names [simp]: "map vsName (rotated u m xs) = map vsName xs"
  by (simp add: rotated_def)

text \<open>At most two snapshots are still kept as previous ones after a rotation: the most recent of the previous ones and the one that was current.\<close>

lemma rotated_keeps_two:
  assumes u: "utils_ok u" and d: "distinct (map vsName xs)" and key: "mvSnapStatusLabelKey m \<noteq> uCleanupKey u"
  shows "length (filter (\<lambda>x. status_of m x = Some snapshotStatusPrevious \<and> vsLabels x (uCleanupKey u) \<noteq> Some (mvOwnerUID m)) (rotated u m xs)) \<le> 2"
proof -
  let ?P = "\<lambda>x. status_of m x = Some snapshotStatusPrevious \<and> vsLabels x (uCleanupKey u) \<noteq> Some (mvOwnerUID m)"
  let ?prev = "filter (\<lambda>x. status_of m x = Some snapshotStatusPrevious) xs"
  let ?ys = "filter ?P (rotated u m xs)"
  have sub: "vsName ` set ?ys \<subseteq> {vsName (?prev ! latest_index ?prev), the (current_name m xs)}"
  proof
    fix n assume "n \<in> vsName ` set ?ys"
    then obtain x where n: "n = vsName x" and x: "x \<in> set (rotated u m xs)" "status_of m x = Some snapshotStatusPrevious"
      "vsLabels x (uCleanupKey u) \<noteq> Some (mvOwnerUID m)" by auto
    show "n \<in> {vsName (?prev ! latest_index ?prev), the (current_name m xs)}"
      using rotated_previous [OF u key x] by (auto simp: n retired_names_def Let_def dest: sym)
  qed
  have "distinct (map vsName ?ys)" using d by (intro distinct_map_filter) simp
  then have "length ?ys = card (vsName ` set ?ys)" using distinct_card [of "map vsName ?ys"] by simp
  also have "\<dots> \<le> card {vsName (?prev ! latest_index ?prev), the (current_name m xs)}" using sub by (rule card_mono [rotated]) simp
  also have "\<dots> \<le> 2" by (simp add: card_insert_if)
  finally show ?thesis .
qed

definition sample_snaps :: "VolumeSnapshot list" where
  "sample_snaps = [sample_snap ''a'' 1 snapshotStatusPrevious, sample_snap ''b'' 2 snapshotStatusPrevious, sample_snap ''c'' 3 snapshotStatusCurrent]"

lemma sample_transition: "snd (transitionSnapshotStatuses list_client label_utils sample_mover sample_snaps) = None"
  using status_distinct
  by (simp add: sample_snaps_def transitionSnapshotStatuses_def list_client_def listSnapshotsWithStatus_def findCurrentSnapshot_def
      latest_index_def retire_def label_utils_def setSnapshotStatus_def)

lemma sample_distinct: "distinct (map vsName (id sample_snaps))"
  by (simp add: sample_snaps_def)

theorem transition_rotates_witness:
  "id (fst (transitionSnapshotStatuses list_client label_utils sample_mover sample_snaps)) = rotated label_utils sample_mover (id sample_snaps)"
  by (rule transition_rotates [OF label_utils_ok list_client_ok sample_distinct sample_keys]) (simp add: prod_eq_iff sample_transition)

subsection \<open>The base of an incremental transfer\<close>

lemma env_names: "EnvBaseSnapshotHandle \<noteq> EnvVolumeHandle" "EnvTargetSnapshotHandle \<noteq> EnvVolumeHandle" "EnvTargetSnapshotHandle \<noteq> EnvBaseSnapshotHandle"
  by (simp_all add: EnvBaseSnapshotHandle_def EnvVolumeHandle_def EnvTargetSnapshotHandle_def)

lemma snapshot_env_previous:
  assumes "listSnapshotsWithStatus cl m snapshotStatusPrevious s = Some (b # rest)" "snapshot_env cl m p s = Inr env"
  obtains c bh th vh where "findCurrentSnapshot cl m s = Some (Some c)" "getSnapshotHandle cl (vsName b) s = Inr bh"
    "getSnapshotHandle cl (vsName c) s = Inr th" "env = [(EnvVolumeHandle, vh), (EnvBaseSnapshotHandle, bh), (EnvTargetSnapshotHandle, th)]"
proof -
  obtain bh where bh: "getSnapshotHandle cl (vsName b) s = Inr bh" using assms by (auto simp: snapshot_env_def)
  show thesis
  proof (cases "findCurrentSnapshot cl m s")
    case None
    then show thesis using assms bh by (simp add: snapshot_env_def bind_sum_def)
  next
    case (Some r)
    show thesis
    proof (cases r)
      case None
      then show thesis using assms bh Some by (simp add: snapshot_env_def bind_sum_def)
    next
      case (Some c)
      then show thesis using assms bh \<open>findCurrentSnapshot cl m s = Some r\<close> that by (auto simp: snapshot_env_def)
    qed
  qed
qed

text \<open>
  An incremental transfer of snapshots starts from the snapshot that the cluster lists first among the previous ones and ends at the first
  current one.  The rotation leaves two previous snapshots, so the base is not always the snapshot of the last transfer: in the
  witness it is the older one of the two.
\<close>

theorem base_is_first_listed:
  assumes cl: "client_ok view cl" and "mvIsSource m" "\<not> mvDirect m" and run: "getVolumeEnvVars cl m p s = Some (Inr env)"
    and prev: "filter (\<lambda>x. status_of m x = Some snapshotStatusPrevious) (view s) = b # rest"
  shows "getSnapshotHandle cl (vsName b) s = Inr (the (map_of env EnvBaseSnapshotHandle)) \<and>
    (\<exists>c. find (\<lambda>x. status_of m x = Some snapshotStatusCurrent) (view s) = Some c \<and>
      getSnapshotHandle cl (vsName c) s = Inr (the (map_of env EnvTargetSnapshotHandle)))"
proof -
  obtain q where q: "snapshot_env cl m q s = Inr env"
    using run assms(2,3) by (auto simp: getVolumeEnvVars_def split: option.splits if_splits)
  then obtain xs where "listSnapshotsWithStatus cl m snapshotStatusPrevious s = Some xs"
    by (auto simp: snapshot_env_def split: option.splits)
  then have l: "listSnapshotsWithStatus cl m snapshotStatusPrevious s = Some (b # rest)"
    using client_okD(1) [OF cl] prev by (simp add: listSnapshotsWithStatus_def)
  obtain c bh th vh where c: "findCurrentSnapshot cl m s = Some (Some c)" "getSnapshotHandle cl (vsName b) s = Inr bh"
    "getSnapshotHandle cl (vsName c) s = Inr th" "env = [(EnvVolumeHandle, vh), (EnvBaseSnapshotHandle, bh), (EnvTargetSnapshotHandle, th)]"
    by (rule snapshot_env_previous [OF l q])
  then show ?thesis using findCurrentSnapshot_find [OF cl c(1), symmetric] env_names by simp
qed

definition sample_env :: "(string \<times> string) list" where
  "sample_env = [(EnvVolumeHandle, ''handle-pv-data''), (EnvBaseSnapshotHandle, ''handle-a''), (EnvTargetSnapshotHandle, ''handle-c'')]"

lemma sample_getVolumeEnvVars: "getVolumeEnvVars list_client sample_mover p sample_snaps = Some (Inr sample_env)"
  using status_distinct
  by (simp add: getVolumeEnvVars_def snapshot_env_def list_client_def listSnapshotsWithStatus_def findCurrentSnapshot_def sample_snaps_def
      getSnapshotHandle_def getVolumeHandle_def isSnapshotReady_def bind_sum_def sample_env_def)

theorem base_is_first_listed_witness:
  "getSnapshotHandle list_client ''a'' sample_snaps = Inr (the (map_of sample_env EnvBaseSnapshotHandle)) \<and>
   vsCreated (sample_snap ''a'' 1 snapshotStatusPrevious) < vsCreated (sample_snap ''b'' 2 snapshotStatusPrevious)"
proof -
  have "filter (\<lambda>x. status_of sample_mover x = Some snapshotStatusPrevious) (id sample_snaps) =
      [sample_snap ''a'' 1 snapshotStatusPrevious, sample_snap ''b'' 2 snapshotStatusPrevious]"
    using status_distinct by (simp add: sample_snaps_def)
  then show ?thesis
    using base_is_first_listed [OF list_client_ok _ _ sample_getVolumeEnvVars, of "sample_snap ''a'' 1 snapshotStatusPrevious"] by simp
qed

end
