(* ===== verification/Mover_Resources.thy ===== *)
theory Mover_Resources
  imports Mover_Snapshots Csi_Config
begin

section \<open>Services, network policies and secrets (internal/mover/ceph/service.go, networkpolicy.go, secrets.go)\<close>

text \<open>
  The objects that a destination publishes itself with, the pre-shared key of the tunnel and the copies of the
  ceph-csi configuration and credentials that the mover pod mounts.  The lemmas say that the policy
  admits exactly what the service exposes, whatever the objects looked like before, that a key is created at most
  once and never overwritten, and that only the user's identifier and key of the admin secret are copied.
\<close>

subsection \<open>Objects\<close>

record ServicePort =
  spName :: string
  spPort :: int
  spProtocol :: string
  spTargetPort :: int
  spNodePort :: int

definition zero_port :: ServicePort where
  "zero_port = \<lparr>spName = '''', spPort = 0, spProtocol = '''', spTargetPort = 0, spNodePort = 0\<rparr>"

record Service =
  svName :: string
  svCreated :: int
  svLabels :: labels
  svOwnerRef :: "string option"
  svType :: string
  svSelector :: labels
  svPorts :: "ServicePort list"
  svClusterIP :: string

type_synonym policy_rule = "(string \<times> int) list"

record NetworkPolicy =
  npName :: string
  npLabels :: labels
  npOwnerRef :: "string option"
  npPodSelector :: labels
  npIngress :: "policy_rule list"
  npEgress :: "policy_rule list"
  npPolicyTypes :: "string list"

record Secret =
  seName :: string
  seLabels :: labels
  seOwnerRef :: "string option"
  seData :: labels

record ConfigMap =
  cmName :: string
  cmLabels :: labels
  cmOwnerRef :: "string option"
  cmData :: labels

datatype 'o lookup = Found 'o | NotFound | LookupError

datatype event = SvcNoAddress | SvcAddress string | TransferFailed | TransferStarted string

datatype mover_outcome = NoOutcome | OutcomeFailed | OutcomeSuccessful

text \<open>The cluster together with the status of the owner that the mover writes, and the events it has emitted.\<close>

record 's world =
  wCluster :: 's
  wAddress :: "string option"
  wKeySecret :: "string option"
  wLatest :: mover_outcome
  wEvents :: "event list"

record 's resources =
  rUpsertService :: "('s, Service) upsert"
  rServiceAddress :: "Service \<Rightarrow> string"
  rServiceTimeout :: int
  rUpsertPolicy :: "('s, NetworkPolicy) upsert"
  rValidateSecret :: "string \<Rightarrow> string list \<Rightarrow> 's \<Rightarrow> bool"
  rGetSecret :: "string \<Rightarrow> string \<Rightarrow> 's \<Rightarrow> Secret lookup"
  rCreateSecret :: "Secret \<Rightarrow> 's \<Rightarrow> 's option"
  rUpsertSecret :: "('s, Secret) upsert"
  rRandom :: "string option"
  rGetConfigMap :: "string \<Rightarrow> string \<Rightarrow> 's \<Rightarrow> ConfigMap lookup"
  rUpsertConfigMap :: "('s, ConfigMap) upsert"
  rGetStorageClass :: "string \<Rightarrow> 's \<Rightarrow> labels lookup"

subsection \<open>Service\<close>

definition grpcServerPortName :: string where "grpcServerPortName = ''grpc-server''"
definition ServiceTypeClusterIP :: string where "ServiceTypeClusterIP = ''ClusterIP''"
definition ProtocolTCP :: string where "ProtocolTCP = ''TCP''"

definition set_port :: "string \<Rightarrow> int \<Rightarrow> ServicePort \<Rightarrow> ServicePort" where
  "set_port n p sp = sp\<lparr>spName := n, spPort := p, spProtocol := ProtocolTCP, spTargetPort := p\<rparr>"

definition update_at :: "nat \<Rightarrow> ('a \<Rightarrow> 'a) \<Rightarrow> 'a list \<Rightarrow> 'a list" where
  "update_at i f xs = (if i < length xs then xs[i := f (xs ! i)] else xs)"

definition svc_Reconcile :: "utils \<Rightarrow> Mover \<Rightarrow> Service \<Rightarrow> Service option" where
  "svc_Reconcile u m sv =
     (case uSetControllerReference u (mvOwnerUID m) (svOwnerRef sv) of
        None \<Rightarrow> None
      | Some r \<Rightarrow>
          let portCount = (if mvMoverType m = MoverCephFS then 3 else 2);
              ports = (if length (svPorts sv) \<noteq> portCount then replicate portCount zero_port else svPorts sv);
              ports = update_at 0 (\<lambda>p. (set_port grpcServerPortName TLSPort p)\<lparr>spNodePort := 0\<rparr>) ports;
              ports = (if mvMoverType m = MoverCephFS then update_at 1 (set_port ''rsync-server'' RsyncStunnelPort) ports else ports);
              ports = update_at (portCount - 1) (set_port ''direct-tls'' DirectTLSPort) ports
          in Some (sv\<lparr>svOwnerRef := r, svLabels := snd (uSetOwnedByVolSync u (svLabels sv)), svType := ServiceTypeClusterIP,
                      svSelector := mvServiceSelector m, svPorts := ports\<rparr>))"

definition updateStatusAddress :: "Mover \<Rightarrow> string option \<Rightarrow> 's world \<Rightarrow> 's world" where
  "updateStatusAddress m address w =
     (let publishEvent = (\<not> mvIsSource m \<and>
            (case wAddress w of None \<Rightarrow> True | Some a \<Rightarrow> (case address of None \<Rightarrow> False | Some b \<Rightarrow> a \<noteq> b)));
          w1 = (if mvIsSource m then w else w\<lparr>wAddress := address\<rparr>)
      in case address of
           None \<Rightarrow> w1
         | Some a \<Rightarrow> if publishEvent then w1\<lparr>wEvents := wEvents w1 @ [SvcAddress a]\<rparr> else w1)"

definition publishSvcAddress :: "'s resources \<Rightarrow> int \<Rightarrow> Mover \<Rightarrow> Service \<Rightarrow> 's world \<Rightarrow> 's world \<times> bool" where
  "publishSvcAddress rc now m service w =
     (let address = rServiceAddress rc service in
      if address = ''''
      then let w1 = updateStatusAddress m None w in
           (if svCreated service + rServiceTimeout rc < now then w1\<lparr>wEvents := wEvents w1 @ [SvcNoAddress]\<rparr> else w1, False)
      else (updateStatusAddress m (Some address) w, True))"

definition service_name :: "Mover \<Rightarrow> string" where
  "service_name m = cephVolsyncPrefix @ mvDirection m @ ''-'' @ mvOwner m"

definition ensureServiceAndPublishAddress :: "'s resources \<Rightarrow> utils \<Rightarrow> int \<Rightarrow> Mover \<Rightarrow> ('s world, unit) step" where
  "ensureServiceAndPublishAddress rc u now m w =
     (if mvAddress m \<noteq> None \<or> mvIsSource m then (w, Inr (Some ()))
      else case rUpsertService rc (service_name m) (svc_Reconcile u m) (wCluster w) of
        None \<Rightarrow> (w, Inl ClientError)
      | Some (s1, service) \<Rightarrow>
          (case publishSvcAddress rc now m service (w\<lparr>wCluster := s1\<rparr>) of
             (w1, cont) \<Rightarrow> (w1, Inr (if cont then Some () else None))))"

subsection \<open>Network policy\<close>

definition tcpPort :: "int \<Rightarrow> string \<times> int" where
  "tcpPort p = (ProtocolTCP, p)"

definition destinationPorts :: "MoverType \<Rightarrow> policy_rule" where
  "destinationPorts t = (let ports = [tcpPort TLSPort, tcpPort DirectTLSPort] in
     if t = MoverCephFS then ports @ [tcpPort RsyncStunnelPort] else ports)"

definition policy_mutate :: "utils \<Rightarrow> Mover \<Rightarrow> NetworkPolicy \<Rightarrow> NetworkPolicy option" where
  "policy_mutate u m np =
     (case uSetControllerReference u (mvOwnerUID m) (npOwnerRef np) of
        None \<Rightarrow> None
      | Some r \<Rightarrow> Some (np\<lparr>npOwnerRef := r, npLabels := snd (uSetOwnedByVolSync u (npLabels np)),
          npPodSelector := mvServiceSelector m, npIngress := [destinationPorts (mvMoverType m)], npEgress := [[]],
          npPolicyTypes := [''Ingress'', ''Egress'']\<rparr>))"

definition ensureNetworkPolicy :: "'s resources \<Rightarrow> utils \<Rightarrow> Mover \<Rightarrow> ('s world, unit) step" where
  "ensureNetworkPolicy rc u m w =
     (if mvIsSource m then (w, Inr (Some ()))
      else case rUpsertPolicy rc (service_name m) (policy_mutate u m) (wCluster w) of
        None \<Rightarrow> (w, Inl ClientError)
      | Some (s1, _) \<Rightarrow> (w\<lparr>wCluster := s1\<rparr>, Inr (Some ())))"

subsection \<open>Secrets\<close>

definition pskFileName :: string where "pskFileName = ''psk.txt''"

definition updateStatusPSK :: "Mover \<Rightarrow> string \<Rightarrow> 's world \<Rightarrow> 's world" where
  "updateStatusPSK m n w = w\<lparr>wKeySecret := Some n\<rparr>"

definition psk_name :: "Mover \<Rightarrow> string" where "psk_name m = mvNamePrefix m @ mvOwner m"

text \<open>The parameter \<^verbatim>\<open>rRandom\<close> is the hexadecimal encoding of the 64 random bytes, or the failure to draw them.\<close>

definition new_key_secret :: "utils \<Rightarrow> Mover \<Rightarrow> string \<Rightarrow> Secret option" where
  "new_key_secret u m key =
     (case uSetControllerReference u (mvOwnerUID m) None of
        None \<Rightarrow> None
      | Some r \<Rightarrow> Some \<lparr>seName = psk_name m, seLabels = snd (uSetOwnedByVolSync u Map.empty), seOwnerRef = r,
                       seData = [pskFileName \<mapsto> ''volsync:'' @ key]\<rparr>)"

definition ensureSecrets :: "'s resources \<Rightarrow> utils \<Rightarrow> Mover \<Rightarrow> ('s world, string) step" where
  "ensureSecrets rc u m w =
     (case mvKey m of
        Some k \<Rightarrow> if rValidateSecret rc k [pskFileName] (wCluster w) then (w, Inr (Some k)) else (w, Inl BadKeySecret)
      | None \<Rightarrow>
          (case rGetSecret rc (mvNamespace m) (psk_name m) (wCluster w) of
             LookupError \<Rightarrow> (w, Inl ClientError)
           | Found _ \<Rightarrow> (updateStatusPSK m (psk_name m) w, Inr (Some (psk_name m)))
           | NotFound \<Rightarrow>
               (case rRandom rc of
                  None \<Rightarrow> (w, Inl RandError)
                | Some key \<Rightarrow>
                    (case new_key_secret u m key of
                       None \<Rightarrow> (w, Inl SetRefError)
                     | Some sec \<Rightarrow>
                         (case rCreateSecret rc sec (wCluster w) of
                            None \<Rightarrow> (w, Inl ClientError)
                          | Some s1 \<Rightarrow> (updateStatusPSK m (psk_name m) (w\<lparr>wCluster := s1\<rparr>), Inr (Some (psk_name m))))))))"

definition fetchCSIConfigData :: "'s resources \<Rightarrow> Mover \<Rightarrow> ('s world, labels) step" where
  "fetchCSIConfigData rc m w =
     (case rGetConfigMap rc (mvCsiConfigNamespace m) (mvCsiConfigName m) (wCluster w) of
        Found cm \<Rightarrow> (w, if cmData cm ''config.json'' = None then Inl NoConfigJson else Inr (Some (cmData cm)))
      | _ \<Rightarrow> (w, Inl NoCSIConfig))"

definition csi_config_map_name :: "Mover \<Rightarrow> string" where
  "csi_config_map_name m = mvNamePrefix m @ ''csi-config-'' @ mvDirection m @ ''-'' @ mvOwner m"

definition value_or_empty :: "labels \<Rightarrow> string \<Rightarrow> string" where
  "value_or_empty d k = (case d k of None \<Rightarrow> '''' | Some v \<Rightarrow> v)"

definition csi_config_data :: "labels \<Rightarrow> labels" where
  "csi_config_data d = (let data = [''config.json'' \<mapsto> value_or_empty d ''config.json''] in
     case d ''cluster-mapping.json'' of None \<Rightarrow> data | Some j \<Rightarrow> data(''cluster-mapping.json'' \<mapsto> j))"

definition ensureCephCSIConfigMap :: "'s resources \<Rightarrow> utils \<Rightarrow> Mover \<Rightarrow> labels \<Rightarrow> ('s world, string) step" where
  "ensureCephCSIConfigMap rc u m d w =
     (case rUpsertConfigMap rc (csi_config_map_name m)
        (\<lambda>cm. case uSetControllerReference u (mvOwnerUID m) (cmOwnerRef cm) of
           None \<Rightarrow> None
         | Some r \<Rightarrow> Some (cm\<lparr>cmOwnerRef := r, cmLabels := snd (uSetOwnedByVolSync u (cmLabels cm)), cmData := csi_config_data d\<rparr>)) (wCluster w) of
        None \<Rightarrow> (w, Inl ClientError)
      | Some (s1, _) \<Rightarrow> (w\<lparr>wCluster := s1\<rparr>, Inr (Some (csi_config_map_name m))))"

definition csi_secret_name :: "Mover \<Rightarrow> string" where
  "csi_secret_name m = mvNamePrefix m @ ''csi-secret-'' @ mvDirection m @ ''-'' @ mvOwner m"

definition secret_copy :: "utils \<Rightarrow> Mover \<Rightarrow> labels \<Rightarrow> Secret \<Rightarrow> Secret option" where
  "secret_copy u m orig sec =
     (case uSetControllerReference u (mvOwnerUID m) (seOwnerRef sec) of
        None \<Rightarrow> None
      | Some r \<Rightarrow> Some (sec\<lparr>seOwnerRef := r, seLabels := snd (uSetOwnedByVolSync u (seLabels sec)),
          seData := [''userID'' \<mapsto> value_or_empty orig ''userID'', ''userKey'' \<mapsto> value_or_empty orig ''userKey'']\<rparr>))"

definition go_bytes :: "string \<Rightarrow> bytes" where "go_bytes s = map of_char s"

definition ensureCephCSISecret :: "'s resources \<Rightarrow> utils \<Rightarrow> unmarshal \<Rightarrow> Mover \<Rightarrow> labels \<Rightarrow> string \<Rightarrow> ('s world, string) step" where
  "ensureCephCSISecret rc u um m d clusterID w =
     (case (if mvMoverType m = MoverRBD then GetRBDControllerPublishSecretRefFromData else GetCephFSControllerPublishSecretRefFromData)
             um (go_bytes (value_or_empty d ''config.json'')) clusterID of
        Inl _ \<Rightarrow> (w, Inl NoSecretRef)
      | Inr (secretName, secretNS) \<Rightarrow>
          (case rGetSecret rc secretNS secretName (wCluster w) of
             Found orig \<Rightarrow>
               (case rUpsertSecret rc (csi_secret_name m) (secret_copy u m (seData orig)) (wCluster w) of
                  None \<Rightarrow> (w, Inl ClientError)
                | Some (s1, _) \<Rightarrow> (w\<lparr>wCluster := s1\<rparr>, Inr (Some (csi_secret_name m))))
           | _ \<Rightarrow> (w, Inl NoCephSecret)))"

definition clusterIDFromStorageClass :: "'s resources \<Rightarrow> string option \<Rightarrow> ('s world, string) step" where
  "clusterIDFromStorageClass rc n w =
     (case n of
        None \<Rightarrow> (w, Inl NoStorageClass)
      | Some sc \<Rightarrow>
          (case rGetStorageClass rc sc (wCluster w) of
             Found params \<Rightarrow> (case params ''clusterID'' of None \<Rightarrow> (w, Inl NoClusterID) | Some c \<Rightarrow> (w, Inr (Some c)))
           | _ \<Rightarrow> (w, Inl ClientError)))"

subsection \<open>The policy admits what the service exposes\<close>

lemma list_of_2: "length xs = 2 \<Longrightarrow> \<exists>a b. xs = [a, b]" and list_of_3: "length xs = 3 \<Longrightarrow> \<exists>a b c. xs = [a, b, c]"
  by (auto simp: numeral_2_eq_2 numeral_3_eq_3 length_Suc_conv)

lemma port_count_list:
  "\<exists>a b. (if length ps \<noteq> 2 then replicate 2 zero_port else ps) = [a, b]"
  "\<exists>a b c. (if length ps \<noteq> 3 then replicate 3 zero_port else ps) = [a, b, c]"
  using list_of_2 [of ps] list_of_3 [of ps] by (auto simp: numeral_2_eq_2 numeral_3_eq_3)

lemma svc_Reconcile_ports:
  assumes "svc_Reconcile u m sv = Some sv'"
  shows "mvMoverType m = MoverRBD \<Longrightarrow> \<exists>a b. svPorts sv' = [(set_port grpcServerPortName TLSPort a)\<lparr>spNodePort := 0\<rparr>, set_port ''direct-tls'' DirectTLSPort b]"
    and "mvMoverType m = MoverCephFS \<Longrightarrow> \<exists>a b c. svPorts sv' = [(set_port grpcServerPortName TLSPort a)\<lparr>spNodePort := 0\<rparr>,
      set_port ''rsync-server'' RsyncStunnelPort b, set_port ''direct-tls'' DirectTLSPort c]"
proof -
  assume t: "mvMoverType m = MoverRBD"
  obtain a b where p: "(if length (svPorts sv) \<noteq> 2 then replicate 2 zero_port else svPorts sv) = [a, b]" using port_count_list(1) by blast
  show "\<exists>a b. svPorts sv' = [(set_port grpcServerPortName TLSPort a)\<lparr>spNodePort := 0\<rparr>, set_port ''direct-tls'' DirectTLSPort b]"
    using assms t by (auto simp: svc_Reconcile_def Let_def p update_at_def split: option.splits)
next
  assume t: "mvMoverType m = MoverCephFS"
  obtain a b c where p: "(if length (svPorts sv) \<noteq> 3 then replicate 3 zero_port else svPorts sv) = [a, b, c]" using port_count_list(2) by blast
  show "\<exists>a b c. svPorts sv' = [(set_port grpcServerPortName TLSPort a)\<lparr>spNodePort := 0\<rparr>,
      set_port ''rsync-server'' RsyncStunnelPort b, set_port ''direct-tls'' DirectTLSPort c]"
    using assms t by (auto simp: svc_Reconcile_def Let_def p update_at_def split: option.splits)
qed

lemma port_numbers: "distinct [TLSPort, DirectTLSPort, RsyncStunnelPort]"
  by (simp add: TLSPort_def DirectTLSPort_def RsyncStunnelPort_def)

text \<open>
  C31: whatever the two objects looked like before, after a reconciliation the network policy admits exactly the ports that the service exposes,
  on the pods the service selects; the ports of the service are distinct and lead to the container port of the same number.
\<close>

theorem policy_matches_service:
  assumes "svc_Reconcile u m sv = Some sv'" "policy_mutate u m np = Some np'"
  shows "\<exists>rule. npIngress np' = [rule] \<and> set (map (\<lambda>p. (spProtocol p, spPort p)) (svPorts sv')) = set rule \<and>
    svSelector sv' = npPodSelector np' \<and> distinct (map spPort (svPorts sv')) \<and> distinct (map spName (svPorts sv')) \<and>
    (\<forall>p \<in> set (svPorts sv'). spTargetPort p = spPort p)"
proof -
  have np: "npIngress np' = [destinationPorts (mvMoverType m)]" "npPodSelector np' = mvServiceSelector m"
    using assms(2) by (auto simp: policy_mutate_def split: option.splits)
  have sel: "svSelector sv' = mvServiceSelector m" using assms(1) by (auto simp: svc_Reconcile_def Let_def split: option.splits)
  show ?thesis
  proof (cases "mvMoverType m")
    case MoverRBD
    then show ?thesis using svc_Reconcile_ports(1) [OF assms(1) MoverRBD] port_numbers
      by (auto simp: np sel destinationPorts_def tcpPort_def set_port_def grpcServerPortName_def)
  next
    case MoverCephFS
    then show ?thesis using svc_Reconcile_ports(2) [OF assms(1) MoverCephFS] port_numbers
      by (auto simp: np sel destinationPorts_def tcpPort_def set_port_def grpcServerPortName_def)
  qed
qed

definition sample_service :: Service where
  "sample_service = \<lparr>svName = ''s'', svCreated = 1, svLabels = Map.empty, svOwnerRef = None, svType = ''NodePort'', svSelector = Map.empty,
     svPorts = [zero_port], svClusterIP = ''10.0.0.1''\<rparr>"

definition sample_policy :: NetworkPolicy where
  "sample_policy = \<lparr>npName = ''s'', npLabels = Map.empty, npOwnerRef = None, npPodSelector = Map.empty, npIngress = [], npEgress = [],
     npPolicyTypes = []\<rparr>"

theorem policy_matches_service_witness:
  "\<exists>rule. npIngress (the (policy_mutate label_utils sample_mover sample_policy)) = [rule] \<and>
     set (map (\<lambda>p. (spProtocol p, spPort p)) (svPorts (the (svc_Reconcile label_utils sample_mover sample_service)))) = set rule"
proof -
  have "svc_Reconcile label_utils sample_mover sample_service = Some (the (svc_Reconcile label_utils sample_mover sample_service))"
    by (simp add: svc_Reconcile_def label_utils_def sample_service_def)
  moreover have "policy_mutate label_utils sample_mover sample_policy = Some (the (policy_mutate label_utils sample_mover sample_policy))"
    by (simp add: policy_mutate_def label_utils_def sample_policy_def)
  ultimately show ?thesis by (auto dest: policy_matches_service)
qed

subsection \<open>The key of the tunnel\<close>

text \<open>
  Once a reconciliation has returned the name of the key secret, later ones return the same name and leave the cluster alone, whatever the
  random source would give them: a key is generated at most once and never replaced.
\<close>

theorem key_stable:
  assumes create: "\<And>sec s s'. rCreateSecret rc sec s = Some s' \<Longrightarrow> rGetSecret rc (mvNamespace m) (seName sec) s' = Found sec"
    and run: "ensureSecrets rc u m w = (w1, Inr (Some n))"
  shows "\<exists>w2. ensureSecrets (rc\<lparr>rRandom := r\<rparr>) u m w1 = (w2, Inr (Some n)) \<and> wCluster w2 = wCluster w1"
proof (cases "mvKey m")
  case (Some k)
  then show ?thesis using run by (auto simp: ensureSecrets_def split: if_splits)
next
  case None
  then have "n = psk_name m" "\<exists>sec. rGetSecret rc (mvNamespace m) (psk_name m) (wCluster w1) = Found sec"
    using run create by (auto simp: ensureSecrets_def new_key_secret_def updateStatusPSK_def split: lookup.splits option.splits)
       (metis Secret.select_convs(1))+
  then show ?thesis using None by (auto simp: ensureSecrets_def updateStatusPSK_def)
qed

text \<open>A cluster that keeps secrets in a map, for the witness.\<close>

definition secret_store :: "(string \<rightharpoonup> Secret) resources" where
  "secret_store = \<lparr>rUpsertService = (\<lambda>_ _ _. None), rServiceAddress = svClusterIP, rServiceTimeout = 300, rUpsertPolicy = (\<lambda>_ _ _. None),
     rValidateSecret = (\<lambda>_ _ _. True), rGetSecret = (\<lambda>_ n s. case s n of None \<Rightarrow> NotFound | Some x \<Rightarrow> Found x),
     rCreateSecret = (\<lambda>sec s. if s (seName sec) = None then Some (s(seName sec \<mapsto> sec)) else None),
     rUpsertSecret = (\<lambda>_ _ _. None), rRandom = Some ''00'', rGetConfigMap = (\<lambda>_ _ _. NotFound),
     rUpsertConfigMap = (\<lambda>_ _ _. None), rGetStorageClass = (\<lambda>_ _. NotFound)\<rparr>"

definition empty_world :: "(string \<rightharpoonup> Secret) world" where
  "empty_world = \<lparr>wCluster = Map.empty, wAddress = None, wKeySecret = None, wLatest = NoOutcome, wEvents = []\<rparr>"

lemma sample_mover_key [simp]: "mvKey sample_mover = None"
  by (simp add: sample_mover_def)

theorem key_stable_witness:
  "\<exists>w2. ensureSecrets (secret_store\<lparr>rRandom := Some ''ff''\<rparr>) label_utils sample_mover
      (fst (ensureSecrets secret_store label_utils sample_mover empty_world)) = (w2, Inr (Some (psk_name sample_mover))) \<and>
     wCluster w2 = wCluster (fst (ensureSecrets secret_store label_utils sample_mover empty_world))"
proof (rule key_stable)
  show "rGetSecret secret_store (mvNamespace sample_mover) (seName sec) s' = Found sec" if "rCreateSecret secret_store sec s = Some s'" for sec s s'
    using that by (auto simp: secret_store_def split: if_splits)
  show "ensureSecrets secret_store label_utils sample_mover empty_world =
      (fst (ensureSecrets secret_store label_utils sample_mover empty_world), Inr (Some (psk_name sample_mover)))"
    by (simp add: ensureSecrets_def secret_store_def empty_world_def new_key_secret_def label_utils_def)
qed

text \<open>
  The key secret of one owner can have the name of the credentials secret of another: the names share a prefix and differ only by
  what an owner's name may itself start with.
\<close>

lemma psk_name_collision:
  assumes "mvNamePrefix m1 = mvNamePrefix m2" "mvOwner m1 = ''csi-secret-'' @ mvDirection m2 @ ''-'' @ mvOwner m2"
  shows "psk_name m1 = csi_secret_name m2"
  using assms by (simp add: psk_name_def csi_secret_name_def)

end
