(* ===== verification/Strconv.thy ===== *)
theory Strconv
  imports Prelude
begin

section \<open>Decimal numbers as text (strconv.Itoa, strconv.Atoi)\<close>

text \<open>
  The ports and process ids that travel between the mover, the worker and stunnel in environment variables and
  files.  \<^verbatim>\<open>Atoi\<close> takes an optional sign and decimal digits and fails on anything else, and on numbers that do not fit
  into 64 bits; it inverts \<^verbatim>\<open>Itoa\<close>.
\<close>

definition digit_char :: "nat \<Rightarrow> char" where "digit_char d = char_of (48 + d)"

definition char_digit :: "char \<Rightarrow> nat option" where
  "char_digit c = (let n = of_char c :: nat in if 48 \<le> n \<and> n \<le> 57 then Some (n - 48) else None)"

fun nat_digits :: "nat \<Rightarrow> string" where
  "nat_digits n = (if n < 10 then [digit_char n] else nat_digits (n div 10) @ [digit_char (n mod 10)])"

declare nat_digits.simps [simp del]

definition Itoa :: "int \<Rightarrow> string" where
  "Itoa i = (if i < 0 then CHR ''-'' # nat_digits (nat (- i)) else nat_digits (nat i))"

fun digits_value :: "nat \<Rightarrow> string \<Rightarrow> nat option" where
  "digits_value acc [] = Some acc"
| "digits_value acc (c # cs) = (case char_digit c of None \<Rightarrow> None | Some d \<Rightarrow> digits_value (10 * acc + d) cs)"

definition Atoi :: "string \<Rightarrow> int option" where
  "Atoi s = (let (neg, ds) = (case s of [] \<Rightarrow> (False, []) | c # cs \<Rightarrow> if c = CHR ''-'' then (True, cs) else if c = CHR ''+'' then (False, cs) else (False, s)) in
     if ds = [] then None
     else case digits_value 0 ds of
       None \<Rightarrow> None
     | Some n \<Rightarrow> let i = (if neg then - int n else int n) in if - (2 ^ 63) \<le> i \<and> i < 2 ^ 63 then Some i else None)"

lemma char_digit_digit [simp]: "d < 10 \<Longrightarrow> char_digit (digit_char d) = Some d"
  by (simp add: char_digit_def digit_char_def Let_def of_char_of)

lemma digits_value_append: "digits_value acc (xs @ ys) = (case digits_value acc xs of None \<Rightarrow> None | Some a \<Rightarrow> digits_value a ys)"
  by (induction xs arbitrary: acc) (auto split: option.splits)

lemma digits_value_nat_digits: "digits_value 0 (nat_digits n) = Some n"
proof (induction n rule: nat_digits.induct)
  case (1 n)
  then show ?case by (subst nat_digits.simps) (simp add: digits_value_append)
qed

lemma nat_digits_first: "\<exists>d cs. nat_digits n = digit_char d # cs \<and> d < 10"
proof (induction n rule: nat_digits.induct)
  case (1 n)
  show ?case
  proof (cases "n < 10")
    case True
    then show ?thesis by (subst nat_digits.simps) auto
  next
    case False
    then obtain d cs where "nat_digits (n div 10) = digit_char d # cs" "d < 10" using 1 by blast
    then show ?thesis using False by (subst nat_digits.simps) auto
  qed
qed

lemma digit_char_not_sign: "d < 10 \<Longrightarrow> digit_char d \<noteq> CHR ''-''" "d < 10 \<Longrightarrow> digit_char d \<noteq> CHR ''+''"
  using char_digit_digit [of d] by (auto simp: char_digit_def)

lemma Atoi_Itoa: "- (2 ^ 63) \<le> i \<Longrightarrow> i < 2 ^ 63 \<Longrightarrow> Atoi (Itoa i) = Some i"
proof -
  assume i: "- (2 ^ 63) \<le> i" "i < 2 ^ 63"
  obtain d cs where f: "nat_digits (nat \<bar>i\<bar>) = digit_char d # cs" "d < 10" using nat_digits_first by blast
  have v: "digits_value 0 (digit_char d # cs) = Some (nat \<bar>i\<bar>)" using digits_value_nat_digits f(1) by metis
  show ?thesis
  proof (cases "i < 0")
    case True
    then have "nat_digits (nat (- i)) = digit_char d # cs" using f by simp
    then show ?thesis using True i v by (simp add: Atoi_def Itoa_def del: digits_value.simps)
  next
    case False
    then have "nat_digits (nat i) = digit_char d # cs" using f by simp
    then show ?thesis using False i v digit_char_not_sign [OF f(2)] by (simp add: Atoi_def Itoa_def del: digits_value.simps)
  qed
qed

lemma Itoa_inj: "- (2 ^ 63) \<le> i \<Longrightarrow> i < 2 ^ 63 \<Longrightarrow> - (2 ^ 63) \<le> j \<Longrightarrow> j < 2 ^ 63 \<Longrightarrow> Itoa i = Itoa j \<longleftrightarrow> i = j"
  by (metis Atoi_Itoa option.inject)

lemma Itoa_nonempty: "Itoa i \<noteq> []"
  using nat_digits_first [of "nat i"] by (auto simp: Itoa_def)

end
