(* ===== verification/Mover_Job.thy ===== *)
theory Mover_Job
  imports Mover_Resources Strconv
begin

section \<open>The job that runs a worker (internal/mover/ceph/job.go)\<close>

text \<open>
  The pod that \<^verbatim>\<open>ensureJob\<close> builds, field by field, and what the function does with the result of the call that stores
  it.  The mutate function reads the cluster (\<^verbatim>\<open>getVolumeEnvVars\<close>), may fail half-way and may panic, so it returns
  \<^verbatim>\<open>None\<close> for a panic and otherwise the object as far as it got with the error.  The lemmas say that the pod is well formed,
  which jobs are handed on, and when the function panics.
\<close>

subsection \<open>Objects\<close>

datatype env_value = Value string | FieldRef string

type_synonym env = "(string \<times> env_value) list"

record VolumeMount =
  vmName :: string
  vmPath :: string
  vmReadOnly :: bool

datatype VolumeSource = PVCSource string bool | SecretSource string int | EmptyDir bool | ConfigMapSource string

record Container =
  cnName :: string
  cnEnv :: env
  cnImage :: string
  cnAllowPrivilegeEscalation :: bool
  cnDrop :: "string list"
  cnAdd :: "string list"
  cnPrivileged :: bool
  cnReadOnlyRoot :: bool
  cnRunAsUser :: int
  cnMounts :: "VolumeMount list"
  cnDevices :: "(string \<times> string) list"

record PodSpec =
  poContainers :: "Container list"
  poRestartPolicy :: string
  poHostNetwork :: bool
  poDNSPolicy :: string
  poFSGroupChangePolicy :: "string option"
  poSELinuxType :: "string option"
  poServiceAccount :: string
  poVolumes :: "(string \<times> VolumeSource) list"
  poNodeSelector :: labels
  poTolerations :: "string list"

record PodTemplate =
  ptName :: string
  ptLabels :: labels
  ptSpec :: PodSpec

record Job =
  jbName :: string
  jbLabels :: labels
  jbOwnerRef :: "string option"
  jbTemplate :: PodTemplate
  jbBackoffLimit :: "int option"
  jbParallelism :: "int option"
  jbFailed :: int
  jbSucceeded :: int

datatype upsert_op = OpNone | OpCreated | OpUpdated

text \<open>
  The calls of VolSync and of the API server that the job needs.  \<^verbatim>\<open>jUpsert\<close> is \<^verbatim>\<open>CreateOrUpdateDeleteOnImmutableErr\<close>: it returns the object
  in whatever state it is, the error and the operation, and \<^verbatim>\<open>None\<close> if the mutate function panicked.
\<close>

record 's jobs =
  jUpsert :: "string \<Rightarrow> (Job \<Rightarrow> (Job \<times> mover_error option) option) \<Rightarrow> 's \<Rightarrow> ('s \<times> Job \<times> mover_error option \<times> upsert_op) option"
  jDelete :: "Job \<Rightarrow> 's \<Rightarrow> 's option"
  jAffinity :: "PVC \<Rightarrow> 's \<Rightarrow> (labels \<times> string list) option"
  jAddAllLabels :: "labels \<Rightarrow> labels \<Rightarrow> labels"
  jUpdateTemplate :: "PodTemplate \<Rightarrow> PodTemplate"
  jAppendDebug :: "env \<Rightarrow> env"
  jPvcIsBlockMode :: "PVC \<Rightarrow> bool"
  jPvcIsReadOnly :: "PVC \<Rightarrow> bool"

subsection \<open>The environment of the container\<close>

definition WorkerSource :: string where "WorkerSource = ''source''"
definition WorkerDestination :: string where "WorkerDestination = ''destination''"
definition EnvMoverType :: string where "EnvMoverType = ''MOVER_TYPE''"
definition EnvWorkerType :: string where "EnvWorkerType = ''WORKER_TYPE''"
definition EnvDestinationPort :: string where "EnvDestinationPort = ''DESTINATION_PORT''"
definition EnvLogLevel :: string where "EnvLogLevel = ''LOG_LEVEL''"
definition EnvPodNamespace :: string where "EnvPodNamespace = ''POD_NAMESPACE''"
definition EnvDestinationAddress :: string where "EnvDestinationAddress = ''DESTINATION_ADDRESS''"
definition EnvPrivilegedMover :: string where "EnvPrivilegedMover = ''PRIVILEGED_MOVER''"

definition server_port :: "Mover \<Rightarrow> string" where
  "server_port m = (case mvPort m of None \<Rightarrow> Itoa TLSPort | Some p \<Rightarrow> Itoa p)"

definition job_env :: "Mover \<Rightarrow> env" where
  "job_env m =
     [(EnvWorkerType, Value (if mvIsSource m then WorkerSource else WorkerDestination)),
      (EnvDestinationPort, Value (server_port m)),
      (EnvLogLevel, Value ''info''),
      (EnvMoverType, Value (mover_type_name (mvMoverType m))),
      (EnvPodNamespace, FieldRef ''metadata.namespace'')] @
     (if mvIsSource m then (case mvAddress m of None \<Rightarrow> [] | Some a \<Rightarrow> [(EnvDestinationAddress, Value a)]) else [])"

subsection \<open>The pod\<close>

definition dataVolumeName :: string where "dataVolumeName = ''data''"
definition defaultCSIConfigName :: string where "defaultCSIConfigName = ''ceph-csi-config''"
definition csiSecretVolumeName :: string where "csiSecretVolumeName = ''ceph-csi-secret''"
definition csiConfigMountPath :: string where "csiConfigMountPath = ''/etc/ceph-csi-config''"
definition CsiSecretMountPath :: string where "CsiSecretMountPath = ''/etc/ceph-csi-secret''"
definition DataMountPath :: string where "DataMountPath = ''/data''"
definition DevicePath :: string where "DevicePath = ''/dev/block''"

definition mount :: "string \<Rightarrow> string \<Rightarrow> bool \<Rightarrow> VolumeMount" where
  "mount n p ro = \<lparr>vmName = n, vmPath = p, vmReadOnly = ro\<rparr>"

definition job_mounts :: "bool \<Rightarrow> VolumeMount list" where
  "job_mounts blockVolume =
     (if blockVolume then [] else [mount dataVolumeName DataMountPath False]) @
     [mount ''keys'' ''/keys'' False, mount ''tempdir'' ''/tmp'' False, mount ''ceph-config'' ''/etc/ceph'' False,
      mount defaultCSIConfigName csiConfigMountPath True, mount csiSecretVolumeName CsiSecretMountPath True]"

definition job_volumes :: "string \<Rightarrow> bool \<Rightarrow> string \<Rightarrow> string \<Rightarrow> string \<Rightarrow> (string \<times> VolumeSource) list" where
  "job_volumes claim ro psk cm sec =
     [(dataVolumeName, PVCSource claim ro),
      (''keys'', SecretSource psk 384),
      (''tempdir'', EmptyDir True),
      (''ceph-config'', EmptyDir False),
      (defaultCSIConfigName, ConfigMapSource cm),
      (csiSecretVolumeName, SecretSource sec 384)]"

definition job_container :: "Mover \<Rightarrow> env \<Rightarrow> bool \<Rightarrow> Container" where
  "job_container m e blockVolume =
     \<lparr>cnName = mvContainerName m, cnEnv = e, cnImage = mvContainerImage m, cnAllowPrivilegeEscalation = True, cnDrop = [''ALL''], cnAdd = [],
      cnPrivileged = False, cnReadOnlyRoot = True, cnRunAsUser = 0, cnMounts = job_mounts blockVolume,
      cnDevices = (if blockVolume then [(dataVolumeName, DevicePath)] else [])\<rparr>"

definition job_pod :: "'s jobs \<Rightarrow> Mover \<Rightarrow> PVC \<Rightarrow> string \<Rightarrow> string \<Rightarrow> string \<Rightarrow> string \<Rightarrow> env \<Rightarrow> PodSpec \<Rightarrow> PodSpec" where
  "job_pod jc m dataPVC sa psk cm sec e po =
     (let po1 = po\<lparr>poContainers := [job_container m e (jPvcIsBlockMode jc dataPVC)], poRestartPolicy := ''Never''\<rparr>;
          po2 = (if mvIsSource m then po1\<lparr>poHostNetwork := True, poDNSPolicy := ''ClusterFirstWithHostNet''\<rparr> else po1)
      in po2\<lparr>poFSGroupChangePolicy := Some ''OnRootMismatch'', poSELinuxType := Some ''spc_t'', poServiceAccount := sa,
            poVolumes := job_volumes (pvcName dataPVC) (mvIsSource m \<and> jPvcIsReadOnly jc dataPVC) psk cm sec\<rparr>)"

definition privileged_container :: "Mover \<Rightarrow> Container \<Rightarrow> Container" where
  "privileged_container m c =
     (if mvPrivileged m
      then c\<lparr>cnEnv := cnEnv c @ [(EnvPrivilegedMover, Value ''1'')],
             cnAdd := [''DAC_OVERRIDE'', ''CHOWN'', ''FOWNER'', ''SETGID''], cnRunAsUser := 0\<rparr>
      else c\<lparr>cnEnv := cnEnv c @ [(EnvPrivilegedMover, Value ''0'')]\<rparr>)"

text \<open>What follows the affinity: the configured template changes, then the privileges and the debug variable of the first container.\<close>

definition job_finish :: "'s jobs \<Rightarrow> Mover \<Rightarrow> PodTemplate \<Rightarrow> PodTemplate" where
  "job_finish jc m pt0 =
     (let pt = jUpdateTemplate jc pt0; po = ptSpec pt in
      pt\<lparr>ptSpec := po\<lparr>poContainers := update_at 0
            (\<lambda>c. let c1 = privileged_container m c in c1\<lparr>cnEnv := jAppendDebug jc (cnEnv c1)\<rparr>) (poContainers po)\<rparr>\<rparr>)"

definition job_mutate ::
  "'s client \<Rightarrow> 's jobs \<Rightarrow> utils \<Rightarrow> Mover \<Rightarrow> PVC \<Rightarrow> string \<Rightarrow> string \<Rightarrow> string \<Rightarrow> string \<Rightarrow> 's \<Rightarrow> Job \<Rightarrow> (Job \<times> mover_error option) option" where
  "job_mutate cl jc u m dataPVC sa psk cm sec s job =
     (case uSetControllerReference u (mvOwnerUID m) (jbOwnerRef job) of
        None \<Rightarrow> Some (job, Some SetRefError)
      | Some r \<Rightarrow>
          let pt1 = (jbTemplate job)\<lparr>ptName := jbName job,
                ptLabels := snd (uSetOwnedByVolSync u (jAddAllLabels jc (mvServiceSelector m) (ptLabels (jbTemplate job))))\<rparr>;
              job1 = job\<lparr>jbOwnerRef := r, jbLabels := snd (uMarkForCleanup u (mvOwnerUID m) (snd (uSetOwnedByVolSync u (jbLabels job)))),
                jbTemplate := pt1, jbBackoffLimit := Some 2, jbParallelism := Some (if mvPaused m then 0 else 1)\<rparr>
          in case getVolumeEnvVars cl m dataPVC s of
               None \<Rightarrow> None
             | Some (Inl _) \<Rightarrow> Some (job1, Some VolumeEnvError)
             | Some (Inr volumeEnv) \<Rightarrow>
                 let po = job_pod jc m dataPVC sa psk cm sec (job_env m @ map (\<lambda>(n, v). (n, Value v)) volumeEnv) (ptSpec pt1) in
                 if mvDirect m
                 then case jAffinity jc dataPVC s of
                        None \<Rightarrow> Some (job1\<lparr>jbTemplate := pt1\<lparr>ptSpec := po\<rparr>\<rparr>, Some AffinityError)
                      | Some (sel, tol) \<Rightarrow>
                          Some (job1\<lparr>jbTemplate := job_finish jc m (pt1\<lparr>ptSpec := po\<lparr>poNodeSelector := sel, poTolerations := tol\<rparr>\<rparr>)\<rparr>, None)
                 else Some (job1\<lparr>jbTemplate := job_finish jc m (pt1\<lparr>ptSpec := po\<rparr>)\<rparr>, None))"

subsection \<open>Reconciling the job\<close>

definition job_name :: "Mover \<Rightarrow> string" where
  "job_name m = mvNamePrefix m @ mvDirection m @ ''-'' @ mvOwner m"

definition job_failed :: "'s jobs \<Rightarrow> Job \<Rightarrow> ('s world, Job) step" where
  "job_failed jc job w =
     (let w1 = w\<lparr>wLatest := OutcomeFailed, wEvents := wEvents w @ [TransferFailed]\<rparr> in
      case jDelete jc job (wCluster w1) of
        None \<Rightarrow> (w1, Inl ClientError)
      | Some s2 \<Rightarrow> (w1\<lparr>wCluster := s2\<rparr>, Inr None))"

definition ensureJob ::
  "'s client \<Rightarrow> 's jobs \<Rightarrow> utils \<Rightarrow> Mover \<Rightarrow> PVC \<Rightarrow> string \<Rightarrow> string \<Rightarrow> string \<Rightarrow> string \<Rightarrow> ('s world, Job) step" where
  "ensureJob cl jc u m dataPVC sa psk cm sec w =
     (case jUpsert jc (job_name m) (job_mutate cl jc u m dataPVC sa psk cm sec (wCluster w)) (wCluster w) of
        None \<Rightarrow> (w, Inl NilDereference)
      | Some (s1, job, err, op) \<Rightarrow>
          let w1 = w\<lparr>wCluster := s1\<rparr> in
          case jbBackoffLimit job of
            None \<Rightarrow> (w1, Inl NilDereference)
          | Some backoffLimit \<Rightarrow>
              if backoffLimit \<le> jbFailed job then job_failed jc job w1
              else case err of
                Some e \<Rightarrow> (w1, Inl e)
              | None \<Rightarrow>
                  let w2 = (if op = OpCreated
                            then w1\<lparr>wEvents := wEvents w1 @ [TransferStarted (if mvIsSource m then ''transmit'' else ''receive'')]\<rparr> else w1)
                  in if jbSucceeded job = 0 then (w2, Inr None)
                     else (w2\<lparr>wLatest := OutcomeSuccessful\<rparr>, Inr (Some job)))"

subsection \<open>The pod is well formed\<close>

text \<open>What the code relies on when VolSync applies the configured changes: they touch neither the volumes nor what a container mounts.\<close>

definition template_ok :: "'s jobs \<Rightarrow> bool" where
  "template_ok jc \<longleftrightarrow> (\<forall>pt. poVolumes (ptSpec (jUpdateTemplate jc pt)) = poVolumes (ptSpec pt) \<and>
     map (\<lambda>c. (cnMounts c, cnDevices c)) (poContainers (ptSpec (jUpdateTemplate jc pt))) =
     map (\<lambda>c. (cnMounts c, cnDevices c)) (poContainers (ptSpec pt)))"

lemma privileged_container_mounts [simp]:
  "cnMounts (privileged_container m c) = cnMounts c" "cnDevices (privileged_container m c) = cnDevices c"
  by (simp_all add: privileged_container_def)

lemma job_finish_mounts:
  assumes "template_ok jc" "poContainers (ptSpec pt) = [c]"
  shows "poVolumes (ptSpec (job_finish jc m pt)) = poVolumes (ptSpec pt) \<and>
    (\<exists>d. poContainers (ptSpec (job_finish jc m pt)) = [d] \<and> cnMounts d = cnMounts c \<and> cnDevices d = cnDevices c)"
proof -
  have "map (\<lambda>c. (cnMounts c, cnDevices c)) (poContainers (ptSpec (jUpdateTemplate jc pt))) = [(cnMounts c, cnDevices c)]"
    using assms by (simp add: template_ok_def)
  then obtain d where "poContainers (ptSpec (jUpdateTemplate jc pt)) = [d]" "cnMounts d = cnMounts c" "cnDevices d = cnDevices c"
    by auto
  then show ?thesis using assms(1) by (simp add: job_finish_def Let_def update_at_def template_ok_def)
qed

lemma job_pod_mounts:
  "poVolumes (job_pod jc m p sa psk cm sec e po) = job_volumes (pvcName p) (mvIsSource m \<and> jPvcIsReadOnly jc p) psk cm sec"
  "poContainers (job_pod jc m p sa psk cm sec e po) = [job_container m e (jPvcIsBlockMode jc p)]"
  by (simp_all add: job_pod_def Let_def)

lemma job_mutate_pod:
  assumes "template_ok jc" "job_mutate cl jc u m p sa psk cm sec s job = Some (job', None)"
  obtains c where "poVolumes (ptSpec (jbTemplate job')) = job_volumes (pvcName p) (mvIsSource m \<and> jPvcIsReadOnly jc p) psk cm sec"
    "poContainers (ptSpec (jbTemplate job')) = [c]" "cnMounts c = job_mounts (jPvcIsBlockMode jc p)"
    "cnDevices c = (if jPvcIsBlockMode jc p then [(dataVolumeName, DevicePath)] else [])"
proof -
  obtain pt c where j: "jbTemplate job' = job_finish jc m pt"
    "poVolumes (ptSpec pt) = job_volumes (pvcName p) (mvIsSource m \<and> jPvcIsReadOnly jc p) psk cm sec"
    "poContainers (ptSpec pt) = [c]" "cnMounts c = job_mounts (jPvcIsBlockMode jc p)"
    "cnDevices c = (if jPvcIsBlockMode jc p then [(dataVolumeName, DevicePath)] else [])"
    using assms(2) by (fastforce simp: job_mutate_def Let_def job_pod_mounts job_container_def split: option.splits sum.splits if_splits prod.splits)
  then show thesis using job_finish_mounts [OF assms(1) j(3), of m] that by auto
qed

lemma volume_names: "distinct [dataVolumeName, ''keys'', ''tempdir'', ''ceph-config'', defaultCSIConfigName, csiSecretVolumeName]"
  by (simp add: dataVolumeName_def defaultCSIConfigName_def csiSecretVolumeName_def)

text \<open>
  C32: a job that the mover stores without an error is well formed: its pod has one container, which mounts exactly the volumes the pod declares, each at a
  path of its own; the data volume is a file system at /data unless the claim has block mode, and then the device /dev/block.
\<close>

theorem job_well_formed:
  assumes "template_ok jc" "job_mutate cl jc u m p sa psk cm sec s job = Some (job', None)"
  shows "\<exists>c. poContainers (ptSpec (jbTemplate job')) = [c] \<and> distinct (map fst (poVolumes (ptSpec (jbTemplate job')))) \<and>
    vmName ` set (cnMounts c) \<union> fst ` set (cnDevices c) = fst ` set (poVolumes (ptSpec (jbTemplate job'))) \<and>
    distinct (map vmName (cnMounts c) @ map fst (cnDevices c)) \<and> distinct (map vmPath (cnMounts c) @ map snd (cnDevices c)) \<and>
    (if jPvcIsBlockMode jc p then (dataVolumeName, DevicePath) \<in> set (cnDevices c) else mount dataVolumeName DataMountPath False \<in> set (cnMounts c))"
proof -
  obtain c where "poVolumes (ptSpec (jbTemplate job')) = job_volumes (pvcName p) (mvIsSource m \<and> jPvcIsReadOnly jc p) psk cm sec"
    "poContainers (ptSpec (jbTemplate job')) = [c]" "cnMounts c = job_mounts (jPvcIsBlockMode jc p)"
    "cnDevices c = (if jPvcIsBlockMode jc p then [(dataVolumeName, DevicePath)] else [])"
    by (rule job_mutate_pod [OF assms])
  moreover have "distinct [DataMountPath, ''/keys'', ''/tmp'', ''/etc/ceph'', csiConfigMountPath, CsiSecretMountPath, DevicePath]"
    by (simp add: DataMountPath_def csiConfigMountPath_def CsiSecretMountPath_def DevicePath_def)
  ultimately show ?thesis using volume_names by (auto simp: job_volumes_def job_mounts_def mount_def)
qed

subsection \<open>What is handed on\<close>

lemma ensureJob_SomeD:
  assumes "ensureJob cl jc u m p sa psk cm sec w = (w', Inr (Some job))"
  obtains s1 op lim where "jUpsert jc (job_name m) (job_mutate cl jc u m p sa psk cm sec (wCluster w)) (wCluster w) = Some (s1, job, None, op)"
    "jbBackoffLimit job = Some lim" "jbFailed job < lim" "jbSucceeded job \<noteq> 0" "wLatest w' = OutcomeSuccessful" "wCluster w' = s1"
  using assms that
  by (auto simp: ensureJob_def job_failed_def Let_def split: option.splits prod.splits if_splits)

lemma ensureJob_failed:
  assumes "jUpsert jc (job_name m) (job_mutate cl jc u m p sa psk cm sec (wCluster w)) (wCluster w) = Some (s1, job, err, op)"
    and "jbBackoffLimit job = Some lim" "lim \<le> jbFailed job"
  shows "ensureJob cl jc u m p sa psk cm sec w = job_failed jc job (w\<lparr>wCluster := s1\<rparr>)"
  using assms by (simp add: ensureJob_def)

text \<open>
  When the call that stores the job fails before it has read one (the API server does not answer), the object is still the one the code
  made up: it has no backoff limit, and the check for a failed job dereferences it.
\<close>

lemma ensureJob_lost_error:
  assumes "jUpsert jc (job_name m) (job_mutate cl jc u m p sa psk cm sec (wCluster w)) (wCluster w) = Some (s1, job, Some e, op)"
    and "jbBackoffLimit job = None"
  shows "snd (ensureJob cl jc u m p sa psk cm sec w) = Inl NilDereference"
  using assms by (simp add: ensureJob_def Let_def)

lemma job_mutate_panics:
  assumes "mvMainPVCName m = None"
  shows "job_mutate cl jc u m p sa psk cm sec s job \<in> {None, Some (job, Some SetRefError)}"
  using assms by (simp add: job_mutate_def getVolumeEnvVars_def Let_def split: option.splits)

subsection \<open>A concrete job\<close>

definition sample_pvc :: PVC where
  "sample_pvc = \<lparr>pvcName = ''data'', pvcCreated = 1, pvcLabels = Map.empty, pvcOwnerRef = None,
     pvcSpec = \<lparr>psAccessModes = [ReadWriteOnce], psResources = 1, psStorageClassName = Some ''sc'', psVolumeMode = None, psDataSource = None,
       psVolumeName = ''pv-data''\<rparr>, pvcBound = True\<rparr>"

definition blank_job :: "string \<Rightarrow> Job" where
  "blank_job n = \<lparr>jbName = n, jbLabels = Map.empty, jbOwnerRef = None,
     jbTemplate = \<lparr>ptName = '''', ptLabels = Map.empty, ptSpec = \<lparr>poContainers = [], poRestartPolicy = '''', poHostNetwork = False, poDNSPolicy = '''',
        poFSGroupChangePolicy = None, poSELinuxType = None, poServiceAccount = '''', poVolumes = [], poNodeSelector = Map.empty, poTolerations = []\<rparr>\<rparr>,
     jbBackoffLimit = None, jbParallelism = None, jbFailed = 0, jbSucceeded = 0\<rparr>"

text \<open>Jobs of this instance have succeeded as soon as they are stored.\<close>

definition sample_jobs :: "'s jobs" where
  "sample_jobs = \<lparr>jUpsert = (\<lambda>n f s. case f (blank_job n) of None \<Rightarrow> None | Some (j, e) \<Rightarrow> Some (s, j\<lparr>jbSucceeded := 1\<rparr>, e, OpCreated)),
     jDelete = (\<lambda>_ s. Some s), jAffinity = (\<lambda>_ _. Some (Map.empty, [])), jAddAllLabels = (\<lambda>a l. l ++ a), jUpdateTemplate = id, jAppendDebug = id,
     jPvcIsBlockMode = (\<lambda>p. psVolumeMode (pvcSpec p) = Some Block), jPvcIsReadOnly = (\<lambda>p. psAccessModes (pvcSpec p) = [ReadOnlyMany])\<rparr>"

lemma sample_jobs_template_ok: "template_ok sample_jobs"
  by (simp add: template_ok_def sample_jobs_def)

lemma sample_job_mutate:
  "\<exists>j. job_mutate list_client sample_jobs label_utils sample_mover p sa psk cm sec sample_snaps (blank_job n) = Some (j, None) \<and>
    jbBackoffLimit j = Some 2 \<and> jbFailed j = 0"
  by (simp add: job_mutate_def sample_getVolumeEnvVars Let_def label_utils_def blank_job_def)

theorem job_well_formed_witness:
  "\<exists>j c. job_mutate list_client sample_jobs label_utils sample_mover sample_pvc ''sa'' ''psk'' ''cm'' ''sec'' sample_snaps (blank_job ''j'') = Some (j, None) \<and>
     poContainers (ptSpec (jbTemplate j)) = [c] \<and> vmName ` set (cnMounts c) \<union> fst ` set (cnDevices c) = fst ` set (poVolumes (ptSpec (jbTemplate j)))"
proof -
  obtain j where j: "job_mutate list_client sample_jobs label_utils sample_mover sample_pvc ''sa'' ''psk'' ''cm'' ''sec'' sample_snaps (blank_job ''j'') = Some (j, None)"
    using sample_job_mutate by blast
  then show ?thesis using job_well_formed [OF sample_jobs_template_ok j] by blast
qed

end
