(* ===== verification/Mover_Sync.thy ===== *)
theory Mover_Sync
  imports Mover_Job
begin

section \<open>One iteration of a mover (internal/mover/ceph/mover.go, pvc.go)\<close>

text \<open>
  \<^verbatim>\<open>Synchronize\<close> puts the steps of the other theories in order, \<^verbatim>\<open>Cleanup\<close> rotates the snapshots and deletes what is marked.  The lemmas say what a
  completed iteration has done, that a destination without a volume of its own never completes one, and what a cleanup leaves.
\<close>

subsection \<open>Definitions\<close>

datatype Result = Complete | CompleteWithImage string

record 's volsync =
  vUseProvidedPVC :: "string \<Rightarrow> ('s, PVC) step"
  vEnsureNewPVC :: "string \<Rightarrow> bool \<Rightarrow> ('s, PVC) step"
  vEnsureImage :: "PVC \<Rightarrow> ('s, string) step"
  vRemoveSnapshotAnnotation :: "string \<Rightarrow> 's \<Rightarrow> 's \<times> bool"
  vCleanupObjects :: "string \<Rightarrow> 's \<Rightarrow> 's \<times> bool"
  vReconcileSA :: "('s, string) step"

text \<open>Everything outside the program that a mover is given.\<close>

record 's deps =
  dClient :: "'s client"
  dResources :: "'s resources"
  dJobs :: "'s jobs"
  dVolSync :: "'s volsync"
  dUtils :: utils
  dUnmarshal :: unmarshal
  dPrefix :: string
  dSuffix :: string
  dNow :: int

definition on_cluster :: "('s, 'a) step \<Rightarrow> ('s world, 'a) step" where
  "on_cluster f w = (case f (wCluster w) of (s1, r) \<Rightarrow> (w\<lparr>wCluster := s1\<rparr>, r))"

definition ensureDestinationPVC :: "'s volsync \<Rightarrow> Mover \<Rightarrow> ('s, PVC) step" where
  "ensureDestinationPVC vs m =
     (if mvDestPVCIsProvided m then vUseProvidedPVC vs (mvDestPVCName m)
      else vEnsureNewPVC vs (mvDestPVCName m) (mvCleanupTempPVC m))"

definition ensure_data_pvc :: "'s deps \<Rightarrow> Mover \<Rightarrow> ('s, PVC) step" where
  "ensure_data_pvc d m =
     (if mvIsSource m then ensureSourcePVC (dClient d) (dUtils d) (dPrefix d) (dSuffix d) m else ensureDestinationPVC (dVolSync d) m)"

definition finish_sync :: "'s deps \<Rightarrow> Mover \<Rightarrow> PVC \<Rightarrow> ('s world, Result) step" where
  "finish_sync d m dataPVC =
     (if mvIsSource m then pure_step Complete
      else next_step (on_cluster (vEnsureImage (dVolSync d) dataPVC)) (\<lambda>image. pure_step (CompleteWithImage image)))"

definition Synchronize :: "'s deps \<Rightarrow> Mover \<Rightarrow> ('s world, Result) step" where
  "Synchronize d m =
     next_step (on_cluster (ensure_data_pvc d m)) (\<lambda>dataPVC.
     next_step (ensureServiceAndPublishAddress (dResources d) (dUtils d) (dNow d) m) (\<lambda>_.
     next_step (ensureNetworkPolicy (dResources d) (dUtils d) m) (\<lambda>_.
     next_step (ensureSecrets (dResources d) (dUtils d) m) (\<lambda>psk.
     next_step (on_cluster (vReconcileSA (dVolSync d))) (\<lambda>sa.
     next_step (clusterIDFromStorageClass (dResources d) (psStorageClassName (pvcSpec dataPVC))) (\<lambda>clusterID.
     next_step (fetchCSIConfigData (dResources d) m) (\<lambda>csiConfigData.
     next_step (ensureCephCSIConfigMap (dResources d) (dUtils d) m csiConfigData) (\<lambda>cm.
     next_step (ensureCephCSISecret (dResources d) (dUtils d) (dUnmarshal d) m csiConfigData clusterID) (\<lambda>sec.
     next_step (ensureJob (dClient d) (dJobs d) (dUtils d) m dataPVC sa psk cm sec) (\<lambda>_.
     finish_sync d m dataPVC))))))))))"

definition Cleanup :: "'s deps \<Rightarrow> Mover \<Rightarrow> 's \<Rightarrow> 's \<times> (mover_error + Result)" where
  "Cleanup d m s =
     (case transitionSnapshotStatuses (dClient d) (dUtils d) m s of
        (s1, Some e) \<Rightarrow> (s1, Inl e)
      | (s1, None) \<Rightarrow>
          (case (if mvIsSource m then (s1, True) else vRemoveSnapshotAnnotation (dVolSync d) (mvDestPVCName m) s1) of
             (s2, False) \<Rightarrow> (s2, Inl VolSyncError)
           | (s2, True) \<Rightarrow>
               (case vCleanupObjects (dVolSync d) (mvOwnerUID m) s2 of
                  (s3, False) \<Rightarrow> (s3, Inl VolSyncError)
                | (s3, True) \<Rightarrow> (s3, Inr Complete))))"

subsection \<open>What a completed iteration has done\<close>

lemma on_cluster_Some:
  assumes "on_cluster f w = (w', Inr (Some x))"
  shows "wAddress w' = wAddress w" "wKeySecret w' = wKeySecret w" "wLatest w' = wLatest w" "wEvents w' = wEvents w"
    "f (wCluster w) = (wCluster w', Inr (Some x))"
  using assms by (auto simp: on_cluster_def split: prod.splits)

lemma steps_keep_address:
  "ensureNetworkPolicy rc u m w = (w', r1) \<Longrightarrow> wAddress w' = wAddress w"
  "ensureSecrets rc u m w = (w', r2) \<Longrightarrow> wAddress w' = wAddress w"
  "clusterIDFromStorageClass rc n w = (w', r3) \<Longrightarrow> wAddress w' = wAddress w"
  "fetchCSIConfigData rc m w = (w', r4) \<Longrightarrow> wAddress w' = wAddress w"
  "ensureCephCSIConfigMap rc u m dat w = (w', r5) \<Longrightarrow> wAddress w' = wAddress w"
  "ensureCephCSISecret rc u um m dat cid w = (w', r6) \<Longrightarrow> wAddress w' = wAddress w"
  "ensureJob cl jc u m p sa psk cm sec w = (w', r7) \<Longrightarrow> wAddress w' = wAddress w"
  by (auto simp: ensureNetworkPolicy_def ensureSecrets_def clusterIDFromStorageClass_def fetchCSIConfigData_def ensureCephCSIConfigMap_def
      ensureCephCSISecret_def updateStatusPSK_def split: if_splits option.splits prod.splits lookup.splits sum.splits)
    (auto simp: ensureJob_def job_failed_def Let_def split: if_splits option.splits prod.splits)

lemma on_cluster_address: "on_cluster f w = (w', r) \<Longrightarrow> wAddress w' = wAddress w"
  by (auto simp: on_cluster_def split: prod.splits)

lemma Synchronize_job:
  assumes "Synchronize d m w = (w', Inr (Some r))"
  shows "\<exists>w1 w2 w3 w4 p sa psk cm sec job.
    on_cluster (ensure_data_pvc d m) w = (w1, Inr (Some p)) \<and>
    ensureServiceAndPublishAddress (dResources d) (dUtils d) (dNow d) m w1 = (w2, Inr (Some ())) \<and> wAddress w3 = wAddress w2 \<and>
    ensureJob (dClient d) (dJobs d) (dUtils d) m p sa psk cm sec w3 = (w4, Inr (Some job)) \<and> finish_sync d m p w4 = (w', Inr (Some r))"
proof -
  obtain w1 p where 1: "on_cluster (ensure_data_pvc d m) w = (w1, Inr (Some p))"
    and "\<exists>w2. ensureServiceAndPublishAddress (dResources d) (dUtils d) (dNow d) m w1 = (w2, Inr (Some ())) \<and>
      (\<exists>w3. ensureNetworkPolicy (dResources d) (dUtils d) m w2 = (w3, Inr (Some ())) \<and>
      (\<exists>w4 psk. ensureSecrets (dResources d) (dUtils d) m w3 = (w4, Inr (Some psk)) \<and>
      (\<exists>w5 sa. on_cluster (vReconcileSA (dVolSync d)) w4 = (w5, Inr (Some sa)) \<and>
      (\<exists>w6 cid. clusterIDFromStorageClass (dResources d) (psStorageClassName (pvcSpec p)) w5 = (w6, Inr (Some cid)) \<and>
      (\<exists>w7 dat. fetchCSIConfigData (dResources d) m w6 = (w7, Inr (Some dat)) \<and>
      (\<exists>w8 cm. ensureCephCSIConfigMap (dResources d) (dUtils d) m dat w7 = (w8, Inr (Some cm)) \<and>
      (\<exists>w9 sec. ensureCephCSISecret (dResources d) (dUtils d) (dUnmarshal d) m dat cid w8 = (w9, Inr (Some sec)) \<and>
      (\<exists>w10 job. ensureJob (dClient d) (dJobs d) (dUtils d) m p sa psk cm sec w9 = (w10, Inr (Some job)) \<and>
        finish_sync d m p w10 = (w', Inr (Some r))))))))))"
    using assms unfolding Synchronize_def next_step_Some by auto
  then obtain w2 w3 w4 psk w5 sa w6 cid w7 dat w8 cm w9 sec w10 job where
    2: "ensureServiceAndPublishAddress (dResources d) (dUtils d) (dNow d) m w1 = (w2, Inr (Some ()))"
    and k: "ensureNetworkPolicy (dResources d) (dUtils d) m w2 = (w3, Inr (Some ()))"
      "ensureSecrets (dResources d) (dUtils d) m w3 = (w4, Inr (Some psk))" "on_cluster (vReconcileSA (dVolSync d)) w4 = (w5, Inr (Some sa))"
      "clusterIDFromStorageClass (dResources d) (psStorageClassName (pvcSpec p)) w5 = (w6, Inr (Some cid))"
      "fetchCSIConfigData (dResources d) m w6 = (w7, Inr (Some dat))" "ensureCephCSIConfigMap (dResources d) (dUtils d) m dat w7 = (w8, Inr (Some cm))"
      "ensureCephCSISecret (dResources d) (dUtils d) (dUnmarshal d) m dat cid w8 = (w9, Inr (Some sec))"
    and 3: "ensureJob (dClient d) (dJobs d) (dUtils d) m p sa psk cm sec w9 = (w10, Inr (Some job))" "finish_sync d m p w10 = (w', Inr (Some r))"
    by blast
  have "wAddress w9 = wAddress w2"
    using steps_keep_address(1) [OF k(1)] steps_keep_address(2) [OF k(2)] on_cluster_address [OF k(3)] steps_keep_address(3) [OF k(4)]
      steps_keep_address(4) [OF k(5)] steps_keep_address(5) [OF k(6)] steps_keep_address(6) [OF k(7)] by simp
  then show ?thesis using 1 2 3 by blast
qed

lemma published_address:
  assumes "ensureServiceAndPublishAddress rc u now m w = (w', Inr (Some ()))" "\<not> mvIsSource m" "mvAddress m = None"
  shows "wAddress w' \<noteq> None"
  using assms by (auto simp: ensureServiceAndPublishAddress_def publishSvcAddress_def updateStatusAddress_def Let_def split: option.splits prod.splits if_splits)

lemma finish_sync_keeps:
  assumes "finish_sync d m p w = (w', Inr (Some r))"
  shows "wAddress w' = wAddress w \<and> wLatest w' = wLatest w \<and> (r = Complete \<longleftrightarrow> mvIsSource m)"
  using assms by (auto simp: finish_sync_def next_step_Some on_cluster_def split: if_splits prod.splits)

text \<open>
  C19: an iteration that reports completion has stored its job without an error and found that it succeeded before it reached the limit of failures;
  the status says so, a source reports no image and a destination reports one, and a destination that clients connect to has published its address.
\<close>

theorem Synchronize_complete:
  assumes "Synchronize d m w = (w', Inr (Some r))"
  shows "\<exists>s s1 p sa psk cm sec job op lim.
    jUpsert (dJobs d) (job_name m) (job_mutate (dClient d) (dJobs d) (dUtils d) m p sa psk cm sec s) s = Some (s1, job, None, op) \<and>
    jbSucceeded job \<noteq> 0 \<and> jbBackoffLimit job = Some lim \<and> jbFailed job < lim \<and> wLatest w' = OutcomeSuccessful \<and>
    (r = Complete \<longleftrightarrow> mvIsSource m) \<and> (\<not> mvIsSource m \<and> mvAddress m = None \<longrightarrow> wAddress w' \<noteq> None)"
proof -
  obtain w1 w2 w3 w4 p sa psk cm sec job where s:
    "ensureServiceAndPublishAddress (dResources d) (dUtils d) (dNow d) m w1 = (w2, Inr (Some ()))" "wAddress w3 = wAddress w2"
    "ensureJob (dClient d) (dJobs d) (dUtils d) m p sa psk cm sec w3 = (w4, Inr (Some job))" "finish_sync d m p w4 = (w', Inr (Some r))"
    using Synchronize_job [OF assms] by blast
  obtain s1 op lim where j:
    "jUpsert (dJobs d) (job_name m) (job_mutate (dClient d) (dJobs d) (dUtils d) m p sa psk cm sec (wCluster w3)) (wCluster w3) = Some (s1, job, None, op)"
    "jbBackoffLimit job = Some lim" "jbFailed job < lim" "jbSucceeded job \<noteq> 0" "wLatest w4 = OutcomeSuccessful"
    by (rule ensureJob_SomeD [OF s(3)])
  have "wAddress w' \<noteq> None" if "\<not> mvIsSource m" "mvAddress m = None"
    using published_address [OF s(1) that] finish_sync_keeps [OF s(4)] steps_keep_address(7) [OF s(3)] s(2) by simp
  then show ?thesis using j finish_sync_keeps [OF s(4)] by metis
qed

subsection \<open>A destination without a volume\<close>

text \<open>What the code relies on: a job is stored without an error only if the mutate function returned one.\<close>

definition upsert_ok :: "'s jobs \<Rightarrow> bool" where
  "upsert_ok jc \<longleftrightarrow> (\<forall>n f s s1 job op. jUpsert jc n f s = Some (s1, job, None, op) \<longrightarrow> (\<exists>j0 j1. f j0 = Some (j1, None)))"

text \<open>
  C40: a mover without the name of a main volume never completes an iteration: making the job dereferences the missing name.  The builder
  makes such a mover for every destination whose parameters have no destinationPVC, although the steps before allocate a volume for it.
\<close>

theorem destination_without_pvc:
  assumes "upsert_ok (dJobs d)" "mvMainPVCName m = None"
  shows "\<not> (\<exists>w' r. Synchronize d m w = (w', Inr (Some r)))"
proof
  assume "\<exists>w' r. Synchronize d m w = (w', Inr (Some r))"
  then obtain w' r where run: "Synchronize d m w = (w', Inr (Some r))" by blast
  obtain p sa psk cm sec w3 w4 job where "ensureJob (dClient d) (dJobs d) (dUtils d) m p sa psk cm sec w3 = (w4, Inr (Some job))"
    using Synchronize_job [OF run] by blast
  then obtain s1 op where
    "jUpsert (dJobs d) (job_name m) (job_mutate (dClient d) (dJobs d) (dUtils d) m p sa psk cm sec (wCluster w3)) (wCluster w3) = Some (s1, job, None, op)"
    by (rule ensureJob_SomeD)
  then obtain j0 j1 where "job_mutate (dClient d) (dJobs d) (dUtils d) m p sa psk cm sec (wCluster w3) j0 = Some (j1, None)"
    using assms(1) unfolding upsert_ok_def by blast
  then show False using job_mutate_panics [OF assms(2), of "dClient d" "dJobs d" "dUtils d" p sa psk cm sec "wCluster w3" j0] by auto
qed

subsection \<open>Cleanup\<close>

text \<open>
  What the code relies on: the deletion removes exactly the snapshots marked for the owner, and the annotations of the volume are not snapshots.
  A deletion is taken as completed when the call returns; a snapshot that a finalizer keeps for a while is not seen here.
\<close>

definition cleanup_ok :: "('s \<Rightarrow> VolumeSnapshot list) \<Rightarrow> utils \<Rightarrow> 's volsync \<Rightarrow> bool" where
  "cleanup_ok view u vs \<longleftrightarrow>
     (\<forall>uid s s'. vCleanupObjects vs uid s = (s', True) \<longrightarrow> view s' = filter (\<lambda>x. vsLabels x (uCleanupKey u) \<noteq> Some uid) (view s)) \<and>
     (\<forall>n s s'. vRemoveSnapshotAnnotation vs n s = (s', True) \<longrightarrow> view s' = view s)"

lemma Cleanup_view:
  assumes u: "utils_ok (dUtils d)" and cl: "client_ok view (dClient d)" and c: "cleanup_ok view (dUtils d) (dVolSync d)"
    and "distinct (map vsName (view s))" "mvSnapStatusLabelKey m \<noteq> uCleanupKey (dUtils d)" "Cleanup d m s = (s', Inr r)"
  shows "view s' = filter (\<lambda>x. vsLabels x (uCleanupKey (dUtils d)) \<noteq> Some (mvOwnerUID m)) (rotated (dUtils d) m (view s))"
proof -
  obtain s1 s2 where s: "transitionSnapshotStatuses (dClient d) (dUtils d) m s = (s1, None)"
    "(if mvIsSource m then (s1, True) else vRemoveSnapshotAnnotation (dVolSync d) (mvDestPVCName m) s1) = (s2, True)"
    "vCleanupObjects (dVolSync d) (mvOwnerUID m) s2 = (s', True)"
    using assms(6) by (auto simp: Cleanup_def split: prod.splits option.splits bool.splits)
  have "view s1 = rotated (dUtils d) m (view s)" using rotation_core [OF u cl assms(4,5) s(1)] .
  moreover have "view s2 = view s1" using s(2) c by (auto simp: cleanup_ok_def split: if_splits)
  moreover have "view s' = filter (\<lambda>x. vsLabels x (uCleanupKey (dUtils d)) \<noteq> Some (mvOwnerUID m)) (view s2)"
    using s(3) c unfolding cleanup_ok_def by blast
  ultimately show ?thesis by simp
qed

text \<open>
  C15: a cleanup that completes leaves at most two snapshots of the replication as previous ones, and the snapshot that was just transferred is one of them: it
  is the base the next transfer can start from.
\<close>

theorem cleanup_keeps_two:
  assumes "utils_ok (dUtils d)" "client_ok view (dClient d)" "cleanup_ok view (dUtils d) (dVolSync d)"
    and "distinct (map vsName (view s))" "mvSnapStatusLabelKey m \<noteq> uCleanupKey (dUtils d)" "Cleanup d m s = (s', Inr r)"
    and "find (\<lambda>x. status_of m x = Some snapshotStatusCurrent) (view s) = Some c" "vsLabels c (uCleanupKey (dUtils d)) \<noteq> Some (mvOwnerUID m)"
  shows "length (filter (\<lambda>x. status_of m x = Some snapshotStatusPrevious) (view s')) \<le> 2 \<and>
    c\<lparr>vsLabels := (vsLabels c)(mvSnapStatusLabelKey m \<mapsto> snapshotStatusPrevious)\<rparr> \<in> set (view s')"
proof -
  have v: "view s' = filter (\<lambda>x. vsLabels x (uCleanupKey (dUtils d)) \<noteq> Some (mvOwnerUID m)) (rotated (dUtils d) m (view s))"
    by (rule Cleanup_view [OF assms(1-6)])
  have "length (filter (\<lambda>x. status_of m x = Some snapshotStatusPrevious) (view s')) \<le> 2"
    using rotated_keeps_two [OF assms(1,4,5)] by (simp add: v conj_commute)
  moreover have "c\<lparr>vsLabels := (vsLabels c)(mvSnapStatusLabelKey m \<mapsto> snapshotStatusPrevious)\<rparr> \<in> set (rotated (dUtils d) m (view s))"
    by (rule rotated_current [OF assms(4,7)])
  ultimately show ?thesis using assms(5,8) by (simp add: v)
qed

subsection \<open>Concrete iterations\<close>

definition sample_deps :: "VolumeSnapshot list deps" where
  "sample_deps = \<lparr>dClient = list_client,
     dResources = \<lparr>rUpsertService = (\<lambda>_ f s. map_option (\<lambda>x. (s, x)) (f sample_service)), rServiceAddress = svClusterIP, rServiceTimeout = 300,
       rUpsertPolicy = (\<lambda>_ f s. map_option (\<lambda>x. (s, x)) (f sample_policy)), rValidateSecret = (\<lambda>_ _ _. True),
       rGetSecret = (\<lambda>_ n _. Found \<lparr>seName = n, seLabels = Map.empty, seOwnerRef = None, seData = Map.empty\<rparr>), rCreateSecret = (\<lambda>_ s. Some s),
       rUpsertSecret = (\<lambda>n f s. map_option (\<lambda>x. (s, x)) (f \<lparr>seName = n, seLabels = Map.empty, seOwnerRef = None, seData = Map.empty\<rparr>)), rRandom = None,
       rGetConfigMap = (\<lambda>_ n _. Found \<lparr>cmName = n, cmLabels = Map.empty, cmOwnerRef = None, cmData = [''config.json'' \<mapsto> ''[]'']\<rparr>),
       rUpsertConfigMap = (\<lambda>n f s. map_option (\<lambda>x. (s, x)) (f \<lparr>cmName = n, cmLabels = Map.empty, cmOwnerRef = None, cmData = Map.empty\<rparr>)),
       rGetStorageClass = (\<lambda>_ _. Found [''clusterID'' \<mapsto> ''c'']) \<rparr>,
     dJobs = sample_jobs,
     dVolSync = \<lparr>vUseProvidedPVC = (\<lambda>n s. (s, Inr (Some sample_pvc))), vEnsureNewPVC = (\<lambda>n _ s. (s, Inr (Some sample_pvc))),
       vEnsureImage = (\<lambda>_ s. (s, Inr (Some ''image''))), vRemoveSnapshotAnnotation = (\<lambda>_ s. (s, True)),
       vCleanupObjects = (\<lambda>uid s. (filter (\<lambda>x. vsLabels x ''volsync.backube/cleanup'' \<noteq> Some uid) s, True)), vReconcileSA = (\<lambda>s. (s, Inr (Some ''sa''))) \<rparr>,
     dUtils = label_utils, dUnmarshal = (\<lambda>_. Some [\<lparr>ClusterID = ''c'', Monitors = [''m''], RbdRadosNamespace = [],
       RbdSecretName = ''sec'', RbdSecretNamespace = ''ns'', CephFSRadosNamespace = [], CephFSSubvolGroup = [], CephFSSecretName = ''sec'',
       CephFSSecretNamespace = ''ns''\<rparr>]), dPrefix = ''volsync-'', dSuffix = ''1'', dNow = 0\<rparr>"

lemma sample_cleanup_ok: "cleanup_ok id (dUtils sample_deps) (dVolSync sample_deps)"
  by (simp add: cleanup_ok_def sample_deps_def label_utils_def)

theorem cleanup_keeps_two_witness:
  "length (filter (\<lambda>x. status_of sample_mover x = Some snapshotStatusPrevious) (id (fst (Cleanup sample_deps sample_mover sample_snaps)))) \<le> 2"
proof -
  have run: "Cleanup sample_deps sample_mover sample_snaps = (fst (Cleanup sample_deps sample_mover sample_snaps), Inr Complete)"
    using sample_transition by (simp add: Cleanup_def sample_deps_def prod_eq_iff split: prod.splits option.splits)
  have "find (\<lambda>x. status_of sample_mover x = Some snapshotStatusCurrent) (id sample_snaps) = Some (sample_snap ''c'' 3 snapshotStatusCurrent)"
    using status_distinct by (simp add: sample_snaps_def)
  then show ?thesis
    using cleanup_keeps_two [of sample_deps id, OF _ _ sample_cleanup_ok sample_distinct _ run] label_utils_ok list_client_ok sample_keys
    by (simp add: sample_deps_def label_utils_def)
qed

definition sample_dest :: Mover where
  "sample_dest = initCached (sample_mover\<lparr>mvIsSource := False, mvAddress := None\<rparr>)"

definition sample_world :: "VolumeSnapshot list world" where
  "sample_world = \<lparr>wCluster = [], wAddress = None, wKeySecret = None, wLatest = NoOutcome, wEvents = []\<rparr>"

lemma sample_dest_simps [simp]:
  "\<not> mvIsSource sample_dest" "mvAddress sample_dest = None" "mvKey sample_dest = None" "mvDestPVCIsProvided sample_dest" "\<not> mvDirect sample_dest"
  "mvMoverType sample_dest = MoverCephFS" "mvOwnerUID sample_dest = ''uid''" "mvMainPVCName sample_dest = Some ''data''"
  by (simp_all add: sample_dest_def initCached_destPVC) (simp_all add: sample_mover_def initCached_def Let_def)

lemma sample_dest_job:
  "\<exists>j. job_mutate list_client sample_jobs label_utils sample_dest sample_pvc sa psk cm sec s (blank_job n) = Some (j, None) \<and>
    jbBackoffLimit j = Some 2 \<and> jbFailed j = 0"
  by (simp add: job_mutate_def getVolumeEnvVars_def volume_env_def getVolumeHandle_def list_client_def bind_sum_def Let_def label_utils_def blank_job_def)

lemma sample_dest_ensureJob:
  "\<exists>w' job. ensureJob list_client sample_jobs label_utils sample_dest sample_pvc sa psk cm sec w = (w', Inr (Some job))"
proof -
  obtain j where "job_mutate list_client sample_jobs label_utils sample_dest sample_pvc sa psk cm sec (wCluster w) (blank_job (job_name sample_dest)) = Some (j, None)"
    "jbBackoffLimit j = Some 2" "jbFailed j = 0" using sample_dest_job by blast
  then show ?thesis by (simp add: ensureJob_def sample_jobs_def Let_def)
qed

lemma sample_dest_sync: "\<exists>w'. Synchronize sample_deps sample_dest sample_world = (w', Inr (Some (CompleteWithImage ''image'')))"
proof -
  obtain w1 where 1: "ensureServiceAndPublishAddress (dResources sample_deps) label_utils 0 sample_dest sample_world = (w1, Inr (Some ()))"
    by (simp add: ensureServiceAndPublishAddress_def sample_deps_def svc_Reconcile_def label_utils_def sample_service_def Let_def publishSvcAddress_def)
  have 2: "\<exists>w2. ensureNetworkPolicy (dResources sample_deps) label_utils sample_dest w = (w2, Inr (Some ()))" for w
    by (simp add: ensureNetworkPolicy_def sample_deps_def policy_mutate_def label_utils_def sample_policy_def)
  have 3: "\<exists>w2 n. ensureSecrets (dResources sample_deps) label_utils sample_dest w = (w2, Inr (Some n))" for w
    by (simp add: ensureSecrets_def sample_deps_def)
  have 4: "clusterIDFromStorageClass (dResources sample_deps) (psStorageClassName (pvcSpec sample_pvc)) w = (w, Inr (Some ''c''))" for w
    by (simp add: clusterIDFromStorageClass_def sample_deps_def sample_pvc_def)
  have 5: "\<exists>x. fetchCSIConfigData (dResources sample_deps) sample_dest w = (w, Inr (Some x))" for w
    by (simp add: fetchCSIConfigData_def sample_deps_def)
  have 6: "\<exists>w2 n. ensureCephCSIConfigMap (dResources sample_deps) label_utils sample_dest x w = (w2, Inr (Some n))" for x w
    by (simp add: ensureCephCSIConfigMap_def sample_deps_def label_utils_def)
  have 7: "\<exists>w2 n. ensureCephCSISecret (dResources sample_deps) label_utils (dUnmarshal sample_deps) sample_dest x ''c'' w = (w2, Inr (Some n))" for x w
    by (simp add: ensureCephCSISecret_def sample_deps_def label_utils_def secret_copy_def GetCephFSControllerPublishSecretRefFromData_def
        ReadClusterInfoFromData_def)
  have d: "dUtils sample_deps = label_utils" "dClient sample_deps = list_client" "dJobs sample_deps = sample_jobs" "dNow sample_deps = 0"
    by (simp_all add: sample_deps_def)
  have pvc: "on_cluster (ensure_data_pvc sample_deps sample_dest) sample_world = (sample_world, Inr (Some sample_pvc))"
    by (simp add: on_cluster_def ensure_data_pvc_def ensureDestinationPVC_def sample_deps_def)
  have sa: "on_cluster (vReconcileSA (dVolSync sample_deps)) w = (w, Inr (Some ''sa''))" for w by (simp add: on_cluster_def sample_deps_def)
  have f: "finish_sync sample_deps sample_dest sample_pvc w = (w, Inr (Some (CompleteWithImage ''image'')))" for w
    by (simp add: finish_sync_def next_step_def on_cluster_def pure_step_def sample_deps_def)
  show ?thesis unfolding Synchronize_def next_step_Some d pure_step_Some
    using pvc 1 2 3 sa 4 5 6 7 sample_dest_ensureJob f by metis
qed

theorem Synchronize_complete_witness:
  "\<exists>w'. Synchronize sample_deps sample_dest sample_world = (w', Inr (Some (CompleteWithImage ''image''))) \<and>
     wLatest w' = OutcomeSuccessful \<and> wAddress w' \<noteq> None"
proof -
  obtain w' where w': "Synchronize sample_deps sample_dest sample_world = (w', Inr (Some (CompleteWithImage ''image'')))"
    using sample_dest_sync by blast
  then show ?thesis using Synchronize_complete [OF w'] by auto
qed

theorem destination_without_pvc_witness:
  "\<not> (\<exists>w' r. Synchronize sample_deps (initCached (sample_mover\<lparr>mvIsSource := False, mvMainPVCName := None\<rparr>)) sample_world = (w', Inr (Some r)))"
proof (rule destination_without_pvc)
  show "upsert_ok (dJobs sample_deps)"
    by (auto simp: upsert_ok_def sample_deps_def sample_jobs_def split: option.splits)
qed simp

end
