(* ===== verification/Mover_Builder.thy ===== *)
theory Mover_Builder
  imports Mover_Sync
begin

section \<open>Finding the mover of a resource (internal/mover/builder.go, internal/mover/ceph/builder.go)\<close>

text \<open>
  A catalog of builders, each of which may claim a replication resource, and the builder of the Ceph mover, which decides by the
  suffix of the provider's name and reads the parameters of the resource.  The lemmas say that the catalog finds a mover
  exactly when one builder claims the resource, and what the movers of a source and a destination have in common.
\<close>

subsection \<open>Resources\<close>

record External =
  exProvider :: string
  exParameters :: "(string \<times> string) list"

record ReplicationSource =
  rsName :: string
  rsUID :: string
  rsNamespace :: string
  rsExternal :: "External option"
  rsPaused :: bool
  rsSourcePVC :: string
  rsHasRsyncTLSStatus :: bool
  rsHasMoverStatus :: bool

record ReplicationDestination =
  rdName :: string
  rdUID :: string
  rdNamespace :: string
  rdExternal :: "External option"
  rdPaused :: bool
  rdHasRsyncTLSStatus :: bool
  rdHasMoverStatus :: bool

datatype build_error = MissingParameters | VolumeHandlerError

text \<open>A builder fails, does not claim the resource (\<^verbatim>\<open>None\<close>), or returns a mover.\<close>

type_synonym built = "build_error + Mover option"

subsection \<open>The catalog\<close>

datatype catalog_error = ErrNoMoverFound | ErrMultipleMoversFound

record Builder_entry =
  beName :: string
  beFromSource :: "ReplicationSource \<Rightarrow> bool \<Rightarrow> built"
  beFromDestination :: "ReplicationDestination \<Rightarrow> bool \<Rightarrow> built"

definition Register :: "Builder_entry list \<Rightarrow> Builder_entry \<Rightarrow> Builder_entry list" where
  "Register catalog b = catalog @ [b]"

definition GetEnabledMoverList :: "Builder_entry list \<Rightarrow> string list" where
  "GetEnabledMoverList catalog = map beName catalog"

fun catalog_loop :: "Mover option \<Rightarrow> built list \<Rightarrow> catalog_error + Mover" where
  "catalog_loop dataMover [] = (case dataMover of None \<Rightarrow> Inl ErrNoMoverFound | Some m \<Rightarrow> Inr m)"
| "catalog_loop dataMover (Inl e # rest) = catalog_loop dataMover rest"
| "catalog_loop dataMover (Inr None # rest) = catalog_loop dataMover rest"
| "catalog_loop dataMover (Inr (Some candidate) # rest) =
     (if dataMover \<noteq> None then Inl ErrMultipleMoversFound else catalog_loop (Some candidate) rest)"

definition GetSourceMoverFromCatalog :: "Builder_entry list \<Rightarrow> ReplicationSource \<Rightarrow> bool \<Rightarrow> catalog_error + Mover" where
  "GetSourceMoverFromCatalog catalog src priv = catalog_loop None (map (\<lambda>b. beFromSource b src priv) catalog)"

definition GetDestinationMoverFromCatalog :: "Builder_entry list \<Rightarrow> ReplicationDestination \<Rightarrow> bool \<Rightarrow> catalog_error + Mover" where
  "GetDestinationMoverFromCatalog catalog dst priv = catalog_loop None (map (\<lambda>b. beFromDestination b dst priv) catalog)"

subsection \<open>The builder of the Ceph mover\<close>

definition cephfsProviderName :: string where "cephfsProviderName = ''cephfs.csi.ceph.com''"
definition nfsProviderName :: string where "nfsProviderName = ''nfs.csi.ceph.com''"
definition rbdProviderName :: string where "rbdProviderName = ''rbd.csi.ceph.com''"
definition nvmeofProviderName :: string where "nvmeofProviderName = ''nvmeof.csi.ceph.com''"
definition defaultCSIConfigNS :: string where "defaultCSIConfigNS = ''rook-ceph''"
definition optStorageClassName :: string where "optStorageClassName = ''storageClassName''"
definition optCopyMethod :: string where "optCopyMethod = ''copyMethod''"
definition optAddress :: string where "optAddress = ''address''"
definition optKeySecret :: string where "optKeySecret = ''keySecret''"
definition optDestinationPVC :: string where "optDestinationPVC = ''destinationPVC''"
definition CopyMethodDirect :: string where "CopyMethodDirect = ''Direct''"

text \<open>
  The builder holds the image that viper gives for the flag; \<^verbatim>\<open>bdNewVolumeHandler\<close> stands for \<^verbatim>\<open>volumehandler.NewVolumeHandler\<close> with the copy
  method, storage class and snapshot class, and says whether the handler copies directly.
\<close>

record Builder =
  bdImage :: string
  bdCsiConfigName :: string
  bdCsiConfigNamespace :: string
  bdNewVolumeHandler :: "string \<Rightarrow> string option \<Rightarrow> string option \<Rightarrow> bool option"

definition newBuilder :: "(string \<Rightarrow> string) \<Rightarrow> string \<Rightarrow> (string \<Rightarrow> string option \<Rightarrow> string option \<Rightarrow> bool option) \<Rightarrow> Builder" where
  "newBuilder getenv img vh =
     \<lparr>bdImage = img,
      bdCsiConfigName = (let n = getenv ''CEPH_CSI_CONFIG_NAME'' in if n = '''' then defaultCSIConfigName else n),
      bdCsiConfigNamespace = (let n = getenv ''CEPH_CSI_CONFIG_NAMESPACE'' in if n = '''' then defaultCSIConfigNS else n),
      bdNewVolumeHandler = vh\<rparr>"

definition HasSuffix :: "string \<Rightarrow> string \<Rightarrow> bool" where
  "HasSuffix s suf \<longleftrightarrow> length suf \<le> length s \<and> drop (length s - length suf) s = suf"

definition provider_mover_type :: "string \<Rightarrow> MoverType option" where
  "provider_mover_type provider =
     (if HasSuffix provider cephfsProviderName \<or> HasSuffix provider nfsProviderName then Some MoverCephFS
      else if HasSuffix provider rbdProviderName \<or> HasSuffix provider nvmeofProviderName then Some MoverRBD
      else None)"

definition copy_method :: "(string \<rightharpoonup> string) \<Rightarrow> string" where
  "copy_method options = (case options optCopyMethod of None \<Rightarrow> CopyMethodDirect | Some c \<Rightarrow> c)"

definition source_mover :: "Builder \<Rightarrow> ReplicationSource \<Rightarrow> (string \<rightharpoonup> string) \<Rightarrow> MoverType \<Rightarrow> bool \<Rightarrow> bool \<Rightarrow> Mover" where
  "source_mover rb src options mt direct priv = initCached
     \<lparr>mvOwner = rsName src, mvOwnerUID = rsUID src, mvNamespace = rsNamespace src, mvDirect = direct, mvContainerImage = bdImage rb,
      mvMoverType = mt, mvKey = options optKeySecret, mvAddress = options optAddress, mvPort = None, mvIsSource = True, mvPaused = rsPaused src,
      mvMainPVCName = Some (rsSourcePVC src), mvPrivileged = priv, mvCleanupTempPVC = False, mvOptions = options,
      mvCsiConfigName = bdCsiConfigName rb, mvCsiConfigNamespace = bdCsiConfigNamespace rb, mvDirection = '''', mvNamePrefix = '''',
      mvContainerName = '''', mvServiceSelector = Map.empty, mvSnapStatusLabelKey = '''', mvDestPVCIsProvided = False, mvDestPVCName = ''''\<rparr>"

text \<open>The status fields are created before the parameters are checked, so they exist even when the builder fails.\<close>

definition FromSource :: "Builder \<Rightarrow> ReplicationSource \<Rightarrow> bool \<Rightarrow> ReplicationSource \<times> built" where
  "FromSource rb src priv =
     (case rsExternal src of
        None \<Rightarrow> (src, Inr None)
      | Some ext \<Rightarrow>
          (case provider_mover_type (exProvider ext) of
             None \<Rightarrow> (src, Inr None)
           | Some mt \<Rightarrow>
               let src1 = src\<lparr>rsHasRsyncTLSStatus := True, rsHasMoverStatus := True\<rparr>; options = map_of (exParameters ext) in
               if length (exParameters ext) = 0 then (src1, Inl MissingParameters)
               else case bdNewVolumeHandler rb (copy_method options) (options optStorageClassName) (options optVolumeSnapshotClassName) of
                 None \<Rightarrow> (src1, Inl VolumeHandlerError)
               | Some direct \<Rightarrow> (src1, Inr (Some (source_mover rb src1 options mt direct priv)))))"

definition destination_mover :: "Builder \<Rightarrow> ReplicationDestination \<Rightarrow> (string \<rightharpoonup> string) \<Rightarrow> MoverType \<Rightarrow> bool \<Rightarrow> bool \<Rightarrow> Mover" where
  "destination_mover rb dst options mt direct priv = initCached
     \<lparr>mvOwner = rdName dst, mvOwnerUID = rdUID dst, mvNamespace = rdNamespace dst, mvDirect = direct, mvContainerImage = bdImage rb,
      mvMoverType = mt, mvKey = options optKeySecret, mvAddress = None, mvPort = None, mvIsSource = False, mvPaused = rdPaused dst,
      mvMainPVCName = options optDestinationPVC, mvPrivileged = priv, mvCleanupTempPVC = False, mvOptions = options,
      mvCsiConfigName = bdCsiConfigName rb, mvCsiConfigNamespace = bdCsiConfigNamespace rb, mvDirection = '''', mvNamePrefix = '''',
      mvContainerName = '''', mvServiceSelector = Map.empty, mvSnapStatusLabelKey = '''', mvDestPVCIsProvided = False, mvDestPVCName = ''''\<rparr>"

definition FromDestination :: "Builder \<Rightarrow> ReplicationDestination \<Rightarrow> bool \<Rightarrow> ReplicationDestination \<times> built" where
  "FromDestination rb dst priv =
     (case rdExternal dst of
        None \<Rightarrow> (dst, Inr None)
      | Some ext \<Rightarrow>
          (case provider_mover_type (exProvider ext) of
             None \<Rightarrow> (dst, Inr None)
           | Some mt \<Rightarrow>
               let dst1 = dst\<lparr>rdHasRsyncTLSStatus := True, rdHasMoverStatus := True\<rparr>; options = map_of (exParameters ext) in
               if length (exParameters ext) = 0 then (dst1, Inl MissingParameters)
               else case bdNewVolumeHandler rb (copy_method options) (options optStorageClassName) (options optVolumeSnapshotClassName) of
                 None \<Rightarrow> (dst1, Inl VolumeHandlerError)
               | Some direct \<Rightarrow> (dst1, Inr (Some (destination_mover rb dst1 options mt direct priv)))))"

subsection \<open>The catalog finds the one mover\<close>

definition claims :: "built list \<Rightarrow> Mover list" where
  "claims bs = concat (map (\<lambda>b. case b of Inr (Some m) \<Rightarrow> [m] | _ \<Rightarrow> []) bs)"

lemma catalog_loop_Some: "catalog_loop (Some m) bs = (if claims bs = [] then Inr m else Inl ErrMultipleMoversFound)"
  by (induction "Some m" bs rule: catalog_loop.induct) (auto simp: claims_def)

lemma catalog_loop_None:
  "catalog_loop None bs = (case claims bs of [] \<Rightarrow> Inl ErrNoMoverFound | [m] \<Rightarrow> Inr m | _ \<Rightarrow> Inl ErrMultipleMoversFound)"
proof (induction bs)
  case Nil
  then show ?case by (simp add: claims_def)
next
  case (Cons b bs)
  show ?case
  proof (cases "\<exists>m. b = Inr (Some m)")
    case True
    then obtain m where "b = Inr (Some m)" by blast
    moreover have "claims (Inr (Some m) # bs) = m # claims bs" by (simp add: claims_def)
    ultimately show ?thesis by (auto simp: catalog_loop_Some split: list.splits)
  next
    case False
    then have "catalog_loop None (b # bs) = catalog_loop None bs" "claims (b # bs) = claims bs"
      by (cases b; auto simp: claims_def split: option.splits; metis option.exhaust catalog_loop.simps(3))+
    then show ?thesis using Cons by simp
  qed
qed

text \<open>
  The catalog returns a mover exactly when one builder claims the resource, and it is that builder's mover; errors of the other builders do not
  matter, and two claims are refused.
\<close>

theorem catalog_unique:
  "GetSourceMoverFromCatalog catalog src priv =
     (case claims (map (\<lambda>b. beFromSource b src priv) catalog) of [] \<Rightarrow> Inl ErrNoMoverFound | [m] \<Rightarrow> Inr m | _ \<Rightarrow> Inl ErrMultipleMoversFound) \<and>
   GetDestinationMoverFromCatalog catalog dst priv =
     (case claims (map (\<lambda>b. beFromDestination b dst priv) catalog) of [] \<Rightarrow> Inl ErrNoMoverFound | [m] \<Rightarrow> Inr m | _ \<Rightarrow> Inl ErrMultipleMoversFound)"
  by (simp add: GetSourceMoverFromCatalog_def GetDestinationMoverFromCatalog_def catalog_loop_None)

subsection \<open>The two ends of a replication\<close>

lemma FromSource_mover:
  assumes "FromSource rb src priv = (src', Inr (Some m))"
  shows "\<exists>ext mt direct. rsExternal src = Some ext \<and> provider_mover_type (exProvider ext) = Some mt \<and> exParameters ext \<noteq> [] \<and>
    m = source_mover rb src' (map_of (exParameters ext)) mt direct priv"
  using assms by (auto simp: FromSource_def Let_def split: option.splits if_splits)

lemma FromDestination_mover:
  assumes "FromDestination rb dst priv = (dst', Inr (Some m))"
  shows "\<exists>ext mt direct. rdExternal dst = Some ext \<and> provider_mover_type (exProvider ext) = Some mt \<and> exParameters ext \<noteq> [] \<and>
    m = destination_mover rb dst' (map_of (exParameters ext)) mt direct priv"
  using assms by (auto simp: FromDestination_def Let_def split: option.splits if_splits)

lemma HasSuffix_append: "HasSuffix s suf \<longleftrightarrow> (\<exists>p. s = p @ suf)"
proof
  assume "HasSuffix s suf"
  then have "s = take (length s - length suf) s @ suf" by (metis HasSuffix_def append_take_drop_id)
  then show "\<exists>p. s = p @ suf" by blast
next
  assume "\<exists>p. s = p @ suf"
  then show "HasSuffix s suf" by (auto simp: HasSuffix_def)
qed

text \<open>The order in which the code tests the suffixes does not matter: no provider has a file-system and a block suffix.\<close>

lemma HasSuffix_chain: "HasSuffix s a \<Longrightarrow> HasSuffix s b \<Longrightarrow> HasSuffix a b \<or> HasSuffix b a"
  by (auto simp: HasSuffix_append append_eq_append_conv2)

lemma provider_exclusive:
  "\<not> ((HasSuffix p cephfsProviderName \<or> HasSuffix p nfsProviderName) \<and> (HasSuffix p rbdProviderName \<or> HasSuffix p nvmeofProviderName))"
proof -
  note names = cephfsProviderName_def nfsProviderName_def rbdProviderName_def nvmeofProviderName_def
  have "\<not> HasSuffix a b \<and> \<not> HasSuffix b a" if "a \<in> {cephfsProviderName, nfsProviderName}" "b \<in> {rbdProviderName, nvmeofProviderName}" for a b
    using that by (auto simp: HasSuffix_def names)
  then show ?thesis using HasSuffix_chain by blast
qed

end
