(* ===== verification/Controllers.thy ===== *)
theory Controllers
  imports Mover_Builder
begin

section \<open>The reconcilers (internal/controller)\<close>

text \<open>
  One reconciliation of a ReplicationSource or ReplicationDestination: fetch the resource, leave it to VolSync if it names one of VolSync's own
  movers, find a mover, run VolSync's state machine on it and store the status.  The state machine is VolSync's: it is a
  parameter that drives the machine through the methods below.  The lemmas say when a resource is touched at all, that a failure to build a
  mover is not reported, and that the methods of the two machines keep what the state machine stores through them.
\<close>

subsection \<open>Machines\<close>

record rep_status =
  stLastManualSync :: string
  stNextSyncTime :: "int option"
  stLastSyncStartTime :: "int option"
  stLastSyncTime :: "int option"
  stLastSyncDuration :: "int option"
  stConditions :: "string list"
  stLatestImage :: "string option"

definition empty_status :: rep_status where
  "empty_status = \<lparr>stLastManualSync = '''', stNextSyncTime = None, stLastSyncStartTime = None, stLastSyncTime = None, stLastSyncDuration = None,
     stConditions = [], stLatestImage = None\<rparr>"

text \<open>A trigger has an optional schedule and the tag of a manual synchronization.\<close>

type_synonym trigger = "string option \<times> string"

record rs_object =
  roSource :: ReplicationSource
  roRclone :: bool
  roRestic :: bool
  roRsync :: bool
  roRsyncTLS :: bool
  roTrigger :: "trigger option"
  roStatus :: "rep_status option"

record rsMachine =
  rsmObject :: rs_object
  rsmStatus :: rep_status
  rsmMover :: Mover

definition rsHasMover :: "rs_object \<Rightarrow> bool" where
  "rsHasMover rs \<longleftrightarrow> roRclone rs \<or> roRestic rs \<or> roRsync rs \<or> roRsyncTLS rs"

definition rs_Cronspec :: "rsMachine \<Rightarrow> string" where
  "rs_Cronspec m = (case roTrigger (rsmObject m) of Some (Some s, _) \<Rightarrow> s | _ \<Rightarrow> '''')"

definition rs_ManualTag :: "rsMachine \<Rightarrow> string" where
  "rs_ManualTag m = (case roTrigger (rsmObject m) of Some (_, t) \<Rightarrow> t | None \<Rightarrow> '''')"

definition rs_LastManualTag :: "rsMachine \<Rightarrow> string" where "rs_LastManualTag m = stLastManualSync (rsmStatus m)"
definition rs_SetLastManualTag :: "string \<Rightarrow> rsMachine \<Rightarrow> rsMachine" where
  "rs_SetLastManualTag tag m = m\<lparr>rsmStatus := (rsmStatus m)\<lparr>stLastManualSync := tag\<rparr>\<rparr>"
definition rs_NextSyncTime :: "rsMachine \<Rightarrow> int option" where "rs_NextSyncTime m = stNextSyncTime (rsmStatus m)"
definition rs_SetNextSyncTime :: "int option \<Rightarrow> rsMachine \<Rightarrow> rsMachine" where
  "rs_SetNextSyncTime nxt m = m\<lparr>rsmStatus := (rsmStatus m)\<lparr>stNextSyncTime := nxt\<rparr>\<rparr>"
definition rs_LastSyncStartTime :: "rsMachine \<Rightarrow> int option" where "rs_LastSyncStartTime m = stLastSyncStartTime (rsmStatus m)"
definition rs_SetLastSyncStartTime :: "int option \<Rightarrow> rsMachine \<Rightarrow> rsMachine" where
  "rs_SetLastSyncStartTime lst m = m\<lparr>rsmStatus := (rsmStatus m)\<lparr>stLastSyncStartTime := lst\<rparr>\<rparr>"
definition rs_LastSyncTime :: "rsMachine \<Rightarrow> int option" where "rs_LastSyncTime m = stLastSyncTime (rsmStatus m)"
definition rs_SetLastSyncTime :: "int option \<Rightarrow> rsMachine \<Rightarrow> rsMachine" where
  "rs_SetLastSyncTime lst m = m\<lparr>rsmStatus := (rsmStatus m)\<lparr>stLastSyncTime := lst\<rparr>\<rparr>"
definition rs_LastSyncDuration :: "rsMachine \<Rightarrow> int option" where "rs_LastSyncDuration m = stLastSyncDuration (rsmStatus m)"
definition rs_SetLastSyncDuration :: "int option \<Rightarrow> rsMachine \<Rightarrow> rsMachine" where
  "rs_SetLastSyncDuration d m = m\<lparr>rsmStatus := (rsmStatus m)\<lparr>stLastSyncDuration := d\<rparr>\<rparr>"
definition rs_Conditions :: "rsMachine \<Rightarrow> string list" where "rs_Conditions m = stConditions (rsmStatus m)"
definition rs_SetOutOfSync :: "bool \<Rightarrow> rsMachine \<Rightarrow> rsMachine" where "rs_SetOutOfSync b m = m"
definition rs_IncMissedIntervals :: "rsMachine \<Rightarrow> rsMachine" where "rs_IncMissedIntervals m = m"
definition rs_ObserveSyncDuration :: "int \<Rightarrow> rsMachine \<Rightarrow> rsMachine" where "rs_ObserveSyncDuration d m = m"

definition rs_Synchronize :: "'s deps \<Rightarrow> rsMachine \<Rightarrow> ('s world, Result) step" where
  "rs_Synchronize d m = Synchronize d (rsmMover m)"

definition rs_Cleanup :: "'s deps \<Rightarrow> rsMachine \<Rightarrow> 's \<Rightarrow> 's \<times> (mover_error + Result)" where
  "rs_Cleanup d m = Cleanup d (rsmMover m)"

record rd_object =
  doDestination :: ReplicationDestination
  doRclone :: bool
  doRestic :: bool
  doRsync :: bool
  doRsyncTLS :: bool
  doTrigger :: "trigger option"
  doStatus :: "rep_status option"

record rdMachine =
  rdmObject :: rd_object
  rdmStatus :: rep_status
  rdmMover :: Mover

definition rdHasMover :: "rd_object \<Rightarrow> bool" where
  "rdHasMover rd \<longleftrightarrow> doRclone rd \<or> doRestic rd \<or> doRsync rd \<or> doRsyncTLS rd"

definition rd_Cronspec :: "rdMachine \<Rightarrow> string" where
  "rd_Cronspec m = (case doTrigger (rdmObject m) of Some (Some s, _) \<Rightarrow> s | _ \<Rightarrow> '''')"

definition rd_ManualTag :: "rdMachine \<Rightarrow> string" where
  "rd_ManualTag m = (case doTrigger (rdmObject m) of Some (_, t) \<Rightarrow> t | None \<Rightarrow> '''')"

definition rd_LastManualTag :: "rdMachine \<Rightarrow> string" where "rd_LastManualTag m = stLastManualSync (rdmStatus m)"
definition rd_SetLastManualTag :: "string \<Rightarrow> rdMachine \<Rightarrow> rdMachine" where
  "rd_SetLastManualTag tag m = m\<lparr>rdmStatus := (rdmStatus m)\<lparr>stLastManualSync := tag\<rparr>\<rparr>"
definition rd_NextSyncTime :: "rdMachine \<Rightarrow> int option" where "rd_NextSyncTime m = stNextSyncTime (rdmStatus m)"
definition rd_SetNextSyncTime :: "int option \<Rightarrow> rdMachine \<Rightarrow> rdMachine" where
  "rd_SetNextSyncTime nxt m = m\<lparr>rdmStatus := (rdmStatus m)\<lparr>stNextSyncTime := nxt\<rparr>\<rparr>"
definition rd_LastSyncStartTime :: "rdMachine \<Rightarrow> int option" where "rd_LastSyncStartTime m = stLastSyncStartTime (rdmStatus m)"
definition rd_SetLastSyncStartTime :: "int option \<Rightarrow> rdMachine \<Rightarrow> rdMachine" where
  "rd_SetLastSyncStartTime lst m = m\<lparr>rdmStatus := (rdmStatus m)\<lparr>stLastSyncStartTime := lst\<rparr>\<rparr>"
definition rd_LastSyncTime :: "rdMachine \<Rightarrow> int option" where "rd_LastSyncTime m = stLastSyncTime (rdmStatus m)"
definition rd_SetLastSyncTime :: "int option \<Rightarrow> rdMachine \<Rightarrow> rdMachine" where
  "rd_SetLastSyncTime lst m = m\<lparr>rdmStatus := (rdmStatus m)\<lparr>stLastSyncTime := lst\<rparr>\<rparr>"
definition rd_LastSyncDuration :: "rdMachine \<Rightarrow> int option" where "rd_LastSyncDuration m = stLastSyncDuration (rdmStatus m)"
definition rd_SetLastSyncDuration :: "int option \<Rightarrow> rdMachine \<Rightarrow> rdMachine" where
  "rd_SetLastSyncDuration d m = m\<lparr>rdmStatus := (rdmStatus m)\<lparr>stLastSyncDuration := d\<rparr>\<rparr>"
definition rd_Conditions :: "rdMachine \<Rightarrow> string list" where "rd_Conditions m = stConditions (rdmStatus m)"
definition rd_SetOutOfSync :: "bool \<Rightarrow> rdMachine \<Rightarrow> rdMachine" where "rd_SetOutOfSync b m = m"
definition rd_IncMissedIntervals :: "rdMachine \<Rightarrow> rdMachine" where "rd_IncMissedIntervals m = m"
definition rd_ObserveSyncDuration :: "int \<Rightarrow> rdMachine \<Rightarrow> rdMachine" where "rd_ObserveSyncDuration d m = m"

text \<open>
  A completed synchronization with an image replaces the latest image, but first marks the old one for cleanup; \<^verbatim>\<open>markOld\<close> stands for
  VolSync's \<^verbatim>\<open>MarkOldSnapshotForCleanup\<close>.
\<close>

definition rd_Synchronize ::
  "'s deps \<Rightarrow> (string option \<Rightarrow> string \<Rightarrow> 's \<Rightarrow> 's \<times> bool) \<Rightarrow> rdMachine \<Rightarrow> 's world \<Rightarrow> rdMachine \<times> 's world \<times> (mover_error + Result option)" where
  "rd_Synchronize d markOld m w =
     (case Synchronize d (rdmMover m) w of
        (w1, Inr (Some (CompleteWithImage img))) \<Rightarrow>
          (case markOld (stLatestImage (rdmStatus m)) img (wCluster w1) of
             (s2, False) \<Rightarrow> (m, w1\<lparr>wCluster := s2\<rparr>, Inl VolSyncError)
           | (s2, True) \<Rightarrow> (m\<lparr>rdmStatus := (rdmStatus m)\<lparr>stLatestImage := Some img\<rparr>\<rparr>, w1\<lparr>wCluster := s2\<rparr>, Inr (Some (CompleteWithImage img))))
      | (w1, r) \<Rightarrow> (m, w1, r))"

definition rd_Cleanup :: "'s deps \<Rightarrow> rdMachine \<Rightarrow> 's \<Rightarrow> 's \<times> (mover_error + Result)" where
  "rd_Cleanup d m = Cleanup d (rdmMover m)"

subsection \<open>Reconciliation\<close>

datatype rec_error = GetError | RelinquishError | MachineError | StatusError

text \<open>What a reconciler is given: the catalog, the API server and VolSync's \<^verbatim>\<open>sm.Run\<close>, which returns the machine with its changed status.\<close>

record 's rs_controller =
  rkCatalog :: "Builder_entry list"
  rkGet :: "string \<Rightarrow> 's \<Rightarrow> rs_object lookup"
  rkRun :: "rsMachine \<Rightarrow> 's \<Rightarrow> rsMachine \<times> 's \<times> rec_error option"
  rkUpdateStatus :: "rs_object \<Rightarrow> 's \<Rightarrow> 's \<times> rec_error option"

definition newRSMachine :: "Builder_entry list \<Rightarrow> rs_object \<Rightarrow> rep_status \<Rightarrow> catalog_error + rsMachine" where
  "newRSMachine catalog rs st =
     (case GetSourceMoverFromCatalog catalog (roSource rs) True of
        Inl e \<Rightarrow> Inl e
      | Inr m \<Rightarrow> Inr \<lparr>rsmObject = rs, rsmStatus = st, rsmMover = m\<rparr>)"

definition rs_Reconcile :: "'s rs_controller \<Rightarrow> string \<Rightarrow> 's \<Rightarrow> 's \<times> rec_error option" where
  "rs_Reconcile k req s =
     (case rkGet k req s of
        LookupError \<Rightarrow> (s, Some GetError)
      | NotFound \<Rightarrow> (s, None)
      | Found inst \<Rightarrow>
          if rsHasMover inst then (s, None)
          else let st = (case roStatus inst of None \<Rightarrow> empty_status | Some st \<Rightarrow> st) in
            case newRSMachine (rkCatalog k) inst st of
              Inl _ \<Rightarrow> (s, None)
            | Inr rsm \<Rightarrow>
                (case rkRun k rsm s of
                   (rsm1, s1, err) \<Rightarrow>
                     (case rkUpdateStatus k ((rsmObject rsm1)\<lparr>roStatus := Some (rsmStatus rsm1)\<rparr>) s1 of
                        (s2, statusErr) \<Rightarrow> (s2, if err = None then statusErr else err))))"

record 's rd_controller =
  dkCatalog :: "Builder_entry list"
  dkGet :: "string \<Rightarrow> 's \<Rightarrow> rd_object lookup"
  dkRelinquish :: "rd_object \<Rightarrow> 's \<Rightarrow> 's \<times> bool"
  dkRun :: "rdMachine \<Rightarrow> 's \<Rightarrow> rdMachine \<times> 's \<times> rec_error option"
  dkUpdateStatus :: "rd_object \<Rightarrow> 's \<Rightarrow> 's \<times> rec_error option"

definition newRDMachine :: "Builder_entry list \<Rightarrow> rd_object \<Rightarrow> rep_status \<Rightarrow> catalog_error + rdMachine" where
  "newRDMachine catalog rd st =
     (case GetDestinationMoverFromCatalog catalog (doDestination rd) True of
        Inl e \<Rightarrow> Inl e
      | Inr m \<Rightarrow> Inr \<lparr>rdmObject = rd, rdmStatus = st, rdmMover = m\<rparr>)"

definition rd_Reconcile :: "'s rd_controller \<Rightarrow> string \<Rightarrow> 's \<Rightarrow> 's \<times> rec_error option" where
  "rd_Reconcile k req s =
     (case dkGet k req s of
        LookupError \<Rightarrow> (s, Some GetError)
      | NotFound \<Rightarrow> (s, None)
      | Found inst \<Rightarrow>
          if rdHasMover inst then (s, None)
          else let st = (case doStatus inst of None \<Rightarrow> empty_status | Some st \<Rightarrow> st) in
            case dkRelinquish k inst s of
              (s0, False) \<Rightarrow> (s0, Some RelinquishError)
            | (s0, True) \<Rightarrow>
                (case newRDMachine (dkCatalog k) inst st of
                   Inl _ \<Rightarrow> (s0, None)
                 | Inr rdm \<Rightarrow>
                     (case dkRun k rdm s0 of
                        (rdm1, s1, err) \<Rightarrow>
                          (case dkUpdateStatus k ((rdmObject rdm1)\<lparr>doStatus := Some (rdmStatus rdm1)\<rparr>) s1 of
                             (s2, statusErr) \<Rightarrow> (s2, if err = None then statusErr else err)))))"

subsection \<open>Watching volumes\<close>

text \<open>
  Which sources are reconciled when a volume changes: those whose source volume it is, by the index over that field.  The namespace restriction
  and the index lookup are the API server's: \<^verbatim>\<open>lst\<close> returns the sources of an index key.
\<close>

datatype pvc_event = PVCCreated | PVCDeleted | PVCUpdated | PVCGeneric

definition copyTriggerPVCPredicate :: "pvc_event \<Rightarrow> bool" where
  "copyTriggerPVCPredicate e \<longleftrightarrow> e \<noteq> PVCDeleted"

definition IndexFieldsForReplicationSource :: "ReplicationSource \<Rightarrow> string list" where
  "IndexFieldsForReplicationSource rs = (if rsSourcePVC rs \<noteq> '''' then [rsSourcePVC rs] else [])"

definition mapFuncCopyTriggerPVCToReplicationSource ::
  "(string \<Rightarrow> ReplicationSource list option) \<Rightarrow> (PVC \<Rightarrow> bool) \<Rightarrow> PVC \<Rightarrow> (string \<times> string) list" where
  "mapFuncCopyTriggerPVCToReplicationSource lst usesCopyTrigger pvc =
     (if \<not> usesCopyTrigger pvc then []
      else case lst (pvcName pvc) of None \<Rightarrow> [] | Some rss \<Rightarrow> map (\<lambda>rs. (rsName rs, rsNamespace rs)) rss)"

subsection \<open>The interface of the state machine\<close>

text \<open>
  What VolSync's state machine relies on: what it stores through one method it reads back, and the other fields do not change.
\<close>

locale replication_machine =
  fixes manual :: "'m \<Rightarrow> string" and lastManual :: "'m \<Rightarrow> string" and setManual :: "string \<Rightarrow> 'm \<Rightarrow> 'm"
    and nextSync :: "'m \<Rightarrow> int option" and setNext :: "int option \<Rightarrow> 'm \<Rightarrow> 'm"
    and start :: "'m \<Rightarrow> int option" and setStart :: "int option \<Rightarrow> 'm \<Rightarrow> 'm"
    and lastSync :: "'m \<Rightarrow> int option" and setLast :: "int option \<Rightarrow> 'm \<Rightarrow> 'm"
    and duration :: "'m \<Rightarrow> int option" and setDuration :: "int option \<Rightarrow> 'm \<Rightarrow> 'm"
  assumes manual_set: "lastManual (setManual t m) = t"
    and next_set: "nextSync (setNext x m) = x" and start_set: "start (setStart x m) = x"
    and last_set: "lastSync (setLast x m) = x" and duration_set: "duration (setDuration x m) = x"
    and manual_frame: "manual (setManual t m) = manual m" "manual (setNext x m) = manual m" "manual (setStart x m) = manual m"
      "manual (setLast x m) = manual m" "manual (setDuration x m) = manual m"
    and lastManual_frame: "lastManual (setNext x m) = lastManual m" "lastManual (setStart x m) = lastManual m"
      "lastManual (setLast x m) = lastManual m" "lastManual (setDuration x m) = lastManual m"
    and last_frame: "lastSync (setManual t m) = lastSync m" "lastSync (setNext x m) = lastSync m" "lastSync (setStart x m) = lastSync m"
      "lastSync (setDuration x m) = lastSync m"
    and duration_frame: "duration (setManual t m) = duration m" "duration (setNext x m) = duration m" "duration (setStart x m) = duration m"
    and start_frame: "start (setManual t m) = start m" "start (setNext x m) = start m"
    and next_frame: "nextSync (setManual t m) = nextSync m"
begin

text \<open>
  The end of a synchronization as VolSync records it: the time and the duration, no start time, the next time, and the tag of a manual
  trigger.  Afterwards the manual trigger counts as served and every field reads as recorded.
\<close>

lemma recorded:
  assumes "m' = setManual (manual m) (setNext n (setStart None (setDuration d (setLast t m))))"
  shows "lastManual m' = manual m'" "lastSync m' = t" "duration m' = d" "start m' = None" "nextSync m' = n"
  by (simp_all add: assms manual_set next_set start_set last_set duration_set manual_frame lastManual_frame last_frame duration_frame start_frame next_frame)

end

lemmas rs_methods = rs_ManualTag_def rs_LastManualTag_def rs_SetLastManualTag_def rs_NextSyncTime_def rs_SetNextSyncTime_def
  rs_LastSyncStartTime_def rs_SetLastSyncStartTime_def rs_LastSyncTime_def rs_SetLastSyncTime_def rs_LastSyncDuration_def rs_SetLastSyncDuration_def

lemmas rd_methods = rd_ManualTag_def rd_LastManualTag_def rd_SetLastManualTag_def rd_NextSyncTime_def rd_SetNextSyncTime_def
  rd_LastSyncStartTime_def rd_SetLastSyncStartTime_def rd_LastSyncTime_def rd_SetLastSyncTime_def rd_LastSyncDuration_def rd_SetLastSyncDuration_def

interpretation rsm: replication_machine rs_ManualTag rs_LastManualTag rs_SetLastManualTag rs_NextSyncTime rs_SetNextSyncTime
  rs_LastSyncStartTime rs_SetLastSyncStartTime rs_LastSyncTime rs_SetLastSyncTime rs_LastSyncDuration rs_SetLastSyncDuration
  by unfold_locales (simp_all add: rs_methods)

interpretation rdm: replication_machine rd_ManualTag rd_LastManualTag rd_SetLastManualTag rd_NextSyncTime rd_SetNextSyncTime
  rd_LastSyncStartTime rd_SetLastSyncStartTime rd_LastSyncTime rd_SetLastSyncTime rd_LastSyncDuration rd_SetLastSyncDuration
  by unfold_locales (simp_all add: rd_methods)

subsection \<open>Which resources are touched\<close>

lemma newRSMachine_Inr: "newRSMachine catalog rs st = Inr m \<Longrightarrow> \<exists>mv. claims (map (\<lambda>b. beFromSource b (roSource rs) True) catalog) = [mv]"
  by (auto simp: newRSMachine_def GetSourceMoverFromCatalog_def catalog_loop_None split: sum.splits list.splits)

lemma newRDMachine_Inr: "newRDMachine catalog rd st = Inr m \<Longrightarrow> \<exists>mv. claims (map (\<lambda>b. beFromDestination b (doDestination rd) True) catalog) = [mv]"
  by (auto simp: newRDMachine_def GetDestinationMoverFromCatalog_def catalog_loop_None split: sum.splits list.splits)

lemma rs_Reconcile_claimed:
  assumes "rs_Reconcile k req s = (s', err)" "s' \<noteq> s"
  shows "\<exists>inst mv. rkGet k req s = Found inst \<and> \<not> rsHasMover inst \<and> claims (map (\<lambda>b. beFromSource b (roSource inst) True) (rkCatalog k)) = [mv]"
proof (cases "rkGet k req s")
  case (Found inst)
  show ?thesis
  proof (cases "rsHasMover inst")
    case True
    then show ?thesis using assms Found by (simp add: rs_Reconcile_def)
  next
    case False
    let ?st = "case roStatus inst of None \<Rightarrow> empty_status | Some st \<Rightarrow> st"
    show ?thesis
    proof (cases "newRSMachine (rkCatalog k) inst ?st")
      case (Inl e)
      then show ?thesis using assms Found False by (simp add: rs_Reconcile_def)
    next
      case (Inr m)
      then show ?thesis using Found False newRSMachine_Inr by blast
    qed
  qed
qed (use assms in \<open>simp_all add: rs_Reconcile_def\<close>)

lemma rd_Reconcile_claimed:
  assumes "rd_Reconcile k req s = (s', err)" "s' \<noteq> s"
  shows "\<exists>inst. dkGet k req s = Found inst \<and> \<not> rdHasMover inst \<and>
    (s' = fst (dkRelinquish k inst s) \<or> (\<exists>mv. claims (map (\<lambda>b. beFromDestination b (doDestination inst) True) (dkCatalog k)) = [mv]))"
proof (cases "dkGet k req s")
  case (Found inst)
  show ?thesis
  proof (cases "rdHasMover inst")
    case True
    then show ?thesis using assms Found by (simp add: rd_Reconcile_def)
  next
    case False
    let ?st = "case doStatus inst of None \<Rightarrow> empty_status | Some st \<Rightarrow> st"
    obtain s0 ok where r: "dkRelinquish k inst s = (s0, ok)" by (cases "dkRelinquish k inst s")
    show ?thesis
    proof (cases "newRDMachine (dkCatalog k) inst ?st")
      case (Inl e)
      then have "s' = s0" using assms Found False r by (cases ok) (auto simp: rd_Reconcile_def)
      then show ?thesis using Found False r by simp
    next
      case (Inr m)
      then show ?thesis using Found False newRDMachine_Inr by blast
    qed
  qed
qed (use assms in \<open>simp_all add: rd_Reconcile_def\<close>)

text \<open>
  C33: a reconciliation changes the cluster only if the resource exists and names none of VolSync's own movers.  A source must moreover be claimed by
  exactly one builder; a destination must be so too, unless all that changed is what relinquishing its labelled snapshots did, which comes before the mover is looked up.
\<close>

theorem reconcile_only_claimed:
  assumes "rs_Reconcile ks req s = (s1, err1)" "rd_Reconcile kd req s = (s2, err2)"
  shows "(s1 \<noteq> s \<longrightarrow> (\<exists>inst mv. rkGet ks req s = Found inst \<and> \<not> rsHasMover inst \<and>
      claims (map (\<lambda>b. beFromSource b (roSource inst) True) (rkCatalog ks)) = [mv])) \<and>
    (s2 \<noteq> s \<longrightarrow> (\<exists>inst. dkGet kd req s = Found inst \<and> \<not> rdHasMover inst \<and>
      (s2 = fst (dkRelinquish kd inst s) \<or> (\<exists>mv. claims (map (\<lambda>b. beFromDestination b (doDestination inst) True) (dkCatalog kd)) = [mv]))))"
  using rs_Reconcile_claimed [OF assms(1)] rd_Reconcile_claimed [OF assms(2)] by blast

text \<open>
  When no builder returns a mover, a reconciliation ends without an error and without a status, also when a builder claimed the resource and failed: a
  source whose provider is one of Ceph's but whose parameters are missing is skipped like one that belongs to somebody else.
\<close>

theorem reconcile_hides_build_error:
  assumes "rkGet k req s = Found inst" "rkCatalog k = [b]" "beFromSource b (roSource inst) True = Inl e"
  shows "rs_Reconcile k req s = (s, None)"
proof -
  have "newRSMachine (rkCatalog k) inst st = Inl ErrNoMoverFound" for st
    using assms by (simp add: newRSMachine_def GetSourceMoverFromCatalog_def)
  then show ?thesis using assms(1) by (simp add: rs_Reconcile_def Let_def)
qed

definition ceph_entry :: "Builder \<Rightarrow> Builder_entry" where
  "ceph_entry rb = \<lparr>beName = cephMoverName, beFromSource = (\<lambda>src priv. snd (FromSource rb src priv)),
     beFromDestination = (\<lambda>dst priv. snd (FromDestination rb dst priv))\<rparr>"

definition sample_builder :: Builder where
  "sample_builder = newBuilder (\<lambda>_. '''') ''img'' (\<lambda>c _ _. Some (c = CopyMethodDirect))"

definition sample_source :: "(string \<times> string) list \<Rightarrow> rs_object" where
  "sample_source params = \<lparr>roSource = \<lparr>rsName = ''rs'', rsUID = ''uid'', rsNamespace = ''ns'',
       rsExternal = Some \<lparr>exProvider = ''openshift-storage.rbd.csi.ceph.com'', exParameters = params\<rparr>, rsPaused = False, rsSourcePVC = ''data'',
       rsHasRsyncTLSStatus = False, rsHasMoverStatus = False\<rparr>,
     roRclone = False, roRestic = False, roRsync = False, roRsyncTLS = False, roTrigger = None, roStatus = None\<rparr>"

definition sample_controller :: "(string \<times> string) list \<Rightarrow> nat rs_controller" where
  "sample_controller params = \<lparr>rkCatalog = [ceph_entry sample_builder], rkGet = (\<lambda>_ _. Found (sample_source params)),
     rkRun = (\<lambda>m s. (m, Suc s, None)), rkUpdateStatus = (\<lambda>_ s. (Suc s, None))\<rparr>"

lemma sample_provider: "provider_mover_type ''openshift-storage.rbd.csi.ceph.com'' = Some MoverRBD"
  by (simp add: provider_mover_type_def HasSuffix_def cephfsProviderName_def nfsProviderName_def rbdProviderName_def)

lemma sample_FromSource_empty: "snd (FromSource sample_builder (roSource (sample_source [])) True) = Inl MissingParameters"
  by (simp add: FromSource_def sample_source_def sample_provider Let_def)

theorem reconcile_hides_build_error_witness:
  "rs_Reconcile (sample_controller []) ''rs'' 0 = (0, None) \<and> snd (FromSource sample_builder (roSource (sample_source [])) True) = Inl MissingParameters"
proof -
  have "rs_Reconcile (sample_controller []) ''rs'' 0 = (0, None)"
    by (rule reconcile_hides_build_error [of _ _ _ "sample_source []" "ceph_entry sample_builder" MissingParameters])
      (simp_all add: sample_controller_def ceph_entry_def sample_FromSource_empty)
  then show ?thesis using sample_FromSource_empty by simp
qed

text \<open>A destination that relinquishing changes by ten and the rest of a reconciliation by two.\<close>

definition sample_destination :: "(string \<times> string) list \<Rightarrow> rd_object" where
  "sample_destination params = \<lparr>doDestination = \<lparr>rdName = ''rd'', rdUID = ''uid'', rdNamespace = ''ns'',
       rdExternal = Some \<lparr>exProvider = ''openshift-storage.rbd.csi.ceph.com'', exParameters = params\<rparr>, rdPaused = False,
       rdHasRsyncTLSStatus = False, rdHasMoverStatus = False\<rparr>,
     doRclone = False, doRestic = False, doRsync = False, doRsyncTLS = False, doTrigger = None, doStatus = None\<rparr>"

definition sample_rd_controller :: "(string \<times> string) list \<Rightarrow> nat rd_controller" where
  "sample_rd_controller params = \<lparr>dkCatalog = [ceph_entry sample_builder], dkGet = (\<lambda>_ _. Found (sample_destination params)),
     dkRelinquish = (\<lambda>_ s. (s + 10, True)), dkRun = (\<lambda>m s. (m, Suc s, None)), dkUpdateStatus = (\<lambda>_ s. (Suc s, None))\<rparr>"

lemma sample_has_no_mover: "\<not> rsHasMover (sample_source ps)" "\<not> rdHasMover (sample_destination ps)"
  by (simp_all add: rsHasMover_def sample_source_def rdHasMover_def sample_destination_def)

lemma sample_source_reconciled: "rs_Reconcile (sample_controller [(''address'', ''a'')]) ''r'' 0 = (2, None)"
proof -
  have "\<exists>mv. snd (FromSource sample_builder (roSource (sample_source [(''address'', ''a'')])) True) = Inr (Some mv)"
    by (simp add: FromSource_def sample_source_def sample_provider sample_builder_def newBuilder_def Let_def)
  then have "\<exists>m. newRSMachine [ceph_entry sample_builder] (sample_source [(''address'', ''a'')]) empty_status = Inr m"
    by (auto simp: newRSMachine_def GetSourceMoverFromCatalog_def ceph_entry_def)
  then show ?thesis using sample_has_no_mover(1) by (auto simp: rs_Reconcile_def sample_controller_def sample_source_def)
qed

lemma sample_destination_reconciled: "rd_Reconcile (sample_rd_controller [(''address'', ''a'')]) ''r'' 0 = (12, None)"
proof -
  have "\<exists>mv. snd (FromDestination sample_builder (doDestination (sample_destination [(''address'', ''a'')])) True) = Inr (Some mv)"
    by (simp add: FromDestination_def sample_destination_def sample_provider sample_builder_def newBuilder_def Let_def)
  then have "\<exists>m. newRDMachine [ceph_entry sample_builder] (sample_destination [(''address'', ''a'')]) empty_status = Inr m"
    by (auto simp: newRDMachine_def GetDestinationMoverFromCatalog_def ceph_entry_def)
  then show ?thesis using sample_has_no_mover(2) by (auto simp: rd_Reconcile_def sample_rd_controller_def sample_destination_def)
qed

theorem reconcile_only_claimed_witness:
  "(\<exists>inst mv. rkGet (sample_controller [(''address'', ''a'')]) ''r'' 0 = Found inst \<and> \<not> rsHasMover inst \<and>
     claims (map (\<lambda>b. beFromSource b (roSource inst) True) (rkCatalog (sample_controller [(''address'', ''a'')]))) = [mv]) \<and>
   (\<exists>inst mv. dkGet (sample_rd_controller [(''address'', ''a'')]) ''r'' 0 = Found inst \<and> \<not> rdHasMover inst \<and>
     claims (map (\<lambda>b. beFromDestination b (doDestination inst) True) (dkCatalog (sample_rd_controller [(''address'', ''a'')]))) = [mv])"
proof -
  have "fst (dkRelinquish (sample_rd_controller [(''address'', ''a'')]) inst 0) = 10" for inst by (simp add: sample_rd_controller_def)
  then show ?thesis
    using reconcile_only_claimed [OF sample_source_reconciled sample_destination_reconciled] by auto
qed

text \<open>
  The exception is real: a destination that no builder claims, here one without parameters, still has its snapshots relinquished.
\<close>

theorem unclaimed_destination_relinquishes: "rd_Reconcile (sample_rd_controller []) ''r'' 0 = (10, None)"
proof -
  have "newRDMachine [ceph_entry sample_builder] (sample_destination []) st = Inl ErrNoMoverFound" for st
    by (simp add: newRDMachine_def GetDestinationMoverFromCatalog_def ceph_entry_def FromDestination_def sample_destination_def sample_provider Let_def)
  then show ?thesis using sample_has_no_mover(2) by (simp add: rd_Reconcile_def sample_rd_controller_def Let_def)
qed

subsection \<open>Sources of a volume\<close>

text \<open>
  With an index over all sources, a change of a volume that uses copy triggers reconciles exactly the sources whose source volume it is.
\<close>

lemma copy_trigger_requests:
  assumes "pvcName pvc \<noteq> ''''" "usesCopyTrigger pvc"
    and "lst (pvcName pvc) = Some (filter (\<lambda>rs. pvcName pvc \<in> set (IndexFieldsForReplicationSource rs)) rss)"
  shows "mapFuncCopyTriggerPVCToReplicationSource lst usesCopyTrigger pvc =
    map (\<lambda>rs. (rsName rs, rsNamespace rs)) (filter (\<lambda>rs. rsSourcePVC rs = pvcName pvc) rss)"
proof -
  have "filter (\<lambda>rs. pvcName pvc \<in> set (IndexFieldsForReplicationSource rs)) rss = filter (\<lambda>rs. rsSourcePVC rs = pvcName pvc) rss"
    using assms(1) by (intro filter_cong) (auto simp: IndexFieldsForReplicationSource_def)
  then show ?thesis using assms(2,3) by (simp add: mapFuncCopyTriggerPVCToReplicationSource_def)
qed

end
