(* ===== verification/Session_Client.thy ===== *)
theory Session_Client
  imports Prelude
begin

section \<open>Connecting to a destination (internal/worker/common/client.go, base_source.go)\<close>

text \<open>
  The source may start before the destination listens, so it repeats the version request with growing pauses until an overall
  deadline.  Times are whole seconds; \<^verbatim>\<open>answer i t\<close> says how long the \<^verbatim>\<open>i\<close>-th request, sent at time \<^verbatim>\<open>t\<close>, takes if nothing cuts it short,
  and whether it succeeds.  The lemmas bound the number of requests and the time, and say which destinations are reached.
\<close>

subsection \<open>Definitions\<close>

definition ConnectionTimeout :: int where "ConnectionTimeout = 60"
definition initialRetryBackoff :: int where "initialRetryBackoff = 1"
definition maxRetryBackoff :: int where "maxRetryBackoff = 10"
definition rpcRetryTimeout :: int where "rpcRetryTimeout = 10"

type_synonym answers = "nat \<Rightarrow> int \<Rightarrow> int \<times> bool"

text \<open>
  One request: it ends at the latest when the context of the call does, and then it has failed.  The context ends after
  \<^verbatim>\<open>rpcRetryTimeout\<close> or with the overall deadline.
\<close>

definition request :: "answers \<Rightarrow> nat \<Rightarrow> int \<Rightarrow> int \<times> bool" where
  "request answer attempt now =
     (case answer attempt now of (took, ok) \<Rightarrow>
        let limit = min (now + rpcRetryTimeout) ConnectionTimeout; finish = now + max 0 took in
        if finish < limit then (finish, ok) else (limit, False))"

lemma request_later: "request answer attempt now = (t, ok) \<Longrightarrow> \<not> ConnectionTimeout \<le> t \<Longrightarrow> now \<le> t"
  by (auto simp: request_def Let_def rpcRetryTimeout_def split: prod.splits if_splits)

definition next_backoff :: "int \<Rightarrow> int" where
  "next_backoff b = (if 2 * b > maxRetryBackoff then maxRetryBackoff else 2 * b)"

text \<open>
  The result is the time at which the loop ends, with the number of the request, and whether it connected.  A pause that would reach the deadline ends
  with it.  The pauses are positive (\<^verbatim>\<open>backoff_pos\<close> below), so the check for that never ends the loop.
\<close>

function handshake_loop :: "answers \<Rightarrow> nat \<Rightarrow> int \<Rightarrow> int \<Rightarrow> int \<times> nat \<times> bool" where
  "handshake_loop answer attempt backoff now =
     (case request answer attempt now of (t, ok) \<Rightarrow>
        if ok then (t, attempt, True)
        else if ConnectionTimeout \<le> t then (t, attempt, False)
        else if ConnectionTimeout \<le> t + backoff \<or> backoff \<le> 0 then (ConnectionTimeout, attempt, False)
        else handshake_loop answer (Suc attempt) (next_backoff backoff) (t + backoff))"
  by pat_completeness auto
termination
  by (relation "measure (\<lambda>(answer, attempt, backoff, now). nat (ConnectionTimeout - now))") (auto dest: request_later [OF sym])

declare handshake_loop.simps [simp del]

definition versionHandshake :: "answers \<Rightarrow> int \<times> nat \<times> bool" where
  "versionHandshake answer = handshake_loop answer 1 initialRetryBackoff 0"

datatype connect_error = DialFailed | HandshakeFailed | SyncFailed | CloseFailed | Cancelled

datatype conn_action = Dial string | CloseConn

definition ConnectToDestination :: "bool \<Rightarrow> answers \<Rightarrow> string \<Rightarrow> conn_action list \<times> (connect_error + unit)" where
  "ConnectToDestination dialOk answer address =
     (if \<not> dialOk then ([], Inl DialFailed)
      else case versionHandshake answer of
        (_, _, True) \<Rightarrow> ([Dial address], Inr ())
      | (_, _, False) \<Rightarrow> ([Dial address, CloseConn], Inl HandshakeFailed))"

definition ConnectDirectTLS :: "bool \<Rightarrow> string \<Rightarrow> conn_action list \<times> (connect_error + unit)" where
  "ConnectDirectTLS dialOk address = (if dialOk then ([Dial address], Inr ()) else ([], Inl DialFailed))"

text \<open>Without an address the worker waits for the end of its context; \<^verbatim>\<open>sync\<close> and \<^verbatim>\<open>closeOk\<close> are the outcomes of the syncer and of closing the connection.\<close>

definition base_Run :: "string \<Rightarrow> bool \<Rightarrow> answers \<Rightarrow> bool \<Rightarrow> bool \<Rightarrow> conn_action list \<times> connect_error option" where
  "base_Run address dialOk answer sync closeOk =
     (if address = '''' then ([], Some Cancelled)
      else case ConnectToDestination dialOk answer address of
        (acts, Inl e) \<Rightarrow> (acts, Some e)
      | (acts, Inr _) \<Rightarrow> (acts @ [CloseConn], if \<not> sync then Some SyncFailed else if \<not> closeOk then Some CloseFailed else None))"

subsection \<open>Bounds\<close>

lemma request_time:
  assumes "request answer i now = (t, ok)" "now \<le> ConnectionTimeout"
  shows "now \<le> t" "t \<le> ConnectionTimeout" "t \<le> now + rpcRetryTimeout"
  using assms by (auto simp: request_def Let_def rpcRetryTimeout_def split: prod.splits if_splits)

text \<open>How many more requests fit: before a pause of \<^verbatim>\<open>b\<close> seconds, with \<^verbatim>\<open>left\<close> seconds to the deadline.\<close>

function attempts_left :: "int \<Rightarrow> int \<Rightarrow> nat" where
  "attempts_left b left = (if left \<le> b \<or> b \<le> 0 then 1 else Suc (attempts_left (next_backoff b) (left - b)))"
  by pat_completeness auto
termination by (relation "measure (\<lambda>(b, left). nat left)") auto

declare attempts_left.simps [simp del]

lemma attempts_left_mono: "x \<le> y \<Longrightarrow> attempts_left b x \<le> attempts_left b y"
proof (induction b x arbitrary: y rule: attempts_left.induct)
  case (1 b x)
  show ?case
  proof (cases "x \<le> b \<or> b \<le> 0")
    case True
    then have "attempts_left b x = 1" by (simp add: attempts_left.simps)
    moreover have "1 \<le> attempts_left b y" by (subst attempts_left.simps) simp
    ultimately show ?thesis by simp
  next
    case False
    then have "attempts_left (next_backoff b) (x - b) \<le> attempts_left (next_backoff b) (y - b)" using 1 by simp
    then show ?thesis using False 1(2) attempts_left.simps [of b x] attempts_left.simps [of b y] by simp
  qed
qed

lemma handshake_loop_bounds:
  "0 \<le> now \<Longrightarrow> now \<le> ConnectionTimeout \<Longrightarrow> handshake_loop answer i b now = (t, n, ok) \<Longrightarrow>
    t \<le> ConnectionTimeout \<and> i \<le> n \<and> n < i + attempts_left b (ConnectionTimeout - now) \<and> (ok \<longrightarrow> (\<exists>u. snd (request answer n u)))"
proof (induction answer i b now arbitrary: t n ok rule: handshake_loop.induct)
  case (1 answer i b now)
  obtain t1 ok1 where r: "request answer i now = (t1, ok1)" by (cases "request answer i now")
  note rt = request_time [OF r 1(3)]
  have pos: "1 \<le> attempts_left b (ConnectionTimeout - now)" by (subst attempts_left.simps) simp
  show ?case
  proof (cases "ok1 \<or> ConnectionTimeout \<le> t1 + b \<or> b \<le> 0")
    case True
    then show ?thesis using 1(4) r rt pos by (subst (asm) handshake_loop.simps) (auto split: if_splits intro!: exI [of _ now])
  next
    case False
    have rec: "handshake_loop answer (Suc i) (next_backoff b) (t1 + b) = (t, n, ok)"
      using 1(4) r False by (subst (asm) handshake_loop.simps) (auto split: if_splits)
    have "\<not> ok1" "\<not> ConnectionTimeout \<le> t1" using False by auto
    then have ih: "t \<le> ConnectionTimeout \<and> Suc i \<le> n \<and> n < Suc i + attempts_left (next_backoff b) (ConnectionTimeout - (t1 + b)) \<and>
        (ok \<longrightarrow> (\<exists>u. snd (request answer n u)))"
      using 1(1) [OF r [symmetric] _ _ _ _ _ rec] False rt 1(2) by simp
    have "attempts_left (next_backoff b) (ConnectionTimeout - (t1 + b)) \<le> attempts_left (next_backoff b) (ConnectionTimeout - now - b)"
      using rt by (intro attempts_left_mono) simp
    moreover have "attempts_left b (ConnectionTimeout - now) = Suc (attempts_left (next_backoff b) (ConnectionTimeout - now - b))"
      using False rt by (subst attempts_left.simps) auto
    ultimately show ?thesis using ih by auto
  qed
qed

lemma attempts_sixty: "attempts_left 1 60 = 9"
proof -
  note step = attempts_left.simps
  have "attempts_left 10 5 = 1" by (simp add: step [of 10 5])
  then have "attempts_left 10 15 = 2" by (simp add: step [of 10 15] next_backoff_def maxRetryBackoff_def)
  then have "attempts_left 10 45 = 5"
    by (simp add: step [of 10 45] step [of 10 35] step [of 10 25] next_backoff_def maxRetryBackoff_def)
  then show ?thesis
    by (simp add: step [of 1 60] step [of 2 59] step [of 4 57] step [of 8 53] next_backoff_def maxRetryBackoff_def)
qed

text \<open>
  C27: the handshake ends within the overall deadline of 60 seconds and after at most nine requests, whatever the destination does; it reports a
  connection only if a request was answered.
\<close>

theorem handshake_bounded:
  assumes "versionHandshake answer = (t, n, ok)"
  shows "t \<le> 60 \<and> 1 \<le> n \<and> n \<le> 9 \<and> (ok \<longrightarrow> (\<exists>u. snd (request answer n u)))"
  using handshake_loop_bounds [of 0 answer 1 initialRetryBackoff t n ok] assms attempts_sixty
  by (auto simp: versionHandshake_def ConnectionTimeout_def initialRetryBackoff_def)

subsection \<open>Which destinations are reached\<close>

lemma backoff_pos: "1 \<le> b \<Longrightarrow> b \<le> maxRetryBackoff \<Longrightarrow> 1 \<le> next_backoff b \<and> next_backoff b \<le> maxRetryBackoff"
  by (simp add: next_backoff_def maxRetryBackoff_def)

lemma handshake_loop_reaches:
  assumes T: "T \<le> 30"
  shows "(\<And>i u. T \<le> u \<Longrightarrow> \<exists>took. answer i u = (took, True) \<and> took < 10) \<Longrightarrow> 0 \<le> now \<Longrightarrow> now < T + 20 \<Longrightarrow> 1 \<le> b \<Longrightarrow> b \<le> maxRetryBackoff \<Longrightarrow>
    snd (snd (handshake_loop answer i b now))"
proof (induction answer i b now rule: handshake_loop.induct)
  case (1 answer i b now)
  obtain t1 ok1 where r: "request answer i now = (t1, ok1)" by (cases "request answer i now")
  show ?case
  proof (cases "T \<le> now")
    case True
    obtain took where "answer i now = (took, True)" "took < 10" using 1(2) [OF True] by blast
    then have "ok1" using r 1(3,4) T by (auto simp: request_def Let_def rpcRetryTimeout_def ConnectionTimeout_def split: if_splits)
    then show ?thesis using r by (subst handshake_loop.simps) simp
  next
    case False
    show ?thesis
    proof (cases ok1)
      case True
      then show ?thesis using r by (subst handshake_loop.simps) simp
    next
      case F: False
      have t: "now \<le> t1" "t1 \<le> now + 10" using request_time [OF r] False T by (auto simp: ConnectionTimeout_def rpcRetryTimeout_def)
      then have c: "\<not> ConnectionTimeout \<le> t1" "\<not> (ConnectionTimeout \<le> t1 + b \<or> b \<le> 0)" "t1 + b < T + 20" "0 \<le> t1 + b"
        using False T 1(3,5,6) by (auto simp: ConnectionTimeout_def maxRetryBackoff_def)
      have "snd (snd (handshake_loop answer (Suc i) (next_backoff b) (t1 + b)))"
        using 1(1) [OF r [symmetric] F c(1,2) 1(2) c(4,3)] backoff_pos [OF 1(5,6)] by blast
      then show ?thesis using r F c by (subst handshake_loop.simps) simp
    qed
  qed
qed

text \<open>
  C26: a destination that answers every request from some time within the first 30 seconds on, each in less than ten seconds, is reached, however it behaves
  before.
\<close>

theorem handshake_reaches:
  assumes "\<And>i u. T \<le> u \<Longrightarrow> \<exists>took. answer i u = (took, True) \<and> took < 10" "0 \<le> T" "T \<le> 30"
  shows "snd (ConnectToDestination True answer address) = Inr ()"
proof -
  have "snd (snd (versionHandshake answer))"
    unfolding versionHandshake_def using assms by (intro handshake_loop_reaches [of T]) (auto simp: initialRetryBackoff_def maxRetryBackoff_def)
  then show ?thesis by (auto simp: ConnectToDestination_def split: prod.splits bool.splits)
qed

definition late_answer :: answers where
  "late_answer i t = (if t < 20 then (100, False) else (1, True))"

theorem handshake_bounded_witness:
  "\<exists>t n ok. versionHandshake late_answer = (t, n, ok) \<and> t \<le> 60 \<and> n \<le> 9"
  by (cases "versionHandshake late_answer") (use handshake_bounded in blast)

theorem handshake_reaches_witness: "snd (ConnectToDestination True late_answer ''addr'') = Inr ()"
  by (rule handshake_reaches [of 20]) (auto simp: late_answer_def)

subsection \<open>Connections are closed\<close>

definition conn_delta :: "conn_action \<Rightarrow> unit \<Rightarrow> int" where
  "conn_delta a _ = (case a of Dial _ \<Rightarrow> 1 | CloseConn \<Rightarrow> -1)"

lemma base_Run_closes: "log_net conn_delta (fst (base_Run address dialOk answer sync closeOk)) () = 0"
  by (cases "versionHandshake answer"; cases "snd (snd (versionHandshake answer))")
    (simp_all add: base_Run_def ConnectToDestination_def conn_delta_def)

lemma base_Run_ok:
  "snd (base_Run address dialOk answer sync closeOk) = None \<longleftrightarrow>
    address \<noteq> [] \<and> dialOk \<and> snd (snd (versionHandshake answer)) \<and> sync \<and> closeOk"
  by (cases "versionHandshake answer"; cases "snd (snd (versionHandshake answer))")
    (simp_all add: base_Run_def ConnectToDestination_def)

end
