(* ===== verification/Session_Tls.thy ===== *)
theory Session_Tls
  imports Strconv
begin

section \<open>Certificates and pinning (internal/worker/common/tls.go, direct_listener.go)\<close>

text \<open>
  The data of a transfer travels over a TLS connection of its own.  Both ends make a short-lived certificate, exchange the
  certificates over the tunnel and pin each other's fingerprint; the destination starts a listener for the pinned client and
  replaces it when another client comes.  SHA-256, PEM and the generation of keys and certificates are library calls: they are
  the fields of \<^verbatim>\<open>crypto\<close>.  The lemmas say that each end accepts exactly the certificate it was given, and that an answer of the
  destination always belongs to the one listener that runs, pinned to the client that asked.
\<close>

subsection \<open>Certificates\<close>

datatype tls_error =
  KeyGenFailed | SerialFailed | CreateCertFailed | MarshalKeyFailed | KeyPairFailed | PEMFailed | NoPeerCertificate | FingerprintMismatch |
  ListenFailed | BadPort | GenerateFailed | FingerprintFailed | ConfigFailed | StartFailed

record template =
  ctSerial :: int
  ctCommonName :: string
  ctNotBefore :: int
  ctNotAfter :: int
  ctKeyUsage :: "string list"
  ctExtKeyUsage :: "string list"
  ctBasicConstraintsValid :: bool

text \<open>A key is its encoded form; \<^verbatim>\<open>cyCreate\<close> signs the template with the key.\<close>

record crypto =
  cySHA256 :: "bytes \<Rightarrow> bytes"
  cyPEMEncode :: "string \<Rightarrow> bytes \<Rightarrow> bytes"
  cyPEMDecode :: "bytes \<Rightarrow> bytes option"
  cyCreate :: "template \<Rightarrow> bytes \<Rightarrow> bytes option"
  cyMarshalKey :: "bytes \<Rightarrow> bytes option"
  cyKeyPair :: "bytes \<Rightarrow> bytes \<Rightarrow> bool"

record EphemeralCert =
  ecCertPEM :: bytes
  ecTLSCert :: bytes
  ecFingerprint :: bytes

definition cert_template :: "int \<Rightarrow> int \<Rightarrow> template" where
  "cert_template serial now = \<lparr>ctSerial = serial, ctCommonName = ''ceph-volsync-ephemeral'', ctNotBefore = now, ctNotAfter = now + 10 * 3600,
     ctKeyUsage = [''DigitalSignature'', ''KeyEncipherment''], ctExtKeyUsage = [''ServerAuth'', ''ClientAuth''], ctBasicConstraintsValid = True\<rparr>"

text \<open>The random source gives the key and the serial number, or fails.\<close>

record randomness =
  rnKey :: "bytes option"
  rnSerial :: "int option"
  rnNow :: int

definition GenerateEphemeralCert :: "crypto \<Rightarrow> randomness \<Rightarrow> tls_error + EphemeralCert" where
  "GenerateEphemeralCert cy rn =
     (case rnKey rn of
        None \<Rightarrow> Inl KeyGenFailed
      | Some key \<Rightarrow>
          (case rnSerial rn of
             None \<Rightarrow> Inl SerialFailed
           | Some serial \<Rightarrow>
               (case cyCreate cy (cert_template serial (rnNow rn)) key of
                  None \<Rightarrow> Inl CreateCertFailed
                | Some certDER \<Rightarrow>
                    let certPEM = cyPEMEncode cy ''CERTIFICATE'' certDER in
                    case cyMarshalKey cy key of
                      None \<Rightarrow> Inl MarshalKeyFailed
                    | Some keyDER \<Rightarrow>
                        if cyKeyPair cy certPEM (cyPEMEncode cy ''EC PRIVATE KEY'' keyDER)
                        then Inr \<lparr>ecCertPEM = certPEM, ecTLSCert = certDER, ecFingerprint = cySHA256 cy certDER\<rparr>
                        else Inl KeyPairFailed)))"

definition PeerFingerprint :: "crypto \<Rightarrow> bytes \<Rightarrow> tls_error + bytes" where
  "PeerFingerprint cy certPEM = (case cyPEMDecode cy certPEM of None \<Rightarrow> Inl PEMFailed | Some der \<Rightarrow> Inr (cySHA256 cy der))"

definition fingerprintVerifier :: "crypto \<Rightarrow> bytes \<Rightarrow> bytes list \<Rightarrow> tls_error option" where
  "fingerprintVerifier cy expected rawCerts =
     (case rawCerts of
        [] \<Rightarrow> Some NoPeerCertificate
      | c # _ \<Rightarrow> if cySHA256 cy c \<noteq> expected then Some FingerprintMismatch else None)"

record TLSConfig =
  tcCertificates :: "bytes list"
  tcRequireClientCert :: bool
  tcInsecureSkipVerify :: bool
  tcVerifyPeer :: "bytes list \<Rightarrow> tls_error option"
  tcMinVersion :: nat
  tcTicketsDisabled :: bool

definition VersionTLS13 :: nat where "VersionTLS13 = 772"

definition NewServerTLSConfig :: "crypto \<Rightarrow> EphemeralCert \<Rightarrow> bytes \<Rightarrow> tls_error + TLSConfig" where
  "NewServerTLSConfig cy serverCert clientCertPEM =
     (case PeerFingerprint cy clientCertPEM of
        Inl _ \<Rightarrow> Inl FingerprintFailed
      | Inr fp \<Rightarrow> Inr \<lparr>tcCertificates = [ecTLSCert serverCert], tcRequireClientCert = True, tcInsecureSkipVerify = True,
          tcVerifyPeer = fingerprintVerifier cy fp, tcMinVersion = VersionTLS13, tcTicketsDisabled = True\<rparr>)"

definition NewClientTLSConfig :: "crypto \<Rightarrow> EphemeralCert \<Rightarrow> bytes \<Rightarrow> tls_error + TLSConfig" where
  "NewClientTLSConfig cy clientCert serverCertPEM =
     (case PeerFingerprint cy serverCertPEM of
        Inl _ \<Rightarrow> Inl FingerprintFailed
      | Inr fp \<Rightarrow> Inr \<lparr>tcCertificates = [ecTLSCert clientCert], tcRequireClientCert = False, tcInsecureSkipVerify = True,
          tcVerifyPeer = fingerprintVerifier cy fp, tcMinVersion = VersionTLS13, tcTicketsDisabled = True\<rparr>)"

text \<open>
  \<^verbatim>\<open>crypto/tls\<close> on a full handshake (tickets are disabled, so there is no other): with a requirement for a certificate an empty chain is refused, then
  the callback decides, since the usual verification is switched off.  A client always gets the chain of the server.
\<close>

definition tls_accepts :: "TLSConfig \<Rightarrow> bytes list \<Rightarrow> bool" where
  "tls_accepts cfg chain \<longleftrightarrow> (tcRequireClientCert cfg \<longrightarrow> chain \<noteq> []) \<and> tcVerifyPeer cfg chain = None"

text \<open>What the code relies on: a PEM block decodes to what was encoded.\<close>

definition pem_ok :: "crypto \<Rightarrow> bool" where
  "pem_ok cy \<longleftrightarrow> (\<forall>t d. cyPEMDecode cy (cyPEMEncode cy t d) = Some d)"

subsection \<open>The listener of the destination\<close>

definition DirectTLSPortName :: string where "DirectTLSPortName = ''8081''"

text \<open>
  \<^verbatim>\<open>net.SplitHostPort\<close>: the port follows the last colon; a host with colons is in brackets.
\<close>

definition SplitHostPort :: "string \<Rightarrow> (string \<times> string) option" where
  "SplitHostPort s =
     (if CHR '':'' \<notin> set s then None
      else let port = rev (takeWhile (\<lambda>c. c \<noteq> CHR '':'') (rev s)); host = take (length s - length port - 1) s in
        if host \<noteq> [] \<and> hd host = CHR ''['' then (if last host = CHR '']'' then Some (butlast (tl host), port) else None)
        else if CHR '':'' \<in> set host then None else Some (host, port))"

definition parsePort :: "string \<Rightarrow> tls_error + int" where
  "parsePort addr = (case SplitHostPort addr of None \<Rightarrow> Inl BadPort | Some (_, p) \<Rightarrow> (case Atoi p of None \<Rightarrow> Inl BadPort | Some i \<Rightarrow> Inr i))"

record listener =
  liConfig :: TLSConfig
  liPort :: int
  liRunning :: bool

text \<open>The result of \<^verbatim>\<open>net.Listen\<close> is the address of the listener, or a failure.\<close>

definition StartDirectTLSListener :: "TLSConfig \<Rightarrow> string option \<Rightarrow> tls_error + listener" where
  "StartDirectTLSListener cfg listen =
     (case listen of
        None \<Rightarrow> Inl ListenFailed
      | Some addr \<Rightarrow> (case parsePort addr of Inl e \<Rightarrow> Inl e | Inr port \<Rightarrow> Inr \<lparr>liConfig = cfg, liPort = port, liRunning = True\<rparr>))"

text \<open>
  The handler; \<^verbatim>\<open>heListeners\<close> are all the listeners that were ever started, and the pointer \<^verbatim>\<open>directListener\<close> of the code is an index into them.
\<close>

record handler =
  heServerCert :: "EphemeralCert option"
  heDirect :: "nat option"
  hePinned :: bytes
  heListeners :: "listener list"

definition new_handler :: handler where
  "new_handler = \<lparr>heServerCert = None, heDirect = None, hePinned = replicate 32 0, heListeners = []\<rparr>"

definition listener_Port :: "listener \<Rightarrow> int" where "listener_Port d = liPort d"

definition listener_Stop :: "listener \<Rightarrow> listener" where "listener_Stop d = d\<lparr>liRunning := False\<rparr>"

definition stop_at :: "nat \<Rightarrow> handler \<Rightarrow> handler" where
  "stop_at i h = h\<lparr>heListeners := (heListeners h)[i := listener_Stop (heListeners h ! i)]\<rparr>"

text \<open>The part after a fresh certificate is needed: \<^verbatim>\<open>rn\<close> and \<^verbatim>\<open>listen\<close> are what the random source and the network give.\<close>

definition exchange_fresh :: "crypto \<Rightarrow> randomness \<Rightarrow> string option \<Rightarrow> bytes \<Rightarrow> handler \<Rightarrow> handler \<times> (tls_error + bytes \<times> int)" where
  "exchange_fresh cy rn listen clientPEM h =
     (case GenerateEphemeralCert cy rn of
        Inl _ \<Rightarrow> (h, Inl GenerateFailed)
      | Inr serverCert \<Rightarrow>
          (case NewServerTLSConfig cy serverCert clientPEM of
             Inl _ \<Rightarrow> (h, Inl ConfigFailed)
           | Inr cfg \<Rightarrow>
               (case StartDirectTLSListener cfg listen of
                  Inl _ \<Rightarrow> (h, Inl StartFailed)
                | Inr dl \<Rightarrow>
                    (case PeerFingerprint cy clientPEM of
                       Inl _ \<Rightarrow> (h\<lparr>heListeners := heListeners h @ [listener_Stop dl]\<rparr>, Inl FingerprintFailed)
                     | Inr clientFP \<Rightarrow>
                         (h\<lparr>heServerCert := Some serverCert, heDirect := Some (length (heListeners h)), hePinned := clientFP,
                            heListeners := heListeners h @ [dl]\<rparr>,
                          Inr (ecCertPEM serverCert, listener_Port dl))))))"

text \<open>An index or certificate that is missing where the code has a pointer would be a nil dereference; the invariant excludes it.\<close>

definition ExchangeCerts :: "crypto \<Rightarrow> randomness \<Rightarrow> string option \<Rightarrow> bytes \<Rightarrow> handler \<Rightarrow> handler \<times> (tls_error + bytes \<times> int)" where
  "ExchangeCerts cy rn listen clientPEM h =
     (case heDirect h of
        None \<Rightarrow> exchange_fresh cy rn listen clientPEM h
      | Some i \<Rightarrow>
          (case PeerFingerprint cy clientPEM of
             Inl _ \<Rightarrow> (h, Inl FingerprintFailed)
           | Inr newFP \<Rightarrow>
               if newFP = hePinned h then (h, Inr (ecCertPEM (the (heServerCert h)), listener_Port (heListeners h ! i)))
               else exchange_fresh cy rn listen clientPEM ((stop_at i h)\<lparr>heDirect := None\<rparr>)))"

definition StopDirectTLS :: "handler \<Rightarrow> handler" where
  "StopDirectTLS h = (case heDirect h of None \<Rightarrow> h | Some i \<Rightarrow> stop_at i h)"

subsection \<open>Pinning\<close>

lemma verifier_accepts: "fingerprintVerifier cy fp chain = None \<longleftrightarrow> (\<exists>d rest. chain = d # rest \<and> cySHA256 cy d = fp)"
  by (auto simp: fingerprintVerifier_def split: list.splits)

lemma server_accepts:
  assumes "NewServerTLSConfig cy sc pem = Inr cfg" "PeerFingerprint cy pem = Inr fp"
  shows "tls_accepts cfg chain \<longleftrightarrow> (\<exists>d rest. chain = d # rest \<and> cySHA256 cy d = fp)" "tcCertificates cfg = [ecTLSCert sc]"
  using assms by (auto simp: NewServerTLSConfig_def tls_accepts_def verifier_accepts split: sum.splits)

lemma client_accepts:
  assumes "NewClientTLSConfig cy cc pem = Inr cfg" "PeerFingerprint cy pem = Inr fp"
  shows "tls_accepts cfg chain \<longleftrightarrow> (\<exists>d rest. chain = d # rest \<and> cySHA256 cy d = fp)" "tcCertificates cfg = [ecTLSCert cc]"
  using assms by (auto simp: NewClientTLSConfig_def tls_accepts_def verifier_accepts split: sum.splits)

lemma generated_fingerprint:
  assumes "pem_ok cy" "GenerateEphemeralCert cy rn = Inr c"
  shows "PeerFingerprint cy (ecCertPEM c) = Inr (cySHA256 cy (ecTLSCert c))" "ecFingerprint c = cySHA256 cy (ecTLSCert c)"
  using assms by (auto simp: GenerateEphemeralCert_def PeerFingerprint_def pem_ok_def Let_def split: option.splits if_splits)

subsection \<open>The handler\<close>

text \<open>
  Between calls, a set pointer leads to the last listener, which was configured with the current certificate and the pinned
  fingerprint; all the other listeners are stopped.
\<close>

definition handler_inv :: "crypto \<Rightarrow> handler \<Rightarrow> bool" where
  "handler_inv cy h \<longleftrightarrow>
     (\<forall>j < length (heListeners h). liRunning (heListeners h ! j) \<longrightarrow> heDirect h = Some j) \<and>
     (\<forall>i. heDirect h = Some i \<longrightarrow> i < length (heListeners h) \<and>
        (\<exists>sc pem rn. heServerCert h = Some sc \<and> GenerateEphemeralCert cy rn = Inr sc \<and> PeerFingerprint cy pem = Inr (hePinned h) \<and>
           NewServerTLSConfig cy sc pem = Inr (liConfig (heListeners h ! i))))"

lemma handler_inv_new [inv_rules]: "handler_inv cy new_handler"
  by (simp add: handler_inv_def new_handler_def)

lemma handler_inv_idle: "heDirect h = None \<Longrightarrow> handler_inv cy h \<longleftrightarrow> (\<forall>l \<in> set (heListeners h). \<not> liRunning l)"
  by (simp add: handler_inv_def all_set_conv_all_nth)

lemma stop_at_idle:
  assumes "handler_inv cy h" "heDirect h = Some i"
  shows "handler_inv cy ((stop_at i h)\<lparr>heDirect := None\<rparr>)"
proof -
  have "\<not> liRunning (heListeners (stop_at i h) ! j)" if "j < length (heListeners h)" for j
    using assms that by (cases "j = i") (auto simp: handler_inv_def stop_at_def listener_Stop_def)
  then show ?thesis by (auto simp: handler_inv_def stop_at_def)
qed

lemma exchange_fresh_inv:
  assumes "handler_inv cy h" "heDirect h = None" "exchange_fresh cy rn listen pem h = (h', r)"
  shows "handler_inv cy h'"
proof -
  have idle: "\<forall>l \<in> set (heListeners h). \<not> liRunning l" using assms(1,2) handler_inv_idle by blast
  consider "h' = h" | dl where "h' = h\<lparr>heListeners := heListeners h @ [listener_Stop dl]\<rparr>"
    | sc cfg dl fp where "GenerateEphemeralCert cy rn = Inr sc" "NewServerTLSConfig cy sc pem = Inr cfg"
      "StartDirectTLSListener cfg listen = Inr dl" "PeerFingerprint cy pem = Inr fp"
      "h' = h\<lparr>heServerCert := Some sc, heDirect := Some (length (heListeners h)), hePinned := fp, heListeners := heListeners h @ [dl]\<rparr>"
    using assms(3) by (auto simp: exchange_fresh_def split: sum.splits)
  then show ?thesis
  proof cases
    case 1
    then show ?thesis using assms(1) by simp
  next
    case 2
    then show ?thesis using idle assms(2) by (simp add: handler_inv_idle listener_Stop_def)
  next
    case 3
    then have "liConfig dl = cfg" by (auto simp: StartDirectTLSListener_def split: option.splits sum.splits)
    then show ?thesis using 3 idle by (auto simp: handler_inv_def nth_append less_Suc_eq)
  qed
qed

lemma ExchangeCerts_inv [inv_rules]:
  assumes "handler_inv cy h" "ExchangeCerts cy rn listen pem h = (h', r)"
  shows "handler_inv cy h'"
proof (cases "heDirect h")
  case None
  then show ?thesis using assms exchange_fresh_inv by (simp add: ExchangeCerts_def)
next
  case (Some i)
  then show ?thesis
    using assms exchange_fresh_inv [OF stop_at_idle [OF assms(1) Some]]
    by (auto simp: ExchangeCerts_def split: sum.splits if_splits)
qed

lemma StopDirectTLS_inv [inv_rules]: "handler_inv cy h \<Longrightarrow> handler_inv cy (StopDirectTLS h)"
proof (cases "heDirect h")
  case (Some i)
  assume inv: "handler_inv cy h"
  have l: "length (heListeners (stop_at i h)) = length (heListeners h)" "heDirect (stop_at i h) = Some i"
    "heServerCert (stop_at i h) = heServerCert h" "hePinned (stop_at i h) = hePinned h" using Some by (simp_all add: stop_at_def)
  have run: "\<not> liRunning (heListeners (stop_at i h) ! j)" if "j < length (heListeners h)" for j
    using inv that Some by (cases "j = i") (auto simp: handler_inv_def stop_at_def listener_Stop_def)
  have "i < length (heListeners h)" using inv Some by (simp add: handler_inv_def)
  then have "liConfig (heListeners (stop_at i h) ! i) = liConfig (heListeners h ! i)" by (simp add: stop_at_def listener_Stop_def)
  then show ?thesis using inv Some l run by (simp add: StopDirectTLS_def handler_inv_def)
qed (simp add: StopDirectTLS_def)

subsection \<open>Answers belong to the running listener\<close>

text \<open>The states of a handler while the destination serves: any requests, with any outcomes of the library calls.\<close>

inductive handler_reach :: "crypto \<Rightarrow> handler \<Rightarrow> bool" for cy :: crypto where
  start: "handler_reach cy new_handler"
| exchange: "handler_reach cy h \<Longrightarrow> ExchangeCerts cy rn listen pem h = (h', r) \<Longrightarrow> handler_reach cy h'"

definition handler_live :: "handler \<Rightarrow> bool" where
  "handler_live h \<longleftrightarrow> (\<forall>i. heDirect h = Some i \<longrightarrow> liRunning (heListeners h ! i))"

lemma exchange_fresh_live:
  assumes "heDirect h = None" "exchange_fresh cy rn listen pem h = (h', r)"
  shows "handler_live h'"
  using assms by (auto simp: exchange_fresh_def handler_live_def StartDirectTLSListener_def split: sum.splits option.splits)

lemma ExchangeCerts_live:
  assumes "handler_live h" "ExchangeCerts cy rn listen pem h = (h', r)"
  shows "handler_live h'"
proof (cases "heDirect h")
  case None
  then show ?thesis using assms(2) exchange_fresh_live by (simp add: ExchangeCerts_def)
next
  case (Some i)
  then show ?thesis using assms exchange_fresh_live [of "(stop_at i h)\<lparr>heDirect := None\<rparr>"]
    by (auto simp: ExchangeCerts_def split: sum.splits if_splits)
qed

lemma handler_reach_inv: "handler_reach cy h \<Longrightarrow> handler_inv cy h \<and> handler_live h"
proof (induction rule: handler_reach.induct)
  case start
  have "handler_live new_handler" by (simp add: handler_live_def new_handler_def)
  then show ?case by (simp add: handler_inv_new)
next
  case (exchange h rn listen pem h' r)
  then show ?case using ExchangeCerts_inv ExchangeCerts_live by blast
qed

lemma exchange_fresh_answer:
  assumes "exchange_fresh cy rn listen pem h = (h', Inr (spem, port))"
  shows "\<exists>i sc. heDirect h' = Some i \<and> heServerCert h' = Some sc \<and> ecCertPEM sc = spem \<and> liPort (heListeners h' ! i) = port \<and>
    PeerFingerprint cy pem = Inr (hePinned h')"
  using assms by (auto simp: exchange_fresh_def listener_Port_def split: sum.splits)

lemma ExchangeCerts_answer:
  assumes inv: "handler_inv cy h" and run: "ExchangeCerts cy rn listen pem h = (h', Inr (spem, port))"
  shows "\<exists>i sc. heDirect h' = Some i \<and> heServerCert h' = Some sc \<and> ecCertPEM sc = spem \<and> liPort (heListeners h' ! i) = port \<and>
    PeerFingerprint cy pem = Inr (hePinned h')"
proof (cases "heDirect h")
  case None
  then show ?thesis using run exchange_fresh_answer by (simp add: ExchangeCerts_def)
next
  case (Some i)
  obtain fp where fp: "PeerFingerprint cy pem = Inr fp" using run Some by (auto simp: ExchangeCerts_def split: sum.splits)
  show ?thesis
  proof (cases "fp = hePinned h")
    case True
    moreover obtain sc where "heServerCert h = Some sc" using inv Some by (auto simp: handler_inv_def)
    ultimately show ?thesis using run Some fp by (auto simp: ExchangeCerts_def listener_Port_def)
  next
    case False
    then have "exchange_fresh cy rn listen pem ((stop_at i h)\<lparr>heDirect := None\<rparr>) = (h', Inr (spem, port))"
      using run Some fp by (simp add: ExchangeCerts_def)
    then show ?thesis by (rule exchange_fresh_answer)
  qed
qed

text \<open>
  C25: whatever happened before, an answer of the destination to a request for a direct connection belongs to the only listener that runs: its port and its
  certificate are those of the answer, and it accepts exactly the certificates with the fingerprint of the client that asked.
\<close>

theorem exchange_pins_requester:
  assumes "pem_ok cy" "handler_reach cy h" "ExchangeCerts cy rn listen pem h = (h', Inr (spem, port))"
  shows "\<exists>i fp der. PeerFingerprint cy pem = Inr fp \<and> i < length (heListeners h') \<and>
    (\<forall>j < length (heListeners h'). liRunning (heListeners h' ! j) \<longleftrightarrow> j = i) \<and> liPort (heListeners h' ! i) = port \<and>
    PeerFingerprint cy spem = Inr (cySHA256 cy der) \<and> tcCertificates (liConfig (heListeners h' ! i)) = [der] \<and>
    (\<forall>chain. tls_accepts (liConfig (heListeners h' ! i)) chain \<longleftrightarrow> (\<exists>d rest. chain = d # rest \<and> cySHA256 cy d = fp))"
proof -
  have inv: "handler_inv cy h'" "handler_live h'" "handler_inv cy h"
    using handler_reach_inv [OF assms(2)] handler_reach_inv [OF handler_reach.exchange [OF assms(2,3)]] by simp_all
  obtain i sc where a: "heDirect h' = Some i" "heServerCert h' = Some sc" "ecCertPEM sc = spem" "liPort (heListeners h' ! i) = port"
    "PeerFingerprint cy pem = Inr (hePinned h')" using ExchangeCerts_answer [OF inv(3) assms(3)] by blast
  obtain p rn' where c: "i < length (heListeners h')" "GenerateEphemeralCert cy rn' = Inr sc" "PeerFingerprint cy p = Inr (hePinned h')"
    "NewServerTLSConfig cy sc p = Inr (liConfig (heListeners h' ! i))" using inv(1) a(1,2) by (auto simp: handler_inv_def)
  have "\<forall>j < length (heListeners h'). liRunning (heListeners h' ! j) \<longleftrightarrow> j = i"
    using inv(1,2) a(1) by (auto simp: handler_inv_def handler_live_def)
  moreover have "PeerFingerprint cy spem = Inr (cySHA256 cy (ecTLSCert sc))" using generated_fingerprint(1) [OF assms(1) c(2)] a(3) by simp
  ultimately show ?thesis using a(4,5) c(1) server_accepts [OF c(4,3)] by blast
qed

text \<open>
  C14: two workers that exchanged their certificates reach each other and nobody else.  The client's own certificate is accepted by the listener it was
  told about and the listener's certificate by the client, and each end accepts only chains that start with a certificate of the same SHA-256 sum.
\<close>

theorem direct_tls_mutual:
  assumes "pem_ok cy" "handler_reach cy h" "GenerateEphemeralCert cy rc = Inr cc"
    and "ExchangeCerts cy rn listen (ecCertPEM cc) h = (h', Inr (spem, port))" "NewClientTLSConfig cy cc spem = Inr ccfg"
  shows "\<exists>l \<in> set (heListeners h'). liRunning l \<and> liPort l = port \<and> (\<exists>der. tcCertificates (liConfig l) = [der] \<and>
    (\<forall>chain. tls_accepts (liConfig l) chain \<longleftrightarrow> chain \<noteq> [] \<and> cySHA256 cy (hd chain) = cySHA256 cy (hd (tcCertificates ccfg))) \<and>
    (\<forall>chain. tls_accepts ccfg chain \<longleftrightarrow> chain \<noteq> [] \<and> cySHA256 cy (hd chain) = cySHA256 cy der) \<and>
    tls_accepts (liConfig l) (tcCertificates ccfg) \<and> tls_accepts ccfg (tcCertificates (liConfig l)))"
proof -
  have inv: "handler_inv cy h'" "handler_live h'" "handler_inv cy h"
    using handler_reach_inv [OF assms(2)] handler_reach_inv [OF handler_reach.exchange [OF assms(2,4)]] by simp_all
  obtain i sc where a: "heDirect h' = Some i" "heServerCert h' = Some sc" "ecCertPEM sc = spem" "liPort (heListeners h' ! i) = port"
    "PeerFingerprint cy (ecCertPEM cc) = Inr (hePinned h')" using ExchangeCerts_answer [OF inv(3) assms(4)] by blast
  obtain p rn' where c: "i < length (heListeners h')" "GenerateEphemeralCert cy rn' = Inr sc" "PeerFingerprint cy p = Inr (hePinned h')"
    "NewServerTLSConfig cy sc p = Inr (liConfig (heListeners h' ! i))" using inv(1) a(1,2) by (auto simp: handler_inv_def)
  have pin: "hePinned h' = cySHA256 cy (ecTLSCert cc)" using generated_fingerprint(1) [OF assms(1,3)] a(5) by simp
  have sp: "PeerFingerprint cy spem = Inr (cySHA256 cy (ecTLSCert sc))" using generated_fingerprint(1) [OF assms(1) c(2)] a(3) by simp
  have ex: "(\<exists>d rest. chain = d # rest \<and> cySHA256 cy d = x) \<longleftrightarrow> chain \<noteq> [] \<and> cySHA256 cy (hd chain) = x" for chain x
    by (cases chain) auto
  have cert: "tcCertificates ccfg = [ecTLSCert cc]" "tcCertificates (liConfig (heListeners h' ! i)) = [ecTLSCert sc]"
    using client_accepts(2) [OF assms(5) sp] server_accepts(2) [OF c(4,3)] by simp_all
  have "liRunning (heListeners h' ! i)" using inv(2) a(1) by (simp add: handler_live_def)
  moreover have "tls_accepts (liConfig (heListeners h' ! i)) chain \<longleftrightarrow> chain \<noteq> [] \<and> cySHA256 cy (hd chain) = cySHA256 cy (ecTLSCert cc)" for chain
    using server_accepts(1) [OF c(4,3)] ex by (simp add: pin)
  moreover have "tls_accepts ccfg chain \<longleftrightarrow> chain \<noteq> [] \<and> cySHA256 cy (hd chain) = cySHA256 cy (ecTLSCert sc)" for chain
    using client_accepts(1) [OF assms(5) sp] ex by simp
  ultimately show ?thesis using c(1) a(4) cert by (intro bexI [of _ "heListeners h' ! i"]) auto
qed

text \<open>
  After \<^verbatim>\<open>StopDirectTLS\<close> the pointer still leads to the stopped listener: a client that asks again is given the port nobody listens on.
\<close>

lemma answer_after_stop:
  assumes "heDirect h = Some i" "heServerCert h = Some sc" "i < length (heListeners h)" "PeerFingerprint cy pem = Inr (hePinned h)"
  shows "\<exists>h'. ExchangeCerts cy rn listen pem (StopDirectTLS h) = (h', Inr (ecCertPEM sc, liPort (heListeners h ! i))) \<and>
    \<not> liRunning (heListeners h' ! i)"
  using assms by (simp add: ExchangeCerts_def StopDirectTLS_def stop_at_def listener_Port_def listener_Stop_def)

subsection \<open>A concrete exchange\<close>

text \<open>Encodings that tag their argument, and a checksum that keeps it: an instance for the witnesses.\<close>

definition plain_crypto :: crypto where
  "plain_crypto = \<lparr>cySHA256 = id, cyPEMEncode = (\<lambda>_ d. 45 # d), cyPEMDecode = (\<lambda>p. case p of [] \<Rightarrow> None | x # d \<Rightarrow> if x = 45 then Some d else None),
     cyCreate = (\<lambda>t k. Some (of_int (ctSerial t) # k)), cyMarshalKey = Some, cyKeyPair = (\<lambda>_ _. True)\<rparr>"

definition sample_rn :: "int \<Rightarrow> randomness" where
  "sample_rn n = \<lparr>rnKey = Some [7], rnSerial = Some n, rnNow = 0\<rparr>"

definition sample_cert :: "int \<Rightarrow> EphemeralCert" where
  "sample_cert n = \<lparr>ecCertPEM = [45, of_int n, 7], ecTLSCert = [of_int n, 7], ecFingerprint = [of_int n, 7]\<rparr>"

lemma plain_crypto_ok: "pem_ok plain_crypto" "inj (cySHA256 plain_crypto)"
  by (simp_all add: pem_ok_def plain_crypto_def)

lemma plain_generate: "GenerateEphemeralCert plain_crypto (sample_rn n) = Inr (sample_cert n)"
  by (simp add: GenerateEphemeralCert_def plain_crypto_def sample_rn_def sample_cert_def cert_template_def Let_def)

lemma plain_fingerprint: "PeerFingerprint plain_crypto (ecCertPEM (sample_cert n)) = Inr [of_int n, 7]"
  by (simp add: PeerFingerprint_def plain_crypto_def sample_cert_def)

lemma sample_port: "parsePort ''[::]:8081'' = Inr 8081"
  by (simp add: parsePort_def SplitHostPort_def Let_def Atoi_def char_digit_def of_char_def)

lemma plain_exchange:
  "\<exists>h'. ExchangeCerts plain_crypto (sample_rn 2) (Some ''[::]:8081'') (ecCertPEM (sample_cert 1)) new_handler =
    (h', Inr (ecCertPEM (sample_cert 2), 8081))"
  by (simp add: ExchangeCerts_def new_handler_def exchange_fresh_def plain_generate NewServerTLSConfig_def plain_fingerprint StartDirectTLSListener_def
      sample_port listener_Port_def)

theorem exchange_pins_requester_witness:
  "\<exists>h' i. ExchangeCerts plain_crypto (sample_rn 2) (Some ''[::]:8081'') (ecCertPEM (sample_cert 1)) new_handler =
      (h', Inr (ecCertPEM (sample_cert 2), 8081)) \<and>
    (\<forall>chain. tls_accepts (liConfig (heListeners h' ! i)) chain \<longleftrightarrow> (\<exists>d rest. chain = d # rest \<and> cySHA256 plain_crypto d = [1, 7]))"
proof -
  obtain h' where h': "ExchangeCerts plain_crypto (sample_rn 2) (Some ''[::]:8081'') (ecCertPEM (sample_cert 1)) new_handler =
      (h', Inr (ecCertPEM (sample_cert 2), 8081))" using plain_exchange by blast
  then show ?thesis using exchange_pins_requester [OF plain_crypto_ok(1) handler_reach.start h'] by (auto simp: plain_fingerprint)
qed

theorem direct_tls_mutual_witness:
  "\<exists>(h' :: handler) ccfg l. NewClientTLSConfig plain_crypto (sample_cert 1) (ecCertPEM (sample_cert 2)) = Inr ccfg \<and> l \<in> set (heListeners h') \<and>
    liRunning l \<and> tls_accepts (liConfig l) (tcCertificates ccfg) \<and> tls_accepts ccfg (tcCertificates (liConfig l))"
proof -
  obtain h' where h': "ExchangeCerts plain_crypto (sample_rn 2) (Some ''[::]:8081'') (ecCertPEM (sample_cert 1)) new_handler =
      (h', Inr (ecCertPEM (sample_cert 2), 8081))" using plain_exchange by blast
  obtain ccfg where c: "NewClientTLSConfig plain_crypto (sample_cert 1) (ecCertPEM (sample_cert 2)) = Inr ccfg" "tcCertificates ccfg \<noteq> []"
    by (simp add: NewClientTLSConfig_def plain_fingerprint)
  obtain l der where l: "l \<in> set (heListeners h')" "liRunning l" "tcCertificates (liConfig l) = [der]"
    "tls_accepts (liConfig l) (tcCertificates ccfg)" "tls_accepts ccfg [der]"
    using direct_tls_mutual [OF plain_crypto_ok(1) handler_reach.start plain_generate h' c(1)] c(2) by auto
  then show ?thesis using c(1) by metis
qed

end
