(* ===== verification/Session_Server.thy ===== *)
theory Session_Server
  imports Session_Tls
begin

section \<open>The server of a destination (internal/worker/common/grpc.go, destination.go, base_dest.go)\<close>

text \<open>
  The synchronization service with its handlers and the channel that ends the server, and the function that runs the server until
  something ends it.  gRPC and the network are outcomes: what the server waits for arrives as an event, and what the clients call before, during and
  after the stop of the server is a list each.  The lemmas say that a Done request is never lost or blocked, that no direct listener outlives a server
  stopped by a Done request or its context, and that one can outlive a server whose \<^verbatim>\<open>Serve\<close> failed.
\<close>

subsection \<open>The service\<close>

datatype 'r rpc = Unimplemented | Handled 'r

text \<open>
  The handlers are functions from a stream to the result of the call; the channel \<^verbatim>\<open>shutdownChan\<close> has room for one element, so its contents are a number.
\<close>

record ('w, 'd, 'c, 'r) SyncServer =
  syWrite :: "('w \<Rightarrow> 'r) option"
  syDelete :: "('d \<Rightarrow> 'r) option"
  syCommit :: "('c \<Rightarrow> 'r) option"
  syShutdown :: nat
  syCert :: "handler option"

definition NewSyncServer :: "('w \<Rightarrow> 'r) option \<Rightarrow> ('d \<Rightarrow> 'r) option \<Rightarrow> ('c \<Rightarrow> 'r) option \<Rightarrow> ('w, 'd, 'c, 'r) SyncServer" where
  "NewSyncServer w d c = \<lparr>syWrite = w, syDelete = d, syCommit = c, syShutdown = 0, syCert = None\<rparr>"

definition call :: "('s \<Rightarrow> 'r) option \<Rightarrow> 's \<Rightarrow> 'r rpc" where
  "call h st = (case h of None \<Rightarrow> Unimplemented | Some f \<Rightarrow> Handled (f st))"

definition sync_Write :: "('w, 'd, 'c, 'r) SyncServer \<Rightarrow> 'w \<Rightarrow> 'r rpc" where "sync_Write s st = call (syWrite s) st"
definition sync_Delete :: "('w, 'd, 'c, 'r) SyncServer \<Rightarrow> 'd \<Rightarrow> 'r rpc" where "sync_Delete s st = call (syDelete s) st"
definition sync_Commit :: "('w, 'd, 'c, 'r) SyncServer \<Rightarrow> 'c \<Rightarrow> 'r rpc" where "sync_Commit s st = call (syCommit s) st"

text \<open>A send that is skipped when the channel is full.\<close>

definition sync_Done :: "('w, 'd, 'c, 'r) SyncServer \<Rightarrow> ('w, 'd, 'c, 'r) SyncServer" where
  "sync_Done s = (if syShutdown s < 1 then s\<lparr>syShutdown := syShutdown s + 1\<rparr> else s)"

definition SetCertHandler :: "handler \<Rightarrow> ('w, 'd, 'c, 'r) SyncServer \<Rightarrow> ('w, 'd, 'c, 'r) SyncServer" where
  "SetCertHandler h s = s\<lparr>syCert := Some h\<rparr>"

definition sync_ExchangeCerts ::
  "crypto \<Rightarrow> randomness \<Rightarrow> string option \<Rightarrow> bytes \<Rightarrow> ('w, 'd, 'c, 'r) SyncServer \<Rightarrow> ('w, 'd, 'c, 'r) SyncServer \<times> (tls_error + bytes \<times> int) rpc" where
  "sync_ExchangeCerts cy rn listen pem s =
     (case syCert s of
        None \<Rightarrow> (s, Unimplemented)
      | Some h \<Rightarrow> (case ExchangeCerts cy rn listen pem h of (h1, r) \<Rightarrow> (s\<lparr>syCert := Some h1\<rparr>, Handled r)))"

definition sync_StopDirectTLS :: "('w, 'd, 'c, 'r) SyncServer \<Rightarrow> ('w, 'd, 'c, 'r) SyncServer" where
  "sync_StopDirectTLS s = (case syCert s of None \<Rightarrow> s | Some h \<Rightarrow> s\<lparr>syCert := Some (StopDirectTLS h)\<rparr>)"

definition GetVersion :: "string \<Rightarrow> string" where "GetVersion version = version"

subsection \<open>Running the server\<close>

definition loopbackListenAddr :: "string \<Rightarrow> string" where "loopbackListenAddr port = ''127.0.0.1:'' @ port"

definition DefaultServerPort :: string where "DefaultServerPort = ''8080''"

datatype server_event = CtxDone | ServeFailed | ShutdownRequested

datatype server_error = ListenError | ServeError | CtxError

datatype server_action = Listening string | GracefulStop

text \<open>
  The calls that change the service.  A Done request comes through the tunnel or over a direct connection; certificates are exchanged through the tunnel, as
  the source workers do.  (Over the direct connection an exchange would wait for the very server it stops, and is not modelled.)  The state of a run is whether the gRPC
  server behind the tunnel is stopped, and the service: a stopped server admits no call, and neither does a direct listener that does not run.
  A call takes effect at once: both handlers hold a lock or a channel for all they do.
\<close>

datatype conn = Tunnelled | Direct

datatype client_call = DoneCall conn | CertsCall randomness "string option" bytes

type_synonym ('w, 'd, 'c, 'r) run = "bool \<times> ('w, 'd, 'c, 'r) SyncServer"

definition direct_open :: "('w, 'd, 'c, 'r) SyncServer \<Rightarrow> bool" where
  "direct_open s = (case syCert s of None \<Rightarrow> False | Some h \<Rightarrow> list_ex liRunning (heListeners h))"

fun admitted :: "client_call \<Rightarrow> ('w, 'd, 'c, 'r) run \<Rightarrow> bool" where
  "admitted (DoneCall Direct) (stopped, s) = direct_open s"
| "admitted _ (stopped, s) = (\<not> stopped)"

fun perform :: "crypto \<Rightarrow> client_call \<Rightarrow> ('w, 'd, 'c, 'r) SyncServer \<Rightarrow> ('w, 'd, 'c, 'r) SyncServer" where
  "perform cy (DoneCall _) s = sync_Done s"
| "perform cy (CertsCall rn listen pem) s = fst (sync_ExchangeCerts cy rn listen pem s)"

fun run_calls :: "crypto \<Rightarrow> client_call list \<Rightarrow> ('w, 'd, 'c, 'r) run \<Rightarrow> ('w, 'd, 'c, 'r) run" where
  "run_calls cy [] r = r"
| "run_calls cy (c # cs) (stopped, s) = run_calls cy cs (stopped, if admitted c (stopped, s) then perform cy c s else s)"

text \<open>How many Done requests were answered.\<close>

fun dones :: "crypto \<Rightarrow> client_call list \<Rightarrow> ('w, 'd, 'c, 'r) run \<Rightarrow> nat" where
  "dones cy [] r = 0"
| "dones cy (c # cs) r =
     (if admitted c r then (case c of DoneCall _ \<Rightarrow> 1 | _ \<Rightarrow> 0) else 0) + dones cy cs (run_calls cy [c] r)"

text \<open>
  \<^verbatim>\<open>GracefulStop\<close> is gRPC's, and a parameter.  As documented, it lets the calls under way finish, and when it returns the server admits no more.
\<close>

definition graceful_ok :: "crypto \<Rightarrow> (('w, 'd, 'c, 'r) run \<Rightarrow> ('w, 'd, 'c, 'r) run) \<Rightarrow> bool" where
  "graceful_ok cy stop \<longleftrightarrow> (\<forall>r. \<exists>pending. stop r = (True, snd (run_calls cy pending r)))"

text \<open>The other calls of a run, by the time they take effect: before the select, between the stop of the server and \<^verbatim>\<open>StopDirectTLS\<close>, and after that.\<close>

record phases =
  phBefore :: "client_call list"
  phBetween :: "client_call list"
  phAfter :: "client_call list"

definition at_select :: "crypto \<Rightarrow> ('w, 'd, 'c, 'r) SyncServer \<Rightarrow> phases \<Rightarrow> ('w, 'd, 'c, 'r) SyncServer" where
  "at_select cy s ph = snd (run_calls cy (phBefore ph) (False, s))"

text \<open>The select takes one of the events that are ready: \<^verbatim>\<open>ev\<close> says which.  After a failed \<^verbatim>\<open>Serve\<close> the server is not stopped: its open connections stay.\<close>

definition RunDestinationServer ::
  "crypto \<Rightarrow> (('w, 'd, 'c, 'r) run \<Rightarrow> ('w, 'd, 'c, 'r) run) \<Rightarrow> string \<Rightarrow> bool \<Rightarrow> ('w, 'd, 'c, 'r) SyncServer \<Rightarrow> phases \<Rightarrow> server_event \<Rightarrow>
   server_action list \<times> ('w, 'd, 'c, 'r) SyncServer \<times> server_error option" where
  "RunDestinationServer cy stop port listenOk s ph ev =
     (if \<not> listenOk then ([], s, Some ListenError)
      else let s1 = at_select cy s ph; started = [Listening (loopbackListenAddr port)] in
        case ev of
          CtxDone \<Rightarrow>
            let r2 = stop (False, s1);
                r3 = run_calls cy (phBetween ph) r2;
                r4 = (fst r3, sync_StopDirectTLS (snd r3))
            in (started @ [GracefulStop], snd (run_calls cy (phAfter ph) r4), Some CtxError)
        | ServeFailed \<Rightarrow>
            (started, snd (run_calls cy (phAfter ph) (False, sync_StopDirectTLS s1)), Some ServeError)
        | ShutdownRequested \<Rightarrow>
            let r2 = stop (False, s1\<lparr>syShutdown := syShutdown s1 - 1\<rparr>);
                r3 = run_calls cy (phBetween ph) r2;
                r4 = (fst r3, sync_StopDirectTLS (snd r3))
            in (started @ [GracefulStop], snd (run_calls cy (phAfter ph) r4), None))"

definition dest_Run ::
  "crypto \<Rightarrow> (('w, 'd, 'c, 'r) run \<Rightarrow> ('w, 'd, 'c, 'r) run) \<Rightarrow> bool \<Rightarrow> ('w, 'd, 'c, 'r) SyncServer \<Rightarrow> phases \<Rightarrow> server_event \<Rightarrow>
   server_action list \<times> ('w, 'd, 'c, 'r) SyncServer \<times> server_error option" where
  "dest_Run cy stop = RunDestinationServer cy stop DefaultServerPort"

text \<open>The service that both destination workers set up: one server for data and deletions, one for commits, and a new certificate handler.\<close>

definition worker_service :: "('w \<Rightarrow> 'r) \<Rightarrow> ('d \<Rightarrow> 'r) \<Rightarrow> ('c \<Rightarrow> 'r) \<Rightarrow> ('w, 'd, 'c, 'r) SyncServer" where
  "worker_service w d c = SetCertHandler new_handler (NewSyncServer (Some w) (Some d) (Some c))"

subsection \<open>Calls while the server runs\<close>

text \<open>The handler is set and consistent.\<close>

definition server_inv :: "crypto \<Rightarrow> ('w, 'd, 'c, 'r) SyncServer \<Rightarrow> bool" where
  "server_inv cy s \<longleftrightarrow> (\<exists>h. syCert s = Some h \<and> handler_inv cy h)"

lemma run_calls_stopped: "fst (run_calls cy cs r) = fst r"
  by (induction cy cs r rule: run_calls.induct) simp_all

lemma perform_inv: "server_inv cy s \<Longrightarrow> server_inv cy (perform cy c s)"
proof (cases c)
  case (CertsCall rn listen pem)
  assume "server_inv cy s"
  then obtain h where h: "syCert s = Some h" "handler_inv cy h" by (auto simp: server_inv_def)
  obtain h1 r where "ExchangeCerts cy rn listen pem h = (h1, r)" by (cases "ExchangeCerts cy rn listen pem h")
  then show ?thesis using h ExchangeCerts_inv CertsCall by (auto simp: server_inv_def sync_ExchangeCerts_def)
qed (simp add: server_inv_def sync_Done_def)

lemma run_calls_inv: "server_inv cy (snd r) \<Longrightarrow> server_inv cy (snd (run_calls cy cs r))"
  by (induction cy cs r rule: run_calls.induct) (simp_all add: perform_inv)

text \<open>A full channel stays full, and one Done request fills it.\<close>

lemma perform_shutdown: "syShutdown s \<le> 1 \<Longrightarrow> syShutdown (perform cy c s) = min (syShutdown s + (case c of DoneCall _ \<Rightarrow> 1 | _ \<Rightarrow> 0)) 1"
  by (cases c) (auto simp: sync_Done_def sync_ExchangeCerts_def split: option.splits prod.splits)

lemma run_calls_shutdown: "syShutdown (snd r) \<le> 1 \<Longrightarrow> syShutdown (snd (run_calls cy cs r)) = min (syShutdown (snd r) + dones cy cs r) 1"
proof (induction cy cs r rule: run_calls.induct)
  case (2 cy c cs stopped s)
  show ?case
  proof (cases "admitted c (stopped, s)")
    case True
    then show ?thesis using 2 perform_shutdown [of s cy c] by simp
  qed (use 2 in simp)
qed simp

text \<open>After the server behind the tunnel and the direct listener have stopped, nothing a client does opens a listener again.\<close>

lemma run_calls_closed: "\<not> direct_open s \<Longrightarrow> run_calls cy cs (True, s) = (True, s)"
proof (induction cs)
  case (Cons c cs)
  have "\<not> admitted c (True, s)" using Cons.prems by (cases "(c, (True, s))" rule: admitted.cases) auto
  then show ?case using Cons by simp
qed simp

lemma StopDirectTLS_stops: "handler_inv cy h \<Longrightarrow> l \<in> set (heListeners (StopDirectTLS h)) \<Longrightarrow> \<not> liRunning l"
proof -
  assume inv: "handler_inv cy h" and l: "l \<in> set (heListeners (StopDirectTLS h))"
  show "\<not> liRunning l"
  proof (cases "heDirect h")
    case None
    then show ?thesis using inv l by (simp add: StopDirectTLS_def handler_inv_idle)
  next
    case (Some i)
    then show ?thesis using l stop_at_idle [OF inv Some] by (auto simp: StopDirectTLS_def handler_inv_idle)
  qed
qed

lemma sync_StopDirectTLS_closes: "server_inv cy s \<Longrightarrow> server_inv cy (sync_StopDirectTLS s) \<and> \<not> direct_open (sync_StopDirectTLS s)"
  using StopDirectTLS_inv StopDirectTLS_stops
  by (auto simp: server_inv_def sync_StopDirectTLS_def direct_open_def list_ex_iff)

text \<open>The common end of a run whose server was stopped gracefully.\<close>

lemma graceful_end:
  assumes "graceful_ok cy stop" "server_inv cy (snd r)" "r3 = run_calls cy between (stop r)"
    and "s' = snd (run_calls cy after (fst r3, sync_StopDirectTLS (snd r3)))"
  shows "server_inv cy s' \<and> \<not> direct_open s'"
proof -
  obtain pending where p: "stop r = (True, snd (run_calls cy pending r))" using assms(1) unfolding graceful_ok_def by blast
  have "server_inv cy (snd r3)"
    unfolding assms(3) p by (rule run_calls_inv) (simp add: run_calls_inv assms(2))
  then have closed: "server_inv cy (sync_StopDirectTLS (snd r3)) \<and> \<not> direct_open (sync_StopDirectTLS (snd r3))"
    by (rule sync_StopDirectTLS_closes)
  have "fst r3 = True" using assms(3) p by (simp add: run_calls_stopped)
  then have "s' = sync_StopDirectTLS (snd r3)" using assms(4) closed run_calls_closed [of "sync_StopDirectTLS (snd r3)" cy after] by simp
  then show ?thesis using closed by simp
qed

lemma worker_service_start:
  "syShutdown (worker_service w d c) = 0" "server_inv cy (worker_service w d c)" "\<not> direct_open (worker_service w d c)"
  using handler_inv_new [of cy]
  by (simp_all add: worker_service_def SetCertHandler_def NewSyncServer_def server_inv_def direct_open_def new_handler_def)

text \<open>
  C34: the server of a destination ends cleanly when a Done request or its context ends it.  The signals in the channel at the select are one if any Done request was
  answered and none otherwise, so the server returns without an error only after a Done request, and then it was stopped gracefully.  On
  every way out but a failed \<^verbatim>\<open>Serve\<close>, no direct listener is left running and none is opened later, whichever Done requests and,
  through the tunnel, certificate exchanges take effect before the select, while \<^verbatim>\<open>GracefulStop\<close> waits, before \<^verbatim>\<open>StopDirectTLS\<close> or after it.  On all ways out the handler of the
  certificates stays consistent.
\<close>

theorem destination_server_ends:
  assumes "graceful_ok cy stop" "dest_Run cy stop listenOk (worker_service w d c) ph ev = (acts, s', res)"
    and "ev = ShutdownRequested \<Longrightarrow> 0 < syShutdown (at_select cy (worker_service w d c) ph)"
  shows "syShutdown (at_select cy (worker_service w d c) ph) = min (dones cy (phBefore ph) (False, worker_service w d c)) 1 \<and>
    (res = None \<longrightarrow> 0 < dones cy (phBefore ph) (False, worker_service w d c) \<and> GracefulStop \<in> set acts) \<and>
    (\<exists>h. syCert s' = Some h \<and> handler_inv cy h \<and> (res \<noteq> Some ServeError \<longrightarrow> (\<forall>l \<in> set (heListeners h). \<not> liRunning l)))"
proof -
  let ?s = "worker_service w d c" and ?s1 = "at_select cy (worker_service w d c) ph"
  note start = worker_service_start(1,3) [of w d c] worker_service_start(2) [of cy w d c]
  have n: "syShutdown ?s1 = min (dones cy (phBefore ph) (False, ?s)) 1"
    using run_calls_shutdown [of "(False, ?s)" cy "phBefore ph"] start by (simp add: at_select_def)
  have inv: "server_inv cy ?s1" using run_calls_inv [of cy "(False, ?s)"] start by (simp add: at_select_def)
  have end_: "server_inv cy s' \<and> (res \<noteq> Some ServeError \<longrightarrow> \<not> direct_open s')"
  proof (cases listenOk)
    case False
    then show ?thesis using assms(2) start by (auto simp: dest_Run_def RunDestinationServer_def)
  next
    case True
    have inv2: "server_inv cy (?s1\<lparr>syShutdown := syShutdown ?s1 - 1\<rparr>)" using inv by (simp add: server_inv_def)
    show ?thesis
    proof (cases ev)
      case ServeFailed
      then show ?thesis using True assms(2) run_calls_inv [of cy "(False, sync_StopDirectTLS ?s1)"] sync_StopDirectTLS_closes [OF inv]
        by (auto simp: dest_Run_def RunDestinationServer_def Let_def)
    next
      case CtxDone
      then show ?thesis using True assms(2) inv graceful_end [OF assms(1) _ refl refl, of "(False, ?s1)" "phAfter ph" "phBetween ph"]
        by (auto simp: dest_Run_def RunDestinationServer_def Let_def)
    next
      case ShutdownRequested
      then show ?thesis
        using True assms(2) inv2 graceful_end [OF assms(1) _ refl refl, of "(False, ?s1\<lparr>syShutdown := syShutdown ?s1 - 1\<rparr>)" "phAfter ph" "phBetween ph"]
        by (auto simp: dest_Run_def RunDestinationServer_def Let_def)
    qed
  qed
  moreover have "res = None \<longrightarrow> 0 < dones cy (phBefore ph) (False, ?s) \<and> GracefulStop \<in> set acts"
    using assms(2,3) n by (auto simp: dest_Run_def RunDestinationServer_def Let_def split: server_event.splits if_splits)
  ultimately show ?thesis using n by (auto simp: server_inv_def direct_open_def list_ex_iff)
qed

text \<open>A run in which an exchange is still under way when the Done request ends the server, and one that comes too late.\<close>

definition sample_exchange :: client_call where
  "sample_exchange = CertsCall (sample_rn 5) (Some ''[::]:8081'') (ecCertPEM (sample_cert 3))"

definition sample_phases :: phases where
  "sample_phases = \<lparr>phBefore = [DoneCall Tunnelled, DoneCall Tunnelled], phBetween = [DoneCall Direct], phAfter = [sample_exchange]\<rparr>"

definition sample_stop :: "(unit, unit, unit, unit) run \<Rightarrow> (unit, unit, unit, unit) run" where
  "sample_stop r = (True, snd (run_calls plain_crypto [sample_exchange] r))"

abbreviation unit_service :: "(unit, unit, unit, unit) SyncServer" where
  "unit_service \<equiv> worker_service (\<lambda>_. ()) (\<lambda>_. ()) (\<lambda>_. ())"

theorem destination_server_ends_witness:
  "graceful_ok plain_crypto sample_stop \<and> 0 < syShutdown (at_select plain_crypto unit_service sample_phases) \<and>
   (\<exists>h. syCert (fst (snd (dest_Run plain_crypto sample_stop True unit_service sample_phases ShutdownRequested))) = Some h \<and>
      (\<forall>l \<in> set (heListeners h). \<not> liRunning l))"
proof -
  have ready: "0 < syShutdown (at_select plain_crypto unit_service sample_phases)"
    by (simp add: at_select_def sample_phases_def sync_Done_def worker_service_def SetCertHandler_def NewSyncServer_def)
  obtain acts s' res where r: "dest_Run plain_crypto sample_stop True unit_service sample_phases ShutdownRequested = (acts, s', res)"
    by (cases "dest_Run plain_crypto sample_stop True unit_service sample_phases ShutdownRequested")
  then have "res \<noteq> Some ServeError" by (auto simp: dest_Run_def RunDestinationServer_def Let_def)
  moreover have "graceful_ok plain_crypto sample_stop" unfolding graceful_ok_def sample_stop_def by blast
  ultimately show ?thesis using destination_server_ends [OF _ r] ready r by auto
qed

text \<open>
  A failed \<^verbatim>\<open>Serve\<close> is different: the server is not stopped there, so an exchange that was under way takes effect after
  \<^verbatim>\<open>StopDirectTLS\<close> and leaves a direct listener running.
\<close>

theorem serve_failure_leaves_listener:
  "direct_open (fst (snd (dest_Run plain_crypto sample_stop True unit_service
     \<lparr>phBefore = [], phBetween = [], phAfter = [sample_exchange]\<rparr> ServeFailed)))"
  by (simp add: dest_Run_def RunDestinationServer_def at_select_def sample_exchange_def sync_StopDirectTLS_def StopDirectTLS_def
      worker_service_def SetCertHandler_def NewSyncServer_def new_handler_def sync_ExchangeCerts_def direct_open_def
      ExchangeCerts_def exchange_fresh_def plain_generate plain_fingerprint NewServerTLSConfig_def StartDirectTLSListener_def sample_port)

end
