(* ===== verification/Tunnel.thy ===== *)
theory Tunnel
  imports Session_Server
begin

section \<open>The tunnel of a worker (internal/worker/tunnel)\<close>

text \<open>
  The configuration that is written for stunnel, the processes the worker starts and how it waits for them.  Processes, files and sockets
  are outcomes of the environment.  The lemmas say that the text describes exactly the intended tunnels, that a set-up tunnel has its processes and is stopped
  by the cleanup, and that the wait for the sockets ends.
\<close>

subsection \<open>Configuration\<close>

definition pskFilePath :: string where "pskFilePath = ''/keys/psk.txt''"
definition stunnelConf :: string where "stunnelConf = ''/tmp/stunnel/stunnel.conf''"
definition stunnelPID :: string where "stunnelPID = ''/tmp/stunnel/stunnel.pid''"
definition stunnelLog :: string where "stunnelLog = ''/tmp/stunnel.log''"
definition sourceGRPCSocketPath :: string where "sourceGRPCSocketPath = ''/tmp/stunnel/grpc.sock''"
definition sourceRsyncSocketPath :: string where "sourceRsyncSocketPath = ''/tmp/stunnel/rsync.sock''"
definition portCheckTimeout :: int where "portCheckTimeout = 30"
definition portCheckInterval :: int where "portCheckInterval = 1"
definition dialTimeout :: int where "dialTimeout = 1"
definition workerTypeSource :: string where "workerTypeSource = ''source''"
definition workerTypeDestination :: string where "workerTypeDestination = ''destination''"

record StunnelConfig =
  scWorkerType :: string
  scDestinationAddress :: string
  scDestinationPort :: string
  scEnableRsyncTunnel :: bool
  scRsyncPort :: string
  scRsyncDaemonPort :: string

datatype tunnel_error =
  NoPSK | MkdirFailed | UnsupportedWorkerType string | WriteFailed | RunFailed | NoPIDFile | BadPID | NotRunning | SocketsNotReady | ExitedPrematurely
| GenerateConfig tunnel_error | StartStunnel tunnel_error | StartRsync tunnel_error

definition newline :: char where "newline = CHR 0x0A"

text \<open>The lines that \<^verbatim>\<open>fmt.Fprintf\<close> writes.\<close>

definition print_lines :: "string list \<Rightarrow> string" where
  "print_lines ls = concat (map (\<lambda>l. l @ [newline]) ls)"

definition global_lines :: "string list" where
  "global_lines = [''; Global options'', ''pid = '' @ stunnelPID, ''debug = 7'', ''output = '' @ stunnelLog, '''',
     ''; Use PSK (Pre-Shared Key) authentication'', ''ciphers = PSK'', ''PSKsecrets = '' @ pskFilePath, '''']"

definition writeDestinationConfig :: "StunnelConfig \<Rightarrow> string list" where
  "writeDestinationConfig c =
     [''; gRPC tunnel - for mover communication'', ''[grpc-tls]'', ''accept = '' @ scDestinationPort c, ''connect = 127.0.0.1:'' @ DefaultServerPort] @
     (if scEnableRsyncTunnel c
      then ['''', ''; Rsync tunnel - for rsync daemon communication'', ''[rsync-tls]'', ''accept = '' @ scRsyncPort c, ''connect = 127.0.0.1:'' @ scRsyncDaemonPort c]
      else [])"

definition writeSourceConfig :: "StunnelConfig \<Rightarrow> string list" where
  "writeSourceConfig c =
     [''; gRPC tunnel - for mover communication'', ''[grpc-tls]'', ''client = yes'', ''accept = '' @ sourceGRPCSocketPath,
      ''connect = '' @ scDestinationAddress c @ '':'' @ scDestinationPort c] @
     (if scEnableRsyncTunnel c
      then ['''', ''; Rsync tunnel - for rsync daemon communication'', ''[rsync-tls]'', ''client = yes'', ''accept = '' @ sourceRsyncSocketPath,
            ''connect = '' @ scDestinationAddress c @ '':'' @ scRsyncPort c]
      else [])"

definition stunnel_text :: "StunnelConfig \<Rightarrow> string option" where
  "stunnel_text c =
     (if scWorkerType c = workerTypeDestination then Some (print_lines (global_lines @ writeDestinationConfig c))
      else if scWorkerType c = workerTypeSource then Some (print_lines (global_lines @ writeSourceConfig c))
      else None)"

subsection \<open>Processes\<close>

text \<open>
  What the environment does: whether files can be written and programs started, the contents of the file with the process id, which processes take a
  signal, how long a dial of a socket at some time takes and whether it succeeds, and whether the rsync daemon is gone after two seconds.
\<close>

record tunnel_env =
  tePSKExists :: bool
  teMkdir :: bool
  teWriteConf :: bool
  teStunnelRuns :: bool
  tePIDFile :: "string option"
  teAlive :: "int \<Rightarrow> bool"
  teDial :: "string \<Rightarrow> int \<Rightarrow> int \<times> bool"
  teWriteRsyncd :: bool
  teRsyncStarts :: bool
  teRsyncGone :: bool

text \<open>What the worker does to its container, in order.  Whether a signalled process ends is up to the process: a failed signal is only logged.\<close>

datatype tunnel_action =
  WriteConf string string | RunStunnel string | StartDaemon "string list" | TermStunnel int | TermDaemon

text \<open>
  The manager: the stunnel it made with the id it remembers (zero at first), the daemon it made and whether that has a process, and what was done.
\<close>

record tunnel =
  tuConfig :: StunnelConfig
  tuStunnel :: "int option"
  tuDaemon :: "bool option"
  tuLog :: "tunnel_action list"

definition NewManager :: "StunnelConfig \<Rightarrow> tunnel" where
  "NewManager c = \<lparr>tuConfig = c, tuStunnel = None, tuDaemon = None, tuLog = []\<rparr>"

definition act :: "tunnel_action \<Rightarrow> tunnel \<Rightarrow> tunnel" where
  "act a t = t\<lparr>tuLog := tuLog t @ [a]\<rparr>"

definition generateConfig :: "tunnel_env \<Rightarrow> tunnel \<Rightarrow> tunnel \<times> tunnel_error option" where
  "generateConfig e t =
     (if \<not> teMkdir e then (t, Some MkdirFailed)
      else case stunnel_text (tuConfig t) of
        None \<Rightarrow> (t, Some (UnsupportedWorkerType (scWorkerType (tuConfig t))))
      | Some conf \<Rightarrow> if teWriteConf e then (act (WriteConf stunnelConf conf) t, None) else (t, Some WriteFailed))"

text \<open>The id in the file is ASCII text.  \<^verbatim>\<open>os.Process.Signal\<close> refuses the ids 0 and -1, which mark processes that were never started or are released.\<close>

definition is_space :: "char \<Rightarrow> bool" where
  "is_space c \<longleftrightarrow> c \<in> {CHR 0x20, CHR 0x09, CHR 0x0A, CHR 0x0B, CHR 0x0C, CHR 0x0D}"

definition TrimSpace :: "string \<Rightarrow> string" where
  "TrimSpace s = rev (dropWhile is_space (rev (dropWhile is_space s)))"

definition signal_zero :: "tunnel_env \<Rightarrow> int \<Rightarrow> bool" where
  "signal_zero e pid \<longleftrightarrow> pid \<noteq> 0 \<and> pid \<noteq> - 1 \<and> teAlive e pid"

definition waitForPID :: "tunnel_env \<Rightarrow> tunnel_error + int" where
  "waitForPID e =
     (case tePIDFile e of
        None \<Rightarrow> Inl NoPIDFile
      | Some data \<Rightarrow>
          (case Atoi (TrimSpace data) of
             None \<Rightarrow> Inl BadPID
           | Some pid \<Rightarrow> if signal_zero e pid then Inr pid else Inl NotRunning))"

text \<open>A dial at time \<^verbatim>\<open>now\<close> takes at most the dial timeout and says whether the socket accepts.\<close>

definition checkSocket :: "tunnel_env \<Rightarrow> string \<Rightarrow> int \<Rightarrow> int \<times> bool" where
  "checkSocket e path now = (case teDial e path now of (took, ok) \<Rightarrow> if took < dialTimeout then (now + max 0 took, ok) else (now + dialTimeout, False))"

lemma checkSocket_time: "checkSocket e path now = (t, ok) \<Longrightarrow> now \<le> t \<and> t \<le> now + 1"
  by (auto simp: checkSocket_def dialTimeout_def split: prod.splits if_splits)

definition check_sockets :: "tunnel_env \<Rightarrow> bool \<Rightarrow> int \<Rightarrow> int \<times> bool" where
  "check_sockets e rsync now =
     (let (t1, grpcReady) = checkSocket e sourceGRPCSocketPath now;
          (t2, rsyncReady) = (if rsync then checkSocket e sourceRsyncSocketPath t1 else (t1, True)) in
      (t2, grpcReady \<and> rsyncReady))"

lemma check_sockets_time: "check_sockets e rsync now = (t, ok) \<Longrightarrow> now \<le> t \<and> t \<le> now + 2"
  by (auto simp: check_sockets_def Let_def dest!: checkSocket_time split: prod.splits if_splits)

function wait_loop :: "tunnel_env \<Rightarrow> bool \<Rightarrow> int \<Rightarrow> int \<times> bool" where
  "wait_loop e rsync now =
     (if now < portCheckTimeout
      then (case check_sockets e rsync now of (t, ready) \<Rightarrow> if ready then (t, True) else wait_loop e rsync (t + portCheckInterval))
      else (now, False))"
  by pat_completeness auto
termination
  by (relation "measure (\<lambda>(e, rsync, now). nat (portCheckTimeout - now))")
    (auto simp: portCheckInterval_def dest!: sym [of "(_, _)"] check_sockets_time)

declare wait_loop.simps [simp del]

definition waitForSockets :: "tunnel_env \<Rightarrow> StunnelConfig \<Rightarrow> bool" where
  "waitForSockets e c = snd (wait_loop e (scEnableRsyncTunnel c) 0)"

definition stunnel_Start :: "tunnel_env \<Rightarrow> tunnel \<Rightarrow> tunnel \<times> tunnel_error option" where
  "stunnel_Start e t0 =
     (case generateConfig e t0 of
        (t, Some er) \<Rightarrow> (t, Some (GenerateConfig er))
      | (t, None) \<Rightarrow>
          if \<not> teStunnelRuns e then (t, Some RunFailed)
          else let t1 = act (RunStunnel stunnelConf) t in
            case waitForPID e of
              Inl er \<Rightarrow> (t1, Some er)
            | Inr pid \<Rightarrow>
                let t2 = t1\<lparr>tuStunnel := Some pid\<rparr> in
                if scWorkerType (tuConfig t2) = workerTypeSource \<and> \<not> waitForSockets e (tuConfig t2) then (t2, Some SocketsNotReady)
                else (t2, None))"

definition stunnel_Stop :: "tunnel \<Rightarrow> tunnel" where
  "stunnel_Stop t = (case tuStunnel t of None \<Rightarrow> t | Some pid \<Rightarrow> if pid = 0 then t else act (TermStunnel pid) t)"

definition SourceGRPCAddress :: string where "SourceGRPCAddress = ''unix://'' @ sourceGRPCSocketPath"

definition rsyncdConf :: string where "rsyncdConf = ''/tmp/rsyncd.conf''"
definition dataPath :: string where "dataPath = ''/data''"

definition rsyncd_text :: string where
  "rsyncd_text = print_lines [''# Rsync daemon configuration'', ''uid = root'', ''gid = root'', ''use chroot = no'', ''max connections = 8'',
     ''pid file = /tmp/rsyncd.pid'', ''log file = /tmp/rsyncd.log'', ''lock file = /tmp/rsyncd.lock'', '''', ''[data]'', ''    path = '' @ dataPath,
     ''    comment = Data volume'', ''    read only = false'', ''    list = yes'', ''    munge symlinks = no'',
     ''    # No authentication - stunnel already provides PSK authentication'']"

definition rsync_args :: "string \<Rightarrow> string list" where
  "rsync_args port = [''rsync'', ''--daemon'', ''--config='' @ rsyncdConf, ''--port='' @ port, ''--address=127.0.0.1'', ''--no-detach'']"

text \<open>The daemon is remembered as soon as it is made; \<^verbatim>\<open>Some True\<close> once its process exists.\<close>

definition rsync_Start :: "tunnel_env \<Rightarrow> tunnel \<Rightarrow> tunnel \<times> tunnel_error option" where
  "rsync_Start e t0 =
     (if \<not> teWriteRsyncd e then (t0, Some (GenerateConfig WriteFailed))
      else let t = act (WriteConf rsyncdConf rsyncd_text) t0 in
        if \<not> teRsyncStarts e then (t, Some RunFailed)
        else let t1 = act (StartDaemon (rsync_args (scRsyncDaemonPort (tuConfig t)))) (t\<lparr>tuDaemon := Some True\<rparr>) in
          if teRsyncGone e then (t1, Some ExitedPrematurely) else (t1, None))"

definition rsync_Stop :: "tunnel \<Rightarrow> tunnel" where
  "rsync_Stop t = (if tuDaemon t = Some True then act TermDaemon t else t)"

definition tunnel_Setup :: "tunnel_env \<Rightarrow> tunnel \<Rightarrow> tunnel \<times> (tunnel_error + string)" where
  "tunnel_Setup e t =
     (if \<not> tePSKExists e then (t, Inl NoPSK)
      else case stunnel_Start e (t\<lparr>tuStunnel := Some 0\<rparr>) of
        (t1, Some er) \<Rightarrow> (t1, Inl (StartStunnel er))
      | (t1, None) \<Rightarrow>
          (case (if scWorkerType (tuConfig t1) = workerTypeDestination \<and> scEnableRsyncTunnel (tuConfig t1)
                 then rsync_Start e (t1\<lparr>tuDaemon := Some False\<rparr>) else (t1, None)) of
             (t2, Some er) \<Rightarrow> (stunnel_Stop t2, Inl (StartRsync er))
           | (t2, None) \<Rightarrow> (t2, Inr (if scWorkerType (tuConfig t2) = workerTypeSource then SourceGRPCAddress else ''''))))"

definition tunnel_Cleanup :: "tunnel \<Rightarrow> tunnel" where
  "tunnel_Cleanup t = stunnel_Stop (if tuDaemon t = None then t else rsync_Stop t)"

subsection \<open>Reading the configuration\<close>

text \<open>
  The format of stunnel's configuration as its manual gives it: empty lines and lines that start with a semicolon are skipped, a name in brackets starts a
  service, and every other line is an option of the service before it (or a global one).
\<close>

fun split_lines :: "string \<Rightarrow> string \<Rightarrow> string list" where
  "split_lines acc [] = (if acc = [] then [] else [rev acc])"
| "split_lines acc (c # cs) = (if c = newline then rev acc # split_lines [] cs else split_lines (c # acc) cs)"

type_synonym services = "(string \<times> string list) list"

definition read_line :: "services \<Rightarrow> string \<Rightarrow> services" where
  "read_line sv l =
     (if l = [] \<or> hd l = CHR '';'' then sv
      else if hd l = CHR ''['' then (butlast (tl l), []) # sv
      else case sv of [] \<Rightarrow> [('''', [l])] | (n, os) # rest \<Rightarrow> (n, os @ [l]) # rest)"

definition read_conf :: "string \<Rightarrow> services" where
  "read_conf s = rev (foldl read_line [] (split_lines [] s))"

lemma split_line: "newline \<notin> set l \<Longrightarrow> split_lines acc (l @ newline # cs) = (rev acc @ l) # split_lines [] cs"
  by (induction l arbitrary: acc) auto

lemma split_print: "(\<And>l. l \<in> set ls \<Longrightarrow> newline \<notin> set l) \<Longrightarrow> split_lines [] (print_lines ls) = ls"
  by (induction ls) (auto simp: print_lines_def split_line)

definition one_line :: "StunnelConfig \<Rightarrow> bool" where
  "one_line c \<longleftrightarrow> newline \<notin> set (scDestinationAddress c) \<union> set (scDestinationPort c) \<union> set (scRsyncPort c) \<union> set (scRsyncDaemonPort c)"

lemmas tunnel_texts = pskFilePath_def stunnelPID_def stunnelLog_def sourceGRPCSocketPath_def sourceRsyncSocketPath_def DefaultServerPort_def newline_def

lemma lines_one_line:
  "l \<in> set global_lines \<Longrightarrow> newline \<notin> set l"
  "one_line c \<Longrightarrow> l \<in> set (writeDestinationConfig c) \<Longrightarrow> newline \<notin> set l"
  "one_line c \<Longrightarrow> l \<in> set (writeSourceConfig c) \<Longrightarrow> newline \<notin> set l"
  by (auto simp: global_lines_def writeDestinationConfig_def writeSourceConfig_def one_line_def tunnel_texts split: if_splits)

definition global_options :: "string \<times> string list" where
  "global_options = ('''', [''pid = '' @ stunnelPID, ''debug = 7'', ''output = '' @ stunnelLog, ''ciphers = PSK'', ''PSKsecrets = '' @ pskFilePath])"

definition destination_services :: "StunnelConfig \<Rightarrow> services" where
  "destination_services c = (''grpc-tls'', [''accept = '' @ scDestinationPort c, ''connect = '' @ loopbackListenAddr DefaultServerPort]) #
     (if scEnableRsyncTunnel c then [(''rsync-tls'', [''accept = '' @ scRsyncPort c, ''connect = '' @ loopbackListenAddr (scRsyncDaemonPort c)])] else [])"

definition source_services :: "StunnelConfig \<Rightarrow> services" where
  "source_services c =
     (''grpc-tls'', [''client = yes'', ''accept = '' @ sourceGRPCSocketPath, ''connect = '' @ scDestinationAddress c @ '':'' @ scDestinationPort c]) #
     (if scEnableRsyncTunnel c
      then [(''rsync-tls'', [''client = yes'', ''accept = '' @ sourceRsyncSocketPath, ''connect = '' @ scDestinationAddress c @ '':'' @ scRsyncPort c])] else [])"

lemma stunnel_read:
  assumes "one_line c" "stunnel_text c = Some conf"
  shows "read_conf conf = global_options # (if scWorkerType c = workerTypeDestination then destination_services c else source_services c)"
proof (cases "scWorkerType c = workerTypeDestination")
  case True
  have "split_lines [] conf = global_lines @ writeDestinationConfig c"
    using assms True split_print [of "global_lines @ writeDestinationConfig c"] lines_one_line(1) lines_one_line(2,3) [of c] by (auto simp: stunnel_text_def)
  then show ?thesis using True
    by (simp add: read_conf_def global_lines_def writeDestinationConfig_def read_line_def global_options_def destination_services_def loopbackListenAddr_def)
next
  case False
  have "split_lines [] conf = global_lines @ writeSourceConfig c"
    using assms False split_print [of "global_lines @ writeSourceConfig c"] lines_one_line(1) lines_one_line(2,3) [of c] by (auto simp: stunnel_text_def split: if_splits)
  then show ?thesis using False
    by (simp add: read_conf_def global_lines_def writeSourceConfig_def read_line_def global_options_def source_services_def)
qed

text \<open>
  C29: stunnel reads back what the worker meant.  When no value contains a line break, the configuration written for a destination has exactly the pre-shared key as its
  means of authentication and the services that lead its ports to the local servers, and the one for a source exactly those that lead the local
  sockets to the ports of the destination.
\<close>

theorem stunnel_conf_roundtrip:
  assumes "one_line c" "stunnel_text c = Some conf"
  shows "read_conf conf = global_options # (if scWorkerType c = workerTypeDestination then destination_services c else source_services c)"
  using assms by (rule stunnel_read)

definition sample_stunnel :: StunnelConfig where
  "sample_stunnel = \<lparr>scWorkerType = workerTypeSource, scDestinationAddress = ''10.0.0.1'', scDestinationPort = ''8000'', scEnableRsyncTunnel = True,
     scRsyncPort = ''8873'', scRsyncDaemonPort = ''8874''\<rparr>"

theorem stunnel_conf_roundtrip_witness:
  "read_conf (print_lines (global_lines @ writeSourceConfig sample_stunnel)) = global_options # source_services sample_stunnel"
proof -
  have "one_line sample_stunnel" by (simp add: one_line_def sample_stunnel_def newline_def)
  moreover have "stunnel_text sample_stunnel = Some (print_lines (global_lines @ writeSourceConfig sample_stunnel))"
    by (simp add: stunnel_text_def sample_stunnel_def workerTypeSource_def workerTypeDestination_def)
  ultimately show ?thesis
    using stunnel_conf_roundtrip [of sample_stunnel] by (simp add: sample_stunnel_def workerTypeSource_def workerTypeDestination_def)
qed

subsection \<open>Processes are started and stopped\<close>

lemma wait_loop_time: "fst (wait_loop e rsync now) \<le> max now (portCheckTimeout + 2)"
proof (induction e rsync now rule: wait_loop.induct)
  case (1 e rsync now)
  obtain t ok where c: "check_sockets e rsync now = (t, ok)" by (cases "check_sockets e rsync now")
  then have "t \<le> now + 2" using check_sockets_time by blast
  then show ?case using 1 [OF _ c [symmetric]] c
    by (subst wait_loop.simps) (auto simp: portCheckInterval_def)
qed

lemma waitForPID_nonzero: "waitForPID e = Inr pid \<Longrightarrow> pid \<noteq> 0"
  by (auto simp: waitForPID_def signal_zero_def split: option.splits if_splits)

lemma stunnel_Start_ok:
  assumes "stunnel_Start e t0 = (t, None)"
  shows "\<exists>conf pid. stunnel_text (tuConfig t0) = Some conf \<and> waitForPID e = Inr pid \<and>
    t = t0\<lparr>tuStunnel := Some pid, tuLog := tuLog t0 @ [WriteConf stunnelConf conf, RunStunnel stunnelConf]\<rparr>"
  using assms by (auto simp: stunnel_Start_def generateConfig_def act_def Let_def split: prod.splits option.splits sum.splits if_splits)

definition daemon_wanted :: "StunnelConfig \<Rightarrow> bool" where
  "daemon_wanted c \<longleftrightarrow> scWorkerType c = workerTypeDestination \<and> scEnableRsyncTunnel c"

definition daemon_actions :: "StunnelConfig \<Rightarrow> tunnel_action list" where
  "daemon_actions c = (if daemon_wanted c then [WriteConf rsyncdConf rsyncd_text, StartDaemon (rsync_args (scRsyncDaemonPort c))] else [])"

text \<open>
  C30: Setting up and cleaning up a tunnel.  When the setup of a new manager succeeds, it wrote the configuration, ran stunnel on it and, for a destination with an rsync tunnel,
  started the daemon on the local port that the configuration leads to, in this order; the cleanup then signals exactly the processes that were started, the daemon first and stunnel
  under the id from its file.
\<close>

theorem tunnel_setup_cleanup:
  assumes "tunnel_Setup e (NewManager c) = (t, Inr addr)"
  shows "\<exists>conf pid. stunnel_text c = Some conf \<and> waitForPID e = Inr pid \<and> pid \<noteq> 0 \<and>
    tuLog t = [WriteConf stunnelConf conf, RunStunnel stunnelConf] @ daemon_actions c \<and>
    tuLog (tunnel_Cleanup t) = tuLog t @ (if daemon_wanted c then [TermDaemon] else []) @ [TermStunnel pid] \<and>
    addr = (if scWorkerType c = workerTypeSource then SourceGRPCAddress else [])"
proof -
  let ?t0 = "(NewManager c)\<lparr>tuStunnel := Some 0\<rparr>"
  obtain t1 where t1: "stunnel_Start e ?t0 = (t1, None)"
    using assms by (auto simp: tunnel_Setup_def split: prod.splits option.splits if_splits)
  obtain conf pid where s: "stunnel_text c = Some conf" "waitForPID e = Inr pid"
      "t1 = ?t0\<lparr>tuStunnel := Some pid, tuLog := [WriteConf stunnelConf conf, RunStunnel stunnelConf]\<rparr>"
    using stunnel_Start_ok [OF t1] by (auto simp: NewManager_def)
  have p: "pid \<noteq> 0" using s(2) by (rule waitForPID_nonzero)
  show ?thesis
  proof (cases "daemon_wanted c")
    case True
    then show ?thesis using assms t1 s p
      by (auto simp: tunnel_Setup_def daemon_wanted_def daemon_actions_def rsync_Start_def NewManager_def act_def Let_def tunnel_Cleanup_def rsync_Stop_def stunnel_Stop_def
          split: if_splits)
  next
    case False
    then show ?thesis using assms t1 s p
      by (auto simp: tunnel_Setup_def daemon_wanted_def daemon_actions_def NewManager_def act_def tunnel_Cleanup_def stunnel_Stop_def split: if_splits)
  qed
qed

definition sample_tunnel_env :: tunnel_env where
  "sample_tunnel_env = \<lparr>tePSKExists = True, teMkdir = True, teWriteConf = True, teStunnelRuns = True, tePIDFile = Some (''17'' @ [newline]),
     teAlive = (\<lambda>pid. pid = 17), teDial = (\<lambda>path now. (0, 3 \<le> now)), teWriteRsyncd = True, teRsyncStarts = True, teRsyncGone = False\<rparr>"

lemma sample_pid: "waitForPID sample_tunnel_env = Inr 17"
  by (simp add: waitForPID_def sample_tunnel_env_def newline_def TrimSpace_def is_space_def Atoi_def char_digit_def signal_zero_def)

definition sample_destination :: StunnelConfig where
  "sample_destination = sample_stunnel\<lparr>scWorkerType := workerTypeDestination\<rparr>"

theorem tunnel_setup_cleanup_witness:
  "\<exists>t. tunnel_Setup sample_tunnel_env (NewManager sample_destination) = (t, Inr []) \<and>
     drop 4 (tuLog (tunnel_Cleanup t)) = [TermDaemon, TermStunnel 17]"
proof -
  have e: "tePSKExists sample_tunnel_env" "teMkdir sample_tunnel_env" "teWriteConf sample_tunnel_env" "teStunnelRuns sample_tunnel_env"
      "teWriteRsyncd sample_tunnel_env" "teRsyncStarts sample_tunnel_env" "\<not> teRsyncGone sample_tunnel_env"
    by (simp_all add: sample_tunnel_env_def)
  obtain t where t: "tunnel_Setup sample_tunnel_env (NewManager sample_destination) = (t, Inr [])"
    using sample_pid e
    by (simp add: tunnel_Setup_def stunnel_Start_def generateConfig_def stunnel_text_def rsync_Start_def NewManager_def act_def Let_def
        sample_destination_def sample_stunnel_def workerTypeSource_def workerTypeDestination_def)
  show ?thesis
    using tunnel_setup_cleanup [OF t] t sample_pid
    by (auto simp: daemon_wanted_def daemon_actions_def sample_destination_def sample_stunnel_def)
qed

text \<open>A source whose sockets never come up has a stunnel that nobody stops: the setup fails without a signal, and the worker only defers the cleanup of a setup that succeeded.\<close>

lemma sockets_failure_keeps_stunnel:
  assumes "tunnel_Setup e (NewManager c) = (t, Inl (StartStunnel SocketsNotReady))"
  shows "RunStunnel stunnelConf \<in> set (tuLog t) \<and> (\<forall>pid. TermStunnel pid \<notin> set (tuLog t))"
  using assms
  by (auto simp: tunnel_Setup_def stunnel_Start_def generateConfig_def NewManager_def act_def Let_def waitForPID_def
      split: prod.splits option.splits sum.splits if_splits)

end
