(* ===== verification/Worker_Main.thy ===== *)
theory Worker_Main
  imports Tunnel Mover_Job
begin

section \<open>The program of a worker (cmd/mover/main.go)\<close>

text \<open>
  How the container of a job turns its environment into a configuration, a tunnel and a worker.  The theorems connect it with the operator: the environment that the mover writes into a job
  selects the worker it means, and the tunnels of a source and of a destination meet at ports of the service.
\<close>

subsection \<open>Configuration\<close>

definition EnvRsyncPort :: string where "EnvRsyncPort = ''RSYNC_PORT''"
definition EnvRsyncDaemonPort :: string where "EnvRsyncDaemonPort = ''RSYNC_DAEMON_PORT''"
definition RsyncDaemonPort :: int where "RsyncDaemonPort = 8874"

record Config =
  cfWorkerType :: string
  cfMoverType :: string
  cfDestinationAddress :: string
  cfLogLevel :: string
  cfDestinationPort :: string
  cfEnableRsyncTunnel :: bool
  cfRsyncPort :: string
  cfRsyncDaemonPort :: string

definition envOrDefault :: "(string \<Rightarrow> string) \<Rightarrow> string \<Rightarrow> string \<Rightarrow> string" where
  "envOrDefault getenv key defaultVal = (if getenv key \<noteq> '''' then getenv key else defaultVal)"

definition loadConfig :: "(string \<Rightarrow> string) \<Rightarrow> Config" where
  "loadConfig getenv =
     (let moverType = envOrDefault getenv EnvMoverType (mover_type_name MoverCephFS) in
      \<lparr>cfWorkerType = getenv EnvWorkerType,
       cfMoverType = moverType,
       cfDestinationAddress = getenv EnvDestinationAddress,
       cfLogLevel = envOrDefault getenv EnvLogLevel ''info'',
       cfDestinationPort = envOrDefault getenv EnvDestinationPort (Itoa TLSPort),
       cfEnableRsyncTunnel = (moverType = mover_type_name MoverCephFS),
       cfRsyncPort = envOrDefault getenv EnvRsyncPort (Itoa RsyncStunnelPort),
       cfRsyncDaemonPort = envOrDefault getenv EnvRsyncDaemonPort (Itoa RsyncDaemonPort)\<rparr>)"

subsection \<open>Workers\<close>

datatype worker = CephFSSource string | CephFSDestination | RBDSource string | RBDDestination

datatype 'e main_error =
  InvalidLogLevel string | LoggerBuild | WorkerTypeRequired | InvalidWorkerType string | TunnelFailed tunnel_error | UnsupportedMoverType string | WorkerFailed 'e

definition newCephFSWorker :: "string \<Rightarrow> string \<Rightarrow> 'e main_error + worker" where
  "newCephFSWorker workerType addr =
     (if workerType = WorkerSource then Inr (CephFSSource addr)
      else if workerType = WorkerDestination then Inr CephFSDestination
      else Inl (InvalidWorkerType workerType))"

definition newRBDWorker :: "string \<Rightarrow> string \<Rightarrow> 'e main_error + worker" where
  "newRBDWorker workerType addr =
     (if workerType = WorkerSource then Inr (RBDSource addr)
      else if workerType = WorkerDestination then Inr RBDDestination
      else Inl (InvalidWorkerType workerType))"

definition factories :: "string \<rightharpoonup> (string \<Rightarrow> string \<Rightarrow> 'e main_error + worker)" where
  "factories = [mover_type_name MoverCephFS \<mapsto> newCephFSWorker, mover_type_name MoverRBD \<mapsto> newRBDWorker]"

definition newWorker :: "Config \<Rightarrow> 'e main_error + worker" where
  "newWorker c =
     (case factories (cfMoverType c) of
        None \<Rightarrow> Inl (UnsupportedMoverType (cfMoverType c))
      | Some factory \<Rightarrow> factory (cfWorkerType c) (cfDestinationAddress c))"

text \<open>\<^verbatim>\<open>built\<close> says whether zap can build the logger.\<close>

definition setupLogger :: "bool \<Rightarrow> string \<Rightarrow> 'e main_error option" where
  "setupLogger built level =
     (if level \<notin> {''debug'', ''info'', ''warn'', ''error''} then Some (InvalidLogLevel level)
      else if built then None else Some LoggerBuild)"

definition stunnel_config :: "Config \<Rightarrow> StunnelConfig" where
  "stunnel_config c =
     \<lparr>scWorkerType = cfWorkerType c, scDestinationAddress = cfDestinationAddress c, scDestinationPort = cfDestinationPort c,
      scEnableRsyncTunnel = cfEnableRsyncTunnel c, scRsyncPort = cfRsyncPort c, scRsyncDaemonPort = cfRsyncDaemonPort c\<rparr>"

text \<open>The result: the manager of the tunnel as it is left, the worker that was run, and the error.  \<^verbatim>\<open>run\<close> is the worker's own outcome.\<close>

definition runMover ::
  "tunnel_env \<Rightarrow> bool \<Rightarrow> (worker \<Rightarrow> 'e option) \<Rightarrow> Config \<Rightarrow> tunnel option \<times> worker option \<times> 'e main_error option" where
  "runMover e built run config =
     (case setupLogger built (cfLogLevel config) of
        Some er \<Rightarrow> (None, None, Some er)
      | None \<Rightarrow>
          if cfWorkerType config = '''' then (None, None, Some WorkerTypeRequired)
          else if cfWorkerType config \<noteq> WorkerSource \<and> cfWorkerType config \<noteq> WorkerDestination
          then (None, None, Some (InvalidWorkerType (cfWorkerType config)))
          else case tunnel_Setup e (NewManager (stunnel_config config)) of
            (t, Inl er) \<Rightarrow> (Some t, None, Some (TunnelFailed er))
          | (t, Inr overriddenAddr) \<Rightarrow>
              let config1 = (if overriddenAddr \<noteq> '''' then config\<lparr>cfDestinationAddress := overriddenAddr\<rparr> else config) in
              case newWorker config1 of
                Inl er \<Rightarrow> (Some (tunnel_Cleanup t), None, Some er)
              | Inr w \<Rightarrow> (Some (tunnel_Cleanup t), Some w, map_option WorkerFailed (run w)))"

subsection \<open>The environment of a job\<close>

text \<open>
  The variables of a container as the process sees them: of two entries with one name the later one counts, an unset variable is empty, and a field
  reference is the value \<^verbatim>\<open>field\<close> gives it.
\<close>

definition container_getenv :: "(string \<Rightarrow> string) \<Rightarrow> env \<Rightarrow> string \<Rightarrow> string" where
  "container_getenv field e k = (case map_of (rev e) k of None \<Rightarrow> '''' | Some (Value v) \<Rightarrow> v | Some (FieldRef f) \<Rightarrow> field f)"

definition worker_vars :: "string list" where
  "worker_vars = [EnvWorkerType, EnvDestinationPort, EnvLogLevel, EnvMoverType, EnvDestinationAddress, EnvRsyncPort, EnvRsyncDaemonPort]"

definition unrelated :: "env \<Rightarrow> bool" where
  "unrelated xs \<longleftrightarrow> set (map fst xs) \<inter> set worker_vars = {}"

lemmas env_name_defs = EnvWorkerType_def EnvDestinationPort_def EnvLogLevel_def EnvMoverType_def EnvDestinationAddress_def EnvRsyncPort_def
  EnvRsyncDaemonPort_def EnvPodNamespace_def EnvPrivilegedMover_def

lemma getenv_unrelated:
  assumes "unrelated xs" "k \<in> set worker_vars"
  shows "container_getenv field (e @ xs) k = container_getenv field e k"
proof -
  have "map_of (rev xs) k = None" using assms by (auto simp: unrelated_def map_of_eq_None_iff)
  then show ?thesis by (simp add: container_getenv_def map_add_def)
qed

definition job_address :: "Mover \<Rightarrow> string" where
  "job_address m = (if mvIsSource m then case_option [] id (mvAddress m) else [])"

definition job_config :: "Mover \<Rightarrow> Config" where
  "job_config m =
     \<lparr>cfWorkerType = (if mvIsSource m then WorkerSource else WorkerDestination), cfMoverType = mover_type_name (mvMoverType m),
      cfDestinationAddress = job_address m, cfLogLevel = ''info'',
      cfDestinationPort = server_port m, cfEnableRsyncTunnel = (mvMoverType m = MoverCephFS),
      cfRsyncPort = Itoa RsyncStunnelPort, cfRsyncDaemonPort = Itoa RsyncDaemonPort\<rparr>"

lemma job_cases:
  obtains "mvIsSource m" "mvAddress m = None" | a where "mvIsSource m" "mvAddress m = Some a" | "\<not> mvIsSource m"
  by (cases "mvAddress m") auto

lemma job_getenv:
  "container_getenv field (job_env m) EnvWorkerType = (if mvIsSource m then WorkerSource else WorkerDestination)"
  "container_getenv field (job_env m) EnvDestinationPort = server_port m"
  "container_getenv field (job_env m) EnvLogLevel = ''info''"
  "container_getenv field (job_env m) EnvMoverType = mover_type_name (mvMoverType m)"
  "container_getenv field (job_env m) EnvDestinationAddress = job_address m"
  "container_getenv field (job_env m) EnvRsyncPort = []"
  "container_getenv field (job_env m) EnvRsyncDaemonPort = []"
  by (cases rule: job_cases [of m]; simp add: container_getenv_def job_env_def job_address_def env_name_defs)+

lemma server_port_nonempty: "server_port m \<noteq> []"
  by (simp add: server_port_def Itoa_nonempty split: option.splits)

lemma job_loadConfig:
  assumes "unrelated xs"
  shows "loadConfig (container_getenv field (job_env m @ xs)) = job_config m"
  using server_port_nonempty [of m]
  by (simp add: loadConfig_def envOrDefault_def Let_def getenv_unrelated [OF assms] worker_vars_def job_getenv)
    (simp add: job_config_def mover_type_name_def split: MoverType.splits)

definition meant_worker :: "Mover \<Rightarrow> worker" where
  "meant_worker m =
     (case mvMoverType m of
        MoverCephFS \<Rightarrow> if mvIsSource m then CephFSSource SourceGRPCAddress else CephFSDestination
      | MoverRBD \<Rightarrow> if mvIsSource m then RBDSource SourceGRPCAddress else RBDDestination)"

lemma setup_address: "tunnel_Setup e (NewManager c) = (t, Inr addr) \<Longrightarrow> addr = (if scWorkerType c = workerTypeSource then SourceGRPCAddress else [])"
  by (auto simp: tunnel_Setup_def rsync_Start_def NewManager_def act_def Let_def dest!: stunnel_Start_ok split: prod.splits option.splits if_splits)

lemma SourceGRPCAddress_nonempty: "SourceGRPCAddress \<noteq> []"
  by (simp add: SourceGRPCAddress_def)

lemma job_newWorker:
  "newWorker ((job_config m)\<lparr>cfDestinationAddress := SourceGRPCAddress\<rparr>) = Inr (meant_worker m)" if "mvIsSource m"
  using that by (simp add: newWorker_def factories_def job_config_def meant_worker_def newCephFSWorker_def newRBDWorker_def mover_type_name_def split: MoverType.splits)

lemma job_newWorker_destination: "\<not> mvIsSource m \<Longrightarrow> newWorker (job_config m) = Inr (meant_worker m)"
  by (simp add: newWorker_def factories_def job_config_def meant_worker_def newCephFSWorker_def newRBDWorker_def mover_type_name_def
      WorkerSource_def WorkerDestination_def split: MoverType.splits)

text \<open>
  C20: a job starts the worker that its mover means.  In a container with the environment of the job, whatever else is set beside the variables the worker reads, the program accepts
  its configuration: it fails only in setting up the tunnel, or it runs the source or destination worker of the mover's type, a source against the local end of the tunnel
  whatever the address, ends with that worker's outcome, and has cleaned up the tunnel.
\<close>

theorem job_starts_worker:
  assumes "unrelated xs"
  shows "runMover e True run (loadConfig (container_getenv field (job_env m @ xs))) =
    (case tunnel_Setup e (NewManager (stunnel_config (job_config m))) of
       (t, Inl er) \<Rightarrow> (Some t, None, Some (TunnelFailed er))
     | (t, Inr _) \<Rightarrow> (Some (tunnel_Cleanup t), Some (meant_worker m), map_option WorkerFailed (run (meant_worker m))))"
proof -
  have w: "cfWorkerType (job_config m) = (if mvIsSource m then WorkerSource else WorkerDestination)" "cfLogLevel (job_config m) = ''info''"
    "scWorkerType (stunnel_config (job_config m)) = (if mvIsSource m then WorkerSource else WorkerDestination)"
    by (simp_all add: job_config_def stunnel_config_def)
  obtain t r where s: "tunnel_Setup e (NewManager (stunnel_config (job_config m))) = (t, r)" by (cases "tunnel_Setup e (NewManager (stunnel_config (job_config m)))")
  show ?thesis
  proof (cases r)
    case (Inl er)
    then show ?thesis using s w
      by (simp add: job_loadConfig [OF assms] runMover_def setupLogger_def WorkerSource_def WorkerDestination_def)
  next
    case (Inr addr)
    have "addr = (if mvIsSource m then SourceGRPCAddress else [])"
      using setup_address [OF s [unfolded Inr]] w by (simp add: workerTypeSource_def WorkerSource_def WorkerDestination_def)
    then show ?thesis using Inr s w
      by (simp add: job_newWorker job_newWorker_destination job_loadConfig [OF assms] runMover_def setupLogger_def WorkerSource_def WorkerDestination_def SourceGRPCAddress_nonempty)
  qed
qed

theorem job_starts_worker_witness:
  "\<exists>t. runMover sample_tunnel_env True (\<lambda>w. None :: unit option)
      (loadConfig (container_getenv (\<lambda>f. ''ns'') (job_env (sample_mover\<lparr>mvIsSource := False, mvMoverType := MoverRBD\<rparr>) @ [(EnvPrivilegedMover, Value ''0'')]))) =
    (Some t, Some RBDDestination, None)"
proof -
  let ?m = "sample_mover\<lparr>mvIsSource := False, mvMoverType := MoverRBD\<rparr>"
  have u: "unrelated [(EnvPrivilegedMover, Value ''0'')]" by (simp add: unrelated_def worker_vars_def env_name_defs)
  have e: "tePSKExists sample_tunnel_env" "teMkdir sample_tunnel_env" "teWriteConf sample_tunnel_env" "teStunnelRuns sample_tunnel_env"
    by (simp_all add: sample_tunnel_env_def)
  obtain t where "tunnel_Setup sample_tunnel_env (NewManager (stunnel_config (job_config ?m))) = (t, Inr [])"
    using sample_pid e
    by (simp add: tunnel_Setup_def stunnel_Start_def generateConfig_def stunnel_text_def NewManager_def act_def Let_def
        stunnel_config_def job_config_def WorkerDestination_def workerTypeSource_def workerTypeDestination_def)
  then show ?thesis
    using job_starts_worker [OF u, of sample_tunnel_env "\<lambda>w. None :: unit option" "\<lambda>f. ''ns''" ?m] by (simp add: meant_worker_def)
qed

subsection \<open>The two ends of the tunnel\<close>

lemma digits_no_newline: "newline \<notin> set (nat_digits n)"
proof (induction n rule: nat_digits.induct)
  case (1 n)
  have "digit_char d \<noteq> newline" if "d < 10" for d
    using char_digit_digit [OF that] by (auto simp: newline_def char_digit_def)
  then show ?case using 1 by (subst nat_digits.simps) (auto simp: eq_commute [of newline])
qed

lemma Itoa_no_newline: "newline \<notin> set (Itoa i)"
  using digits_no_newline by (simp add: Itoa_def newline_def)

definition job_stunnel :: "(string \<Rightarrow> string) \<Rightarrow> env \<Rightarrow> Mover \<Rightarrow> StunnelConfig" where
  "job_stunnel field xs m = stunnel_config (loadConfig (container_getenv field (job_env m @ xs)))"

text \<open>A tunnel of the source and one of the destination meet at a port of the service.\<close>

definition tunnels_meet :: "string \<Rightarrow> ServicePort list \<Rightarrow> string \<times> string list \<Rightarrow> string \<times> string list \<Rightarrow> bool" where
  "tunnels_meet addr ports s d \<longleftrightarrow> fst s = fst d \<and>
     (\<exists>p \<in> set ports. ''connect = '' @ addr @ '':'' @ Itoa (spPort p) \<in> set (snd s) \<and> ''accept = '' @ Itoa (spTargetPort p) \<in> set (snd d))"

lemma job_one_line:
  assumes "unrelated xs" "\<And>a. mvAddress m = Some a \<Longrightarrow> newline \<notin> set a"
  shows "one_line (job_stunnel field xs m)"
proof -
  have "newline \<notin> set (job_address m)" by (cases rule: job_cases [of m]) (use assms(2) in \<open>auto simp only: job_address_def id_apply option.case if_True if_False list.set\<close>)
  moreover have "newline \<notin> set (server_port m)" by (simp add: server_port_def Itoa_no_newline split: option.split)
  ultimately show ?thesis
    by (simp add: one_line_def job_stunnel_def job_loadConfig [OF assms(1)] stunnel_config_def Itoa_no_newline) (simp add: job_config_def Itoa_no_newline)
qed

text \<open>
  The file that stunnel is told to take its key from: the entry \<^verbatim>\<open>pskFileName\<close> of the key secret, under the path at which a job mounts the volume with that secret.
\<close>

definition key_option :: "VolumeMount list \<Rightarrow> (string \<times> VolumeSource) list \<Rightarrow> string \<Rightarrow> string \<Rightarrow> bool" where
  "key_option mounts volumes psk opt \<longleftrightarrow>
     (\<exists>v mode. (v, SecretSource psk mode) \<in> set volumes \<and>
        (\<exists>vm \<in> set mounts. vmName vm = v \<and> opt = ''PSKsecrets = '' @ vmPath vm @ ''/'' @ pskFileName))"

lemma global_key_option: "\<exists>opt \<in> set (snd global_options). key_option (job_mounts b) (job_volumes claim ro psk cm sec) psk opt"
proof
  show "''PSKsecrets = '' @ pskFilePath \<in> set (snd global_options)" by (simp add: global_options_def)
  have "(''keys'', SecretSource psk 384) \<in> set (job_volumes claim ro psk cm sec)" by (simp add: job_volumes_def)
  moreover have "mount ''keys'' ''/keys'' False \<in> set (job_mounts b)" by (simp add: job_mounts_def)
  ultimately show "key_option (job_mounts b) (job_volumes claim ro psk cm sec) psk (''PSKsecrets = '' @ pskFilePath)"
    unfolding key_option_def by (force simp: mount_def pskFilePath_def pskFileName_def)
qed

text \<open>
  C4: source and destination meet.  For movers of one type that name no port of their own, the texts that their jobs' workers write for stunnel are accepted and describe tunnels of the same names in the same order;
  each tunnel of the source connects to the given address at a port that the reconciled service exposes, and the destination accepts that tunnel at the container port behind it.
  Both take their key from the file that the key secret of the operator has in the volumes and mounts of their job.
\<close>

theorem tunnel_ends_meet:
  assumes "mvIsSource ms" "\<not> mvIsSource md" "mvMoverType ms = mvMoverType md" "mvPort ms = None" "mvPort md = None"
    and "mvAddress ms = Some addr" "newline \<notin> set addr" "mvAddress md = None"
    and "unrelated xs" "unrelated ys" "svc_Reconcile u md sv = Some sv'"
  shows "\<exists>sconf dconf. stunnel_text (job_stunnel field xs ms) = Some sconf \<and> stunnel_text (job_stunnel field ys md) = Some dconf \<and>
    list_all2 (tunnels_meet addr (svPorts sv')) (tl (read_conf sconf)) (tl (read_conf dconf)) \<and>
    (\<forall>conf \<in> {sconf, dconf}. \<exists>opt \<in> set (snd (hd (read_conf conf))). key_option (job_mounts b) (job_volumes claim ro psk cm sec) psk opt)"
proof -
  have cs: "job_stunnel field xs ms = stunnel_config (job_config ms)" and cd: "job_stunnel field ys md = stunnel_config (job_config md)"
    by (simp_all add: job_stunnel_def job_loadConfig assms)
  have ws: "scWorkerType (job_stunnel field xs ms) = workerTypeSource" and wd: "scWorkerType (job_stunnel field ys md) = workerTypeDestination"
    using assms(1,2) by (simp_all add: cs cd stunnel_config_def job_config_def WorkerSource_def WorkerDestination_def workerTypeSource_def workerTypeDestination_def)
  have ne: "workerTypeSource \<noteq> workerTypeDestination" by (simp add: workerTypeSource_def workerTypeDestination_def)
  obtain sconf dconf where t: "stunnel_text (job_stunnel field xs ms) = Some sconf" "stunnel_text (job_stunnel field ys md) = Some dconf"
    using ws wd ne by (simp add: stunnel_text_def)
  have "hd (read_conf sconf) = global_options" "hd (read_conf dconf) = global_options"
    using stunnel_read [OF job_one_line t(1)] stunnel_read [OF job_one_line t(2)] assms(6-10) by simp_all
  moreover have "tl (read_conf sconf) = source_services (job_stunnel field xs ms)"
    using stunnel_read [OF job_one_line t(1)] assms(6,7,9) ws ne by simp
  moreover have "tl (read_conf dconf) = destination_services (job_stunnel field ys md)"
    using stunnel_read [OF job_one_line t(2)] assms(8,10) wd by simp
  moreover have "list_all2 (tunnels_meet addr (svPorts sv')) (source_services (job_stunnel field xs ms)) (destination_services (job_stunnel field ys md))"
  proof (cases "mvMoverType md")
    case MoverCephFS
    then show ?thesis using svc_Reconcile_ports(2) [OF assms(11)] assms(1-6)
      by (auto simp: cs cd source_services_def destination_services_def stunnel_config_def job_config_def job_address_def server_port_def tunnels_meet_def set_port_def)
  next
    case MoverRBD
    then show ?thesis using svc_Reconcile_ports(1) [OF assms(11)] assms(1-6)
      by (auto simp: cs cd source_services_def destination_services_def stunnel_config_def job_config_def job_address_def server_port_def tunnels_meet_def set_port_def)
  qed
  ultimately show ?thesis using t global_key_option [of b claim ro psk cm sec] by auto
qed

theorem tunnel_ends_meet_witness:
  "\<exists>sconf dconf. stunnel_text (job_stunnel (\<lambda>f. ''ns'') [] (sample_mover\<lparr>mvIsSource := True, mvMoverType := MoverCephFS, mvPort := None, mvAddress := Some ''10.0.0.1''\<rparr>)) = Some sconf \<and>
     stunnel_text (job_stunnel (\<lambda>f. ''ns'') [] (sample_mover\<lparr>mvIsSource := False, mvMoverType := MoverCephFS, mvPort := None, mvAddress := None\<rparr>)) = Some dconf \<and>
     list_all2 (tunnels_meet ''10.0.0.1'' (svPorts (the (svc_Reconcile label_utils
       (sample_mover\<lparr>mvIsSource := False, mvMoverType := MoverCephFS, mvPort := None, mvAddress := None\<rparr>) sample_service)))) (tl (read_conf sconf)) (tl (read_conf dconf)) \<and>
     (\<forall>conf \<in> {sconf, dconf}. \<exists>opt \<in> set (snd (hd (read_conf conf))). key_option (job_mounts True) (job_volumes ''data'' False ''psk'' ''cm'' ''sec'') ''psk'' opt)"
proof -
  let ?s = "sample_mover\<lparr>mvIsSource := True, mvMoverType := MoverCephFS, mvPort := None, mvAddress := Some ''10.0.0.1''\<rparr>"
  let ?d = "sample_mover\<lparr>mvIsSource := False, mvMoverType := MoverCephFS, mvPort := None, mvAddress := None\<rparr>"
  obtain sv' where sv: "svc_Reconcile label_utils ?d sample_service = Some sv'"
    by (auto simp: svc_Reconcile_def label_utils_def sample_service_def Let_def)
  show ?thesis
    using tunnel_ends_meet [of ?s ?d "''10.0.0.1''" "[]" "[]" label_utils sample_service sv' "\<lambda>f. ''ns''" True "''data''" False "''psk''" "''cm''" "''sec''"] sv
    by (simp add: newline_def unrelated_def)
qed

end
