(* ===== verification/Pipeline_Run.thy ===== *)
theory Pipeline_Run
  imports Pipeline_Send
begin

section \<open>The pipeline as a whole (internal/worker/pipeline)\<close>

text \<open>
  \<^verbatim>\<open>StageRead\<close> and \<^verbatim>\<open>StageSendData\<close> run their workers side by side, and \<^verbatim>\<open>Pipeline.Run\<close> connects feeder, readers and senders by two channels.  Which worker takes which
  element of a channel is a schedule; what Go's channels guarantee about schedules is \<^verbatim>\<open>channels_ok\<close>.  The theorem is that a run without an error delivers every block of the
  iterator exactly once and gives back all memory, under every schedule.
\<close>

subsection \<open>Stages\<close>

text \<open>The group collects the errors of its workers; \<^verbatim>\<open>Wait\<close> returns one of them, and nil if there is none.\<close>

definition add_error :: "'x option \<Rightarrow> 'x list \<Rightarrow> 'x list" where
  "add_error e es = (case e of None \<Rightarrow> es | Some x \<Rightarrow> x # es)"

fun StageRead ::
  "Config \<Rightarrow> 'e reader \<Rightarrow> Stats \<Rightarrow> (Chunk \<times> read_env) option list list \<Rightarrow> sem_op list \<times> Stats \<times> ReadChunk list \<times> 'e stage_error list" where
  "StageRead cfg rd st [] = ([], st, [], [])"
| "StageRead cfg rd st (ins # rest) =
     (case readWorker cfg rd st ins of (ops, st1, rcs, err) \<Rightarrow>
        (case StageRead cfg rd st1 rest of (ops2, st2, rcs2, errs) \<Rightarrow> (ops @ ops2, st2, rcs @ rcs2, add_error err errs)))"

text \<open>What a send worker meets: whether its stream opens, the outcomes of the sends, the chunks it takes and the acknowledgements it receives.\<close>

record send_run =
  srOpens :: bool
  srOuts :: "bool list"
  srIns :: "ReadChunk option list"
  srAcks :: "ack_event list"

definition dataSendWorker ::
  "Config \<Rightarrow> Stats \<Rightarrow> send_run \<Rightarrow> ReadChunk list \<times> ChangedBlock list list \<times> sem_op list \<times> Stats \<times> 'e stage_error list" where
  "dataSendWorker cfg st r =
     (case dataSender cfg (newSender st (srOuts r)) (srIns r) of (taken, s, err) \<Rightarrow>
        (case ackReceiver (sndStats s) (srAcks r) of (ops, st', ackErr) \<Rightarrow>
           (taken, sent s, semOps s @ ops, st', add_error err (add_error ackErr []))))"

fun StageSendData ::
  "Config \<Rightarrow> Stats \<Rightarrow> send_run list \<Rightarrow> ReadChunk list \<times> ChangedBlock list list \<times> sem_op list \<times> Stats \<times> 'e stage_error list" where
  "StageSendData cfg st [] = ([], [], [], st, [])"
| "StageSendData cfg st (r # rest) =
     (case (if srOpens r then dataSendWorker cfg st r else ([], [], [], st, [OpenErr])) of (taken, reqs, ops, st1, es) \<Rightarrow>
        (case StageSendData cfg st1 rest of (taken2, reqs2, ops2, st2, errs) \<Rightarrow>
           (taken @ taken2, reqs @ reqs2, ops @ ops2, st2, es @ errs)))"

subsection \<open>Run\<close>

record schedule =
  scFeed :: nat
  scRead :: "(Chunk \<times> read_env) option list list"
  scSend :: "send_run list"

record 'e run_result =
  ruFed :: "Chunk list"
  ruRead :: "ReadChunk list"
  ruTaken :: "ReadChunk list"
  ruRequests :: "ChangedBlock list list"
  ruOps :: "sem_op list"
  ruStats :: Stats
  ruErrors :: "'e stage_error list"

definition pipeline_Run ::
  "Config \<Rightarrow> ('s \<Rightarrow> 's \<times> ChangeBlock option) \<Rightarrow> 's \<Rightarrow> 'e reader \<Rightarrow> Stats \<Rightarrow> schedule \<Rightarrow> config_error + 'e run_result" where
  "pipeline_Run cfg0 nxt iter rd st sch =
     (let cfg = SetDefaults cfg0 in
      case validate cfg of
        Some e \<Rightarrow> Inl e
      | None \<Rightarrow>
          (case feeder nxt (scFeed sch) iter of (fed, ok, _) \<Rightarrow>
             (case StageRead cfg rd st (scRead sch) of (ops, st1, rcs, es1) \<Rightarrow>
                (case StageSendData cfg st1 (scSend sch) of (taken, reqs, ops2, st2, es2) \<Rightarrow>
                   Inr \<lparr>ruFed = fed, ruRead = rcs, ruTaken = taken, ruRequests = reqs, ruOps = ops @ ops2, ruStats = st2,
                        ruErrors = (if ok then [] else [CtxErr]) @ es1 @ es2\<rparr>))))"

text \<open>
  What the two channels guarantee: there are as many workers as configured, an element is taken at most once, and once a worker has found a channel
  closed, which is how it ends without an error, all elements have been taken.
\<close>

fun somes :: "'x option list \<Rightarrow> 'x list" where
  "somes [] = []"
| "somes (None # xs) = somes xs"
| "somes (Some x # xs) = x # somes xs"

lemma in_somes: "Some x \<in> set xs \<Longrightarrow> x \<in> set (somes xs)"
  by (induction xs rule: somes.induct) auto

definition read_chunks :: "schedule \<Rightarrow> Chunk list" where
  "read_chunks sch = map fst (concat (map somes (scRead sch)))"

definition reader_ends :: "Config \<Rightarrow> 'e reader \<Rightarrow> Stats \<Rightarrow> (Chunk \<times> read_env) option list \<Rightarrow> bool" where
  "reader_ends cfg rd st ins \<longleftrightarrow> (case readWorker cfg rd st ins of (_, _, _, err) \<Rightarrow> err = None)"

definition sender_ends :: "Config \<Rightarrow> Stats \<Rightarrow> send_run \<Rightarrow> bool" where
  "sender_ends cfg st r \<longleftrightarrow> srOpens r \<and> (case dataSender cfg (newSender st (srOuts r)) (srIns r) of (_, _, err) \<Rightarrow> (err :: unit stage_error option) = None)"

definition channels_ok :: "Config \<Rightarrow> 'e reader \<Rightarrow> schedule \<Rightarrow> 'e run_result \<Rightarrow> bool" where
  "channels_ok cfg rd sch r \<longleftrightarrow>
     int (length (scRead sch)) = ReadWorkers cfg \<and> int (length (scSend sch)) = DataSendWorkers cfg \<and>
     mset (read_chunks sch) \<subseteq># mset (ruFed r) \<and> mset (ruTaken r) \<subseteq># mset (ruRead r) \<and>
     (\<forall>st. (\<exists>ins \<in> set (scRead sch). reader_ends cfg rd st ins) \<longrightarrow> mset (read_chunks sch) = mset (ruFed r)) \<and>
     (\<forall>st. (\<exists>x \<in> set (scSend sch). sender_ends cfg st x) \<longrightarrow> mset (ruTaken r) = mset (ruRead r))"

subsection \<open>Readers\<close>

lemma add_error_Nil [simp]: "add_error e es = [] \<longleftrightarrow> e = None \<and> es = []"
  by (simp add: add_error_def split: option.splits)

lemma read_chunk_ok:
  assumes "read_chunk cfg rd st env c = (ops, st', Inr rc)" "reads_image rd img" "chunk_ok cfg img c"
  shows "carries img c rc"
proof -
  let ?all = "\<lparr>memGranted = True, winGranted = True, sendTaken = True\<rparr>"
  have "read_chunk cfg rd st ?all c = (ops, st', Inr rc)"
    using assms(1) by (auto simp: read_chunk_def read_zero_chunk_def read_data_chunk_def Let_def split: if_splits sum.splits)
  moreover obtain ops1 st1 rc1 where "read_chunk cfg rd st ?all c = (ops1, st1, Inr rc1)" "carries img c rc1"
    by (rule read_chunk_carries [OF assms(2,3) refl, of st])
  ultimately show ?thesis by simp
qed

lemma readWorker_ok:
  assumes "readWorker cfg rd st ins = (ops, st', rcs, None)" "reads_image rd img"
    and "\<And>c env. Some (c, env) \<in> set ins \<Longrightarrow> chunk_ok cfg img c"
  shows "list_all2 (carries img) (map fst (somes ins)) rcs"
  using assms
proof (induction cfg rd st ins arbitrary: ops st' rcs rule: readWorker.induct)
  case (3 cfg rd st c env ins)
  obtain ops1 st1 r where r: "read_chunk cfg rd st env c = (ops1, st1, r)" by (cases "read_chunk cfg rd st env c")
  then obtain rc where rc: "r = Inr rc" using "3.prems"(1) by (cases r) auto
  then obtain ops2 rcs2 where rest: "readWorker cfg rd st1 ins = (ops2, st', rcs2, None)" "rcs = rc # rcs2"
    using "3.prems"(1) r by (auto split: prod.splits)
  have "carries img c rc" using read_chunk_ok [of cfg rd st env c ops1 st1 rc img] r rc "3.prems"(2,3) by auto
  moreover have "list_all2 (carries img) (map fst (somes ins)) rcs2"
    using "3.IH" [OF r [symmetric] refl rc rest(1) "3.prems"(2)] "3.prems"(3) by auto
  ultimately show ?case using rest(2) by simp
qed simp_all

lemma readWorker_mem: "readWorker cfg rd st ins = (ops, st', rcs, err) \<Longrightarrow> mem_net ops = sum_list (map (held_mem \<circ> rcHeld) rcs)"
proof (induction cfg rd st ins arbitrary: ops st' rcs rule: readWorker.induct)
  case (3 cfg rd st c env ins)
  obtain ops1 st1 r where r: "read_chunk cfg rd st env c = (ops1, st1, r)" by (cases "read_chunk cfg rd st env c")
  show ?case
  proof (cases r)
    case (Inl e)
    then show ?thesis using read_chunk_net [OF r] r "3.prems" by auto
  next
    case (Inr rc)
    then show ?thesis using read_chunk_net [OF r] r "3.prems" "3.IH" [OF r [symmetric] refl Inr] by (auto split: prod.splits)
  qed
qed auto

lemma StageRead_ok:
  assumes "StageRead cfg rd st inss = (ops, st', rcs, [])" "reads_image rd img"
    and "\<And>ins c env. ins \<in> set inss \<Longrightarrow> Some (c, env) \<in> set ins \<Longrightarrow> chunk_ok cfg img c"
  shows "list_all2 (carries img) (map fst (concat (map somes inss))) rcs"
  using assms
proof (induction inss arbitrary: st ops rcs)
  case (Cons ins inss)
  obtain ops1 st1 rcs1 err where w: "readWorker cfg rd st ins = (ops1, st1, rcs1, err)" by (cases "readWorker cfg rd st ins")
  then obtain ops2 rcs2 where r: "StageRead cfg rd st1 inss = (ops2, st', rcs2, [])" "rcs = rcs1 @ rcs2" "err = None"
    using Cons.prems(1) by (auto split: prod.splits)
  have "list_all2 (carries img) (map fst (somes ins)) rcs1"
    using readWorker_ok [of cfg rd st ins ops1 st1 rcs1 img] w r(3) Cons.prems(2,3) by auto
  then show ?case using Cons.IH [OF r(1) Cons.prems(2)] Cons.prems(3) r(2) by (auto intro: list_all2_appendI)
qed simp

lemma StageRead_mem: "StageRead cfg rd st inss = (ops, st', rcs, es) \<Longrightarrow> mem_net ops = sum_list (map (held_mem \<circ> rcHeld) rcs)"
  by (induction inss arbitrary: st ops rcs es) (auto dest!: readWorker_mem split: prod.splits)

lemma StageRead_ends:
  assumes "StageRead cfg rd st inss = (ops, st', rcs, [])" "inss \<noteq> []"
  shows "\<exists>st ins. ins \<in> set inss \<and> reader_ends cfg rd st ins"
proof -
  obtain ins rest where i: "inss = ins # rest" using assms(2) by (cases inss) auto
  then have "reader_ends cfg rd st ins" using assms(1) by (auto simp: reader_ends_def split: prod.splits)
  then show ?thesis using i by auto
qed

subsection \<open>Senders\<close>

lemma ackReceiver_mem: "ackReceiver st evs = (ops, st', err) \<Longrightarrow> mem_net ops = 0"
proof (induction st evs arbitrary: ops rule: ackReceiver.induct)
  case (5 st ids evs)
  have "mem_net (map WinRel ids) = 0" for ids by (induction ids) auto
  then show ?case using 5 by (auto split: prod.splits)
qed auto

lemma dataSendWorker_mem:
  assumes "dataSendWorker cfg st r = (taken, reqs, ops, st', es)" "0 < DataBatchMaxCount cfg"
  shows "mem_net ops = - sum_list (map (held_mem \<circ> rcHeld) taken)"
proof -
  obtain s err where d: "dataSender cfg (newSender st (srOuts r)) (srIns r) = (taken, s, err :: 'a stage_error option)"
    using assms(1) by (auto simp: dataSendWorker_def split: prod.splits)
  obtain ops1 st1 e1 where a: "ackReceiver (sndStats s) (srAcks r) = (ops1, st1, e1 :: 'a stage_error option)"
    by (cases "ackReceiver (sndStats s) (srAcks r) :: sem_op list \<times> Stats \<times> 'a stage_error option")
  have "sender_done cfg taken s" using dataSender_done [OF sender_inv_new assms(2) d] by simp
  then show ?thesis using assms(1) d a ackReceiver_mem [OF a] by (auto simp: dataSendWorker_def sender_done_def)
qed

lemma dataSendWorker_ok:
  assumes "dataSendWorker cfg st r = (taken, reqs, ops, st', [] :: 'e stage_error list)" "0 < DataBatchMaxCount cfg"
  shows "concat reqs = map to_changed taken"
proof -
  obtain s where d: "dataSender cfg (newSender st (srOuts r)) (srIns r) = (taken, s, None :: 'e stage_error option)" "reqs = sent s"
    using assms(1) by (auto simp: dataSendWorker_def split: prod.splits)
  then show ?thesis using dataSender_done [OF sender_inv_new assms(2) d(1)] by simp
qed

lemma StageSendData_mem:
  assumes "StageSendData cfg st rs = (taken, reqs, ops, st', es)" "0 < DataBatchMaxCount cfg"
  shows "mem_net ops = - sum_list (map (held_mem \<circ> rcHeld) taken)"
  using assms(1)
proof (induction rs arbitrary: st taken reqs ops es)
  case (Cons r rs)
  then show ?case by (auto simp: comp_def dest!: dataSendWorker_mem [OF _ assms(2)] split: prod.splits if_splits)
qed simp

lemma StageSendData_ok:
  assumes "StageSendData cfg st rs = (taken, reqs, ops, st', [] :: 'e stage_error list)" "0 < DataBatchMaxCount cfg"
  shows "concat reqs = map to_changed taken"
  using assms(1)
proof (induction rs arbitrary: st taken reqs ops)
  case (Cons r rs)
  then show ?case by (auto dest!: dataSendWorker_ok [OF _ assms(2)] split: prod.splits if_splits)
qed simp

lemma dataSender_error_type:
  "(snd (snd (dataSender cfg s ins)) = (None :: 'e stage_error option)) = (snd (snd (dataSender cfg s ins)) = (None :: unit stage_error option))"
proof (induction cfg s ins rule: dataSender.induct)
  case (3 cfg s cc ins)
  then show ?case by (cases "send_step cfg s cc"; cases "snd (send_step cfg s cc)") (simp_all add: case_prod_beta)
qed (simp_all add: case_prod_beta split: bool.split)

lemma StageSendData_ends:
  assumes "StageSendData cfg st rs = (taken, reqs, ops, st', [] :: 'e stage_error list)" "rs \<noteq> []"
  shows "\<exists>st r. r \<in> set rs \<and> sender_ends cfg st r"
proof -
  obtain r rest where rs: "rs = r # rest" using assms(2) by (cases rs) auto
  have o: "srOpens r" using assms(1) rs by (auto split: prod.splits if_splits)
  then have "snd (snd (dataSender cfg (newSender st (srOuts r)) (srIns r))) = (None :: 'e stage_error option)"
    using assms(1) rs by (auto simp: dataSendWorker_def split: prod.splits)
  then have "sender_ends cfg st r"
    using o dataSender_error_type [where 'e = 'e, of cfg "newSender st (srOuts r)" "srIns r"] by (simp add: sender_ends_def case_prod_beta)
  then show ?thesis using rs by auto
qed

subsection \<open>Delivery\<close>

text \<open>What a chunk of the image looks like on the wire.\<close>

definition wire_of :: "(path \<Rightarrow> bytes) \<Rightarrow> Chunk \<Rightarrow> u64 \<times> path \<times> nat \<times> bytes" where
  "wire_of img c = (chReqID c, chFilePath c, nat (chOffset c), read_slice (img (chFilePath c)) (chOffset c) (chLength c))"

definition block_wire :: "ChangedBlock \<Rightarrow> u64 \<times> path \<times> nat \<times> bytes" where
  "block_wire b = (blkRequestId b, blkFilePath b, blkOffset b, if blkIsZero b then replicate (blkLength b) 0 else blkData b)"

lemma carries_wire: "carries img c rc \<Longrightarrow> block_wire (to_changed rc) = wire_of img c"
  by (auto simp: carries_def payload_def block_wire_def to_changed_def wire_of_def split: if_splits)

lemma validate_counts:
  assumes "validate cfg = None"
  shows "0 < DataBatchMaxCount cfg" "0 < ReadWorkers cfg" "0 < DataSendWorkers cfg"
  using assms by (auto simp: validate_def minBatchCount_def minReadWorkers_def minDataSendWorkers_def split: if_splits)

lemma run_delivers:
  fixes r :: "'e run_result"
  assumes "pipeline_Run cfg nxt iter rd st sch = Inr r" "ruErrors r = []" "channels_ok (SetDefaults cfg) rd sch r"
    and "reads_image rd img" "\<forall>c \<in> set (ruFed r). chunk_ok (SetDefaults cfg) img c"
  shows "mset (map block_wire (concat (ruRequests r))) = mset (map (wire_of img) (ruFed r))" "mem_net (ruOps r) = 0"
proof -
  let ?c = "SetDefaults cfg"
  obtain ops st1 ops2 st2 where
    v: "validate ?c = None" and rd: "StageRead ?c rd st (scRead sch) = (ops, st1, ruRead r, [])"
    and sd: "StageSendData ?c st1 (scSend sch) = (ruTaken r, ruRequests r, ops2, st2, [] :: 'e stage_error list)" and o: "ruOps r = ops @ ops2"
    using assms(1,2) by (auto simp: pipeline_Run_def Let_def split: option.splits prod.splits if_splits)
  note n = validate_counts [OF v]
  have "scRead sch \<noteq> []" "scSend sch \<noteq> []" using assms(3) n by (auto simp: channels_ok_def)
  then have m: "mset (read_chunks sch) = mset (ruFed r)" "mset (ruTaken r) = mset (ruRead r)"
    using StageRead_ends [OF rd] StageSendData_ends [OF sd] assms(3) by (auto simp: channels_ok_def)
  have "chunk_ok ?c img c" if "ins \<in> set (scRead sch)" "Some (c, env) \<in> set ins" for ins c env
  proof -
    have "c \<in> set (read_chunks sch)" using in_somes [OF that(2)] that(1) by (force simp: read_chunks_def)
    then show ?thesis using m(1) assms(5) by (metis set_mset_mset)
  qed
  then have "list_all2 (carries img) (read_chunks sch) (ruRead r)"
    using StageRead_ok [OF rd assms(4)] by (simp add: read_chunks_def)
  then have "map (wire_of img) (read_chunks sch) = map (block_wire \<circ> to_changed) (ruRead r)"
    by (induction rule: list_all2_induct) (simp_all add: carries_wire)
  then have "mset (map (block_wire \<circ> to_changed) (ruTaken r)) = mset (map (wire_of img) (ruFed r))"
    using m by (metis mset_map)
  then show "mset (map block_wire (concat (ruRequests r))) = mset (map (wire_of img) (ruFed r))"
    using StageSendData_ok [OF sd n(1)] by simp
  have "sum_mset (image_mset (held_mem \<circ> rcHeld) (mset (ruTaken r))) = sum_mset (image_mset (held_mem \<circ> rcHeld) (mset (ruRead r)))"
    using m(2) by simp
  then have "sum_list (map (held_mem \<circ> rcHeld) (ruTaken r)) = sum_list (map (held_mem \<circ> rcHeld) (ruRead r))"
    by (simp only: mset_map [symmetric] sum_mset_sum_list)
  then show "mem_net (ruOps r) = 0" using StageRead_mem [OF rd] StageSendData_mem [OF sd n(1)] o by simp
qed

text \<open>
  C2: the pipeline delivers every block once.  However its workers share the channels, a run of the pipeline that returns no error has put exactly the chunks that the feeder sent on the
  streams, each once, under its id and with the bytes of the image at its place, and has given back all the memory it took.
\<close>

theorem pipeline_delivers:
  assumes "pipeline_Run cfg nxt iter rd st sch = Inr r" "ruErrors r = []" "channels_ok (SetDefaults cfg) rd sch r"
    and "reads_image rd img" "\<forall>c \<in> set (ruFed r). chunk_ok (SetDefaults cfg) img c"
  shows "mset (map block_wire (concat (ruRequests r))) = mset (map (wire_of img) (ruFed r)) \<and> mem_net (ruOps r) = 0"
  using run_delivers [OF assms] by blast

definition list_next :: "ChangeBlock list \<Rightarrow> ChangeBlock list \<times> ChangeBlock option" where
  "list_next bs = (case bs of [] \<Rightarrow> ([], None) | b # rest \<Rightarrow> (rest, Some b))"

definition sample_blocks :: "ChangeBlock list" where
  "sample_blocks = [\<lparr>cbFilePath = ''f'', cbOffset = 0, cbLen = 2, cbReqID = 0, cbTotalSize = 4, cbIsZero = False\<rparr>,
     \<lparr>cbFilePath = ''f'', cbOffset = 2, cbLen = 2, cbReqID = 1, cbTotalSize = 4, cbIsZero = False\<rparr>]"

definition sample_pipe :: Config where
  "sample_pipe = zero_config\<lparr>ReadWorkers := 2, DataSendWorkers := 1\<rparr>"

definition run_reader :: "unit reader" where
  "run_reader p off n = Inr (read_slice [5, 0, 0, 0] off n)"

definition sample_emitted :: "ReadChunk list" where
  "sample_emitted = (case StageRead (SetDefaults sample_pipe) run_reader sample_stats
     [[Some (to_chunk (sample_blocks ! 1), sample_env)], [Some (to_chunk (sample_blocks ! 0), sample_env)]] of (_, _, rcs, _) \<Rightarrow> rcs)"

text \<open>The second block is read by the first worker, and the sender takes it first.\<close>

definition sample_schedule :: schedule where
  "sample_schedule = \<lparr>scFeed = 5,
     scRead = [[Some (to_chunk (sample_blocks ! 1), sample_env)], [Some (to_chunk (sample_blocks ! 0), sample_env)]],
     scSend = [\<lparr>srOpens = True, srOuts = [], srIns = map Some sample_emitted, srAcks = [Ack [1, 0], AckEOF]\<rparr>]\<rparr>"

definition sample_result :: "unit run_result" where
  "sample_result = projr (pipeline_Run sample_pipe list_next sample_blocks run_reader sample_stats sample_schedule)"

lemma sample_run: "pipeline_Run sample_pipe list_next sample_blocks run_reader sample_stats sample_schedule = Inr sample_result"
  by code_simp

lemma sample_run_parts:
  "ruErrors sample_result = []" "ruFed sample_result = map to_chunk sample_blocks" "ruTaken sample_result = ruRead sample_result"
  "read_chunks sample_schedule = rev (map to_chunk sample_blocks)" "length (scRead sample_schedule) = 2" "length (scSend sample_schedule) = 1"
  "ReadWorkers (SetDefaults sample_pipe) = 2" "DataSendWorkers (SetDefaults sample_pipe) = 1" "2 \<le> ChunkSize (SetDefaults sample_pipe)"
  by code_simp+

theorem pipeline_delivers_witness:
  "mset (map block_wire (concat (ruRequests sample_result))) = {#(0, ''f'', 0, [5, 0]), (1, ''f'', 2, [0, 0])#} \<and> mem_net (ruOps sample_result) = 0"
proof -
  let ?img = "\<lambda>p. [5, 0, 0, 0]"
  have "channels_ok (SetDefaults sample_pipe) run_reader sample_schedule sample_result"
    unfolding channels_ok_def sample_run_parts by simp
  moreover have "reads_image run_reader ?img" by (simp add: reads_image_def run_reader_def)
  moreover have "\<forall>c \<in> set (ruFed sample_result). chunk_ok (SetDefaults sample_pipe) ?img c"
    using sample_run_parts(9) by (simp add: sample_run_parts(2) sample_blocks_def to_chunk_def chunk_ok_def)
  ultimately have "mset (map block_wire (concat (ruRequests sample_result))) = mset (map (wire_of ?img) (ruFed sample_result)) \<and> mem_net (ruOps sample_result) = 0"
    using pipeline_delivers [OF sample_run sample_run_parts(1)] by blast
  then show ?thesis by (simp add: sample_run_parts(2) sample_blocks_def to_chunk_def wire_of_def read_slice_def numeral_2_eq_2)
qed

end
