(* ===== verification/Rbd_Transfer.thy ===== *)
theory Rbd_Transfer
  imports Pipeline_Run Rbd_Dest Rbd_Iter
begin

section \<open>An RBD transfer from end to end\<close>

text \<open>
  Iterator, pipeline and destination together: whatever the schedule of the workers and the order in which the streams deliver their requests, a transfer that meets no error
  makes the device of the destination equal to the source image.
\<close>

text \<open>The requests of all streams in the order in which the handlers write them, each under the writes of \<^verbatim>\<open>writeBlocks\<close>.\<close>

fun serve_batches :: "os_file \<Rightarrow> ChangedBlock list list \<Rightarrow> os_file \<times> bool" where
  "serve_batches d [] = (d, True)"
| "serve_batches d (bs # reqs) = (case rbd_writeBlocks d bs of (d1, False) \<Rightarrow> (d1, False) | (d1, True) \<Rightarrow> serve_batches d1 reqs)"

lemma serve_image:
  assumes "serve_batches d reqs = (d', True)" "\<forall>b \<in> set (concat reqs). blk_of img b" "length (content d) = length img"
  shows "length (content d') = length img \<and>
    (\<forall>i. byte_at (content d') i = byte_at (content d) i \<or> byte_at (content d') i = byte_at img i) \<and>
    (\<forall>b \<in> set (concat reqs). \<forall>i \<in> blk_bytes b. byte_at (content d') i = byte_at img i)"
  using assms
proof (induction reqs arbitrary: d)
  case (Cons bs reqs)
  obtain d1 where w: "rbd_writeBlocks d bs = (d1, True)" "serve_batches d1 reqs = (d', True)"
    using Cons.prems(1) by (auto split: prod.splits bool.splits)
  have one: "length (content d1) = length img" "\<forall>i. byte_at (content d1) i = byte_at (content d) i \<or> byte_at (content d1) i = byte_at img i"
    "\<forall>i \<in> \<Union> (blk_bytes ` set bs). byte_at (content d1) i = byte_at img i"
    using rz.write_blocks_image [of d bs d1 True img] w(1) Cons.prems(2,3) by (auto simp: rbd_writeBlocks_def)
  have ih: "length (content d') = length img" "\<forall>i. byte_at (content d') i = byte_at (content d1) i \<or> byte_at (content d') i = byte_at img i"
    "\<forall>b \<in> set (concat reqs). \<forall>i \<in> blk_bytes b. byte_at (content d') i = byte_at img i"
    using Cons.IH [OF w(2) _ one(1)] Cons.prems(2) by auto
  have "byte_at (content d') i = byte_at img i" if "b \<in> set bs" "i \<in> blk_bytes b" for b i
    using one(3) ih(2) that by (metis UN_I)
  moreover have "byte_at (content d') i = byte_at (content d) i \<or> byte_at (content d') i = byte_at img i" for i
    using one(2) ih(2) by metis
  ultimately show ?case using ih(1,3) by auto
qed simp

text \<open>Without faults every request inside the device is written.\<close>

lemma serve_total:
  "plan d = [] \<Longrightarrow> \<forall>b \<in> set (concat reqs). blk_in (length (content d)) b \<Longrightarrow> snd (serve_batches d reqs)"
proof (induction reqs arbitrary: d)
  case (Cons bs reqs)
  have inb: "\<forall>b \<in> set bs. blk_in (length (content d)) b" using Cons.prems(2) by simp
  obtain d1 ok where w: "rbd_writeBlocks d bs = (d1, ok)" by force
  then have "ok" "plan d1 = []" "length (content d1) = length (content d)"
    using rz.write_blocks_total [OF Cons.prems(1) inb] rz.write_blocks_effect [OF _ inb, of d1 ok] by (auto simp: rbd_writeBlocks_def)
  then show ?case using Cons.IH [of d1] Cons.prems(2) w by simp
qed simp

subsection \<open>The blocks of a diff\<close>

lemma feeder_all: "feeder rbd_Next n a = (cs, True, a') \<Longrightarrow> cs = map to_chunk (rbd_blocks a)"
  using feeder_more [of rbd_Next n a cs a' "length (rbd_blocks a)"] feeder_blocks [of a n] by (auto simp: add.commute)

text \<open>What the Ceph library promises of a diff: outside the extents a full image reads as zero, and an image has not changed since the base of an incremental diff.\<close>

definition diff_of :: "bool \<Rightarrow> diffBlock list \<Rightarrow> bytes \<Rightarrow> bytes \<Rightarrow> bool" where
  "diff_of full es old img \<longleftrightarrow> extents_ok es \<and> (\<forall>e \<in> set es. dbOffset e + dbLen e \<le> int (length img)) \<and>
     (\<forall>i < length img. int i \<notin> \<Union> (extent_range ` set es) \<longrightarrow> byte_at img i = (if full then 0 else byte_at old i))"

abbreviation image_adapter :: "diffBlock list \<Rightarrow> bytes \<Rightarrow> bool \<Rightarrow> rbdIterAdapter" where
  "image_adapter es img full \<equiv> newAdapter es (int (length img)) (ChunkSize rbd_config) full"

lemma rbd_config_chunk: "ChunkSize (SetDefaults rbd_config) = ChunkSize rbd_config" "0 < ChunkSize rbd_config"
  by (simp_all add: rbd_config_def zero_config_def config_consts)

lemma adapter_block:
  assumes "b \<in> set (rbd_blocks (image_adapter es img full))" "extents_ok es"
  shows "0 < cbLen b" "cbLen b \<le> ChunkSize rbd_config" "0 \<le> cbOffset b"
proof -
  let ?f = "\<lambda>b. (cbOffset b, cbLen b, cbIsZero b)"
  show "0 < cbLen b" "0 \<le> cbOffset b"
    using ascending_lower [OF rbd_blocks_ascending [OF assms(2)], of "?f b"] assms(1) by force+
  have "?f b \<in> set (concat (map (pieces (ChunkSize rbd_config)) (segments full (int (length img)) 0 es)))"
    using assms(1) number_segments [of "int (length img)" 0] unfolding rbd_blocks_eq by (metis (no_types, lifting) image_eqI set_map)
  then show "cbLen b \<le> ChunkSize rbd_config" using pieces_bound [OF rbd_config_chunk(2)] by fastforce
qed

lemma adapter_cover:
  assumes "diff_of full es old img"
  shows "\<Union> (block_range ` set (rbd_blocks (image_adapter es img full))) =
      (if full then {0..<int (length img)} else \<Union> (extent_range ` set es))"
    and "b \<in> set (rbd_blocks (image_adapter es img full)) \<Longrightarrow> cbIsZero b \<Longrightarrow> full \<and> block_range b \<inter> \<Union> (extent_range ` set es) = {}"
proof -
  let ?bs = "rbd_blocks (image_adapter es img full)"
  have e: "extents_ok es" "\<forall>e \<in> set es. dbOffset e + dbLen e \<le> int (length img)" using assms by (simp_all add: diff_of_def)
  have sub: "\<Union> (extent_range ` set es) \<subseteq> {0..<int (length img)}" using e by (force simp: extents_ok_def extent_range_def)
  note full = full_diff_partition [OF e rbd_config_chunk(2)] and inc = rbd_incremental_diff_cover [OF e(1), of "int (length img)" "ChunkSize rbd_config"]
  have "set ?bs = {b \<in> set ?bs. cbIsZero b} \<union> {b \<in> set ?bs. \<not> cbIsZero b}" by auto
  then have u: "\<Union> (block_range ` set ?bs) = \<Union> (block_range ` {b \<in> set ?bs. cbIsZero b}) \<union> \<Union> (block_range ` {b \<in> set ?bs. \<not> cbIsZero b})"
    by (metis UN_Un)
  show "\<Union> (block_range ` set ?bs) = (if full then {0..<int (length img)} else \<Union> (extent_range ` set es))"
  proof (cases full)
    case True
    then have "\<Union> (block_range ` set ?bs) = ({0..<int (length img)} - \<Union> (extent_range ` set es)) \<union> \<Union> (extent_range ` set es)"
      using u full by simp
    then show ?thesis using sub True by auto
  next
    case False
    then show ?thesis using inc by simp
  qed
  show "full \<and> block_range b \<inter> \<Union> (extent_range ` set es) = {}" if "b \<in> set ?bs" "cbIsZero b"
  proof -
    have f: full
    proof (rule ccontr)
      assume "\<not> full"
      then show False using that inc by simp
    qed
    have "b \<in> {b \<in> set (rbd_blocks (image_adapter es img True)). cbIsZero b}" using that f by simp
    then have "block_range b \<subseteq> {0..<int (length img)} - \<Union> (extent_range ` set es)"
      using full by (metis (no_types, lifting) UN_upper)
    then show ?thesis using f by blast
  qed
qed

lemma adapter_chunk_ok:
  assumes "diff_of full es old img" "b \<in> set (rbd_blocks (image_adapter es img full))"
  shows "chunk_ok (SetDefaults rbd_config) (\<lambda>_. img) (to_chunk b)"
proof -
  have e: "extents_ok es" "\<forall>e \<in> set es. dbOffset e + dbLen e \<le> int (length img)" using assms(1) by (simp_all add: diff_of_def)
  note b = adapter_block [OF assms(2) e(1)]
  have "block_range b \<subseteq> {0..<int (length img)}"
  proof -
    have "block_range b \<subseteq> (if full then {0..<int (length img)} else \<Union> (extent_range ` set es))"
      using adapter_cover(1) [OF assms(1)] assms(2) by blast
    then show ?thesis using e by (force simp: extents_ok_def extent_range_def split: if_splits)
  qed
  then have inside: "cbOffset b + cbLen b \<le> int (length img)" using b by (auto simp: block_range_def)
  have "read_slice img (cbOffset b) (cbLen b) = replicate (nat (cbLen b)) 0" if z: "cbIsZero b"
  proof (rule nth_equalityI)
    show "length (read_slice img (cbOffset b) (cbLen b)) = length (replicate (nat (cbLen b)) (0 :: byte))"
      using length_read_slice [of "cbOffset b" "cbLen b" img] b inside by simp
    fix k assume k: "k < length (read_slice img (cbOffset b) (cbLen b))"
    then have k1: "k < nat (cbLen b)" by (simp add: read_slice_def)
    let ?i = "nat (cbOffset b) + k"
    have i: "?i < length img" "int ?i \<in> block_range b" using k1 b inside by (auto simp: block_range_def)
    then have "full" "int ?i \<notin> \<Union> (extent_range ` set es)" using adapter_cover(2) [OF assms z] by blast+
    then have "byte_at img ?i = 0" using i(1) assms(1) unfolding diff_of_def by simp
    then show "read_slice img (cbOffset b) (cbLen b) ! k = replicate (nat (cbLen b)) 0 ! k"
      using i k1 b(3) inside by (simp add: read_slice_def byte_at_def)
  qed
  then show ?thesis using b inside by (simp add: chunk_ok_def to_chunk_def rbd_config_chunk)
qed

lemma wire_block:
  assumes "block_wire x = wire_of (\<lambda>_. img) (to_chunk b)" "0 \<le> cbOffset b" "0 < cbLen b" "cbOffset b + cbLen b \<le> int (length img)"
  shows "blk_of img x" "int ` blk_bytes x = block_range b"
proof -
  have p: "blk_payload x = read_slice img (cbOffset b) (cbLen b)" "blkOffset x = nat (cbOffset b)"
    using assms(1) by (simp_all add: block_wire_def wire_of_def blk_payload_def to_chunk_def)
  have l: "length (blk_payload x) = nat (cbLen b)" using length_read_slice assms(2-4) p(1) by simp
  show "blk_of img x" using p l assms(2-4) by (simp add: blk_of_def blk_in_def read_slice_def)
  have "blk_bytes x = {nat (cbOffset b)..<nat (cbOffset b + cbLen b)}" using p(2) l assms(2,3) by (simp add: blk_bytes_def nat_add_distrib)
  then show "int ` blk_bytes x = block_range b" using assms(2,3) by (simp add: block_range_def image_int_atLeastLessThan)
qed

text \<open>
  C1: a transfer makes the destination equal to the source.  Take a full diff, or an incremental one against what the destination's device holds.  If the pipeline over the blocks of
  the diff returns no error and every request it sent is written, in any order over its streams, then the device holds exactly the source image.
\<close>

theorem rbd_transfer:
  fixes r :: "'e run_result"
  assumes "diff_of full es (content d) img" "length (content d) = length img" "reads_image rd (\<lambda>_. img)"
    and "pipeline_Run rbd_config rbd_Next (image_adapter es img full) rd st sch = Inr r" "ruErrors r = []"
    and "channels_ok (SetDefaults rbd_config) rd sch r"
    and "mset reqs = mset (ruRequests r)" "serve_batches d reqs = (d', True)"
  shows "content d' = img"
proof -
  let ?bs = "rbd_blocks (image_adapter es img full)"
  have fed: "ruFed r = map to_chunk ?bs"
    using assms(4,5) by (auto simp: pipeline_Run_def Let_def dest: feeder_all split: option.splits prod.splits if_splits)
  have ok: "\<forall>c \<in> set (ruFed r). chunk_ok (SetDefaults rbd_config) (\<lambda>_. img) c" using adapter_chunk_ok [OF assms(1)] fed by auto
  have sent: "set (concat reqs) = set (concat (ruRequests r))" using assms(7) by (metis mset_eq_setD set_concat)
  have "mset (map block_wire (concat (ruRequests r))) = mset (map (wire_of (\<lambda>_. img)) (map to_chunk ?bs))"
    using run_delivers(1) [OF assms(4,5,6,3) ok] fed by simp
  then have "set (map block_wire (concat (ruRequests r))) = set (map (wire_of (\<lambda>_. img)) (map to_chunk ?bs))" by (rule mset_eq_setD)
  then have wires: "block_wire ` set (concat reqs) = (\<lambda>b. wire_of (\<lambda>_. img) (to_chunk b)) ` set ?bs"
    unfolding sent set_map image_image .
  have w: "blk_of img x" "int ` blk_bytes x = block_range b"
    if "b \<in> set ?bs" "block_wire x = wire_of (\<lambda>_. img) (to_chunk b)" for x b
    using wire_block [OF that(2)] adapter_block [OF that(1)] adapter_chunk_ok [OF assms(1) that(1)] assms(1)
    by (auto simp: diff_of_def chunk_ok_def to_chunk_def)
  have "blk_of img x" if x: "x \<in> set (concat reqs)" for x
  proof -
    obtain b where "b \<in> set ?bs" "block_wire x = wire_of (\<lambda>_. img) (to_chunk b)" using wires x by (metis (no_types, lifting) image_iff)
    then show ?thesis by (rule w(1))
  qed
  then have srv: "length (content d') = length img" "\<forall>i. byte_at (content d') i = byte_at (content d) i \<or> byte_at (content d') i = byte_at img i"
    "\<forall>x \<in> set (concat reqs). \<forall>i \<in> blk_bytes x. byte_at (content d') i = byte_at img i"
    using serve_image [OF assms(8) _ assms(2)] by auto
  show ?thesis
  proof (rule byte_at_eqI [OF srv(1)])
    fix i assume "i < length (content d')"
    then have i: "i < length img" using srv(1) by simp
    show "byte_at (content d') i = byte_at img i"
    proof (cases "int i \<in> \<Union> (block_range ` set ?bs)")
      case True
      then obtain b where b: "b \<in> set ?bs" "int i \<in> block_range b" by blast
      then obtain x where x: "x \<in> set (concat reqs)" "block_wire x = wire_of (\<lambda>_. img) (to_chunk b)" using wires by (metis (no_types, lifting) image_iff)
      then have "i \<in> blk_bytes x" using w(2) [OF b(1) x(2)] b(2) by (metis image_iff of_nat_eq_iff)
      then show ?thesis using srv(3) x(1) by blast
    next
      case False
      then have "\<not> full" "int i \<notin> \<Union> (extent_range ` set es)" using adapter_cover(1) [OF assms(1)] i by (auto split: if_splits)
      then have "byte_at (content d) i = byte_at img i" using assms(1) i by (simp add: diff_of_def)
      then show ?thesis using srv(2) by metis
    qed
  qed
qed

subsection \<open>A concrete transfer\<close>

definition transfer_image :: bytes where "transfer_image = [1, 2, 9, 9, 0, 0, 0, 0]"

definition transfer_dev :: os_file where "transfer_dev = \<lparr>content = [8, 7, 6, 5, 4, 3, 2, 1], fixedSize = True, plan = []\<rparr>"

definition transfer_extents :: "diffBlock list" where "transfer_extents = [\<lparr>dbOffset = 0, dbLen = 3\<rparr>, \<lparr>dbOffset = 3, dbLen = 1\<rparr>]"

definition transfer_reader :: "unit reader" where "transfer_reader p off n = Inr (read_slice transfer_image off n)"

definition transfer_inputs :: "(Chunk \<times> read_env) option list list" where
  "transfer_inputs = map (\<lambda>c. Some (c, sample_env)) (rev (fst (feeder rbd_Next 9 (image_adapter transfer_extents transfer_image True)))) # replicate 15 []"

definition transfer_schedule :: schedule where
  "transfer_schedule = \<lparr>scFeed = 9, scRead = transfer_inputs,
     scSend = \<lparr>srOpens = True, srOuts = [],
         srIns = (case StageRead (SetDefaults rbd_config) transfer_reader sample_stats transfer_inputs of (_, _, rcs, _) \<Rightarrow> map Some rcs),
         srAcks = [Ack [0, 1, 2], AckEOF]\<rparr> #
       replicate (nat (DataSendWorkers (SetDefaults rbd_config)) - 1) \<lparr>srOpens = True, srOuts = [], srIns = [], srAcks = [AckEOF]\<rparr>\<rparr>"

definition transfer_result :: "unit run_result" where
  "transfer_result = projr (pipeline_Run rbd_config rbd_Next (image_adapter transfer_extents transfer_image True) transfer_reader sample_stats transfer_schedule)"

lemma transfer_run:
  "pipeline_Run rbd_config rbd_Next (image_adapter transfer_extents transfer_image True) transfer_reader sample_stats transfer_schedule = Inr transfer_result"
  by code_simp

lemma transfer_parts:
  "ruErrors transfer_result = []" "ruTaken transfer_result = ruRead transfer_result"
  "read_chunks transfer_schedule = rev (ruFed transfer_result)" "int (length (scRead transfer_schedule)) = ReadWorkers (SetDefaults rbd_config)"
  "int (length (scSend transfer_schedule)) = DataSendWorkers (SetDefaults rbd_config)"
  "\<forall>b \<in> set (concat (ruRequests transfer_result)). blk_in (length (content transfer_dev)) b" "length (content transfer_dev) = length transfer_image"
  by code_simp+

theorem rbd_transfer_witness:
  "content (fst (serve_batches transfer_dev (ruRequests transfer_result))) = [1, 2, 9, 9, 0, 0, 0, 0]"
proof -
  have outside: "byte_at transfer_image i = 0" if "i < 8" "3 < i" for i
  proof -
    have "i \<in> {4, 5, 6, 7}" using that by auto
    then show ?thesis by (auto simp: byte_at_def transfer_image_def)
  qed
  have "diff_of True transfer_extents (content transfer_dev) transfer_image"
    using outside by (auto simp: diff_of_def transfer_extents_def extents_ok_def extent_range_def transfer_image_def)
  moreover have "channels_ok (SetDefaults rbd_config) transfer_reader transfer_schedule transfer_result"
    unfolding channels_ok_def transfer_parts by simp
  moreover have "reads_image transfer_reader (\<lambda>_. transfer_image)" by (simp add: reads_image_def transfer_reader_def)
  moreover have "serve_batches transfer_dev (ruRequests transfer_result) = (fst (serve_batches transfer_dev (ruRequests transfer_result)), True)"
    using serve_total [OF _ transfer_parts(6)] by (simp add: transfer_dev_def prod_eq_iff)
  ultimately have "content (fst (serve_batches transfer_dev (ruRequests transfer_result))) = transfer_image"
    using rbd_transfer [OF _ transfer_parts(7) _ transfer_run transfer_parts(1) _ refl] by blast
  then show ?thesis by (simp add: transfer_image_def)
qed

end
