(* ===== verification/Spec2Isabelle.thy ===== *)
theory Spec2Isabelle
  imports Volid Mem_Semaphore Window_Semaphore Block_IO Rbd_Source Rbd_Dest Commit_Drainer Fs_Dest Conn_Pool Fs_Walk Fs_Batch Fs_Source Controllers Session_Client Worker_Main Rbd_Transfer
begin

text \<open>
  A verification of ceph-volsync-plugin, which replicates Ceph volumes between clusters for VolSync.

  \<^bold>\<open>The program.\<close>  An operator reconciles ReplicationSource and ReplicationDestination resources
  (internal/controller).  For each it finds a mover in a catalog, which in every iteration prepares a snapshot and a
  volume, a service, a network policy, secrets and a job (internal/mover).  The job's container is a worker
  (cmd/mover): it sets up a stunnel (internal/worker/tunnel) and runs as the source or the destination of a
  CephFS or RBD transfer.  A source connects through the tunnel, exchanges certificates for a direct TLS connection
  (internal/worker/common), obtains the difference of two snapshots from Ceph (internal/ceph) and sends the changed
  blocks through a pipeline of feeder, readers and senders (internal/worker/pipeline); a destination writes the blocks,
  acknowledges and commits them (internal/worker/rbd, internal/worker/cephfs).  CephFS sources also copy special and empty
  files and metadata with rsync and send deletions.

  \<^bold>\<open>How the code is modelled.\<close>  Go structs are records, functions keep their names (with a prefix where two
  packages share one).  An error is a value of a sum or option type, a nil dereference or panic a value of its
  own.  Code that waits takes the outcome of the wait as an input: whether a semaphore was granted or
  the context cancelled, what a stream or a file returned.  The operations of a semaphore are its critical sections,
  composed to runs by inductive relations; worker pools take a schedule.  Request ids and the lengths in volume
  handles are machine words, the sums of the memory semaphore wrap around at 64 bits; other sizes and offsets are int or nat.  Libraries (Ceph, Kubernetes, VolSync,
  gRPC, cryptography, the operating system) are parameters or records of outcomes, with what the code relies on as named
  hypotheses such as \<^verbatim>\<open>extents_ok\<close>, \<^verbatim>\<open>diff_of\<close>, \<^verbatim>\<open>pem_ok\<close> and \<^verbatim>\<open>template_ok\<close>.

  \<^bold>\<open>Theories: shared parts.\<close>
  \<^item> Prelude: types, outcomes, action logs with deferred calls, and generic lemmas.  Strconv: Itoa and Atoi.
    Paths: Go's lexical path functions and sanitizePath (cephfs/destination.go), which confines a path to /data.
  \<^item> Volid (internal/ceph/volid): volume handles; composing and decomposing are inverse, and a length field of ffff panics.
  \<^item> Csi_Config (internal/ceph/config), Conn_Pool (internal/ceph/connection, cephconf): lookups in the CSI configuration; the pool never
    closes a connection in use.

  \<^bold>\<open>Theories: pipeline.\<close>
  \<^item> Mem_Semaphore, Window_Semaphore (pipeline/semaphore.go): the memory budget holds if a request and the
    capacity fit into 64 bits together, which Pipeline_Read shows of all requests of the readers; no wakeup is lost (for memory: unless
    a cancelled waiter left the front of the queue); and IsReleased tells exactly whether all ids up to the given one were released.
  \<^item> Feeder, Pipeline_Config, Pipeline_Read, Pipeline_Send, Pipeline_Run (pipeline.go, config.go, held.go, stage_read.go,
    stage_send_data.go): one worker of each stage with all error paths, then the stages and Run.  No worker leaks memory or window
    slots, requests keep order and limits, and a run without error delivers every block once.

  \<^bold>\<open>Theories: RBD.\<close>
  \<^item> Block_IO (zero.go, common/util.go): files, devices and zeroing; the locale zeroing is the contract both backends meet.
  \<^item> Rbd_Iter, Rbd_Source (rbd/source.go, internal/ceph/rbd): the blocks of a diff partition the image; Sync releases
    what it acquired, and ignores an error of the diff.
  \<^item> Rbd_Dest (rbd/destination.go): an acknowledged block is on the device.
  \<^item> Rbd_Transfer: iterator, pipeline and destination together make the device equal to the image.

  \<^bold>\<open>Theories: CephFS.\<close>
  \<^item> Fs_Split, Fs_Iter (cephfs/block_iterator.go): the iterator against a reference; file boundaries; splitting that loses blocks.
  \<^item> Commit_Drainer: a file is committed only when all its blocks are acknowledged.  File_Cache: the
    sharded cache implements one map of reference counts.
  \<^item> Fs_Differ, Fs_Walk, Fs_Batch, Fs_Source (internal/ceph/cephfs, cephfs/source.go): walk, routing, batches and Sync; what was
    done when there was no error (stateless_success): all deletions, special and empty files, and all files up to 16 MiB; of a larger file the blocks that its diff
    delivered, and nothing at all, not even its metadata, if there were none (blockless_change_lost).
  \<^item> Fs_Dest (cephfs/destination.go): concurrent writers, and deletion confined to /data.

  \<^bold>\<open>Theories: sessions and operator.\<close>
  \<^item> Session_Tls, Session_Server, Session_Client (internal/worker/common): pinned certificates; a server that a Done request or its
    context ends leaves no direct listener, one whose Serve failed may (serve_failure_leaves_listener); the bounded handshake.
  \<^item> Tunnel (internal/worker/tunnel), Worker_Main (cmd/mover/main.go): the configuration read back, the processes, and that the ends
    of a tunnel meet at ports of the service and read the key that the operator mounts.
  \<^item> Mover_Base, Mover_Snapshots, Mover_Resources, Mover_Job, Mover_Sync, Mover_Builder (internal/mover) and Controllers
    (internal/controller): snapshots and their rotation, the objects of a mover, an iteration, the catalog and the reconcilers,
    which change nothing for a resource that no builder claims, but for the snapshots a destination relinquishes first.

  \<^bold>\<open>Interfaces.\<close>  The locales block_iterator, zeroing, ack_window, handle_cache, batch_sender and replication_machine state what a
  client relies on; each is interpreted on the definitions of the code, the first two and the last two for two providers.

  \<^bold>\<open>Bounds.\<close>  All recursion is total.  The feeder takes the number of sends before a cancellation, and the number of blocks is
  enough to reach the end (rbd_feeder).  Loops against a clock (the handshake, the wait for the sockets) end because
  every round takes time; other waits consume a list of outcomes.

  \<^bold>\<open>Not modelled.\<close>  The operator's main program (cmd/manager/main.go) is flags and registration with
  controller-runtime.  Generated protocol code, logging, and the formatting of statistics carry no behaviour that the
  theorems could speak of.  Times in statistics, buffer sizes and keep-alive options of gRPC, and the watches of the controllers
  are left out.  The memory of concurrent Go code is not modelled below the level of critical sections and channel operations.
  A cancellation of the worker's context during the handshake is not an input of that model, and its clock counts whole seconds.
  Certificates are exchanged through the tunnel only; an exchange over the direct connection would wait for the server it stops.
  The deletion of a Kubernetes object is taken as completed when the call returns: finalizers are not modelled.
\<close>

section \<open>Properties that span components\<close>

subsection \<open>Deletions\<close>

text \<open>
  C6: what disappeared at the source disappears at the destination, and nothing else.  If the synchronisation
  returns no error and the destination's handler answers its requests without one, then every entry that the diffs
  report and the source no longer has is gone at the destination with everything below it; an entry of the
  destination that changed is at or below such a path.
\<close>

theorem deletions_applied:
  assumes "runStatelessSync cl sd e = (res, None)" "seRoot e = Some t" "tree_ok t"
    and "fs_Delete d rs sends (map Some (delReqs (srDeletes res))) n = (d1, m, None)"
  shows "(\<forall>p\<in>set (deletions (sync_routes cl sd e t)). \<exists>q. sanitizePath p = Inr q \<and> (\<forall>x. below q x \<longrightarrow> d1 x = None)) \<and>
    (\<forall>x. d1 x = d x \<or> (\<exists>p\<in>set (deletions (sync_routes cl sd e t)). \<exists>q. sanitizePath p = Inr q \<and> below q x))"
proof -
  have reqs: "concat (delReqs (srDeletes res)) = deletions (sync_routes cl sd e t)" by (rule stateless_deletes [OF assms(1-3)])
  have req: "requested (map Some (delReqs (srDeletes res))) = {q. \<exists>p\<in>set (deletions (sync_routes cl sd e t)). sanitizePath p = Inr q}"
    unfolding reqs [symmetric] by (auto simp: requested_def)
  note eff = fs_Delete_effect [where d = d and rs = rs and sends = sends and evs = "map Some (delReqs (srDeletes res))" and n = n, unfolded assms(4) prod.case req]
  have "\<exists>q. sanitizePath p = Inr q" if "p \<in> set (deletions (sync_routes cl sd e t))" for p
    using that fs_Delete_sanitized [OF assms(4), of _ p] unfolding reqs [symmetric] by auto
  then show ?thesis using eff by blast
qed

theorem deletions_applied_witness:
  "\<exists>res d1 m. runStatelessSync sample_cluster sample_differ sample_stateless = (res, None) \<and>
     fs_Delete [''/data/a/z'' \<mapsto> 1, ''/data/a/x'' \<mapsto> 2] [] [] (map Some (delReqs (srDeletes res))) 0 = (d1, m, None) \<and>
     d1 ''/data/a/z'' = None"
proof -
  obtain res where run: "runStatelessSync sample_cluster sample_differ sample_stateless = (res, None)" using sample_stateless_run by blast
  have env: "seRoot sample_stateless = Some sample_tree" by (simp add: sample_stateless_def)
  have rts: "deletions (sync_routes sample_cluster sample_differ sample_stateless sample_tree) = [''/a/z'']" by code_simp
  have reqs: "concat (delReqs (srDeletes res)) = [''/a/z'']" using stateless_deletes [OF run env sample_tree_ok] rts by simp
  have q: "sanitizePath ''/a/z'' = Inr ''/data/a/z''" by code_simp
  have ok: "\<exists>d2 rs2. fs_Delete d [] [] (map Some bs) k = (d2, rs2, None)" if "set (concat bs) \<subseteq> {''/a/z''}" for d k bs
    using that
  proof (induction bs arbitrary: d k)
    case (Cons b bs)
    have san: "sanitize_all b = Inr (replicate (length b) ''/data/a/z'')" using Cons.prems q by (induction b) auto
    have "\<exists>d2. remove_paths d (replicate j ''/data/a/z'') [] = (d2, [], True)" for j d
      by (induction j arbitrary: d) auto
    then obtain d2 where "remove_paths d (replicate (length b) ''/data/a/z'') [] = (d2, [], True)" by blast
    with san have "fs_Delete d [] [] (map Some (b # bs)) k = fs_Delete d2 [] [] (map Some bs) (Suc k)" by simp
    then show ?case using Cons.IH [of d2 "Suc k"] Cons.prems by simp
  qed simp
  obtain d1 m where del: "fs_Delete [''/data/a/z'' \<mapsto> 1, ''/data/a/x'' \<mapsto> 2] [] [] (map Some (delReqs (srDeletes res))) 0 = (d1, m, None)"
    using ok [of "delReqs (srDeletes res)"] reqs by fastforce
  have "below ''/data/a/z'' ''/data/a/z''" by (simp add: below_def)
  then have "d1 ''/data/a/z'' = None" using deletions_applied [OF run env sample_tree_ok del] unfolding rts using q by auto
  then show ?thesis using run del by blast
qed

end
